(* ===== verification/Prelude.thy ===== *)
theory Prelude
  imports Main "HOL-Library.Word"
begin

unbundle bit_operations_syntax

text \<open>
  Types, outcomes and generic lemmas shared by the component theories.

  \<^item> the C integer types \<open>uint8_t\<close>, \<open>uint16_t\<close>, \<open>uint32_t\<close>, \<open>uint64_t\<close> as words;
  \<^item> \<open>fault\<close>: the ways an operation does not return: \<open>cpu_abort\<close> (or \<open>abort\<close>, \<open>APANIC\<close>),
    \<open>exit\<close>, and C behaviour that is undefined (an out-of-bounds access, an oversized shift,
    a division by zero, the use of an indeterminate byte);
  \<^item> \<open>drive\<close>: the level of an interrupt line after a sequence of assignments to it;
  \<^item> segments of lists (\<open>seg_write\<close>, \<open>ring_list\<close>), the shape of every buffer of the program.
\<close>

section \<open>Machine types and outcomes\<close>

type_synonym u8 = "8 word"
type_synonym u16 = "16 word"
type_synonym u32 = "32 word"
type_synonym u64 = "64 word"
type_synonym bytes = "8 word list"

datatype fault = Cpu_abort | Process_exit | Undefined_behaviour

type_synonym 'a outcome = "fault + 'a"

fun obind :: "'a outcome \<Rightarrow> ('a \<Rightarrow> 'b outcome) \<Rightarrow> 'b outcome" where
  "obind (Inl e) f = Inl e"
| "obind (Inr x) f = f x"

lemma obind_eq_Inr [simp]: "obind m f = Inr y \<longleftrightarrow> (\<exists>x. m = Inr x \<and> f x = Inr y)"
  by (cases m) auto

named_theorems dev_defs
  and ring_simps

section \<open>Interrupt lines\<close>

text \<open>
  A device operation reports the levels it assigns to its interrupt line, in order. The line
  keeps its old level when nothing is assigned.
\<close>

fun drive :: "bool \<Rightarrow> bool list \<Rightarrow> bool" where
  "drive l [] = l"
| "drive l (x # xs) = drive x xs"

lemma drive_append [simp]: "drive l (xs @ ys) = drive (drive l xs) ys"
  by (induction xs arbitrary: l) auto

lemma drive_last: "xs \<noteq> [] \<Longrightarrow> drive l xs = last xs"
  by (induction xs arbitrary: l) auto

section \<open>C strings\<close>

definition string_bytes :: "string \<Rightarrow> bytes" where
  "string_bytes str = map (\<lambda>c. of_nat (of_char c)) str"

text \<open>The C string stored in an array: the bytes before the first zero byte.\<close>

definition c_string :: "bytes \<Rightarrow> bytes" where
  "c_string buf = takeWhile (\<lambda>b. b \<noteq> 0) buf"

text \<open>The position of a character, the length of the string if it does not occur.\<close>

definition strchr :: "u8 \<Rightarrow> bytes \<Rightarrow> nat" where
  "strchr c str = length (takeWhile (\<lambda>b. b \<noteq> c) str)"

lemma strchr_le: "strchr c str \<le> length str"
  by (simp add: strchr_def length_takeWhile_le)

fun strstr :: "'a list \<Rightarrow> 'a list \<Rightarrow> nat option" where
  "strstr [] needle = (if needle = [] then Some 0 else None)"
| "strstr (x # xs) needle =
     (if take (length needle) (x # xs) = needle then Some 0 else map_option Suc (strstr xs needle))"

lemma strstr_iff: "strstr hay needle \<noteq> None \<longleftrightarrow> (\<exists>a b. hay = a @ needle @ b)"
proof (induction hay)
  case (Cons x xs)
  show ?case
  proof (cases "take (length needle) (x # xs) = needle")
    case True
    then have "x # xs = [] @ needle @ drop (length needle) (x # xs)"
      by (metis append_Nil append_take_drop_id)
    with True show ?thesis by (metis option.distinct(1) strstr.simps(2))
  next
    case False
    have "(\<exists>a b. x # xs = a @ needle @ b) \<longleftrightarrow> (\<exists>a b. xs = a @ needle @ b)"
    proof
      assume "\<exists>a b. x # xs = a @ needle @ b"
      then obtain a b where ab: "x # xs = a @ needle @ b" by blast
      with False have "a \<noteq> []" by auto
      then have "xs = tl a @ needle @ b" using ab by (cases a) auto
      then show "\<exists>a b. xs = a @ needle @ b" by blast
    qed (metis append_Cons)
    with False Cons.IH show ?thesis by simp
  qed
qed auto

section \<open>Segments of buffers\<close>

text \<open>\<open>memcpy(buf + pos, src, length src)\<close> on a buffer kept as a list.\<close>

definition seg_write :: "'a list \<Rightarrow> nat \<Rightarrow> 'a list \<Rightarrow> 'a list" where
  "seg_write buf pos src = take pos buf @ src @ drop (pos + length src) buf"

definition seg_read :: "'a list \<Rightarrow> nat \<Rightarrow> nat \<Rightarrow> 'a list" where
  "seg_read buf pos n = take n (drop pos buf)"

lemma length_seg_write [simp]:
  "pos + length src \<le> length buf \<Longrightarrow> length (seg_write buf pos src) = length buf"
  by (simp add: seg_write_def)

lemma nth_seg_write:
  assumes "pos + length src \<le> length buf" "i < length buf"
  shows "seg_write buf pos src ! i =
    (if pos \<le> i \<and> i < pos + length src then src ! (i - pos) else buf ! i)"
  using assms by (auto simp: seg_write_def nth_append)

lemma seg_write_Nil [simp]: "seg_write buf pos [] = buf"
  by (simp add: seg_write_def)

lemma length_seg_read [simp]: "length (seg_read buf pos n) = min n (length buf - pos)"
  by (simp add: seg_read_def)

lemma nth_seg_read:
  "pos + n \<le> length buf \<Longrightarrow> i < n \<Longrightarrow> seg_read buf pos n ! i = buf ! (pos + i)"
  by (simp add: seg_read_def)

lemma seg_read_write_same:
  "pos + length src \<le> length buf \<Longrightarrow>
   seg_read (seg_write buf pos src) pos (length src) = src"
  by (simp add: seg_read_def seg_write_def)

section \<open>Ring buffers\<close>

text \<open>
  The contents of a ring buffer: \<open>count\<close> elements from \<open>rpos\<close>, wrapping at the end of the
  storage.
\<close>

definition ring_list :: "'a list \<Rightarrow> nat \<Rightarrow> nat \<Rightarrow> 'a list" where
  "ring_list buf rpos count = map (\<lambda>i. buf ! ((rpos + i) mod length buf)) [0..<count]"

lemma length_ring_list [simp]: "length (ring_list buf rpos count) = count"
  by (simp add: ring_list_def)

lemma nth_ring_list:
  "i < count \<Longrightarrow> ring_list buf rpos count ! i = buf ! ((rpos + i) mod length buf)"
  by (simp add: ring_list_def)

lemma ring_list_0 [simp]: "ring_list buf rpos 0 = []"
  by (simp add: ring_list_def)

lemma ring_list_mod [simp]:
  "ring_list buf (rpos mod length buf) count = ring_list buf rpos count"
  by (simp add: ring_list_def mod_add_left_eq)

text \<open>Two positions of a ring that are less than a full turn apart are different cells.\<close>

lemma mod_offset_neq:
  fixes a b n r :: nat
  assumes "a < b" "b - a < n"
  shows "(r + a) mod n \<noteq> (r + b) mod n"
proof
  assume "(r + a) mod n = (r + b) mod n"
  then have "n dvd (r + b) - (r + a)"
    using mod_eq_dvd_iff_nat [of "r + a" "r + b" n] assms by simp
  then have "n dvd b - a" using assms by simp
  then show False using assms by (auto dest: dvd_imp_le)
qed

text \<open>Reading: dropping \<open>n\<close> elements is moving the read position.\<close>

lemma ring_list_drop:
  "n \<le> count \<Longrightarrow> ring_list buf (rpos + n) (count - n) = drop n (ring_list buf rpos count)"
  by (rule nth_equalityI) (auto simp: nth_ring_list ac_simps)

lemma ring_list_take_seg:
  assumes "rpos + n \<le> length buf" "n \<le> count"
  shows "take n (ring_list buf rpos count) = seg_read buf rpos n"
  using assms by (intro nth_equalityI) (auto simp: nth_ring_list nth_seg_read)

text \<open>Writing: a segment stored at the write position is appended to the contents.\<close>

lemma ring_list_write:
  assumes "count + length src \<le> length buf"
    and "wpos = (rpos + count) mod length buf"
    and "wpos + length src \<le> length buf"
  shows "ring_list (seg_write buf wpos src) rpos (count + length src)
    = ring_list buf rpos count @ src"
proof (rule nth_equalityI)
  show "length (ring_list (seg_write buf wpos src) rpos (count + length src))
    = length (ring_list buf rpos count @ src)" by simp
next
  fix i
  assume "i < length (ring_list (seg_write buf wpos src) rpos (count + length src))"
  then have i: "i < count + length src" by simp
  let ?n = "length buf" and ?j = "(rpos + i) mod length buf"
  from i assms(1) have n: "0 < ?n" by linarith
  then have jlt: "?j < ?n" by simp
  have new: "ring_list (seg_write buf wpos src) rpos (count + length src) ! i
      = (if wpos \<le> ?j \<and> ?j < wpos + length src then src ! (?j - wpos) else buf ! ?j)"
    using i assms(3) jlt by (simp add: nth_ring_list nth_seg_write)
  show "ring_list (seg_write buf wpos src) rpos (count + length src) ! i
      = (ring_list buf rpos count @ src) ! i"
  proof (cases "i < count")
    case True
    have "\<not> (wpos \<le> ?j \<and> ?j < wpos + length src)"
    proof
      assume h: "wpos \<le> ?j \<and> ?j < wpos + length src"
      define d where "d = ?j - wpos"
      from h have d: "d < length src" "?j = wpos + d" by (auto simp: d_def)
      have "?j = ?j mod ?n" by simp
      also have "\<dots> = (rpos + (count + d)) mod ?n"
        by (simp add: d(2) assms(2) mod_add_left_eq add.assoc)
      finally have "(rpos + i) mod ?n = (rpos + (count + d)) mod ?n" .
      moreover have "(rpos + i) mod ?n \<noteq> (rpos + (count + d)) mod ?n"
        using True d(1) assms(1) by (intro mod_offset_neq) auto
      ultimately show False by simp
    qed
    with True new show ?thesis by (simp add: nth_append nth_ring_list)
  next
    case False
    define d where "d = i - count"
    from False i have d: "i = count + d" "d < length src" by (auto simp: d_def)
    have "?j = (wpos + d) mod ?n"
      by (simp add: d(1) assms(2) mod_add_left_eq add.assoc)
    also have "\<dots> = wpos + d" using d(2) assms(3) by simp
    finally have "?j = wpos + d" .
    with d new show ?thesis by (simp add: nth_append)
  qed
qed

lemmas ring_lemmas [ring_simps] = ring_list_drop ring_list_take_seg

section \<open>Words\<close>

lemma word_and_zero_or [simp]: "(x::'a::len word) AND NOT x = 0"
  by (rule bit_eqI) (auto simp: bit_simps)

lemma unat_ucast_u8_u32 [simp]: "unat (ucast (b::u8) :: u32) = unat b"
  by transfer (simp add: take_bit_nat_eq_self_iff take_bit_int_less_exp)

lemma unat_u8_less [simp]: "unat (b::u8) < 256"
  using unsigned_less [of b, where 'a = nat] by simp

lemma ucast_up_down_8 [simp]: "(ucast (ucast (b::u8) :: u32) :: u8) = b"
  by (rule bit_word_eqI) (auto simp: bit_simps)

lemma ucast_up_down_16 [simp]: "(ucast (ucast (b::u16) :: u32) :: u16) = b"
  by (rule bit_word_eqI) (auto simp: bit_simps)

lemma ucast_u8_small: "(v::u32) < 256 \<Longrightarrow> ucast (ucast v :: u8) = v"
  by (rule unsigned_word_eqI [where 'a = nat])
    (simp add: word_less_nat_alt unsigned_ucast_eq unsigned_take_bit_eq take_bit_nat_eq_self)

lemma sint_small: "unat (w::u32) < 2147483648 \<Longrightarrow> sint w = int (unat w)"
proof -
  assume "unat w < 2147483648"
  then have "int (unat w) < int 2147483648" by (simp only: of_nat_less_iff)
  then have "uint w < 2147483648" by simp
  moreover have "- (2 ^ 31) \<le> uint w" by (rule order_trans [of _ 0]) simp_all
  ultimately have "signed_take_bit 31 (uint w) = uint w"
    by (intro signed_take_bit_int_eq_self) simp_all
  then show ?thesis by (simp add: sint_uint)
qed

lemma sint_diff_small:
  assumes "unat (a::u32) < 1073741824" "unat b < 1073741824"
  shows "sint (a - b) = int (unat a) - int (unat b)"
proof -
  have ab: "sint a = int (unat a)" "sint b = int (unat b)" using assms by (simp_all only: sint_small)
  have "sint (a - b) = signed_take_bit 31 (sint a - sint b)" by (simp add: sint_word_ariths)
  also have "\<dots> = signed_take_bit 31 (int (unat a) - int (unat b))" by (simp only: ab)
  also have "\<dots> = int (unat a) - int (unat b)"
  proof (rule signed_take_bit_int_eq_self)
    have p: "(2::int) ^ 31 = 2147483648" by simp
    show "- (2 ^ 31) \<le> int (unat a) - int (unat b)" "int (unat a) - int (unat b) < 2 ^ 31"
      unfolding p using assms by linarith+
  qed
  finally show ?thesis .
qed

text \<open>
  \<open>uint64_set_low\<close> and \<open>uint64_set_high\<close> (include/hw/android/goldfish/device.h): the two
  halves of a 64-bit register written by a 32-bit guest.
\<close>

definition uint64_set_low :: "u64 \<Rightarrow> u32 \<Rightarrow> u64" where
  "uint64_set_low a v = (a AND NOT 0xFFFFFFFF) OR ucast v"

definition uint64_set_high :: "u64 \<Rightarrow> u32 \<Rightarrow> u64" where
  "uint64_set_high a v = (a AND 0xFFFFFFFF) OR push_bit 32 (ucast v)"

lemma mask32: "(0xFFFFFFFF :: u64) = mask 32"
  by (simp add: mask_eq_exp_minus_1)

lemma uint64_set_low_low [simp]: "(ucast (uint64_set_low a v) :: u32) = v"
  by (rule bit_word_eqI) (auto simp: uint64_set_low_def mask32 bit_simps)

lemma uint64_set_low_high [simp]: "drop_bit 32 (uint64_set_low a v) = drop_bit 32 a"
  by (rule bit_word_eqI) (auto simp: uint64_set_low_def mask32 bit_simps dest: bit_imp_le_length)

lemma uint64_set_high_low [simp]: "(ucast (uint64_set_high a v) :: u32) = ucast a"
  by (rule bit_word_eqI) (auto simp: uint64_set_high_def mask32 bit_simps)

lemma uint64_set_high_high [simp]: "(ucast (drop_bit 32 (uint64_set_high a v)) :: u32) = v"
  by (rule bit_word_eqI) (auto simp: uint64_set_high_def mask32 bit_simps)

lemma uint64_set_both:
  "uint64_set_high (uint64_set_low a lo) hi = push_bit 32 (ucast hi) OR ucast lo"
  by (rule bit_word_eqI)
    (auto simp: uint64_set_high_def uint64_set_low_def mask32 bit_simps dest: bit_imp_le_length)

text \<open>Members of a structure in guest memory, on a little-endian host.\<close>

definition le32 :: "bytes \<Rightarrow> nat \<Rightarrow> u32" where
  "le32 b i = ucast (b ! i) OR push_bit 8 (ucast (b ! (i + 1))) OR push_bit 16 (ucast (b ! (i + 2))) OR push_bit 24 (ucast (b ! (i + 3)))"

definition le32_bytes :: "u32 \<Rightarrow> bytes" where
  "le32_bytes v = [ucast v, ucast (drop_bit 8 v), ucast (drop_bit 16 v), ucast (drop_bit 24 v)]"

text \<open>The conversion of a size to the C type \<open>int\<close>.\<close>

definition c_int :: "nat \<Rightarrow> int" where
  "c_int n = sint (of_nat n :: u32)"

lemma c_int_small [simp]: "n < 2147483648 \<Longrightarrow> c_int n = int n"
  by (simp add: c_int_def sint_small unat_of_nat)

end
