(* ===== verification/Qemu_File.thy ===== *)
theory Qemu_File
  imports Prelude
begin

unbundle bit_operations_syntax

text \<open>
  Snapshot streams (savevm.c): the byte, big-endian integer, buffer, string and structure
  primitives that every device uses in its save and load handlers.

  A \<open>QEMUFile\<close> is the sequence of bytes written so far (when saving) or still to be read (when
  loading) and the sticky error flag. The internal 32 KB staging buffer and its flushing are
  transparent at this level and are not modelled. Reading past the end of the data returns
  zero bytes, as \<open>qemu_peek_byte\<close> does.

  The locale \<open>stream_codec\<close> is the contract between this component and the devices: what is
  put is read back, and the rest of the stream is left for the next field.
\<close>

section \<open>The stream and its primitives\<close>

record QEMUFile =
  fbuf :: bytes
  last_error :: bool

definition qemu_file_empty :: QEMUFile where
  "qemu_file_empty = \<lparr>fbuf = [], last_error = False\<rparr>"

definition qemu_put_byte :: "QEMUFile \<Rightarrow> u32 \<Rightarrow> QEMUFile" where
  "qemu_put_byte f v = (if last_error f then f else f\<lparr>fbuf := fbuf f @ [ucast v]\<rparr>)"

definition qemu_put_buffer :: "QEMUFile \<Rightarrow> bytes \<Rightarrow> QEMUFile" where
  "qemu_put_buffer f buf = (if last_error f then f else f\<lparr>fbuf := fbuf f @ buf\<rparr>)"

definition qemu_get_byte :: "QEMUFile \<Rightarrow> u32 \<times> QEMUFile" where
  "qemu_get_byte f = (case fbuf f of [] \<Rightarrow> (0, f) | b # bs \<Rightarrow> (ucast b, f\<lparr>fbuf := bs\<rparr>))"

text \<open>The bytes really read; the C function stores them in the buffer and returns their number.\<close>

definition qemu_get_buffer :: "QEMUFile \<Rightarrow> nat \<Rightarrow> bytes \<times> QEMUFile" where
  "qemu_get_buffer f n = (take n (fbuf f), f\<lparr>fbuf := drop n (fbuf f)\<rparr>)"

definition qemu_put_be16 :: "QEMUFile \<Rightarrow> u32 \<Rightarrow> QEMUFile" where
  "qemu_put_be16 f v = qemu_put_byte (qemu_put_byte f (drop_bit 8 v)) v"

definition qemu_put_be32 :: "QEMUFile \<Rightarrow> u32 \<Rightarrow> QEMUFile" where
  "qemu_put_be32 f v =
     qemu_put_byte (qemu_put_byte (qemu_put_byte (qemu_put_byte f
       (drop_bit 24 v)) (drop_bit 16 v)) (drop_bit 8 v)) v"

definition qemu_put_be64 :: "QEMUFile \<Rightarrow> u64 \<Rightarrow> QEMUFile" where
  "qemu_put_be64 f v = qemu_put_be32 (qemu_put_be32 f (ucast (drop_bit 32 v))) (ucast v)"

definition qemu_get_be16 :: "QEMUFile \<Rightarrow> u32 \<times> QEMUFile" where
  "qemu_get_be16 f =
     (let (b1, f1) = qemu_get_byte f; (b0, f0) = qemu_get_byte f1
      in (push_bit 8 b1 OR b0, f0))"

definition qemu_get_be32 :: "QEMUFile \<Rightarrow> u32 \<times> QEMUFile" where
  "qemu_get_be32 f =
     (let (b3, f3) = qemu_get_byte f; (b2, f2) = qemu_get_byte f3;
          (b1, f1) = qemu_get_byte f2; (b0, f0) = qemu_get_byte f1
      in (push_bit 24 b3 OR push_bit 16 b2 OR push_bit 8 b1 OR b0, f0))"

definition qemu_get_be64 :: "QEMUFile \<Rightarrow> u64 \<times> QEMUFile" where
  "qemu_get_be64 f =
     (let (hi, f1) = qemu_get_be32 f; (lo, f0) = qemu_get_be32 f1
      in (push_bit 32 (ucast hi) OR ucast lo, f0))"

text \<open>
  Strings: \<open>NULL\<close> and the empty string are written alike. A negative length read back makes the
  allocation fail or the copy overrun, so it is undefined behaviour; it cannot be produced by
  \<open>qemu_put_string\<close>.
\<close>

definition qemu_put_string :: "QEMUFile \<Rightarrow> bytes option \<Rightarrow> QEMUFile" where
  "qemu_put_string f str =
     (let s = (case str of None \<Rightarrow> [] | Some s \<Rightarrow> s)
      in qemu_put_buffer (qemu_put_be32 f (of_nat (length s))) s)"

definition qemu_get_string :: "QEMUFile \<Rightarrow> (bytes option \<times> QEMUFile) outcome" where
  "qemu_get_string f =
     (let (slen, f1) = qemu_get_be32 f
      in if slen = 0 then Inr (None, f1)
         else if sint slen < 0 then Inl Undefined_behaviour
         else (let (str, f2) = qemu_get_buffer f1 (unat slen)
               in if length str \<noteq> unat slen then Inr (None, f2) else Inr (Some str, f2)))"

section \<open>Structures\<close>

text \<open>
  A \<open>QField\<close> array describes the saved members of a structure; the structure is given by the
  values of these members, in order. \<open>QFIELD_BUFFER\<close> occupies three descriptor slots in C; here
  it carries its size. The branches for malformed descriptor arrays are not modelled: the
  \<open>QFIELD_\<close> macros only build well-formed ones.
\<close>

datatype qfield = Q_FIELD_BYTE | Q_FIELD_INT16 | Q_FIELD_INT32 | Q_FIELD_INT64 | Q_FIELD_BUFFER nat

datatype qvalue = QByte u8 | QInt16 u16 | QInt32 u32 | QInt64 u64 | QBuffer bytes

fun qemu_put_field :: "QEMUFile \<Rightarrow> qvalue \<Rightarrow> QEMUFile" where
  "qemu_put_field f (QByte b) = qemu_put_byte f (ucast b)"
| "qemu_put_field f (QInt16 v) = qemu_put_be16 f (ucast v)"
| "qemu_put_field f (QInt32 v) = qemu_put_be32 f v"
| "qemu_put_field f (QInt64 v) = qemu_put_be64 f v"
| "qemu_put_field f (QBuffer b) = qemu_put_buffer f b"

fun qemu_put_struct :: "QEMUFile \<Rightarrow> qvalue list \<Rightarrow> QEMUFile" where
  "qemu_put_struct f [] = f"
| "qemu_put_struct f (v # vs) = qemu_put_struct (qemu_put_field f v) vs"

fun qemu_get_field :: "QEMUFile \<Rightarrow> qfield \<Rightarrow> qvalue option \<times> QEMUFile" where
  "qemu_get_field f Q_FIELD_BYTE = (let (v, f1) = qemu_get_byte f in (Some (QByte (ucast v)), f1))"
| "qemu_get_field f Q_FIELD_INT16 = (let (v, f1) = qemu_get_be16 f in (Some (QInt16 (ucast v)), f1))"
| "qemu_get_field f Q_FIELD_INT32 = (let (v, f1) = qemu_get_be32 f in (Some (QInt32 v), f1))"
| "qemu_get_field f Q_FIELD_INT64 = (let (v, f1) = qemu_get_be64 f in (Some (QInt64 v), f1))"
| "qemu_get_field f (Q_FIELD_BUFFER n) =
     (let (b, f1) = qemu_get_buffer f n
      in (if length b = n then Some (QBuffer b) else None, f1))"

text \<open>\<open>None\<close> is the return value -1: the file ends inside a buffer member.\<close>

fun qemu_get_struct :: "QEMUFile \<Rightarrow> qfield list \<Rightarrow> qvalue list option \<times> QEMUFile" where
  "qemu_get_struct f [] = (Some [], f)"
| "qemu_get_struct f (q # qs) =
     (case qemu_get_field f q of
        (None, f1) \<Rightarrow> (None, f1)
      | (Some v, f1) \<Rightarrow>
          (case qemu_get_struct f1 qs of
             (None, f2) \<Rightarrow> (None, f2)
           | (Some vs, f2) \<Rightarrow> (Some (v # vs), f2)))"

fun qvalue_field :: "qvalue \<Rightarrow> qfield" where
  "qvalue_field (QByte _) = Q_FIELD_BYTE"
| "qvalue_field (QInt16 _) = Q_FIELD_INT16"
| "qvalue_field (QInt32 _) = Q_FIELD_INT32"
| "qvalue_field (QInt64 _) = Q_FIELD_INT64"
| "qvalue_field (QBuffer b) = Q_FIELD_BUFFER (length b)"

section \<open>Encodings as byte lists\<close>

definition be16_bytes :: "u32 \<Rightarrow> bytes" where
  "be16_bytes v = [ucast (drop_bit 8 v), ucast v]"

definition be32_bytes :: "u32 \<Rightarrow> bytes" where
  "be32_bytes v = [ucast (drop_bit 24 v), ucast (drop_bit 16 v), ucast (drop_bit 8 v), ucast v]"

definition be64_bytes :: "u64 \<Rightarrow> bytes" where
  "be64_bytes v = be32_bytes (ucast (drop_bit 32 v)) @ be32_bytes (ucast v)"

lemma length_be [simp]:
  "length (be16_bytes x) = 2" "length (be32_bytes v) = 4" "length (be64_bytes w) = 8"
  by (simp_all add: be16_bytes_def be32_bytes_def be64_bytes_def)

lemma be16_join: "push_bit 8 (ucast (ucast (drop_bit 8 (ucast (v::u16) :: u32)) :: u8)) OR
    ucast (ucast (ucast v :: u32) :: u8) = (ucast v :: u32)"
  by (rule bit_word_eqI) (auto simp: bit_simps dest: bit_imp_le_length)

lemma be32_join:
  "push_bit 24 (ucast (ucast (drop_bit 24 v) :: u8)) OR
   push_bit 16 (ucast (ucast (drop_bit 16 v) :: u8)) OR
   push_bit 8 (ucast (ucast (drop_bit 8 v) :: u8)) OR ucast (ucast v :: u8) = (v :: u32)"
proof (rule bit_word_eqI)
  fix n
  assume "n < LENGTH(32)"
  then show "bit (push_bit 24 (ucast (ucast (drop_bit 24 v) :: u8)) OR
      push_bit 16 (ucast (ucast (drop_bit 16 v) :: u8)) OR
      push_bit 8 (ucast (ucast (drop_bit 8 v) :: u8)) OR ucast (ucast v :: u8) :: u32) n = bit v n"
    by (cases "24 \<le> n"; cases "16 \<le> n"; cases "8 \<le> n") (auto simp: bit_simps)
qed

lemma be64_join:
  "push_bit 32 (ucast (ucast (drop_bit 32 v) :: u32)) OR ucast (ucast v :: u32) = (v :: u64)"
  by (rule bit_word_eqI) (auto simp: bit_simps)

section \<open>The codec contract\<close>

locale stream_codec =
  fixes put :: "QEMUFile \<Rightarrow> 'a \<Rightarrow> QEMUFile"
    and get :: "QEMUFile \<Rightarrow> 'a \<times> QEMUFile"
    and enc :: "'a \<Rightarrow> bytes"
  assumes put_enc: "\<not> last_error f \<Longrightarrow> put f x = f\<lparr>fbuf := fbuf f @ enc x\<rparr>"
    and put_error: "last_error f \<Longrightarrow> put f x = f"
    and get_enc: "fbuf f = enc x @ rest \<Longrightarrow> get f = (x, f\<lparr>fbuf := rest\<rparr>)"
begin

lemma get_upd [simp]: "get (f\<lparr>fbuf := enc x @ rest\<rparr>) = (x, f\<lparr>fbuf := rest\<rparr>)"
  using get_enc [of "f\<lparr>fbuf := enc x @ rest\<rparr>" x rest] by simp

lemma put_sets_no_error: "last_error (put f x) = last_error f"
  by (cases "last_error f") (simp_all add: put_enc put_error)

lemma get_put: "\<not> last_error f \<Longrightarrow> fbuf f = [] \<Longrightarrow> get (put f x) = (x, f)"
  using get_enc [of "put f x" x "[]"] by (simp add: put_enc)

lemma enc_prefix_free: "enc x @ r = enc y @ s \<Longrightarrow> x = y \<and> r = s"
proof -
  assume eq: "enc x @ r = enc y @ s"
  let ?f = "\<lparr>fbuf = enc x @ r, last_error = False\<rparr>"
  have "get ?f = (x, ?f\<lparr>fbuf := r\<rparr>)" by (rule get_enc) simp
  moreover have "get ?f = (y, ?f\<lparr>fbuf := s\<rparr>)" by (rule get_enc) (simp add: eq)
  ultimately show ?thesis by simp
qed

end

lemma get_byte_Cons [simp]:
  "fbuf f = b # bs \<Longrightarrow> qemu_get_byte f = (ucast b, f\<lparr>fbuf := bs\<rparr>)"
  by (simp add: qemu_get_byte_def)

lemma get_be32_enc:
  "fbuf f = be32_bytes v @ rest \<Longrightarrow> qemu_get_be32 f = (v, f\<lparr>fbuf := rest\<rparr>)"
  by (simp add: qemu_get_be32_def be32_bytes_def be32_join)

lemma put_be32_enc:
  "\<not> last_error f \<Longrightarrow> qemu_put_be32 f v = f\<lparr>fbuf := fbuf f @ be32_bytes v\<rparr>"
  by (simp add: qemu_put_be32_def qemu_put_byte_def be32_bytes_def)

interpretation byte8: stream_codec
  "\<lambda>f (b::u8). qemu_put_byte f (ucast b)"
  "\<lambda>f. let (v, f1) = qemu_get_byte f in (ucast v :: u8, f1)"
  "\<lambda>b. [b]"
  by unfold_locales (auto simp: qemu_put_byte_def)

interpretation be16: stream_codec
  "\<lambda>f (v::u16). qemu_put_be16 f (ucast v)"
  "\<lambda>f. let (v, f1) = qemu_get_be16 f in (ucast v :: u16, f1)"
  "\<lambda>v. be16_bytes (ucast v)"
  by unfold_locales
    (auto simp: qemu_put_be16_def qemu_put_byte_def be16_bytes_def qemu_get_be16_def be16_join)

interpretation be32: stream_codec qemu_put_be32 qemu_get_be32 be32_bytes
  by unfold_locales
    (auto simp: put_be32_enc get_be32_enc, simp add: qemu_put_be32_def qemu_put_byte_def)

interpretation be64: stream_codec qemu_put_be64 qemu_get_be64 be64_bytes
  by unfold_locales
    (auto simp: qemu_put_be64_def put_be32_enc be32.put_error be64_bytes_def qemu_get_be64_def
      get_be32_enc be64_join)

lemmas codec_put = be32.put_enc be64.put_enc be16.put_enc byte8.put_enc
lemmas codec_get = be32.get_upd be64.get_upd be32.get_enc be64.get_enc

lemma put_byte_enc: "\<not> last_error f \<Longrightarrow> qemu_put_byte f v = f\<lparr>fbuf := fbuf f @ [ucast v]\<rparr>"
  by (simp add: qemu_put_byte_def)

lemma put_buffer_enc: "\<not> last_error f \<Longrightarrow> qemu_put_buffer f b = f\<lparr>fbuf := fbuf f @ b\<rparr>"
  by (simp add: qemu_put_buffer_def)

lemma get_buffer_enc:
  "fbuf f = b @ rest \<Longrightarrow> n = length b \<Longrightarrow> qemu_get_buffer f n = (b, f\<lparr>fbuf := rest\<rparr>)"
  by (simp add: qemu_get_buffer_def)

lemma get_byte_small:
  "fbuf f = [ucast v] @ rest \<Longrightarrow> v < 256 \<Longrightarrow> qemu_get_byte f = ((v::u32), f\<lparr>fbuf := rest\<rparr>)"
proof -
  assume f: "fbuf f = [ucast v] @ rest" and v: "v < 256"
  from f ucast_u8_small [OF v] show ?thesis by simp
qed

section \<open>Structures are read back\<close>

fun qvalue_bytes :: "qvalue \<Rightarrow> bytes" where
  "qvalue_bytes (QByte b) = [b]"
| "qvalue_bytes (QInt16 v) = be16_bytes (ucast v)"
| "qvalue_bytes (QInt32 v) = be32_bytes v"
| "qvalue_bytes (QInt64 v) = be64_bytes v"
| "qvalue_bytes (QBuffer b) = b"

lemma put_field_bytes:
  "\<not> last_error f \<Longrightarrow> qemu_put_field f v = f\<lparr>fbuf := fbuf f @ qvalue_bytes v\<rparr>"
  by (cases v) (simp_all add: codec_put put_buffer_enc)

lemma put_struct_bytes:
  "\<not> last_error f \<Longrightarrow>
   qemu_put_struct f vs = f\<lparr>fbuf := fbuf f @ concat (map qvalue_bytes vs)\<rparr>"
  by (induction vs arbitrary: f) (simp_all add: put_field_bytes)

lemma get_field_bytes:
  assumes "fbuf f = qvalue_bytes v @ rest"
  shows "qemu_get_field f (qvalue_field v) = (Some v, f\<lparr>fbuf := rest\<rparr>)"
proof (cases v)
  case (QByte b)
  with assms byte8.get_enc [of f b rest] show ?thesis by (auto split: prod.splits)
next
  case (QInt16 x)
  with assms be16.get_enc [of f x rest] show ?thesis by (auto split: prod.splits)
qed (use assms in \<open>auto simp: codec_get get_buffer_enc\<close>)

lemma get_struct_bytes:
  "fbuf f = concat (map qvalue_bytes vs) @ rest \<Longrightarrow>
   qemu_get_struct f (map qvalue_field vs) = (Some vs, f\<lparr>fbuf := rest\<rparr>)"
proof (induction vs arbitrary: f)
  case (Cons v vs)
  then have "qemu_get_field f (qvalue_field v)
      = (Some v, f\<lparr>fbuf := concat (map qvalue_bytes vs) @ rest\<rparr>)"
    by (intro get_field_bytes) simp
  moreover have "qemu_get_struct (f\<lparr>fbuf := concat (map qvalue_bytes vs) @ rest\<rparr>)
      (map qvalue_field vs) = (Some vs, f\<lparr>fbuf := rest\<rparr>)"
    using Cons.IH [of "f\<lparr>fbuf := concat (map qvalue_bytes vs) @ rest\<rparr>"] by simp
  ultimately show ?case by simp
qed simp

text \<open>
  A structure written with \<open>qemu_put_struct\<close> is read back unchanged by \<open>qemu_get_struct\<close> with the
  same field descriptors, whatever was written before it and whatever follows it in the stream.
\<close>

lemma struct_roundtrip:
  assumes "\<not> last_error f"
  shows "\<exists>enc. fbuf (qemu_put_struct f vs) = fbuf f @ enc \<and>
    (\<forall>g rest. qemu_get_struct (g\<lparr>fbuf := enc @ rest\<rparr>) (map qvalue_field vs) =
       (Some vs, g\<lparr>fbuf := rest\<rparr>))"
proof (intro exI conjI allI)
  show "fbuf (qemu_put_struct f vs) = fbuf f @ concat (map qvalue_bytes vs)"
    using assms by (simp add: put_struct_bytes)
  fix g :: QEMUFile and rest
  show "qemu_get_struct (g\<lparr>fbuf := concat (map qvalue_bytes vs) @ rest\<rparr>) (map qvalue_field vs) =
      (Some vs, g\<lparr>fbuf := rest\<rparr>)"
    using get_struct_bytes [of "g\<lparr>fbuf := concat (map qvalue_bytes vs) @ rest\<rparr>" vs rest] by simp
qed

section \<open>The contract of a saved device\<close>

text \<open>
  What \<open>register_savevm\<close> relies on: the save handler appends an encoding of the state, and the
  load handler of the same version, started in any state \<open>s0\<close> of the device, consumes exactly this
  encoding and puts the saved members back. A version that is not accepted is refused with -1 and
  leaves the device alone.
\<close>

locale snapshot_device =
  fixes save :: "QEMUFile \<Rightarrow> 's \<Rightarrow> QEMUFile"
    and load :: "QEMUFile \<Rightarrow> 's \<Rightarrow> int \<Rightarrow> (int \<times> 's \<times> QEMUFile) outcome"
    and version :: int
    and accepts :: "int \<Rightarrow> bool"
    and enc :: "'s \<Rightarrow> bytes"
    and restore :: "'s \<Rightarrow> 's \<Rightarrow> 's"
    and inv :: "'s \<Rightarrow> bool"
  assumes save_enc: "inv s \<Longrightarrow> \<not> last_error f \<Longrightarrow> save f s = f\<lparr>fbuf := fbuf f @ enc s\<rparr>"
    and load_enc: "inv s \<Longrightarrow> fbuf f = enc s @ rest \<Longrightarrow>
      load f s0 version = Inr (0, restore s0 s, f\<lparr>fbuf := rest\<rparr>)"
    and load_version: "\<not> accepts v \<Longrightarrow> load f s0 v = Inr (-1, s0, f)"
    and version_accepted: "accepts version"
begin

lemma load_save:
  assumes "inv s" "\<not> last_error f" "fbuf f = []"
  shows "load (save f s) s0 version = Inr (0, restore s0 s, f)"
  using load_enc [of s "save f s" "[]" s0] save_enc [OF assms(1,2)] assms by simp

lemma save_no_error: "inv s \<Longrightarrow> \<not> last_error f \<Longrightarrow> \<not> last_error (save f s)"
  by (simp add: save_enc)

end

end
