(* ===== verification/Guest_Memory.thy ===== *)
theory Guest_Memory
  imports Prelude
begin

unbundle bit_operations_syntax

text \<open>
  The guest's memory as the devices see it.

  Physical memory is a flat array of bytes: \<open>cpu_physical_memory_read\<close> and
  \<open>cpu_physical_memory_write\<close> on RAM (the I/O regions of exec.c and dirty-page tracking are not
  modelled). Virtual addresses are 32 bits wide and pages 1 KB long (the ARM target); addresses are translated page by page
  by the CPU's page tables; the walk, \<open>cpu_get_phys_page_debug\<close>, is the parameter \<open>vtop\<close>, with
  \<open>None\<close> for an unmapped page (the value -1 in C).

  \<open>cpu_memory_rw_debug\<close> (exec.c) is modelled as the loop it is, one page per turn, and is proved
  equal to a byte-by-byte reference.
\<close>

type_synonym ram = "64 word \<Rightarrow> 8 word"
type_synonym vtop = "32 word \<Rightarrow> 64 word option"

section \<open>Physical accesses\<close>

definition cpu_physical_memory_read :: "ram \<Rightarrow> u64 \<Rightarrow> nat \<Rightarrow> bytes" where
  "cpu_physical_memory_read m addr n = map (\<lambda>i. m (addr + of_nat i)) [0..<n]"

definition cpu_physical_memory_write :: "ram \<Rightarrow> u64 \<Rightarrow> bytes \<Rightarrow> ram" where
  "cpu_physical_memory_write m addr bs =
     (\<lambda>a. if unat (a - addr) < length bs then bs ! unat (a - addr) else m a)"

lemma length_phys_read [simp]: "length (cpu_physical_memory_read m addr n) = n"
  by (simp add: cpu_physical_memory_read_def)

lemma nth_phys_read: "i < n \<Longrightarrow> cpu_physical_memory_read m addr n ! i = m (addr + of_nat i)"
  by (simp add: cpu_physical_memory_read_def)

lemma phys_write_inside:
  "i < length bs \<Longrightarrow> length bs \<le> 2 ^ 64 \<Longrightarrow>
   cpu_physical_memory_write m addr bs (addr + of_nat i) = bs ! i"
  by (simp add: cpu_physical_memory_write_def unat_of_nat)

lemma phys_write_outside:
  "length bs \<le> unat (a - addr) \<Longrightarrow> cpu_physical_memory_write m addr bs a = m a"
  by (simp add: cpu_physical_memory_write_def)

lemma phys_read_write:
  "length bs \<le> 2 ^ 64 \<Longrightarrow>
   cpu_physical_memory_read (cpu_physical_memory_write m addr bs) addr (length bs) = bs"
  by (rule nth_equalityI) (simp_all add: nth_phys_read phys_write_inside)

lemma phys_write_Nil [simp]: "cpu_physical_memory_write m addr [] = m"
  by (simp add: cpu_physical_memory_write_def)

section \<open>Pages\<close>

abbreviation page_of :: "u32 \<Rightarrow> u32" where
  "page_of a \<equiv> a AND NOT 0x3FF"

abbreviation page_offset :: "u32 \<Rightarrow> u32" where
  "page_offset a \<equiv> a AND 0x3FF"

text \<open>The bytes from \<open>addr\<close> to the end of its page, \<open>(page + TARGET_PAGE_SIZE) - addr\<close>.\<close>

definition page_left :: "u32 \<Rightarrow> nat" where
  "page_left addr = unat (page_of addr + 0x400 - addr)"

lemma page_offset_mod: "unat (page_offset a) = unat a mod 1024"
proof -
  have "page_offset a = take_bit 10 a"
    by (simp add: take_bit_eq_mask mask_eq_exp_minus_1)
  then have "unat (page_offset a) = unat (take_bit 10 a)" by (rule arg_cong)
  also have "\<dots> = take_bit 10 (unat a)" by (rule unsigned_take_bit_eq)
  also have "\<dots> = unat a mod 1024" by (simp add: take_bit_eq_mod)
  finally show ?thesis .
qed

lemma and_not_minus: "(a::'a::len word) AND NOT m = a - (a AND m)"
proof -
  have "a - (a AND m) = a AND NOT (a AND m)"
    by (rule disjunctive_diff) (simp add: bit_simps)
  also have "\<dots> = a AND NOT m"
    by (rule bit_word_eqI) (auto simp: bit_simps)
  finally show ?thesis ..
qed

lemmas page_of_minus = and_not_minus [where m = "0x3FF :: u32"]

lemma page_left_eq: "page_left a = 1024 - unat a mod 1024"
proof -
  have "page_left a = unat (0x400 - page_offset a)"
    unfolding page_left_def page_of_minus by simp
  moreover have "page_offset a \<le> 0x400"
    using page_offset_mod [of a] by (simp add: word_le_nat_alt less_imp_le)
  ultimately show ?thesis
    by (simp add: unat_sub page_offset_mod)
qed

lemma page_left_pos: "0 < page_left a"
  by (simp add: page_left_eq)

lemma page_step:
  assumes "j < page_left a"
  shows "unat (page_offset (a + of_nat j)) = unat (page_offset a) + j"
    and "page_of (a + of_nat j) = page_of a"
    and "page_offset (a + of_nat j) = page_offset a + of_nat j"
proof -
  let ?o = "unat a mod 1024"
  have j: "?o + j < 1024" using assms by (simp add: page_left_eq)
  then have "j < 2 ^ 32" by simp
  have "unat a div 1024 < 4194304"
    using unsigned_less [of a, where 'a = nat] by (simp add: less_mult_imp_div_less)
  moreover have "unat a = unat a div 1024 * 1024 + ?o" by simp
  ultimately have "unat a + j < 4294967296" using j by linarith
  then have s: "unat (a + of_nat j) = unat a + j"
    using j by (simp add: unat_word_ariths unat_of_nat)
  have "(unat a + j) mod 1024 = ?o + j"
    using j by (metis mod_add_left_eq mod_less)
  then show off: "unat (page_offset (a + of_nat j)) = unat (page_offset a) + j"
    by (simp only: page_offset_mod s)
  show o2: "page_offset (a + of_nat j) = page_offset a + of_nat j"
    by (rule unsigned_word_eqI [where 'a = nat])
      (use off j in \<open>simp add: unat_word_ariths unat_of_nat page_offset_mod\<close>)
  show "page_of (a + of_nat j) = page_of a"
    unfolding page_of_minus o2 by simp
qed

section \<open>Virtual accesses\<close>

text \<open>
  The loop of \<open>cpu_memory_rw_debug\<close>. The first result holds the bytes that were transferred, the
  second one is the return value: 0, or -1 when a page is not mapped, in which case the rest of
  the buffer is untouched. The tracing in the middle of the loop is not modelled: the look-up of the
  thread (see the theory of the tracker) may reorder its table or end the process, but does not touch memory.
\<close>

function cpu_memory_rw_debug_read :: "vtop \<Rightarrow> ram \<Rightarrow> u32 \<Rightarrow> int \<Rightarrow> bytes \<times> int" where
  "cpu_memory_rw_debug_read tr m addr len =
     (if len > 0 then
        (case tr (page_of addr) of
           None \<Rightarrow> ([], -1)
         | Some phys \<Rightarrow>
             (let l = (if int (page_left addr) > len then nat len else page_left addr);
                  (bs, ret) = cpu_memory_rw_debug_read tr m (addr + of_nat l) (len - int l)
              in (cpu_physical_memory_read m (phys + ucast (page_offset addr)) l @ bs, ret)))
      else ([], 0))"
  by pat_completeness auto
termination
  by (relation "measure (\<lambda>(tr, m, addr, len). nat len)") (auto simp: page_left_pos)

function cpu_memory_rw_debug_write :: "vtop \<Rightarrow> ram \<Rightarrow> u32 \<Rightarrow> bytes \<Rightarrow> ram \<times> int" where
  "cpu_memory_rw_debug_write tr m addr buf =
     (if buf \<noteq> [] then
        (case tr (page_of addr) of
           None \<Rightarrow> (m, -1)
         | Some phys \<Rightarrow>
             (let l = min (page_left addr) (length buf)
              in cpu_memory_rw_debug_write tr
                   (cpu_physical_memory_write m (phys + ucast (page_offset addr)) (take l buf))
                   (addr + of_nat l) (drop l buf)))
      else (m, 0))"
  by pat_completeness auto
termination
  by (relation "measure (\<lambda>(tr, m, addr, buf). length buf)") (auto simp: page_left_pos)

declare cpu_memory_rw_debug_read.simps [simp del]
declare cpu_memory_rw_debug_write.simps [simp del]

text \<open>
  \<open>safe_memory_rw_debug\<close> (vmem.c) only adds a register synchronisation under KVM on x86. Its
  callers ignore the return value: after a failed read they go on with indeterminate bytes,
  which is undefined behaviour.
\<close>

definition safe_memory_read :: "vtop \<Rightarrow> ram \<Rightarrow> u32 \<Rightarrow> int \<Rightarrow> bytes outcome" where
  "safe_memory_read tr m addr len =
     (case cpu_memory_rw_debug_read tr m addr len of
        (bs, ret) \<Rightarrow> if ret = 0 then Inr bs else Inl Undefined_behaviour)"

definition safe_memory_write :: "vtop \<Rightarrow> ram \<Rightarrow> u32 \<Rightarrow> bytes \<Rightarrow> ram" where
  "safe_memory_write tr m addr buf = fst (cpu_memory_rw_debug_write tr m addr buf)"

section \<open>The byte-by-byte reference\<close>

definition virt_to_phys :: "vtop \<Rightarrow> u32 \<Rightarrow> u64 option" where
  "virt_to_phys tr a = map_option (\<lambda>p. p + ucast (page_offset a)) (tr (page_of a))"

definition virt_mapped :: "vtop \<Rightarrow> u32 \<Rightarrow> nat \<Rightarrow> bool" where
  "virt_mapped tr a n \<longleftrightarrow> list_all (\<lambda>i. virt_to_phys tr (a + of_nat i) \<noteq> None) [0..<n]"

definition virt_bytes :: "vtop \<Rightarrow> ram \<Rightarrow> u32 \<Rightarrow> nat \<Rightarrow> bytes" where
  "virt_bytes tr m a n = map (\<lambda>i. m (the (virt_to_phys tr (a + of_nat i)))) [0..<n]"

lemma virt_mappedD: "virt_mapped tr a n \<Longrightarrow> i < n \<Longrightarrow> virt_to_phys tr (a + of_nat i) \<noteq> None"
  by (simp add: virt_mapped_def list_all_iff)

lemma virt_mapped_drop:
  assumes "virt_mapped tr a n" "l \<le> n"
  shows "virt_mapped tr (a + of_nat l) (n - l)"
  unfolding virt_mapped_def list_all_iff
proof
  fix i assume "i \<in> set [0..<n - l]"
  then have "i + l < n" by auto
  from virt_mappedD [OF assms(1) this]
  show "virt_to_phys tr (a + of_nat l + of_nat i) \<noteq> None" by (simp add: ac_simps)
qed

lemma virt_to_phys_page:
  assumes "tr (page_of a) = Some p" "j < page_left a"
  shows "virt_to_phys tr (a + of_nat j) = Some (p + ucast (page_offset a) + of_nat j)"
proof -
  have "(ucast (page_offset a + of_nat j) :: u64) = ucast (page_offset a) + of_nat j"
  proof (rule unsigned_word_eqI [where 'a = nat])
    have "unat (page_offset a) + j < 1024"
      using assms(2) by (simp add: page_left_eq page_offset_mod)
    moreover have "unat (page_offset a + of_nat j) = unat (page_offset a) + j"
      using page_step(1,3) [OF assms(2)] by simp
    ultimately show "unat (ucast (page_offset a + of_nat j) :: u64)
        = unat (ucast (page_offset a) + of_nat j :: u64)"
      by (simp add: unat_word_ariths unat_of_nat unsigned_ucast_eq take_bit_nat_eq_self)
  qed
  then show ?thesis
    using assms(1) page_step(2,3) [OF assms(2)] by (simp add: virt_to_phys_def add.assoc)
qed

lemma rw_debug_read_bytes:
  "virt_mapped tr addr (nat len) \<Longrightarrow>
   cpu_memory_rw_debug_read tr m addr len = (virt_bytes tr m addr (nat len), 0)"
proof (induction tr m addr len rule: cpu_memory_rw_debug_read.induct)
  case (1 tr m addr len)
  show ?case
  proof (cases "len > 0")
    case False
    then show ?thesis
      by (simp add: cpu_memory_rw_debug_read.simps [of tr m addr len] virt_bytes_def)
  next
    case len: True
    have "virt_to_phys tr (addr + of_nat 0) \<noteq> None"
      using "1.prems" len by (intro virt_mappedD) auto
    then obtain p where p: "tr (page_of addr) = Some p"
      by (auto simp: virt_to_phys_def)
    define l where "l = (if int (page_left addr) > len then nat len else page_left addr)"
    have l: "l \<le> nat len" "l \<le> page_left addr" by (auto simp: l_def)
    have "nat (len - int l) = nat len - l" using len l by arith
    then have "virt_mapped tr (addr + of_nat l) (nat (len - int l))"
      using virt_mapped_drop [OF "1.prems" l(1)] by simp
    then have IH: "cpu_memory_rw_debug_read tr m (addr + of_nat l) (len - int l)
        = (virt_bytes tr m (addr + of_nat l) (nat (len - int l)), 0)"
      using "1.IH" [OF len p l_def] by (simp add: l_def)
    have "cpu_physical_memory_read m (p + ucast (page_offset addr)) l @
        virt_bytes tr m (addr + of_nat l) (nat (len - int l)) = virt_bytes tr m addr (nat len)"
    proof (rule nth_equalityI)
      fix i
      assume "i < length (cpu_physical_memory_read m (p + ucast (page_offset addr)) l @
        virt_bytes tr m (addr + of_nat l) (nat (len - int l)))"
      then have i: "i < nat len" using l by (auto simp: virt_bytes_def)
      show "(cpu_physical_memory_read m (p + ucast (page_offset addr)) l @
        virt_bytes tr m (addr + of_nat l) (nat (len - int l))) ! i = virt_bytes tr m addr (nat len) ! i"
      proof (cases "i < l")
        case True
        with l i show ?thesis
          by (simp add: nth_append nth_phys_read virt_bytes_def virt_to_phys_page [where tr = tr and a = addr, OF p])
      next
        case False
        then have "(of_nat l + of_nat (i - l) :: u32) = of_nat i"
          by (metis not_less le_add_diff_inverse of_nat_add)
        then have "addr + of_nat l + of_nat (i - l) = addr + of_nat i"
          by (simp add: add.assoc)
        moreover from False i l have "i - l < nat (len - int l)" by arith
        ultimately
        show ?thesis using False i
          by (simp add: nth_append virt_bytes_def)
      qed
    qed (use l in \<open>simp add: virt_bytes_def\<close>)
    then show ?thesis
      using len p IH
      by (simp add: cpu_memory_rw_debug_read.simps [of tr m addr len] l_def [symmetric] Let_def)
  qed
qed

lemma safe_memory_read_bytes:
  "virt_mapped tr addr (nat len) \<Longrightarrow>
   safe_memory_read tr m addr len = Inr (virt_bytes tr m addr (nat len))"
  by (simp add: safe_memory_read_def rw_debug_read_bytes)

lemma virt_mapped_join:
  assumes "tr (page_of a) = Some p" "l \<le> page_left a" "virt_mapped tr (a + of_nat l) (n - l)"
  shows "virt_mapped tr a n"
  unfolding virt_mapped_def list_all_iff
proof
  fix i assume i: "i \<in> set [0..<n]"
  show "virt_to_phys tr (a + of_nat i) \<noteq> None"
  proof (cases "i < l")
    case True
    with assms(1,2) show ?thesis using virt_to_phys_page [where tr = tr and a = a and p = p and j = i] by simp
  next
    case False
    with i have "i - l < n - l" by auto
    from virt_mappedD [OF assms(3) this] False show ?thesis
      by (simp add: add.assoc of_nat_diff)
  qed
qed

lemma rw_debug_read_mapped:
  "snd (cpu_memory_rw_debug_read tr m addr len) = 0 \<Longrightarrow> virt_mapped tr addr (nat len)"
proof (induction tr m addr len rule: cpu_memory_rw_debug_read.induct)
  case (1 tr m addr len)
  show ?case
  proof (cases "len > 0")
    case len: True
    with "1.prems" obtain p where p: "tr (page_of addr) = Some p"
      by (auto simp: cpu_memory_rw_debug_read.simps [of tr m addr len] split: option.splits)
    define l where "l = (if int (page_left addr) > len then nat len else page_left addr)"
    have l: "l \<le> page_left addr" "nat (len - int l) = nat len - l"
      using len by (auto simp: l_def nat_diff_distrib)
    have "snd (cpu_memory_rw_debug_read tr m (addr + of_nat l) (len - int l)) = 0"
      using "1.prems" len p
      by (simp add: cpu_memory_rw_debug_read.simps [of tr m addr len] l_def [symmetric] Let_def
          split: prod.splits)
    with "1.IH" [OF len p l_def] have "virt_mapped tr (addr + of_nat l) (nat len - l)"
      by (simp add: l(2))
    with p l(1) virt_mapped_join [where tr = tr and a = addr and p = p and l = l and n = "nat len"]
    show ?thesis by blast
  qed (simp add: virt_mapped_def)
qed

text \<open>
  C14: The page-by-page loop of \<open>cpu_memory_rw_debug\<close> reads guest memory correctly: it returns 0
  exactly when every byte of the range is mapped, and then the buffer holds, for every offset,
  the physical byte its virtual address translates to, across page boundaries and the wrap-around
  of the 32-bit address space.
\<close>

theorem guest_read_correct:
  "(snd (cpu_memory_rw_debug_read tr m addr len) = 0 \<longleftrightarrow> virt_mapped tr addr (nat len)) \<and>
   (virt_mapped tr addr (nat len) \<longrightarrow>
      fst (cpu_memory_rw_debug_read tr m addr len) = virt_bytes tr m addr (nat len))"
  using rw_debug_read_mapped [of tr m addr len] rw_debug_read_bytes [of tr addr len m] by auto

theorem guest_read_correct_witness:
  "fst (cpu_memory_rw_debug_read (\<lambda>p. Some (ucast p)) (\<lambda>a. ucast a) 0x1FFE 4) = [0xFE, 0xFF, 0, 1]"
proof -
  let ?tr = "\<lambda>p. Some (ucast p) :: u64 option" and ?m = "\<lambda>a. ucast a :: u8"
  have "virt_mapped ?tr 0x1FFE (nat 4)"
    by (simp add: virt_mapped_def virt_to_phys_def list_all_iff)
  with guest_read_correct [of ?tr ?m "0x1FFE" 4]
  have "fst (cpu_memory_rw_debug_read ?tr ?m 0x1FFE 4) = virt_bytes ?tr ?m 0x1FFE (nat 4)" by simp
  then show ?thesis by (simp add: virt_bytes_def virt_to_phys_def upt_rec)
qed

end
