(* ===== verification/Guest_Store.thy ===== *)
theory Guest_Store
  imports Guest_Memory
begin

text \<open>
  Writing guest memory: the page-by-page loop of \<open>cpu_memory_rw_debug\<close> against a byte-by-byte
  reference, and what a read gives after a write.
\<close>

fun virt_store :: "vtop \<Rightarrow> ram \<Rightarrow> u32 \<Rightarrow> bytes \<Rightarrow> ram" where
  "virt_store tr m a [] = m"
| "virt_store tr m a (b # bs) = virt_store tr (m(the (virt_to_phys tr a) := b)) (a + 1) bs"

lemma phys_write_Cons:
  assumes "length bs < 2 ^ 64"
  shows "cpu_physical_memory_write m addr (b # bs) = cpu_physical_memory_write (m(addr := b)) (addr + 1) bs"
proof
  fix a :: u64
  show "cpu_physical_memory_write m addr (b # bs) a = cpu_physical_memory_write (m(addr := b)) (addr + 1) bs a"
  proof (cases "a = addr")
    case True
    have "unat (- 1 :: u64) = 2 ^ 64 - 1" by (simp add: unsigned_minus_1_eq_mask mask_eq_exp_minus_1)
    with True assms show ?thesis by (simp add: cpu_physical_memory_write_def)
  next
    case False
    then have n: "unat (a - addr) = Suc (unat (a - (addr + 1)))"
      using unat_minus_one [of "a - addr"] by (simp add: diff_diff_eq unat_gt_0)
    show ?thesis unfolding cpu_physical_memory_write_def n using False by simp
  qed
qed

lemma phys_write_page:
  "tr (page_of a) = Some p \<Longrightarrow> length bs \<le> page_left a \<Longrightarrow>
   cpu_physical_memory_write m (p + ucast (page_offset a)) bs = virt_store tr m a bs"
proof (induction bs arbitrary: m a)
  case (Cons b bs)
  have l: "length bs < 2 ^ 64" using Cons.prems by (simp add: page_left_eq)
  have v: "virt_to_phys tr a = Some (p + ucast (page_offset a))"
    using virt_to_phys_page [where tr = tr and a = a and p = p and j = 0] Cons.prems(1) page_left_pos by simp
  show ?case
  proof (cases "bs = []")
    case True
    with l v show ?thesis by (simp add: phys_write_Cons)
  next
    case False
    then have one: "1 < page_left a" using Cons.prems(2) by (cases bs) auto
    note st = page_step [OF one]
    have "page_left (a + 1) = page_left a - 1"
      using st(1) one by (simp add: page_left_eq page_offset_mod)
    then have "cpu_physical_memory_write (m(p + ucast (page_offset a) := b)) (p + ucast (page_offset (a + 1))) bs =
        virt_store tr (m(p + ucast (page_offset a) := b)) (a + 1) bs"
      using Cons.prems st(2) by (intro Cons.IH) simp_all
    moreover have "p + ucast (page_offset (a + 1)) = p + ucast (page_offset a) + 1"
      using virt_to_phys_page [where tr = tr and a = a and p = p and j = 1] one st(2) Cons.prems(1) by (simp add: virt_to_phys_def)
    ultimately show ?thesis using l v by (simp add: phys_write_Cons)
  qed
qed simp

lemma virt_store_append:
  "virt_store tr m a (xs @ ys) = virt_store tr (virt_store tr m a xs) (a + of_nat (length xs)) ys"
  by (induction xs arbitrary: m a) (simp_all add: ac_simps)

lemma rw_debug_write_bytes:
  "virt_mapped tr addr (length buf) \<Longrightarrow> cpu_memory_rw_debug_write tr m addr buf = (virt_store tr m addr buf, 0)"
proof (induction tr m addr buf rule: cpu_memory_rw_debug_write.induct)
  case (1 tr m addr buf)
  show ?case
  proof (cases "buf = []")
    case True
    then show ?thesis by (simp add: cpu_memory_rw_debug_write.simps)
  next
    case ne: False
    have "virt_to_phys tr (addr + of_nat 0) \<noteq> None" using "1.prems" ne by (intro virt_mappedD) auto
    then obtain p where p: "tr (page_of addr) = Some p" by (auto simp: virt_to_phys_def)
    define l where "l = min (page_left addr) (length buf)"
    have len: "length (take l buf) = l" by (simp add: l_def)
    have "cpu_memory_rw_debug_write tr (cpu_physical_memory_write m (p + ucast (page_offset addr)) (take l buf))
        (addr + of_nat l) (drop l buf) =
      (virt_store tr (cpu_physical_memory_write m (p + ucast (page_offset addr)) (take l buf)) (addr + of_nat l) (drop l buf), 0)"
      using "1.IH" [OF ne p l_def] virt_mapped_drop [OF "1.prems", of l] by (simp add: l_def)
    moreover have "cpu_physical_memory_write m (p + ucast (page_offset addr)) (take l buf) = virt_store tr m addr (take l buf)"
      using p by (intro phys_write_page) (simp_all add: l_def)
    moreover have "virt_store tr (virt_store tr m addr (take l buf)) (addr + of_nat l) (drop l buf) = virt_store tr m addr buf"
      using virt_store_append [of tr m addr "take l buf" "drop l buf"] by (simp only: len append_take_drop_id)
    ultimately show ?thesis
      using ne p by (subst cpu_memory_rw_debug_write.simps) (simp add: l_def [symmetric] Let_def)
  qed
qed

lemma safe_memory_write_bytes:
  "virt_mapped tr addr (length buf) \<Longrightarrow> safe_memory_write tr m addr buf = virt_store tr m addr buf"
  by (simp add: safe_memory_write_def rw_debug_write_bytes)

text \<open>No two bytes of the range have the same physical address.\<close>

definition virt_distinct :: "vtop \<Rightarrow> u32 \<Rightarrow> nat \<Rightarrow> bool" where
  "virt_distinct tr a n \<longleftrightarrow> distinct (map (\<lambda>i. the (virt_to_phys tr (a + of_nat i))) [0..<n])"

lemma virt_distinct_Suc:
  "virt_distinct tr a (Suc n) \<longleftrightarrow> the (virt_to_phys tr a) \<notin> (\<lambda>i. the (virt_to_phys tr (a + 1 + of_nat i))) ` {0..<n} \<and>
     virt_distinct tr (a + 1) n"
  unfolding virt_distinct_def map_upt_Suc by (simp add: ac_simps)

lemma virt_store_outside:
  "p \<notin> (\<lambda>i. the (virt_to_phys tr (a + of_nat i))) ` {0..<length bs} \<Longrightarrow> virt_store tr m a bs p = m p"
proof (induction bs arbitrary: m a)
  case (Cons b bs)
  have "p \<noteq> the (virt_to_phys tr a)" using Cons.prems by force
  moreover have "p \<notin> (\<lambda>i. the (virt_to_phys tr (a + 1 + of_nat i))) ` {0..<length bs}"
  proof
    assume "p \<in> (\<lambda>i. the (virt_to_phys tr (a + 1 + of_nat i))) ` {0..<length bs}"
    then obtain i where "i < length bs" "p = the (virt_to_phys tr (a + of_nat (Suc i)))" by (auto simp: ac_simps)
    then have "p \<in> (\<lambda>i. the (virt_to_phys tr (a + of_nat i))) ` {0..<length (b # bs)}"
      by (intro image_eqI [of _ _ "Suc i"]) simp_all
    with Cons.prems show False by blast
  qed
  ultimately show ?case using Cons.IH by simp
qed simp

lemma virt_bytes_store:
  "virt_distinct tr a (length bs) \<Longrightarrow> virt_bytes tr (virt_store tr m a bs) a (length bs) = bs"
proof (induction bs arbitrary: m a)
  case (Cons b bs)
  have "virt_bytes tr m' a (Suc n) = m' (the (virt_to_phys tr a)) # virt_bytes tr m' (a + 1) n" for m' n
    unfolding virt_bytes_def map_upt_Suc by (simp add: ac_simps)
  with Cons show ?case by (simp add: virt_distinct_Suc virt_store_outside)
qed (simp add: virt_bytes_def)

end
