(* ===== verification/Irq.thy ===== *)
theory Irq
  imports Prelude
begin

text \<open>
  Interrupt lines (hw/core/irq.c) and the contract of a level-triggered device.

  A \<open>qemu_irq\<close> is a handler with the index of the line; the handler acts on the state of the
  component the line leads to (the \<open>opaque\<close> pointer in C), which is passed explicitly.

  The locale \<open>level_irq_device\<close> is what a device owes to the interrupt controller: the levels an
  operation assigns to its line leave the line at \<open>wants_irq\<close> of the new state.
\<close>

section \<open>Lines\<close>

record 'st IRQState =
  irq_handler :: "nat \<Rightarrow> bool \<Rightarrow> 'st \<Rightarrow> 'st outcome"
  irq_n :: nat

type_synonym 'st qemu_irq = "'st IRQState option"

definition qemu_set_irq :: "'st qemu_irq \<Rightarrow> bool \<Rightarrow> 'st \<Rightarrow> 'st outcome" where
  "qemu_set_irq irq level st =
     (case irq of None \<Rightarrow> Inr st | Some q \<Rightarrow> irq_handler q (irq_n q) level st)"

definition qemu_allocate_irqs ::
    "(nat \<Rightarrow> bool \<Rightarrow> 'st \<Rightarrow> 'st outcome) \<Rightarrow> nat \<Rightarrow> 'st qemu_irq list" where
  "qemu_allocate_irqs handler n =
     map (\<lambda>i. Some \<lparr>irq_handler = handler, irq_n = i\<rparr>) [0..<n]"

text \<open>The handler of an inverted line; its \<open>opaque\<close> is the line it inverts, never \<open>NULL\<close>.\<close>

definition qemu_notirq :: "'st IRQState \<Rightarrow> nat \<Rightarrow> bool \<Rightarrow> 'st \<Rightarrow> 'st outcome" where
  "qemu_notirq irq line level st = irq_handler irq (irq_n irq) (\<not> level) st"

definition qemu_irq_invert :: "'st IRQState \<Rightarrow> 'st \<Rightarrow> ('st qemu_irq \<times> 'st) outcome" where
  "qemu_irq_invert irq st =
     (case qemu_set_irq (Some irq) True st of
        Inl e \<Rightarrow> Inl e
      | Inr st' \<Rightarrow> Inr (qemu_allocate_irqs (qemu_notirq irq) 1 ! 0, st'))"

text \<open>Several assignments to one line, in order.\<close>

fun drive_line :: "'st qemu_irq \<Rightarrow> bool list \<Rightarrow> 'st \<Rightarrow> 'st outcome" where
  "drive_line irq [] st = Inr st"
| "drive_line irq (l # ls) st =
     (case qemu_set_irq irq l st of Inl e \<Rightarrow> Inl e | Inr st' \<Rightarrow> drive_line irq ls st')"

lemma allocate_irqs_nth [simp]:
  "i < n \<Longrightarrow> qemu_allocate_irqs h n ! i = Some \<lparr>irq_handler = h, irq_n = i\<rparr>"
  by (simp add: qemu_allocate_irqs_def)

lemma length_allocate_irqs [simp]: "length (qemu_allocate_irqs h n) = n"
  by (simp add: qemu_allocate_irqs_def)

lemma irq_invert_line:
  "qemu_irq_invert irq st = Inr (inv_irq, st') \<Longrightarrow>
   qemu_set_irq inv_irq l st'' = qemu_set_irq (Some irq) (\<not> l) st''"
  by (auto simp: qemu_irq_invert_def qemu_set_irq_def qemu_notirq_def split: sum.splits)

section \<open>Level-triggered devices\<close>

text \<open>
  \<open>step\<close> is a device operation: the new state and the levels assigned to the interrupt line.
  An operation that faults has no new state.
\<close>

fun run_device ::
    "('op \<Rightarrow> 'st \<Rightarrow> ('st \<times> bool list) outcome) \<Rightarrow> 'op list \<Rightarrow> 'st \<Rightarrow> bool \<Rightarrow> ('st \<times> bool) outcome" where
  "run_device step [] s line = Inr (s, line)"
| "run_device step (a # ops) s line =
     (case step a s of
        Inl e \<Rightarrow> Inl e
      | Inr (s', ls) \<Rightarrow> run_device step ops s' (drive line ls))"

locale level_irq_device =
  fixes step :: "'op \<Rightarrow> 'st \<Rightarrow> ('st \<times> bool list) outcome"
    and wants_irq :: "'st \<Rightarrow> bool"
    and inv :: "'st \<Rightarrow> bool"
  assumes step_inv: "inv s \<Longrightarrow> step a s = Inr (s', ls) \<Longrightarrow> inv s'"
    and step_drive: "inv s \<Longrightarrow> step a s = Inr (s', ls) \<Longrightarrow> drive (wants_irq s) ls = wants_irq s'"
begin

lemma run_line:
  "inv s \<Longrightarrow> run_device step ops s (wants_irq s) = Inr (s', line) \<Longrightarrow> inv s' \<and> line = wants_irq s'"
proof (induction ops arbitrary: s)
  case (Cons a ops)
  from Cons.prems(2) obtain s1 ls where s1: "step a s = Inr (s1, ls)"
    by (auto split: sum.splits)
  with Cons.prems step_inv step_drive show ?case
    by (intro Cons.IH [of s1]) auto
qed simp

end

text \<open>
  The weaker contract: the line may stay raised for nothing, but it is raised as long as something
  is pending. A level-triggered device keeps it.
\<close>

locale pending_irq_device =
  fixes step :: "'op \<Rightarrow> 'st \<Rightarrow> ('st \<times> bool list) outcome"
    and pending :: "'st \<Rightarrow> bool"
    and inv :: "'st \<Rightarrow> bool"
  assumes pending_inv: "inv s \<Longrightarrow> step a s = Inr (s', ls) \<Longrightarrow> inv s'"
    and pending_drive: "inv s \<Longrightarrow> step a s = Inr (s', ls) \<Longrightarrow> pending s \<longrightarrow> line \<Longrightarrow> pending s' \<Longrightarrow> drive line ls"
begin

lemma run_pending:
  "inv s \<Longrightarrow> (pending s \<longrightarrow> line) \<Longrightarrow> run_device step ops s line = Inr (s', line') \<Longrightarrow> inv s' \<and> (pending s' \<longrightarrow> line')"
proof (induction ops arbitrary: s line)
  case (Cons a ops)
  from Cons.prems(3) obtain s1 ls where s1: "step a s = Inr (s1, ls)" "run_device step ops s1 (drive line ls) = Inr (s', line')"
    by (auto split: sum.splits)
  from pending_drive [OF Cons.prems(1) s1(1) Cons.prems(2)] have "pending s1 \<longrightarrow> drive line ls" by blast
  from Cons.IH [OF pending_inv [OF Cons.prems(1) s1(1)] this s1(2)] show ?case .
qed simp

end

sublocale level_irq_device < pending: pending_irq_device step wants_irq inv
proof
  fix s a s' ls line
  assume a: "inv s" "step a s = Inr (s', ls)"
  then show "inv s'" by (rule step_inv)
  assume l: "wants_irq s \<longrightarrow> line" "wants_irq s'"
  show "drive line ls"
  proof (cases "ls = []")
    case True
    with step_drive [OF a] l show ?thesis by simp
  next
    case False
    then show ?thesis using step_drive [OF a] l(2) by (simp add: drive_last)
  qed
qed

end
