(* ===== verification/Fifo.thy ===== *)
theory Fifo
  imports Prelude
begin

text \<open>
  The contract of a bounded byte queue. The circular buffer of the character pipes and the
  loop-back pipe service are instances of it.

  \<open>put\<close> stores a prefix of its argument and says how long it is; \<open>get\<close> removes a prefix of the
  contents, at most as long as it is asked for. The client's lemma is that nothing is lost,
  duplicated or reordered over any sequence of operations.
\<close>

datatype 'a fifo_op = Put "'a list" | Get nat

text \<open>The results: the elements accepted, the elements delivered, and the final state.\<close>

fun fifo_run ::
    "('st \<Rightarrow> 'a list \<Rightarrow> nat \<times> 'st) \<Rightarrow> ('st \<Rightarrow> nat \<Rightarrow> 'a list \<times> 'st) \<Rightarrow> 'a fifo_op list \<Rightarrow> 'st \<Rightarrow>
     'a list \<times> 'a list \<times> 'st" where
  "fifo_run put get [] s = ([], [], s)"
| "fifo_run put get (Put xs # ops) s =
     (let (n, s1) = put s xs; (acc, del, s2) = fifo_run put get ops s1
      in (take n xs @ acc, del, s2))"
| "fifo_run put get (Get n # ops) s =
     (let (ys, s1) = get s n; (acc, del, s2) = fifo_run put get ops s1
      in (acc, ys @ del, s2))"

locale bounded_fifo =
  fixes put :: "'st \<Rightarrow> 'a list \<Rightarrow> nat \<times> 'st"
    and get :: "'st \<Rightarrow> nat \<Rightarrow> 'a list \<times> 'st"
    and contents :: "'st \<Rightarrow> 'a list"
    and capacity :: "'st \<Rightarrow> nat"
    and inv :: "'st \<Rightarrow> bool"
  assumes put_law: "inv s \<Longrightarrow> put s xs = (n, s') \<Longrightarrow>
      inv s' \<and> n \<le> length xs \<and> contents s' = contents s @ take n xs \<and> capacity s' = capacity s"
    and get_law: "inv s \<Longrightarrow> get s n = (ys, s') \<Longrightarrow>
      inv s' \<and> length ys \<le> n \<and> contents s = ys @ contents s' \<and> capacity s' = capacity s"
    and bounded: "inv s \<Longrightarrow> length (contents s) \<le> capacity s"
begin

lemma run_order:
  "inv s \<Longrightarrow> fifo_run put get ops s = (acc, del, s') \<Longrightarrow>
   inv s' \<and> contents s @ acc = del @ contents s' \<and> capacity s' = capacity s"
proof (induction ops arbitrary: s acc del)
  case (Cons op ops)
  show ?case
  proof (cases op)
    case (Put xs)
    obtain n s1 where p: "put s xs = (n, s1)" by fastforce
    obtain acc1 del1 s2 where r: "fifo_run put get ops s1 = (acc1, del1, s2)"
      by (metis prod_cases3)
    from Put p r Cons.prems(2) have "acc = take n xs @ acc1" "del = del1" "s' = s2" by auto
    with put_law [OF Cons.prems(1) p] Cons.IH [of s1 acc1 del1] r show ?thesis by simp
  next
    case (Get n)
    obtain ys s1 where g: "get s n = (ys, s1)" by fastforce
    obtain acc1 del1 s2 where r: "fifo_run put get ops s1 = (acc1, del1, s2)"
      by (metis prod_cases3)
    from Get g r Cons.prems(2) have "acc = acc1" "del = ys @ del1" "s' = s2" by auto
    with get_law [OF Cons.prems(1) g] Cons.IH [of s1 acc1 del1] r show ?thesis by simp
  qed
qed simp

end

end
