(* ===== verification/Goldfish_Int.thy ===== *)
theory Goldfish_Int
  imports Qemu_File Irq
begin

unbundle bit_operations_syntax

text \<open>
  The goldfish interrupt controller (hw/android/goldfish/interrupt.c): 32 input lines, an enable
  mask, a count of pending interrupts and the two lines to the CPU.

  The lines to the CPU are kept in the state as the level last assigned to them. Register
  accesses abort on an unknown offset; every write first computes \<open>1U << value\<close>, which is
  undefined for a value of 32 or more, whatever the register.
\<close>

section \<open>State and operations\<close>

definition INTERRUPT_STATUS :: u64 where [dev_defs]: "INTERRUPT_STATUS = 0x00"
definition INTERRUPT_NUMBER :: u64 where [dev_defs]: "INTERRUPT_NUMBER = 0x04"
definition INTERRUPT_DISABLE_ALL :: u64 where [dev_defs]: "INTERRUPT_DISABLE_ALL = 0x08"
definition INTERRUPT_DISABLE :: u64 where [dev_defs]: "INTERRUPT_DISABLE = 0x0c"
definition INTERRUPT_ENABLE :: u64 where [dev_defs]: "INTERRUPT_ENABLE = 0x10"

definition GFD_MAX_IRQ :: nat where "GFD_MAX_IRQ = 32"

record goldfish_int_state =
  int_level :: u32
  pending_count :: u32
  irq_enabled :: u32
  fiq_enabled :: u32
  parent_irq :: bool
  parent_fiq :: bool

definition goldfish_interrupt_init :: goldfish_int_state where
  "goldfish_interrupt_init =
     \<lparr>int_level = 0, pending_count = 0, irq_enabled = 0, fiq_enabled = 0,
      parent_irq = False, parent_fiq = False\<rparr>"

definition goldfish_int_fields :: "qfield list" where
  "goldfish_int_fields = [Q_FIELD_INT32, Q_FIELD_INT32, Q_FIELD_INT32, Q_FIELD_INT32]"

definition goldfish_int_save :: "QEMUFile \<Rightarrow> goldfish_int_state \<Rightarrow> QEMUFile" where
  "goldfish_int_save f s =
     qemu_put_struct f [QInt32 (int_level s), QInt32 (pending_count s),
       QInt32 (irq_enabled s), QInt32 (fiq_enabled s)]"

definition goldfish_int_load ::
    "QEMUFile \<Rightarrow> goldfish_int_state \<Rightarrow> int \<Rightarrow> int \<times> goldfish_int_state \<times> QEMUFile" where
  "goldfish_int_load f s version_id =
     (if version_id \<noteq> 1 then (-1, s, f)
      else case qemu_get_struct f goldfish_int_fields of
          (Some [QInt32 l, QInt32 p, QInt32 i, QInt32 q], f') \<Rightarrow>
            (0, s\<lparr>int_level := l, pending_count := p, irq_enabled := i, fiq_enabled := q\<rparr>, f')
        | (_, f') \<Rightarrow> (-1, s, f'))"

definition goldfish_int_update :: "goldfish_int_state \<Rightarrow> goldfish_int_state" where
  "goldfish_int_update s =
     s\<lparr>parent_irq := (int_level s AND irq_enabled s) \<noteq> 0,
       parent_fiq := (int_level s AND fiq_enabled s) \<noteq> 0\<rparr>"

definition goldfish_int_set_irq ::
    "nat \<Rightarrow> bool \<Rightarrow> goldfish_int_state \<Rightarrow> goldfish_int_state outcome" where
  "goldfish_int_set_irq irq level s =
     (if irq \<ge> 32 then Inl Undefined_behaviour
      else
        (let mask = push_bit irq 1 in
         Inr (goldfish_int_update
           (if level then
              (if int_level s AND mask = 0 then
                 s\<lparr>pending_count := (if irq_enabled s AND mask \<noteq> 0 then pending_count s + 1
                                     else pending_count s),
                   int_level := int_level s OR mask\<rparr>
               else s)
            else
              (if int_level s AND mask \<noteq> 0 then
                 s\<lparr>pending_count := (if irq_enabled s AND mask \<noteq> 0 then pending_count s - 1
                                     else pending_count s),
                   int_level := int_level s AND NOT mask\<rparr>
               else s)))))"

text \<open>The loop over the 32 lines.\<close>

fun int_number_loop :: "u32 \<Rightarrow> nat \<Rightarrow> nat \<Rightarrow> u32" where
  "int_number_loop pending i 0 = 0"
| "int_number_loop pending i (Suc left) =
     (if pending AND push_bit i 1 \<noteq> 0 then of_nat i else int_number_loop pending (i + 1) left)"

definition goldfish_int_read :: "goldfish_int_state \<Rightarrow> u64 \<Rightarrow> u32 outcome" where
  "goldfish_int_read s offset =
     (if offset = INTERRUPT_STATUS then Inr (pending_count s)
      else if offset = INTERRUPT_NUMBER then
        Inr (int_number_loop (int_level s AND irq_enabled s) 0 32)
      else Inl Cpu_abort)"

definition goldfish_int_write ::
    "goldfish_int_state \<Rightarrow> u64 \<Rightarrow> u32 \<Rightarrow> goldfish_int_state outcome" where
  "goldfish_int_write s offset value =
     (if unat value \<ge> 32 then Inl Undefined_behaviour
      else
        (let mask = push_bit (unat value) 1 in
         if offset = INTERRUPT_DISABLE_ALL then
           Inr (goldfish_int_update (s\<lparr>pending_count := 0, int_level := 0\<rparr>))
         else if offset = INTERRUPT_DISABLE then
           Inr (goldfish_int_update
             (if irq_enabled s AND mask \<noteq> 0 then
                s\<lparr>pending_count := (if int_level s AND mask \<noteq> 0 then pending_count s - 1
                                    else pending_count s),
                  irq_enabled := irq_enabled s AND NOT mask\<rparr>
              else s))
         else if offset = INTERRUPT_ENABLE then
           Inr (goldfish_int_update
             (if irq_enabled s AND mask = 0 then
                s\<lparr>irq_enabled := irq_enabled s OR mask,
                  pending_count := (if int_level s AND mask \<noteq> 0 then pending_count s + 1
                                    else pending_count s)\<rparr>
              else s))
         else Inl Cpu_abort))"

text \<open>The input lines handed to the devices by \<open>goldfish_interrupt_init\<close>.\<close>

definition goldfish_int_lines :: "goldfish_int_state qemu_irq list" where
  "goldfish_int_lines = qemu_allocate_irqs goldfish_int_set_irq GFD_MAX_IRQ"


section \<open>Lines as sets\<close>

definition lines :: "u32 \<Rightarrow> nat set" where
  "lines w = {i. bit w i}"

lemma lines_bound: "i \<in> lines w \<Longrightarrow> i < 32"
  using bit_imp_le_length [of w i] by (simp add: lines_def)

lemma finite_lines [simp]: "finite (lines w)"
  by (rule finite_subset [of _ "{..<32}"]) (auto dest: lines_bound)

lemma card_lines: "card (lines w) \<le> 32"
  using card_mono [of "{..<32}" "lines w"] by (auto dest: lines_bound)

lemma lines_0 [simp]: "lines 0 = {}"
  by (simp add: lines_def)

lemma lines_empty_iff [simp]: "lines w = {} \<longleftrightarrow> w = 0"
  by (auto simp: lines_def intro: bit_word_eqI)

lemma lines_and: "lines (v AND w) = lines v \<inter> lines w"
  by (auto simp: lines_def bit_simps)

lemma lines_set [simp]: "i < 32 \<Longrightarrow> lines (w OR 2 ^ i) = insert i (lines w)"
  by (auto simp: lines_def bit_simps)

lemma lines_clear [simp]: "lines (w AND NOT (2 ^ i)) = lines w - {i}"
  by (auto simp: lines_def bit_simps dest: bit_imp_le_length)

lemma and_mask_iff: "(w AND 2 ^ i = 0) \<longleftrightarrow> i \<notin> lines w"
  using bit_iff_and_push_bit_not_eq_0 [of w i] by (simp add: lines_def)

lemma and_zero_lines: "(v AND w = 0) \<longleftrightarrow> lines v \<inter> lines w = {}"
  by (metis lines_and lines_empty_iff)

lemma lines_diff_int [simp]:
  "(lines v - {i}) \<inter> lines w = (lines v \<inter> lines w) - {i}"
  "lines v \<inter> (lines w - {i}) = (lines v \<inter> lines w) - {i}"
  by auto

lemma int_number_loop_least:
  assumes "i \<in> lines w" "\<And>k. k < i \<Longrightarrow> k \<notin> lines w"
  shows "i < j + left \<Longrightarrow> j \<le> i \<Longrightarrow> int_number_loop w j left = of_nat i"
proof (induction left arbitrary: j)
  case (Suc left)
  then show ?case
    using assms by (cases "j = i") (auto simp: and_mask_iff)
qed simp

lemma int_number_loop_none: "lines w \<inter> {j..} = {} \<Longrightarrow> int_number_loop w j left = 0"
proof (induction left arbitrary: j)
  case (Suc left)
  then have "j \<notin> lines w" "lines w \<inter> {Suc j..} = {}" by auto
  with Suc.IH [of "Suc j"] show ?case by (simp add: and_mask_iff)
qed simp

section \<open>Abstract controller and refinement\<close>

text \<open>
  The specification has no counter: a set of raised lines and a set of enabled lines. Interrupts
  are pending on the lines that are both.
\<close>

record int_spec =
  raised :: "nat set"
  enabled :: "nat set"

datatype int_event = Line nat bool | Reg_write u64 u32

definition int_step :: "int_event \<Rightarrow> goldfish_int_state \<Rightarrow> goldfish_int_state outcome" where
  "int_step ev s =
     (case ev of
        Line i l \<Rightarrow> goldfish_int_set_irq i l s
      | Reg_write offset value \<Rightarrow> goldfish_int_write s offset value)"

fun int_run :: "int_event list \<Rightarrow> goldfish_int_state \<Rightarrow> goldfish_int_state outcome" where
  "int_run [] s = Inr s"
| "int_run (ev # evs) s = (case int_step ev s of Inl e \<Rightarrow> Inl e | Inr s' \<Rightarrow> int_run evs s')"

definition int_spec_step :: "int_event \<Rightarrow> int_spec \<Rightarrow> int_spec" where
  "int_spec_step ev a =
     (case ev of
        Line i l \<Rightarrow> a\<lparr>raised := (if l then insert i (raised a) else raised a - {i})\<rparr>
      | Reg_write offset value \<Rightarrow>
          if offset = INTERRUPT_DISABLE_ALL then a\<lparr>raised := {}\<rparr>
          else if offset = INTERRUPT_DISABLE then a\<lparr>enabled := enabled a - {unat value}\<rparr>
          else a\<lparr>enabled := insert (unat value) (enabled a)\<rparr>)"

definition int_abs :: "goldfish_int_state \<Rightarrow> int_spec" where
  "int_abs s = \<lparr>raised = lines (int_level s), enabled = lines (irq_enabled s)\<rparr>"

definition int_pending :: "int_spec \<Rightarrow> nat set" where
  "int_pending a = raised a \<inter> enabled a"

definition int_inv :: "goldfish_int_state \<Rightarrow> bool" where
  "int_inv s \<longleftrightarrow>
     pending_count s = of_nat (card (lines (int_level s) \<inter> lines (irq_enabled s))) \<and>
     fiq_enabled s = 0 \<and> \<not> parent_fiq s \<and>
     parent_irq s = (lines (int_level s) \<inter> lines (irq_enabled s) \<noteq> {})"

lemmas int_defs =
  int_step_def goldfish_int_set_irq_def goldfish_int_write_def goldfish_int_update_def Let_def

lemma int_step_refines:
  "int_step ev s = Inr s' \<Longrightarrow> int_abs s' = int_spec_step ev (int_abs s)"
  by (cases ev)
    (auto simp: int_defs int_abs_def int_spec_step_def dev_defs and_mask_iff insert_absorb
      split: if_splits)

lemma card_insert_word:
  "finite A \<Longrightarrow> i \<notin> A \<Longrightarrow> (of_nat (card A) :: u32) + 1 = of_nat (card (insert i A))"
  by simp

lemma card_remove_word:
  "finite A \<Longrightarrow> i \<in> A \<Longrightarrow> (of_nat (card A) :: u32) - 1 = of_nat (card (A - {i}))"
  by (metis add_diff_cancel_right' card_Suc_Diff1 of_nat_Suc add.commute)

lemma int_inv_update [simp]:
  "int_inv (goldfish_int_update s) \<longleftrightarrow>
     pending_count s = of_nat (card (lines (int_level s) \<inter> lines (irq_enabled s))) \<and>
     fiq_enabled s = 0"
  by (auto simp: int_inv_def goldfish_int_update_def and_zero_lines)

lemma int_set_irq_inv: "int_inv s \<Longrightarrow> goldfish_int_set_irq i l s = Inr s' \<Longrightarrow> int_inv s'"
  by (auto simp: goldfish_int_set_irq_def Let_def and_mask_iff card_remove_word int_inv_def [of s]
      split: if_splits)

lemma int_write_inv: "int_inv s \<Longrightarrow> goldfish_int_write s offset v = Inr s' \<Longrightarrow> int_inv s'"
  by (auto simp: goldfish_int_write_def Let_def and_mask_iff card_remove_word int_inv_def [of s]
      split: if_splits)

lemma int_step_inv: "int_inv s \<Longrightarrow> int_step ev s = Inr s' \<Longrightarrow> int_inv s'"
  by (cases ev) (auto simp: int_step_def dest: int_set_irq_inv int_write_inv)

section \<open>Runs\<close>

definition int_event_ok :: "int_event \<Rightarrow> bool" where
  "int_event_ok ev =
     (case ev of
        Line i l \<Rightarrow> i < GFD_MAX_IRQ
      | Reg_write offset value \<Rightarrow> unat value < 32 \<and>
          offset \<in> {INTERRUPT_DISABLE_ALL, INTERRUPT_DISABLE, INTERRUPT_ENABLE})"

lemma int_step_ok: "(\<exists>s'. int_step ev s = Inr s') \<longleftrightarrow> int_event_ok ev"
  by (cases ev) (auto simp: int_defs int_event_ok_def GFD_MAX_IRQ_def)

lemma int_run_sim:
  "int_inv s \<Longrightarrow> int_run evs s = Inr s' \<Longrightarrow>
   int_inv s' \<and> int_abs s' = fold int_spec_step evs (int_abs s)"
proof (induction evs arbitrary: s)
  case (Cons ev evs)
  from Cons.prems(2) obtain s1 where s1: "int_step ev s = Inr s1" "int_run evs s1 = Inr s'"
    by (auto split: sum.splits)
  with Cons.IH [of s1] int_step_inv [OF Cons.prems(1)] int_step_refines [of ev s s1] show ?case
    by simp
qed simp

lemma int_inv_init [simp]: "int_inv goldfish_interrupt_init"
  by (simp add: int_inv_def goldfish_interrupt_init_def)

lemma int_abs_init [simp]: "int_abs goldfish_interrupt_init = \<lparr>raised = {}, enabled = {}\<rparr>"
  by (simp add: int_abs_def goldfish_interrupt_init_def)

lemma int_inv_read:
  assumes "int_inv s"
  defines "P \<equiv> int_pending (int_abs s)"
  shows "goldfish_int_read s INTERRUPT_STATUS = Inr (of_nat (card P))"
    and "goldfish_int_read s INTERRUPT_NUMBER = Inr (if P = {} then 0 else of_nat (Min P))"
    and "parent_irq s = (P \<noteq> {})" and "\<not> parent_fiq s" and "card P \<le> 32"
proof -
  let ?w = "int_level s AND irq_enabled s"
  have P: "P = lines ?w" by (simp add: P_def int_pending_def int_abs_def lines_and)
  show "goldfish_int_read s INTERRUPT_STATUS = Inr (of_nat (card P))"
    using assms(1) by (simp add: goldfish_int_read_def int_inv_def P lines_and)
  show "parent_irq s = (P \<noteq> {})" and "\<not> parent_fiq s"
    using assms(1) by (simp_all add: int_inv_def P lines_and)
  show "card P \<le> 32" by (simp add: P card_lines)
  have "int_number_loop ?w 0 32 = (if P = {} then 0 else of_nat (Min P))"
  proof (cases "P = {}")
    case False
    then have "Min P \<in> lines ?w" using P by (metis Min_in finite_lines)
    moreover have "k \<notin> lines ?w" if "k < Min P" for k
      using that P by (metis Min_le finite_lines not_less)
    ultimately show ?thesis
      using False int_number_loop_least [of "Min P" ?w 0 32] by (simp add: lines_bound)
  qed (simp add: P int_number_loop_none)
  then show "goldfish_int_read s INTERRUPT_NUMBER = Inr (if P = {} then 0 else of_nat (Min P))"
    by (simp add: goldfish_int_read_def dev_defs)
qed

text \<open>
  C1: After any sequence of line changes and register writes that the controller accepts, started
  at reset, its state is the one of the abstract controller (raised and enabled sets); the
  status register is the number of pending lines, the number register is the least pending
  line (0 when there is none), the CPU's IRQ line is up exactly when a line is pending, and the
  FIQ line is never raised.
\<close>

theorem int_controller_refines:
  assumes "int_run evs goldfish_interrupt_init = Inr s"
    and "a = fold int_spec_step evs \<lparr>raised = {}, enabled = {}\<rparr>"
  shows "int_abs s = a \<and>
    goldfish_int_read s INTERRUPT_STATUS = Inr (of_nat (card (int_pending a))) \<and>
    goldfish_int_read s INTERRUPT_NUMBER =
      Inr (if int_pending a = {} then 0 else of_nat (Min (int_pending a))) \<and>
    parent_irq s = (int_pending a \<noteq> {}) \<and> \<not> parent_fiq s"
  using int_run_sim [OF int_inv_init assms(1)] int_inv_read [of s] assms(2) by simp

definition int_witness_run :: "int_event list" where
  "int_witness_run =
     [Line 5 True, Reg_write INTERRUPT_ENABLE 5, Line 3 True, Reg_write INTERRUPT_ENABLE 3,
      Reg_write INTERRUPT_DISABLE 5]"

theorem int_controller_refines_witness:
  "\<exists>s. int_run int_witness_run goldfish_interrupt_init = Inr s \<and>
     goldfish_int_read s INTERRUPT_NUMBER = Inr 3 \<and> parent_irq s"
proof -
  obtain s where s: "int_run int_witness_run goldfish_interrupt_init = Inr s"
    by (simp add: int_witness_run_def int_defs dev_defs goldfish_interrupt_init_def)
  have a: "fold int_spec_step int_witness_run \<lparr>raised = {}, enabled = {}\<rparr> =
      \<lparr>raised = {3, 5}, enabled = {3}\<rparr>"
    by (auto simp: int_witness_run_def int_spec_step_def dev_defs)
  from int_controller_refines [OF s a [symmetric]] s show ?thesis
    by (intro exI [of _ s]) (simp add: int_pending_def)
qed

text \<open>
  C34: The controller accepts a sequence of events exactly when every line is one of the 32 inputs
  and every register write goes to a writable register with an interrupt number below 32: an
  unknown register aborts the emulator, and a larger number is an undefined shift, even for
  \<open>INTERRUPT_DISABLE_ALL\<close>, which ignores its value.
\<close>

theorem int_run_accepts:
  "(\<exists>s'. int_run evs s = Inr s') \<longleftrightarrow> list_all int_event_ok evs"
proof (induction evs arbitrary: s)
  case (Cons ev evs)
  then show ?case using int_step_ok [of ev s] by (auto split: sum.splits)
qed simp

section \<open>Snapshots\<close>

definition int_enc :: "goldfish_int_state \<Rightarrow> bytes" where
  "int_enc s = be32_bytes (int_level s) @ be32_bytes (pending_count s) @
     be32_bytes (irq_enabled s) @ be32_bytes (fiq_enabled s)"

definition int_restore :: "goldfish_int_state \<Rightarrow> goldfish_int_state \<Rightarrow> goldfish_int_state" where
  "int_restore s0 s = s\<lparr>parent_irq := parent_irq s0, parent_fiq := parent_fiq s0\<rparr>"

interpretation int_snap: snapshot_device goldfish_int_save
  "\<lambda>f s v. Inr (goldfish_int_load f s v)" 1 "\<lambda>v. v = 1" int_enc int_restore "\<lambda>s. True"
proof
  fix s s0 :: goldfish_int_state and f :: QEMUFile and rest
  assume "fbuf f = int_enc s @ rest"
  then show "Inr (goldfish_int_load f s0 1) = Inr (0, int_restore s0 s, f\<lparr>fbuf := rest\<rparr>)"
    using get_struct_bytes [of f "[QInt32 (int_level s), QInt32 (pending_count s),
       QInt32 (irq_enabled s), QInt32 (fiq_enabled s)]" rest]
    by (simp add: goldfish_int_load_def goldfish_int_fields_def int_enc_def int_restore_def)
qed (simp_all add: goldfish_int_save_def int_enc_def codec_put goldfish_int_load_def)

end
