(* ===== verification/Goldfish_Bus.thy ===== *)
theory Goldfish_Bus
  imports Guest_Memory Goldfish_Int
begin

unbundle bit_operations_syntax

text \<open>
  The goldfish device bus (hw/android/goldfish/device.c): the list of platform devices, the
  allocation of their I/O ranges and interrupt numbers, and the registers the guest enumerates
  them with.

  The linked list \<open>first_device\<close>/\<open>next\<close> is a list in order of insertion and \<open>current\<close> an index
  into it. The operations of the bus return the levels assigned to the bus' own interrupt line.
  The model is the ARM configuration: no reserved interrupt numbers, \<open>GFD_MAX_IRQ\<close> is 32 and
  \<open>target_ulong\<close> has 32 bits.
\<close>

section \<open>State and operations\<close>

definition PDEV_BUS_OP_DONE :: u32 where [dev_defs]: "PDEV_BUS_OP_DONE = 0x00"
definition PDEV_BUS_OP_ADD_DEV :: u32 where [dev_defs]: "PDEV_BUS_OP_ADD_DEV = 0x08"
definition PDEV_BUS_OP_INIT :: u32 where [dev_defs]: "PDEV_BUS_OP_INIT = 0x00"
definition PDEV_BUS_OP :: u64 where [dev_defs]: "PDEV_BUS_OP = 0x00"
definition PDEV_BUS_GET_NAME :: u64 where [dev_defs]: "PDEV_BUS_GET_NAME = 0x04"
definition PDEV_BUS_NAME_LEN :: u64 where [dev_defs]: "PDEV_BUS_NAME_LEN = 0x08"
definition PDEV_BUS_ID :: u64 where [dev_defs]: "PDEV_BUS_ID = 0x0c"
definition PDEV_BUS_IO_BASE :: u64 where [dev_defs]: "PDEV_BUS_IO_BASE = 0x10"
definition PDEV_BUS_IO_SIZE :: u64 where [dev_defs]: "PDEV_BUS_IO_SIZE = 0x14"
definition PDEV_BUS_IRQ :: u64 where [dev_defs]: "PDEV_BUS_IRQ = 0x18"
definition PDEV_BUS_IRQ_COUNT :: u64 where [dev_defs]: "PDEV_BUS_IRQ_COUNT = 0x1c"
definition PDEV_BUS_NAME_ADDR_HIGH :: u64 where [dev_defs]: "PDEV_BUS_NAME_ADDR_HIGH = 0x20"

record goldfish_device =
  reported_state :: u32
  dev_name :: bytes
  dev_id :: u32
  dev_base :: u32
  dev_size :: u32
  dev_irq :: u32
  dev_irq_count :: u32

record bus_state =
  devices :: "goldfish_device list"
  bus_current :: "nat option"
  name_addr_high :: u64
  goldfish_free_base :: u32
  goldfish_free_irq :: u32
  goldfish_64bit_guest :: bool

definition goldfish_device_init :: "u32 \<Rightarrow> u32 \<Rightarrow> bus_state" where
  "goldfish_device_init base irq =
     \<lparr>devices = [], bus_current = None, name_addr_high = 0, goldfish_free_base = base,
      goldfish_free_irq = irq, goldfish_64bit_guest = False\<rparr>"

text \<open>\<open>pic\<close> is the array of lines of the interrupt controller, \<open>st\<close> the controller's state.\<close>

definition goldfish_device_set_irq ::
    "'st qemu_irq list \<Rightarrow> goldfish_device \<Rightarrow> nat \<Rightarrow> bool \<Rightarrow> 'st \<Rightarrow> 'st outcome" where
  "goldfish_device_set_irq pic dev irq level st =
     (if irq \<ge> unat (dev_irq_count dev) then Inl Cpu_abort
      else (let n = unat (dev_irq dev + of_nat irq) in
            if n < length pic then qemu_set_irq (pic ! n) level st else Inl Undefined_behaviour))"

definition goldfish_add_device_no_io :: "goldfish_device \<Rightarrow> bus_state \<Rightarrow> bus_state outcome" where
  "goldfish_add_device_no_io dev b =
     (let (dev1, b1) =
            (if dev_base dev = 0 then
               (dev\<lparr>dev_base := goldfish_free_base b\<rparr>,
                b\<lparr>goldfish_free_base := goldfish_free_base b + dev_size dev\<rparr>)
             else (dev, b));
          (dev2, b2, over) =
            (if dev_irq dev1 = 0 \<and> dev_irq_count dev1 > 0 then
               (let free = goldfish_free_irq b1 + dev_irq_count dev1
                in (dev1\<lparr>dev_irq := goldfish_free_irq b1\<rparr>, b1\<lparr>goldfish_free_irq := free\<rparr>,
                    unat free \<ge> GFD_MAX_IRQ))
             else (dev1, b1, False))
      in if over then Inl Process_exit else Inr (b2\<lparr>devices := devices b2 @ [dev2]\<rparr>))"

text \<open>
  The bus itself is a device of the list; its record has \<open>irq_count\<close> 1, so driving its line 0
  never aborts.
\<close>

definition goldfish_bus_dev :: "u32 \<Rightarrow> u32 \<Rightarrow> goldfish_device" where
  "goldfish_bus_dev base irq =
     \<lparr>reported_state = 0, dev_name = map (of_nat \<circ> of_char) ''goldfish_device_bus'', dev_id = -1,
      dev_base = base, dev_size = 0x1000, dev_irq = irq, dev_irq_count = 1\<rparr>"

definition goldfish_device_bus_init :: "u32 \<Rightarrow> u32 \<Rightarrow> bus_state \<Rightarrow> bus_state outcome" where
  "goldfish_device_bus_init base irq b = goldfish_add_device_no_io (goldfish_bus_dev base irq) b"

text \<open>The loop that skips the devices already reported.\<close>

function bus_skip_reported :: "goldfish_device list \<Rightarrow> nat \<Rightarrow> nat option" where
  "bus_skip_reported devs i =
     (if i < length devs then
        (if reported_state (devs ! i) = 1 then bus_skip_reported devs (i + 1) else Some i)
      else None)"
  by pat_completeness auto
termination
  by (relation "measure (\<lambda>(devs, i). length devs - i)") auto

declare bus_skip_reported.simps [simp del]

definition bus_next_device :: "bus_state \<Rightarrow> bus_state" where
  "bus_next_device b =
     (case bus_current b of
        Some i \<Rightarrow>
          (let devs = (devices b)[i := (devices b ! i)\<lparr>reported_state := 1\<rparr>]
           in b\<lparr>devices := devs, bus_current := bus_skip_reported devs (i + 1)\<rparr>)
      | None \<Rightarrow> b\<lparr>bus_current := bus_skip_reported (devices b) 0\<rparr>)"

definition bus_current_field :: "bus_state \<Rightarrow> (goldfish_device \<Rightarrow> u32) \<Rightarrow> u32" where
  "bus_current_field b field =
     (case bus_current b of None \<Rightarrow> 0 | Some i \<Rightarrow> field (devices b ! i))"

definition goldfish_bus_read :: "bus_state \<Rightarrow> u64 \<Rightarrow> (u32 \<times> bus_state \<times> bool list) outcome" where
  "goldfish_bus_read b offset =
     (if offset = PDEV_BUS_OP then
        (let b1 = bus_next_device b
         in if bus_current b1 \<noteq> None then Inr (PDEV_BUS_OP_ADD_DEV, b1, [])
            else Inr (PDEV_BUS_OP_DONE, b1, [False]))
      else if offset = PDEV_BUS_NAME_LEN then
        Inr (bus_current_field b (\<lambda>d. of_nat (length (dev_name d))), b, [])
      else if offset = PDEV_BUS_ID then Inr (bus_current_field b dev_id, b, [])
      else if offset = PDEV_BUS_IO_BASE then Inr (bus_current_field b dev_base, b, [])
      else if offset = PDEV_BUS_IO_SIZE then Inr (bus_current_field b dev_size, b, [])
      else if offset = PDEV_BUS_IRQ then Inr (bus_current_field b dev_irq, b, [])
      else if offset = PDEV_BUS_IRQ_COUNT then Inr (bus_current_field b dev_irq_count, b, [])
      else Inl Cpu_abort)"

definition goldfish_bus_op_init :: "bus_state \<Rightarrow> bus_state \<times> bool list" where
  "goldfish_bus_op_init b =
     (b\<lparr>devices := map (\<lambda>d. d\<lparr>reported_state := 0\<rparr>) (devices b), bus_current := None\<rparr>,
      [devices b \<noteq> []])"

definition goldfish_bus_write ::
    "vtop \<Rightarrow> ram \<Rightarrow> bus_state \<Rightarrow> u64 \<Rightarrow> u32 \<Rightarrow> (ram \<times> bus_state \<times> bool list) outcome" where
  "goldfish_bus_write tr m b offset value =
     (if offset = PDEV_BUS_OP then
        (if value = PDEV_BUS_OP_INIT then
           (let (b', ls) = goldfish_bus_op_init b in Inr (m, b', ls))
         else Inl Cpu_abort)
      else if offset = PDEV_BUS_GET_NAME then
        (case bus_current b of
           None \<Rightarrow> Inr (m, b, [])
         | Some i \<Rightarrow>
             (let name = ucast (name_addr_high b OR ucast value)
              in Inr (safe_memory_write tr m name (dev_name (devices b ! i)), b, [])))
      else if offset = PDEV_BUS_NAME_ADDR_HIGH then
        Inr (m, b\<lparr>name_addr_high := push_bit 32 (ucast value), goldfish_64bit_guest := True\<rparr>, [])
      else Inl Cpu_abort)"

section \<open>Enumeration\<close>

text \<open>
  The guest's side of the protocol: read \<open>PDEV_BUS_OP\<close> until it returns \<open>PDEV_BUS_OP_DONE\<close>, at most
  the given number of times, and note the device that is current after each
  \<open>PDEV_BUS_OP_ADD_DEV\<close>.
\<close>

fun bus_enumerate ::
    "nat \<Rightarrow> bus_state \<Rightarrow> (goldfish_device list \<times> bus_state \<times> bool list) outcome" where
  "bus_enumerate 0 b = Inr ([], b, [])"
| "bus_enumerate (Suc n) b =
     (case goldfish_bus_read b PDEV_BUS_OP of
        Inl e \<Rightarrow> Inl e
      | Inr (v, b1, ls) \<Rightarrow>
          if v = PDEV_BUS_OP_ADD_DEV then
            (case bus_enumerate n b1 of
               Inl e \<Rightarrow> Inl e
             | Inr (ds, b2, ls2) \<Rightarrow>
                 Inr (devices b1 ! the (bus_current b1) # ds, b2, ls @ ls2))
          else Inr ([], b1, ls))"

definition unreported :: "goldfish_device \<Rightarrow> goldfish_device" where
  "unreported d = d\<lparr>reported_state := 0\<rparr>"

text \<open>The device list when the first \<open>k\<close> devices have been reported.\<close>

definition bus_reported :: "nat \<Rightarrow> goldfish_device list \<Rightarrow> goldfish_device list" where
  "bus_reported k ds =
     map (\<lambda>j. (ds ! j)\<lparr>reported_state := (if j < k then 1 else 0)\<rparr>) [0..<length ds]"

lemma length_bus_reported [simp]: "length (bus_reported k ds) = length ds"
  by (simp add: bus_reported_def)

lemma nth_bus_reported [simp]:
  "j < length ds \<Longrightarrow> bus_reported k ds ! j = (ds ! j)\<lparr>reported_state := (if j < k then 1 else 0)\<rparr>"
  by (simp add: bus_reported_def)

lemma bus_reported_0: "map (\<lambda>d. d\<lparr>reported_state := 0\<rparr>) ds = bus_reported 0 ds"
  by (rule nth_equalityI) auto

lemma bus_reported_update:
  "k < length ds \<Longrightarrow>
   (bus_reported k ds)[k := (bus_reported k ds ! k)\<lparr>reported_state := 1\<rparr>] = bus_reported (Suc k) ds"
  by (rule nth_equalityI) (auto simp: nth_list_update less_Suc_eq)

lemma bus_skip_here:
  "i < length ds \<Longrightarrow> k \<le> i \<Longrightarrow> bus_skip_reported (bus_reported k ds) i = Some i"
  by (simp add: bus_skip_reported.simps)

lemma bus_skip_all: "bus_skip_reported (bus_reported (length ds) ds) i = None"
proof (induction "length ds - i" arbitrary: i)
  case 0
  then show ?case by (simp add: bus_skip_reported.simps)
next
  case (Suc n)
  then have "bus_skip_reported (bus_reported (length ds) ds) (i + 1) = None"
    by (intro Suc.hyps(1)) arith
  then show ?case by (simp add: bus_skip_reported.simps [of _ i])
qed

lemma bus_read_op_more:
  "Suc k < length ds \<Longrightarrow>
   goldfish_bus_read (b\<lparr>devices := bus_reported k ds, bus_current := Some k\<rparr>) PDEV_BUS_OP =
   Inr (PDEV_BUS_OP_ADD_DEV,
     b\<lparr>devices := bus_reported (Suc k) ds, bus_current := Some (Suc k)\<rparr>, [])"
  by (simp add: goldfish_bus_read_def bus_next_device_def bus_reported_update bus_skip_here
      del: nth_bus_reported)

lemma bus_read_op_last:
  "Suc k = length ds \<Longrightarrow>
   goldfish_bus_read (b\<lparr>devices := bus_reported k ds, bus_current := Some k\<rparr>) PDEV_BUS_OP =
   Inr (PDEV_BUS_OP_DONE,
     b\<lparr>devices := bus_reported (length ds) ds, bus_current := None\<rparr>, [False])"
  by (simp add: goldfish_bus_read_def bus_next_device_def bus_reported_update bus_skip_all
      del: nth_bus_reported)

lemma bus_enumerate_from:
  "k < length ds \<Longrightarrow> n + k \<ge> length ds \<Longrightarrow>
   bus_enumerate n (b\<lparr>devices := bus_reported k ds, bus_current := Some k\<rparr>) =
   Inr (map unreported (drop (Suc k) ds),
     b\<lparr>devices := bus_reported (length ds) ds, bus_current := None\<rparr>, [False])"
proof (induction n arbitrary: k)
  case (Suc n)
  show ?case
  proof (cases "Suc k < length ds")
    case True
    with Suc show ?thesis
      by (simp add: bus_read_op_more Cons_nth_drop_Suc [symmetric] unreported_def)
  next
    case False
    with Suc.prems have "Suc k = length ds" by simp
    from bus_read_op_last [OF this, of b] this show ?thesis
      by (simp add: PDEV_BUS_OP_DONE_def PDEV_BUS_OP_ADD_DEV_def)
  qed
qed simp

text \<open>
  C11: Once the guest has written \<open>PDEV_BUS_OP_INIT\<close>, reading \<open>PDEV_BUS_OP\<close> reports every device of
  the bus exactly once, in the order the devices were added, and then returns
  \<open>PDEV_BUS_OP_DONE\<close>; the bus interrupt, raised by the initialisation when there is a device, is
  lowered at the end, and further reads keep returning \<open>PDEV_BUS_OP_DONE\<close>.
\<close>

theorem bus_enumeration_complete:
  fixes b :: bus_state
  defines "ds \<equiv> devices b"
  shows "\<exists>b0 b'. goldfish_bus_write tr m b PDEV_BUS_OP PDEV_BUS_OP_INIT = Inr (m, b0, [ds \<noteq> []]) \<and>
    bus_enumerate (length ds + 1) b0 = Inr (map unreported ds, b', [False]) \<and>
    goldfish_bus_read b' PDEV_BUS_OP = Inr (PDEV_BUS_OP_DONE, b', [False])"
proof -
  define b0 where "b0 = b\<lparr>devices := bus_reported 0 ds, bus_current := None\<rparr>"
  define b' where "b' = b\<lparr>devices := bus_reported (length ds) ds, bus_current := None\<rparr>"
  have "goldfish_bus_write tr m b PDEV_BUS_OP PDEV_BUS_OP_INIT = Inr (m, b0, [ds \<noteq> []])"
    by (simp add: goldfish_bus_write_def goldfish_bus_op_init_def b0_def ds_def bus_reported_0)
  moreover have "bus_enumerate (length ds + 1) b0 = Inr (map unreported ds, b', [False])"
  proof (cases ds)
    case Nil
    then show ?thesis
      by (simp add: b0_def b'_def goldfish_bus_read_def bus_next_device_def
          bus_skip_reported.simps dev_defs bus_reported_def)
  next
    case (Cons d rest)
    then have "0 < length ds" by simp
    then have "goldfish_bus_read b0 PDEV_BUS_OP = Inr (PDEV_BUS_OP_ADD_DEV,
        b\<lparr>devices := bus_reported 0 ds, bus_current := Some 0\<rparr>, [])"
      by (simp add: goldfish_bus_read_def bus_next_device_def b0_def bus_skip_here
          del: length_greater_0_conv)
    with bus_enumerate_from [of 0 ds "length ds" b] \<open>0 < length ds\<close> show ?thesis
      by (simp add: b'_def Cons unreported_def)
  qed
  moreover have "goldfish_bus_read b' PDEV_BUS_OP = Inr (PDEV_BUS_OP_DONE, b', [False])"
    by (simp add: goldfish_bus_read_def bus_next_device_def b'_def bus_skip_all)
  ultimately show ?thesis by blast
qed

section \<open>Allocation of addresses and interrupts\<close>

fun bus_add_all :: "goldfish_device list \<Rightarrow> bus_state \<Rightarrow> bus_state outcome" where
  "bus_add_all [] b = Inr b"
| "bus_add_all (d # ds) b =
     (case goldfish_add_device_no_io d b of Inl e \<Rightarrow> Inl e | Inr b' \<Rightarrow> bus_add_all ds b')"

definition dev_auto :: "goldfish_device \<Rightarrow> bool" where
  "dev_auto d \<longleftrightarrow> dev_base d = 0 \<and> dev_irq d = 0 \<and> 0 < dev_irq_count d \<and> unat (dev_irq_count d) \<le> 32"

text \<open>Consecutive I/O ranges and interrupt numbers, from the given start.\<close>

fun bus_layout :: "nat \<Rightarrow> nat \<Rightarrow> goldfish_device list \<Rightarrow> bool" where
  "bus_layout base irq [] \<longleftrightarrow> irq < GFD_MAX_IRQ"
| "bus_layout base irq (d # ds) \<longleftrightarrow>
     unat (dev_base d) = base \<and> unat (dev_irq d) = irq \<and>
     bus_layout (base + unat (dev_size d)) (irq + unat (dev_irq_count d)) ds"

lemma bus_layout_nth:
  "bus_layout base irq ds \<Longrightarrow> j < length ds \<Longrightarrow>
   base \<le> unat (dev_base (ds ! j)) \<and> irq \<le> unat (dev_irq (ds ! j)) \<and>
   unat (dev_irq (ds ! j)) + unat (dev_irq_count (ds ! j)) < GFD_MAX_IRQ"
proof (induction ds arbitrary: base irq j)
  case (Cons d ds)
  have irq: "irq' < GFD_MAX_IRQ" if "bus_layout base' irq' ds'" for base' irq' ds'
    using that by (induction ds' arbitrary: base' irq') (auto, fastforce)
  show ?case
  proof (cases j)
    case 0
    with Cons.prems irq show ?thesis by auto
  next
    case (Suc k)
    with Cons.prems Cons.IH [of "base + unat (dev_size d)" "irq + unat (dev_irq_count d)" k]
    show ?thesis by auto
  qed
qed simp

lemma bus_layout_ordered:
  "bus_layout base irq ds \<Longrightarrow> i < j \<Longrightarrow> j < length ds \<Longrightarrow>
   unat (dev_base (ds ! i)) + unat (dev_size (ds ! i)) \<le> unat (dev_base (ds ! j)) \<and>
   unat (dev_irq (ds ! i)) + unat (dev_irq_count (ds ! i)) \<le> unat (dev_irq (ds ! j))"
proof (induction ds arbitrary: base irq i j)
  case (Cons d ds)
  then obtain j' where j: "j = Suc j'" "j' < length ds" by (cases j) auto
  show ?case
  proof (cases i)
    case 0
    with Cons.prems j bus_layout_nth [of "base + unat (dev_size d)" "irq + unat (dev_irq_count d)" ds j']
    show ?thesis by auto
  next
    case (Suc i')
    with Cons.prems j show ?thesis
      using Cons.IH [of "base + unat (dev_size d)" "irq + unat (dev_irq_count d)" i' j'] by auto
  qed
qed simp

lemma bus_add_auto:
  assumes "goldfish_add_device_no_io d b = Inr b'" "dev_auto d"
    and "unat (goldfish_free_base b) + unat (dev_size d) < 2 ^ 32"
    and "unat (goldfish_free_irq b) < GFD_MAX_IRQ"
  shows "devices b' = devices b @ [d\<lparr>dev_base := goldfish_free_base b, dev_irq := goldfish_free_irq b\<rparr>]"
    and "unat (goldfish_free_base b') = unat (goldfish_free_base b) + unat (dev_size d)"
    and "unat (goldfish_free_irq b') = unat (goldfish_free_irq b) + unat (dev_irq_count d)"
    and "unat (goldfish_free_irq b') < GFD_MAX_IRQ"
proof -
  have base: "unat (goldfish_free_base b + dev_size d) = unat (goldfish_free_base b) + unat (dev_size d)"
    using assms(3) by (simp add: unat_word_ariths)
  have irq: "unat (goldfish_free_irq b + dev_irq_count d)
      = unat (goldfish_free_irq b) + unat (dev_irq_count d)"
    using assms(2,4) by (simp add: unat_word_ariths dev_auto_def GFD_MAX_IRQ_def)
  have b': "b' = b\<lparr>devices := devices b @ [d\<lparr>dev_base := goldfish_free_base b, dev_irq := goldfish_free_irq b\<rparr>],
      goldfish_free_base := goldfish_free_base b + dev_size d,
      goldfish_free_irq := goldfish_free_irq b + dev_irq_count d\<rparr>"
    and le: "unat (goldfish_free_irq b + dev_irq_count d) < GFD_MAX_IRQ"
    using assms(1,2)
    by (auto simp: goldfish_add_device_no_io_def dev_auto_def Let_def split: if_split_asm)
  from b' base irq le
  show "devices b' = devices b @ [d\<lparr>dev_base := goldfish_free_base b, dev_irq := goldfish_free_irq b\<rparr>]"
    and "unat (goldfish_free_base b') = unat (goldfish_free_base b) + unat (dev_size d)"
    and "unat (goldfish_free_irq b') = unat (goldfish_free_irq b) + unat (dev_irq_count d)"
    and "unat (goldfish_free_irq b') < GFD_MAX_IRQ"
    by simp_all
qed

lemma bus_add_all_layout:
  assumes "bus_add_all ds b = Inr b'" "list_all dev_auto ds"
    and "unat (goldfish_free_base b) + sum_list (map (unat \<circ> dev_size) ds) < 2 ^ 32"
    and "unat (goldfish_free_irq b) < GFD_MAX_IRQ"
  shows "\<exists>news. devices b' = devices b @ news \<and> map dev_name news = map dev_name ds \<and>
    bus_layout (unat (goldfish_free_base b)) (unat (goldfish_free_irq b)) news"
  using assms
proof (induction ds arbitrary: b)
  case (Cons d ds)
  then obtain b1 where b1: "goldfish_add_device_no_io d b = Inr b1" "bus_add_all ds b1 = Inr b'"
    by (auto split: sum.splits)
  let ?d = "d\<lparr>dev_base := goldfish_free_base b, dev_irq := goldfish_free_irq b\<rparr>"
  have d: "dev_auto d" "unat (goldfish_free_base b) + unat (dev_size d) < 2 ^ 32"
    using Cons.prems by auto
  note add = bus_add_auto [OF b1(1) d Cons.prems(4)]
  from Cons.IH [OF b1(2)] Cons.prems add obtain news where
    "devices b' = devices b1 @ news" "map dev_name news = map dev_name ds"
    "bus_layout (unat (goldfish_free_base b1)) (unat (goldfish_free_irq b1)) news"
    by auto
  then show ?case using add by (intro exI [of _ "?d # news"]) auto
qed auto

text \<open>
  C21: Devices registered without a fixed address and interrupt number get I/O ranges and
  interrupt ranges that do not overlap, in the order of registration, with every interrupt number
  below the number of lines of the controller, provided the ranges fit in the 32-bit space; so
  any line such a device may drive is a line of the controller and driving it does not fault.
\<close>

theorem bus_allocation_disjoint:
  assumes "bus_add_all ds b = Inr b'" "list_all dev_auto ds"
    and "unat (goldfish_free_base b) + sum_list (map (unat \<circ> dev_size) ds) < 2 ^ 32"
    and "unat (goldfish_free_irq b) < GFD_MAX_IRQ"
  shows "\<exists>news. devices b' = devices b @ news \<and> map dev_name news = map dev_name ds \<and>
    (\<forall>i j. i < j \<and> j < length news \<longrightarrow>
       unat (dev_base (news ! i)) + unat (dev_size (news ! i)) \<le> unat (dev_base (news ! j)) \<and>
       unat (dev_irq (news ! i)) + unat (dev_irq_count (news ! i)) \<le> unat (dev_irq (news ! j))) \<and>
    (\<forall>j k l st. j < length news \<and> k < unat (dev_irq_count (news ! j)) \<longrightarrow>
       (\<exists>st'. goldfish_device_set_irq goldfish_int_lines (news ! j) k l st = Inr st'))"
proof -
  from bus_add_all_layout [OF assms] obtain news where news:
    "devices b' = devices b @ news" "map dev_name news = map dev_name ds"
    "bus_layout (unat (goldfish_free_base b)) (unat (goldfish_free_irq b)) news"
    by blast
  have "\<exists>st'. goldfish_device_set_irq goldfish_int_lines (news ! j) k l st = Inr st'"
    if j: "j < length news" "k < unat (dev_irq_count (news ! j))" for j k l st
  proof -
    have lt: "unat (dev_irq (news ! j)) + k < 32"
      using bus_layout_nth [OF news(3) j(1)] j(2) by (simp add: GFD_MAX_IRQ_def)
    then have "unat (dev_irq (news ! j) + of_nat k) = unat (dev_irq (news ! j)) + k"
      by (simp add: unat_word_ariths unat_of_nat)
    with j(2) lt show ?thesis
      by (simp add: goldfish_device_set_irq_def goldfish_int_lines_def qemu_set_irq_def
          goldfish_int_set_irq_def GFD_MAX_IRQ_def Let_def)
  qed
  with news bus_layout_ordered [OF news(3)] show ?thesis by blast
qed

definition bus_witness_dev :: "bytes \<Rightarrow> u32 \<Rightarrow> goldfish_device" where
  "bus_witness_dev name n =
     \<lparr>reported_state = 0, dev_name = name, dev_id = 0, dev_base = 0, dev_size = 0x1000,
      dev_irq = 0, dev_irq_count = n\<rparr>"

theorem bus_allocation_disjoint_witness:
  "\<exists>b' news. bus_add_all [bus_witness_dev [1] 1, bus_witness_dev [2] 2]
       (goldfish_device_init 0x10000000 10) = Inr b' \<and> devices b' = news \<and> length news = 2 \<and>
     unat (dev_base (news ! 0)) + unat (dev_size (news ! 0)) \<le> unat (dev_base (news ! 1))"
proof -
  let ?ds = "[bus_witness_dev [1] 1, bus_witness_dev [2] 2]"
  let ?b = "goldfish_device_init 0x10000000 10"
  obtain b' where b': "bus_add_all ?ds ?b = Inr b'"
    by (simp add: goldfish_add_device_no_io_def bus_witness_dev_def goldfish_device_init_def
        GFD_MAX_IRQ_def)
  have pre: "list_all dev_auto ?ds"
    "unat (goldfish_free_base ?b) + sum_list (map (unat \<circ> dev_size) ?ds) < 2 ^ 32"
    "unat (goldfish_free_irq ?b) < GFD_MAX_IRQ"
    by (simp_all add: dev_auto_def bus_witness_dev_def goldfish_device_init_def GFD_MAX_IRQ_def)
  from bus_allocation_disjoint [OF b' pre] obtain news where n: "devices b' = devices ?b @ news"
    "map dev_name news = map dev_name ?ds"
    "\<forall>i j. i < j \<and> j < length news \<longrightarrow>
       unat (dev_base (news ! i)) + unat (dev_size (news ! i)) \<le> unat (dev_base (news ! j)) \<and>
       unat (dev_irq (news ! i)) + unat (dev_irq_count (news ! i)) \<le> unat (dev_irq (news ! j))"
    by blast
  have l: "length news = 2" using arg_cong [OF n(2), of length] by simp
  have "devices b' = news" using n(1) by (simp add: goldfish_device_init_def)
  with b' l n(3) [rule_format, of 0 1] show ?thesis by auto
qed

end
