(* ===== verification/Goldfish_Timer.thy ===== *)
theory Goldfish_Timer
  imports Qemu_File Irq
begin

unbundle bit_operations_syntax

text \<open>
  The goldfish timer and real-time clock (hw/android/goldfish/timer.c).

  The virtual clock is an argument of the operations that read it. The \<open>QEMUTimer\<close> is its
  deadline, \<open>None\<close> when it is not pending. \<open>int64_t\<close> values are 64-bit words read with \<open>sint\<close>;
  differences and sums of times are taken modulo \<open>2^64\<close>.
\<close>

section \<open>The timer\<close>

definition TIMER_TIME_LOW :: u64 where [dev_defs]: "TIMER_TIME_LOW = 0x00"
definition TIMER_TIME_HIGH :: u64 where [dev_defs]: "TIMER_TIME_HIGH = 0x04"
definition TIMER_ALARM_LOW :: u64 where [dev_defs]: "TIMER_ALARM_LOW = 0x08"
definition TIMER_ALARM_HIGH :: u64 where [dev_defs]: "TIMER_ALARM_HIGH = 0x0c"
definition TIMER_CLEAR_INTERRUPT :: u64 where [dev_defs]: "TIMER_CLEAR_INTERRUPT = 0x10"
definition TIMER_CLEAR_ALARM :: u64 where [dev_defs]: "TIMER_CLEAR_ALARM = 0x14"

record timer_state =
  alarm_low_ns :: u32
  alarm_high_ns :: u32
  now_ns :: u64
  armed :: u32
  qtimer :: "u64 option"

definition timer_state_init :: timer_state where
  "timer_state_init =
     \<lparr>alarm_low_ns = 0, alarm_high_ns = 0, now_ns = 0, armed = 0, qtimer = None\<rparr>"

text \<open>\<open>s->alarm_low_ns | (int64_t)s->alarm_high_ns << 32\<close>\<close>

definition timer_alarm :: "timer_state \<Rightarrow> u64" where
  "timer_alarm s = ucast (alarm_low_ns s) OR push_bit 32 (ucast (alarm_high_ns s))"

definition goldfish_timer_save :: "u64 \<Rightarrow> QEMUFile \<Rightarrow> timer_state \<Rightarrow> QEMUFile" where
  "goldfish_timer_save clock f s =
     (let f1 = qemu_put_byte (qemu_put_be64 f (now_ns s)) (armed s)
      in if armed s \<noteq> 0 then qemu_put_be64 f1 (timer_alarm s - clock) else f1)"

definition goldfish_timer_load ::
    "u64 \<Rightarrow> QEMUFile \<Rightarrow> timer_state \<Rightarrow> int \<Rightarrow> int \<times> timer_state \<times> bool list \<times> QEMUFile" where
  "goldfish_timer_load clock f s version_id =
     (if version_id \<noteq> 1 then (-1, s, [], f)
      else
        (let (now, f1) = qemu_get_be64 f;
             (arm, f2) = qemu_get_byte f1;
             s1 = s\<lparr>now_ns := now, armed := arm\<rparr>
         in if arm \<noteq> 0 then
              (let (diff_tks, f3) = qemu_get_be64 f2;
                   alarm_tks = clock + diff_tks
               in if sint alarm_tks \<le> sint clock then (0, s1\<lparr>armed := 0\<rparr>, [True], f3)
                  else (0, s1\<lparr>qtimer := Some alarm_tks\<rparr>, [], f3))
            else (0, s1, [], f2)))"

definition goldfish_timer_read :: "u64 \<Rightarrow> timer_state \<Rightarrow> u64 \<Rightarrow> (u32 \<times> timer_state) outcome" where
  "goldfish_timer_read clock s offset =
     (if offset = TIMER_TIME_LOW then Inr (ucast clock, s\<lparr>now_ns := clock\<rparr>)
      else if offset = TIMER_TIME_HIGH then Inr (ucast (signed_drop_bit 32 (now_ns s)), s)
      else Inl Cpu_abort)"

definition goldfish_timer_write ::
    "u64 \<Rightarrow> timer_state \<Rightarrow> u64 \<Rightarrow> u32 \<Rightarrow> (timer_state \<times> bool list) outcome" where
  "goldfish_timer_write clock s offset value_ns =
     (if offset = TIMER_ALARM_LOW then
        (let s1 = s\<lparr>alarm_low_ns := value_ns\<rparr>;
             alarm_ns = timer_alarm s1
         in if sint alarm_ns \<le> sint clock then Inr (s1, [True])
            else Inr (s1\<lparr>qtimer := Some alarm_ns, armed := 1\<rparr>, []))
      else if offset = TIMER_ALARM_HIGH then Inr (s\<lparr>alarm_high_ns := value_ns\<rparr>, [])
      else if offset = TIMER_CLEAR_ALARM then Inr (s\<lparr>qtimer := None, armed := 0\<rparr>, [False])
      else if offset = TIMER_CLEAR_INTERRUPT then Inr (s, [False])
      else Inl Cpu_abort)"

definition goldfish_timer_tick :: "timer_state \<Rightarrow> timer_state \<times> bool list" where
  "goldfish_timer_tick s = (s\<lparr>armed := 0\<rparr>, [True])"

text \<open>
  The timer list of the virtual clock: a pending timer whose deadline has passed is removed from
  the list and its callback runs.
\<close>

definition timer_expire :: "u64 \<Rightarrow> timer_state \<Rightarrow> timer_state \<times> bool list" where
  "timer_expire clock s =
     (case qtimer s of
        None \<Rightarrow> (s, [])
      | Some d \<Rightarrow>
          if sint d \<le> sint clock then goldfish_timer_tick (s\<lparr>qtimer := None\<rparr>) else (s, []))"

section \<open>The real-time clock\<close>

record rtc_state =
  alarm_low :: u32
  alarm_high :: u32
  rtc_now :: u64

definition goldfish_rtc_save :: "QEMUFile \<Rightarrow> rtc_state \<Rightarrow> QEMUFile" where
  "goldfish_rtc_save f s = qemu_put_be64 f (rtc_now s)"

definition goldfish_rtc_load ::
    "QEMUFile \<Rightarrow> rtc_state \<Rightarrow> int \<Rightarrow> int \<times> rtc_state \<times> QEMUFile" where
  "goldfish_rtc_load f s version_id =
     (if version_id \<noteq> 1 then (-1, s, f)
      else (let (v, f1) = qemu_get_be64 f in (0, s\<lparr>rtc_now := v\<rparr>, f1)))"

text \<open>\<open>seconds\<close> is the value of \<open>time(NULL)\<close>.\<close>

definition goldfish_rtc_read :: "u64 \<Rightarrow> rtc_state \<Rightarrow> u64 \<Rightarrow> (u32 \<times> rtc_state) outcome" where
  "goldfish_rtc_read seconds s offset =
     (if offset = 0x0 then
        (let v = seconds * 1000000000 in Inr (ucast v, s\<lparr>rtc_now := v\<rparr>))
      else if offset = 0x4 then Inr (ucast (signed_drop_bit 32 (rtc_now s)), s)
      else Inl Cpu_abort)"

definition goldfish_rtc_write ::
    "rtc_state \<Rightarrow> u64 \<Rightarrow> u32 \<Rightarrow> (rtc_state \<times> bool list) outcome" where
  "goldfish_rtc_write s offset value =
     (if offset = 0x8 then Inr (s\<lparr>alarm_low := value\<rparr>, [])
      else if offset = 0xc then Inr (s\<lparr>alarm_high := value\<rparr>, [])
      else if offset = 0x10 then Inr (s, [False])
      else Inl Cpu_abort)"

section \<open>Reading a 64-bit time\<close>

lemma ucast_signed_high: "(ucast (signed_drop_bit 32 (v::u64)) :: u32) = ucast (drop_bit 32 v)"
  by (rule bit_word_eqI) (auto simp: bit_simps)

lemma join_halves: "push_bit 32 (ucast (ucast (signed_drop_bit 32 v) :: u32)) OR
    ucast (ucast v :: u32) = (v :: u64)"
  by (simp only: ucast_signed_high be64_join)

section \<open>The pending alarm\<close>

text \<open>
  The invariant of a timer that has not been restored from a snapshot: \<open>armed\<close> is 1 exactly while
  the host timer is pending.
\<close>

definition timer_inv :: "timer_state \<Rightarrow> bool" where
  "timer_inv s \<longleftrightarrow> armed s = (if qtimer s = None then 0 else 1)"

datatype timer_event = Timer_read u64 | Timer_write u64 u32 | Timer_expire

definition timer_step :: "u64 \<Rightarrow> timer_event \<Rightarrow> timer_state \<Rightarrow> (timer_state \<times> bool list) outcome" where
  "timer_step clock ev s =
     (case ev of
        Timer_read offset \<Rightarrow>
          (case goldfish_timer_read clock s offset of Inl e \<Rightarrow> Inl e | Inr (v, s') \<Rightarrow> Inr (s', []))
      | Timer_write offset value \<Rightarrow> goldfish_timer_write clock s offset value
      | Timer_expire \<Rightarrow> Inr (timer_expire clock s))"

lemmas timer_defs = goldfish_timer_read_def goldfish_timer_write_def timer_expire_def
  goldfish_timer_tick_def timer_step_def Let_def

lemma timer_step_inv: "timer_inv s \<Longrightarrow> timer_step clock ev s = Inr (s', ls) \<Longrightarrow> timer_inv s'"
  by (cases ev) (auto simp: timer_defs timer_inv_def split: if_splits option.splits)

text \<open>
  The guest reads a 64-bit time with two 32-bit reads. Whatever the clock does between them,
  the two halves belong together: joined they are the virtual clock at the moment of the
  \<open>TIMER_TIME_LOW\<close> read.
\<close>

lemma timer_time_read_consistent:
  "\<exists>lo hi s1. goldfish_timer_read clock1 s TIMER_TIME_LOW = Inr (lo, s1) \<and>
     goldfish_timer_read clock2 s1 TIMER_TIME_HIGH = Inr (hi, s1) \<and>
     push_bit 32 (ucast hi) OR ucast lo = clock1"
  by (simp add: goldfish_timer_read_def dev_defs join_halves)

text \<open>
  C23: Programming an alarm (high half, then low half) loses no alarm: a time that has already
  passed raises the interrupt at once; otherwise the host timer is pending at exactly this time,
  it leaves the line alone at every earlier clock value, and at any later one it raises the
  interrupt and disarms the timer.
\<close>

theorem timer_alarm_not_lost:
  fixes lo hi :: u32
  defines "alarm \<equiv> ucast lo OR push_bit 32 (ucast hi) :: u64"
  shows "\<exists>s1 s2 ls. goldfish_timer_write clock s TIMER_ALARM_HIGH hi = Inr (s1, []) \<and>
    goldfish_timer_write clock s1 TIMER_ALARM_LOW lo = Inr (s2, ls) \<and>
    (if sint alarm \<le> sint clock then ls = [True]
     else ls = [] \<and> armed s2 = 1 \<and>
       (\<forall>later. timer_expire later s2 =
          (if sint later < sint alarm then (s2, [])
           else (s2\<lparr>qtimer := None, armed := 0\<rparr>, [True]))))"
  by (auto simp: timer_defs dev_defs timer_alarm_def alarm_def)

section \<open>Snapshots\<close>

definition rtc_restore :: "rtc_state \<Rightarrow> rtc_state \<Rightarrow> rtc_state" where
  "rtc_restore s0 s = s0\<lparr>rtc_now := rtc_now s\<rparr>"

interpretation rtc_snap: snapshot_device goldfish_rtc_save
  "\<lambda>f s v. Inr (goldfish_rtc_load f s v)" 1 "\<lambda>v. v = 1" "\<lambda>s. be64_bytes (rtc_now s)" rtc_restore "\<lambda>s. True"
  by unfold_locales
    (simp_all add: goldfish_rtc_save_def goldfish_rtc_load_def rtc_restore_def codec_put codec_get)

lemma timer_save_enc:
  "\<not> last_error f \<Longrightarrow> goldfish_timer_save clock f s =
   f\<lparr>fbuf := fbuf f @ be64_bytes (now_ns s) @ [ucast (armed s)] @
     (if armed s \<noteq> 0 then be64_bytes (timer_alarm s - clock) else [])\<rparr>"
  by (simp add: goldfish_timer_save_def codec_put qemu_put_byte_def)

lemma timer_load_enc:
  assumes "fbuf f = be64_bytes now @ [1] @ be64_bytes diff @ rest"
  shows "goldfish_timer_load clock f s0 1 =
    (if sint (clock + diff) \<le> sint clock
     then (0, s0\<lparr>now_ns := now, armed := 0\<rparr>, [True], f\<lparr>fbuf := rest\<rparr>)
     else (0, s0\<lparr>now_ns := now, armed := 1, qtimer := Some (clock + diff)\<rparr>, [], f\<lparr>fbuf := rest\<rparr>))"
  using assms by (simp add: goldfish_timer_load_def codec_get Let_def)

text \<open>
  A pending alarm survives a snapshot: saved when it is due in \<open>d\<close> nanoseconds and loaded at
  any later clock value, the timer is pending again and due in \<open>d\<close> nanoseconds, and the time
  latched by a read in progress is kept.
\<close>

lemma timer_snapshot_interval:
  assumes "armed s = 1" "d = timer_alarm s - clock" "sint clock' < sint (clock' + d)"
  shows "goldfish_timer_load clock' (goldfish_timer_save clock qemu_file_empty s) s0 1 =
    (0, s0\<lparr>now_ns := now_ns s, armed := 1, qtimer := Some (clock' + d)\<rparr>, [], qemu_file_empty)"
  using assms timer_load_enc [of "goldfish_timer_save clock qemu_file_empty s" "now_ns s" d "[]" clock' s0]
  by (simp add: timer_save_enc qemu_file_empty_def)

text \<open>
  The alarm registers are not part of the snapshot, so a second snapshot is wrong: a timer
  that was restored with a pending alarm, and is saved and loaded again at one and the same
  instant, raises its interrupt at once instead of at the alarm.
\<close>

lemma timer_second_snapshot_fires_early:
  assumes "goldfish_timer_load clock f timer_state_init 1 = (0, s, [], f')" "armed s = 1"
    and "0 \<le> sint clock2"
  shows "(\<exists>alarm. qtimer s = Some alarm \<and> sint clock < sint alarm) \<and>
    goldfish_timer_load clock2 (goldfish_timer_save clock2 qemu_file_empty s) s0 1 =
      (0, s0\<lparr>now_ns := now_ns s, armed := 0\<rparr>, [True], qemu_file_empty)"
proof
  have "timer_alarm s = 0" and q: "\<exists>alarm. qtimer s = Some alarm \<and> sint clock < sint alarm"
    using assms(1,2)
    by (auto simp: goldfish_timer_load_def timer_alarm_def timer_state_init_def Let_def
        split: prod.splits if_splits)
  then show "goldfish_timer_load clock2 (goldfish_timer_save clock2 qemu_file_empty s) s0 1 =
      (0, s0\<lparr>now_ns := now_ns s, armed := 0\<rparr>, [True], qemu_file_empty)"
    using assms(2,3)
      timer_load_enc [of "goldfish_timer_save clock2 qemu_file_empty s" "now_ns s" "- clock2" "[]" clock2 s0]
    by (simp add: timer_save_enc qemu_file_empty_def)
  show "\<exists>alarm. qtimer s = Some alarm \<and> sint clock < sint alarm" by (fact q)
qed

end
