(* ===== verification/Gem_Tracker.thy ===== *)
theory Gem_Tracker
  imports Prelude
begin

text \<open>
  The GemDroid process tracker (gemdroid-tracer.c, disas.c and the two accumulators of
  hw/android/goldfish/tty.c): which guest threads are traced, which contexts have been seen, and
  which translation blocks have already been printed.

  The C arrays are functions from indices; every store is guarded by the size of the array, a
  store outside is undefined behaviour. \<open>int\<close> variables are integers, with overflow undefined.
  The context identifier of a CPU is an argument, \<open>None\<close> standing for a \<open>NULL\<close> environment.
\<close>

section \<open>State\<close>

record gem_tracker =
  needed_pid :: int
  needed_tids :: "nat \<Rightarrow> int"
  print_tids :: "nat \<Rightarrow> int"
  needed_tid_length :: nat
  arm_helper_tid_now :: int
  CPU_tracer :: bool
  allPidsChecked :: "nat \<Rightarrow> int"
  allPidsLength :: nat

definition gem_tracker_init :: gem_tracker where
  "gem_tracker_init =
     \<lparr>needed_pid = -1, needed_tids = (\<lambda>_. 0), print_tids = (\<lambda>_. 0), needed_tid_length = 0,
      arm_helper_tid_now = -1, CPU_tracer = True, allPidsChecked = (\<lambda>_. 0), allPidsLength = 0\<rparr>"

definition int32_ok :: "int \<Rightarrow> bool" where
  "int32_ok x \<longleftrightarrow> - (2 ^ 31) \<le> x \<and> x < 2 ^ 31"

text \<open>The search loops: the first index below \<open>n\<close> at which the array holds \<open>x\<close>.\<close>

definition tid_search :: "(nat \<Rightarrow> int) \<Rightarrow> nat \<Rightarrow> (int \<Rightarrow> bool) \<Rightarrow> nat option" where
  "tid_search a n P = find (\<lambda>i. P (a i)) [0..<n]"

section \<open>Recording a thread\<close>

text \<open>
  The tail of both accumulators of tty.c: \<open>needed_pid\<close> becomes the thread, and a thread that is
  not yet in the table is put in front, its former first entry moving to the end.
\<close>

definition tid_insert :: "int \<Rightarrow> gem_tracker \<Rightarrow> gem_tracker outcome" where
  "tid_insert tid_now t =
     (let len = needed_tid_length t in
      if tid_search (needed_tids t) len (\<lambda>x. tid_now = x) \<noteq> None then Inr (t\<lparr>needed_pid := tid_now\<rparr>)
      else if len > 0 then
        (if len \<ge> 1000 then Inl Undefined_behaviour
         else if len = 999 then Inl Process_exit
         else Inr (t\<lparr>needed_pid := tid_now,
                needed_tids := (needed_tids t)(0 := tid_now, len := needed_tids t 0),
                print_tids := (print_tids t)(0 := 0, len := print_tids t 0),
                needed_tid_length := len + 1\<rparr>))
      else Inr (t\<lparr>needed_pid := tid_now, needed_tids := (needed_tids t)(len := tid_now),
             needed_tid_length := len + 1\<rparr>))"

section \<open>Looking up the running thread\<close>

definition getMeContextId :: "int option \<Rightarrow> int outcome" where
  "getMeContextId env = (case env of None \<Rightarrow> Inl Process_exit | Some c \<Rightarrow> Inr c)"

definition indexPidTid :: "int \<Rightarrow> gem_tracker \<Rightarrow> int" where
  "indexPidTid tid t =
     (if needed_pid t = tid then 0
      else case tid_search (needed_tids t) (needed_tid_length t) (\<lambda>x. tid = x) of
          None \<Rightarrow> -1 | Some i \<Rightarrow> int i)"

text \<open>
  The condition \<open>val > 0 && print_tids[0] & val > 0\<close> groups as
  \<open>val > 0 && (print_tids[0] & (val > 0))\<close>; when it holds, \<open>1/0\<close> is evaluated.
\<close>

definition print_tids_add :: "int \<Rightarrow> gem_tracker \<Rightarrow> gem_tracker outcome" where
  "print_tids_add val t =
     (if val > 0 \<and> odd (print_tids t 0) then Inl Undefined_behaviour
      else if \<not> int32_ok (print_tids t 0 + val) then Inl Undefined_behaviour
      else Inr (t\<lparr>print_tids := (print_tids t)(0 := print_tids t 0 + val)\<rparr>))"

text \<open>\<open>cpu\<close> is the environment of the running CPU, used when the argument is \<open>NULL\<close>.\<close>

definition addPrintTid :: "int option \<Rightarrow> int option \<Rightarrow> int \<Rightarrow> gem_tracker \<Rightarrow> gem_tracker outcome" where
  "addPrintTid env cpu val t =
     (case (case env of None \<Rightarrow> cpu | Some c \<Rightarrow> Some c) of
        None \<Rightarrow> Inr t
      | Some context \<Rightarrow>
          if needed_pid t = context then print_tids_add val t
          else case tid_search (needed_tids t) (needed_tid_length t) (\<lambda>x. context = x) of
              None \<Rightarrow> Inr t
            | Some i \<Rightarrow>
                if context = 0 then Inl Process_exit
                else print_tids_add val
                  (t\<lparr>needed_tids := (needed_tids t)(0 := context, i := needed_tids t 0),
                     needed_pid := context,
                     print_tids := (print_tids t)(0 := print_tids t i, i := print_tids t 0)\<rparr>))"

text \<open>
  The loop of \<open>insertIntoAllPids\<close>: the remaining iterations, the two flags and the array; the
  first result says whether the function has returned from inside the loop.
\<close>

fun allPids_loop ::
    "int \<Rightarrow> int \<Rightarrow> nat \<Rightarrow> nat \<Rightarrow> bool \<Rightarrow> bool \<Rightarrow> (nat \<Rightarrow> int) \<Rightarrow> bool \<times> bool \<times> bool \<times> (nat \<Rightarrow> int)" where
  "allPids_loop one two i 0 oneF twoF a = (False, oneF, twoF, a)"
| "allPids_loop one two i (Suc n) oneF twoF a =
     (let oneF' = (oneF \<or> one = a i); twoF' = (twoF \<or> two = a i) in
      if oneF' then
        (let a' = a(i := a 0, 0 := a i)
         in if twoF' then (True, oneF', twoF', a')
            else allPids_loop one two (i + 1) n oneF' twoF' a')
      else allPids_loop one two (i + 1) n oneF' twoF' a)"

definition insertIntoAllPids :: "int \<Rightarrow> int \<Rightarrow> gem_tracker \<Rightarrow> gem_tracker outcome" where
  "insertIntoAllPids one two t =
     (let len = allPidsLength t;
          (returned, oneF, twoF, a) = allPids_loop one two 0 len False False (allPidsChecked t)
      in if returned then Inr (t\<lparr>allPidsChecked := a\<rparr>)
         else if (\<not> oneF \<or> one \<noteq> two \<and> twoF) \<and> len \<ge> 10000 then Inl Undefined_behaviour
         else
           (let (a1, len1) = (if \<not> oneF then (a(0 := one, len := a 0), len + 1) else (a, len))
            in if one \<noteq> two \<and> twoF then
                 (if len1 \<ge> 10000 then Inl Undefined_behaviour
                  else Inr (t\<lparr>allPidsChecked := a1(len1 := two), allPidsLength := len1 + 1\<rparr>))
               else Inr (t\<lparr>allPidsChecked := a1, allPidsLength := len1\<rparr>)))"

text \<open>\<open>env\<close> is the argument, \<open>cpu\<close> the environment \<open>cpu_single_env\<close>.\<close>

definition matchMeInPidTid ::
    "int option \<Rightarrow> int option \<Rightarrow> gem_tracker \<Rightarrow> (int \<times> gem_tracker) outcome" where
  "matchMeInPidTid env cpu t =
     (if \<not> CPU_tracer t then Inr (0, t)
      else case getMeContextId env of Inl e \<Rightarrow> Inl e
      | Inr context \<Rightarrow>
         (case getMeContextId cpu of Inl e \<Rightarrow> Inl e
          | Inr context1 \<Rightarrow>
             (case insertIntoAllPids context context1 t of Inl e \<Rightarrow> Inl e
              | Inr t1 \<Rightarrow>
                 if needed_pid t1 = 0 then Inl Process_exit
                 else if needed_pid t1 = context \<or> context1 = needed_pid t1 then
                   Inr (1, t1\<lparr>arm_helper_tid_now := context\<rparr>)
                 else case tid_search (needed_tids t1) (needed_tid_length t1)
                        (\<lambda>x. context = x \<or> x = context1) of
                     None \<Rightarrow> Inr (0, t1)
                   | Some i \<Rightarrow>
                       if context = 0 then Inl Process_exit
                       else Inr (int i + 1,
                         t1\<lparr>needed_tids := (needed_tids t1)(0 := context, i := needed_tids t1 0),
                            needed_pid := context,
                            print_tids := (print_tids t1)(0 := print_tids t1 i, i := print_tids t1 0),
                            arm_helper_tid_now := context\<rparr>))))"

section \<open>Printed translation blocks\<close>

text \<open>
  \<open>my_hashset\<close> is a growing array of (address, size) pairs; \<open>count\<close> is the length of the list.
  Memory allocation is taken to succeed.
\<close>

record hashset =
  printed_blocks :: "(u32 \<times> u32) list"
  hs_max :: nat

definition foundInHashset :: "u32 \<Rightarrow> u32 \<Rightarrow> hashset \<Rightarrow> nat" where
  "foundInHashset pc sz h =
     (case find (\<lambda>i. printed_blocks h ! i = (pc, sz)) [0..<length (printed_blocks h)] of
        None \<Rightarrow> 0 | Some i \<Rightarrow> i)"

definition alreadyPrinted :: "u32 \<Rightarrow> u32 \<Rightarrow> hashset option \<Rightarrow> nat \<times> hashset" where
  "alreadyPrinted pc sz hs =
     (case hs of
        None \<Rightarrow> (0, \<lparr>printed_blocks = [(pc, sz)], hs_max = 100\<rparr>)
      | Some h \<Rightarrow>
          (case find (\<lambda>i. printed_blocks h ! i = (pc, sz)) [0..<length (printed_blocks h)] of
             Some i \<Rightarrow> (i + 1, h)
           | None \<Rightarrow>
               if length (printed_blocks h) < hs_max h then
                 (0, h\<lparr>printed_blocks := printed_blocks h @ [(pc, sz)]\<rparr>)
               else
                 (0, h\<lparr>printed_blocks := printed_blocks h @ [(pc, sz)], hs_max := hs_max h + 100\<rparr>)))"

section \<open>The thread table\<close>

text \<open>The traced threads, and the invariant of the table: no thread is listed twice.\<close>

definition tracked :: "gem_tracker \<Rightarrow> int set" where
  "tracked t = needed_tids t ` {..<needed_tid_length t}"

definition tracker_inv :: "gem_tracker \<Rightarrow> bool" where
  "tracker_inv t \<longleftrightarrow> inj_on (needed_tids t) {..<needed_tid_length t} \<and> needed_tid_length t \<le> 999"

lemma tid_search_None:
  "tid_search a n P = None \<longleftrightarrow> (\<forall>i<n. \<not> P (a i))"
  by (auto simp: tid_search_def find_None_iff)

lemma tid_search_Some:
  "tid_search a n P = Some i \<Longrightarrow> i < n \<and> P (a i) \<and> (\<forall>j<i. \<not> P (a j))"
  by (auto simp: tid_search_def find_Some_iff)

lemma tracked_search_None: "tid_search (needed_tids t) (needed_tid_length t) ((=) x) = None \<longleftrightarrow> x \<notin> tracked t"
  by (auto simp: tid_search_None tracked_def)

lemma tracked_iff: "x \<in> tracked t \<longleftrightarrow> (\<exists>i<needed_tid_length t. needed_tids t i = x)"
  by (auto simp: tracked_def)

text \<open>Moving the entry \<open>i\<close> to the front permutes the table.\<close>

lemma swap_front:
  fixes a :: "nat \<Rightarrow> int"
  assumes "inj_on a {..<n}" "i < n" "a i = c"
  defines "b \<equiv> a(0 := c, i := a 0)"
  shows "inj_on b {..<n}" and "b ` {..<n} = a ` {..<n}"
proof -
  define f where "f j = (if j = 0 then i else if j = i then 0 else j)" for j
  have b: "b = a \<circ> f" using assms(3) by (auto simp: b_def f_def)
  have "bij_betw f {..<n} {..<n}"
    using assms(2) by (intro bij_betw_byWitness [where f' = f]) (auto simp: f_def)
  then have f: "inj_on f {..<n}" "f ` {..<n} = {..<n}" by (auto simp: bij_betw_def)
  show "inj_on b {..<n}" unfolding b using f assms(1) by (intro comp_inj_on) simp_all
  show "b ` {..<n} = a ` {..<n}" unfolding b image_comp [symmetric] f(2) ..
qed

text \<open>Putting a new entry in front.\<close>

lemma insert_front:
  fixes a :: "nat \<Rightarrow> int"
  assumes "inj_on a {..<n}" "0 < n" "c \<notin> a ` {..<n}"
  defines "b \<equiv> a(0 := c, n := a 0)"
  shows "inj_on b {..<Suc n}" and "b ` {..<Suc n} = insert c (a ` {..<n})"
proof -
  have "inj_on (a(n := c)) {..<Suc n}"
    using assms(1,3) by (auto simp: inj_on_def less_Suc_eq)
  moreover have "b = (a(n := c))(0 := (a(n := c)) n, n := (a(n := c)) 0)"
    using assms(2) by (auto simp: b_def)
  ultimately have "inj_on b {..<Suc n} \<and> b ` {..<Suc n} = (a(n := c)) ` {..<Suc n}"
    using swap_front [of "a(n := c)" "Suc n" n c] by simp
  moreover have "(a(n := c)) ` {..<Suc n} = insert c (a ` {..<n})"
    by (auto simp: lessThan_Suc)
  ultimately show "inj_on b {..<Suc n}" "b ` {..<Suc n} = insert c (a ` {..<n})" by auto
qed

lemma tid_insert_cases:
  assumes "tracker_inv t"
  shows "tid_insert tid t = Inl Process_exit \<and> tid \<notin> tracked t \<and> needed_tid_length t = 999 \<or>
    (\<exists>t'. tid_insert tid t = Inr t' \<and> tracker_inv t' \<and> needed_pid t' = tid \<and>
       tracked t' = insert tid (tracked t) \<and>
       (tid \<notin> tracked t \<longrightarrow> needed_tids t' 0 = tid \<and> needed_tid_length t' = needed_tid_length t + 1))"
proof (cases "tid \<in> tracked t")
  case True
  then show ?thesis
    using assms tracked_search_None [of t tid]
    by (auto simp: tid_insert_def tracker_inv_def tracked_def)
next
  case False
  note notin = False
  let ?n = "needed_tid_length t"
  have s: "tid_search (needed_tids t) ?n ((=) tid) = None"
    using False tracked_search_None by blast
  consider "?n = 0" | "?n = 999" | "0 < ?n" "?n < 999"
    using assms by (fastforce simp: tracker_inv_def)
  then show ?thesis
  proof cases
    case 1
    with s notin show ?thesis
      by (simp add: tid_insert_def tracker_inv_def tracked_def lessThan_Suc)
  next
    case 2
    with s notin show ?thesis by (simp add: tid_insert_def)
  next
    case 3
    with s notin insert_front [of "needed_tids t" ?n tid] assms show ?thesis
      by (simp add: tid_insert_def tracker_inv_def tracked_def Let_def)
  qed
qed

text \<open>A match when both environments are the one running CPU.\<close>

lemma insertIntoAllPids_frame:
  "insertIntoAllPids one two t = Inr t' \<Longrightarrow>
   needed_tids t' = needed_tids t \<and> needed_tid_length t' = needed_tid_length t \<and>
   needed_pid t' = needed_pid t \<and> print_tids t' = print_tids t \<and> CPU_tracer t' = CPU_tracer t"
  by (auto simp: insertIntoAllPids_def Let_def split: prod.splits if_splits)

lemma tracker_frame:
  "needed_tids t' = needed_tids t \<Longrightarrow> needed_tid_length t' = needed_tid_length t \<Longrightarrow>
   tracked t' = tracked t \<and> tracker_inv t' = tracker_inv t"
  by (simp add: tracked_def tracker_inv_def)

lemma insertIntoAllPids_returns:
  "allPidsLength t < 9999 \<Longrightarrow> \<exists>t'. insertIntoAllPids one two t = Inr t'"
  by (auto simp: insertIntoAllPids_def Let_def split: prod.splits)

lemma match_cases:
  assumes "CPU_tracer t" "insertIntoAllPids c c1 t = Inr t1" "needed_pid t \<noteq> 0" "c \<noteq> 0"
  obtains "{c, c1} \<inter> insert (needed_pid t) (tracked t) = {}" "matchMeInPidTid (Some c) (Some c1) t = Inr (0, t1)"
  | "needed_pid t \<in> {c, c1}" "matchMeInPidTid (Some c) (Some c1) t = Inr (1, t1\<lparr>arm_helper_tid_now := c\<rparr>)"
  | i where "i < needed_tid_length t" "needed_tids t i \<in> {c, c1}"
    "matchMeInPidTid (Some c) (Some c1) t = Inr (int i + 1,
       t1\<lparr>needed_tids := (needed_tids t)(0 := c, i := needed_tids t 0), needed_pid := c,
          print_tids := (print_tids t)(0 := print_tids t i, i := print_tids t 0),
          arm_helper_tid_now := c\<rparr>)"
proof -
  note fr = insertIntoAllPids_frame [OF assms(2)]
  note m = matchMeInPidTid_def getMeContextId_def
  show thesis
  proof (cases "needed_pid t \<in> {c, c1}")
    case True
    with assms fr that(2) show thesis by (auto simp: m)
  next
    case False
    note ne = False
    show thesis
    proof (cases "tid_search (needed_tids t) (needed_tid_length t) (\<lambda>x. c = x \<or> x = c1)")
      case None
      then have "{c, c1} \<inter> insert (needed_pid t) (tracked t) = {}"
        using ne by (auto simp: tid_search_None tracked_def)
      moreover have "matchMeInPidTid (Some c) (Some c1) t = Inr (0, t1)"
        using None ne assms fr by (simp add: m)
      ultimately show thesis by (rule that(1))
    next
      case (Some i)
      then have i: "i < needed_tid_length t" "needed_tids t i \<in> {c, c1}"
        using tid_search_Some by fastforce+
      have "matchMeInPidTid (Some c) (Some c1) t = Inr (int i + 1,
         t1\<lparr>needed_tids := (needed_tids t)(0 := c, i := needed_tids t 0), needed_pid := c,
            print_tids := (print_tids t)(0 := print_tids t i, i := print_tids t 0),
            arm_helper_tid_now := c\<rparr>)"
        using ne assms fr Some by (simp add: m)
      with i that(3) show thesis by blast
    qed
  qed
qed

text \<open>
  C33: The thread table of the tracer never lists a thread twice and never leaves its array.
  Recording a thread makes it the needed process and adds it to the traced set (in front of the
  table when it is new); the only other outcome is the deliberate exit when a new thread arrives
  and 999 are already traced.
\<close>

theorem tracker_insert_correct:
  assumes "tracker_inv t"
  shows "tid_insert tid t = Inl Process_exit \<and> tid \<notin> tracked t \<and> needed_tid_length t = 999 \<or>
    (\<exists>t'. tid_insert tid t = Inr t' \<and> tracker_inv t' \<and> needed_pid t' = tid \<and>
       tracked t' = insert tid (tracked t) \<and>
       (tid \<notin> tracked t \<longrightarrow> needed_tids t' 0 = tid \<and> needed_tid_length t' = needed_tid_length t + 1))"
  by (rule tid_insert_cases [OF assms])

theorem tracker_insert_correct_witness:
  "\<exists>t'. tid_insert 812 gem_tracker_init = Inr t' \<and> tracked t' = {812} \<and> tracker_inv t'"
proof -
  have "tracker_inv gem_tracker_init"
    by (simp add: tracker_inv_def gem_tracker_init_def)
  from tracker_insert_correct [OF this, of 812] show ?thesis
    by (auto simp: gem_tracker_init_def tracked_def)
qed

text \<open>
  C19: Asking whether a thread is traced, with the environment passed in at context \<open>c\<close> and the
  running CPU at \<open>c1\<close>, returns and answers yes (non-zero) exactly when one of the two is the needed
  process or is in the table, as long as the contexts seen so far leave room in their array and \<open>c\<close>
  is not 0. With the CPU's own environment the look-up may move the thread to the front of the table
  but keeps the set of traced threads and the absence of duplicates, and a traced thread becomes the
  needed process.
\<close>

theorem tracker_match_correct:
  assumes "tracker_inv t" "CPU_tracer t" "needed_pid t \<noteq> 0" "c \<noteq> 0" "allPidsLength t < 9999"
  shows "\<exists>r t'. matchMeInPidTid (Some c) (Some c1) t = Inr (r, t') \<and>
    (r \<noteq> 0 \<longleftrightarrow> c = needed_pid t \<or> c1 = needed_pid t \<or> c \<in> tracked t \<or> c1 \<in> tracked t) \<and>
    (r \<noteq> 0 \<longrightarrow> arm_helper_tid_now t' = c) \<and>
    (c1 = c \<longrightarrow> tracked t' = tracked t \<and> tracker_inv t' \<and> (r \<noteq> 0 \<longrightarrow> needed_pid t' = c))"
proof -
  obtain t1 where t1: "insertIntoAllPids c c1 t = Inr t1" using insertIntoAllPids_returns [OF assms(5)] by blast
  note fr = insertIntoAllPids_frame [OF t1]
  from match_cases [OF assms(2) t1 assms(3,4)] show ?thesis
  proof cases
    case 1
    with assms fr tracker_frame [of t1 t] show ?thesis by auto
  next
    case 2
    with assms fr tracker_frame [of "t1\<lparr>arm_helper_tid_now := c\<rparr>" t] show ?thesis by auto
  next
    case (3 i)
    then have "needed_tids t i \<in> tracked t" by (auto simp: tracked_def)
    with 3 assms(1) swap_front [of "needed_tids t" "needed_tid_length t" i c] fr show ?thesis
      by (auto simp: tracker_inv_def tracked_def)
  qed
qed

definition tracker_example :: gem_tracker where
  "tracker_example = gem_tracker_init\<lparr>needed_pid := 7, needed_tids := (\<lambda>_. 0)(0 := 7, 1 := 9),
     needed_tid_length := 2\<rparr>"

lemma tracker_example_inv: "tracker_inv tracker_example" "tracked tracker_example = {7, 9}"
  by (auto simp: tracker_inv_def tracker_example_def tracked_def inj_on_def less_Suc_eq
      numeral_2_eq_2 lessThan_Suc)

theorem tracker_match_correct_witness:
  "\<exists>r t'. matchMeInPidTid (Some 9) (Some 9) tracker_example = Inr (r, t') \<and> r \<noteq> 0 \<and>
     tracked t' = {7, 9} \<and> needed_pid t' = 9"
proof -
  have c: "CPU_tracer tracker_example" "needed_pid tracker_example \<noteq> 0" "(9 :: int) \<noteq> 0" "allPidsLength tracker_example < 9999"
    by (simp_all add: tracker_example_def gem_tracker_init_def)
  from tracker_match_correct [OF tracker_example_inv(1) c, of 9] tracker_example_inv(2) show ?thesis
    by auto
qed

text \<open>
  When the two environments disagree and only \<open>cpu_single_env\<close> runs a traced thread (listed
  behind the first place), the match overwrites the table: the untraced context of the argument
  takes the traced thread's place, which is then no longer traced.
\<close>

lemma tracker_match_loses_thread:
  assumes "tracker_inv t" "CPU_tracer t" "needed_pid t \<notin> {0, c, c1}" "c \<noteq> 0"
    and "c \<notin> tracked t" "c1 \<in> tracked t" "needed_tids t 0 \<noteq> c1"
    and "matchMeInPidTid (Some c) (Some c1) t = Inr (r, t')"
  shows "c \<in> tracked t' \<and> c1 \<notin> tracked t'"
proof -
  obtain t1 where t1: "insertIntoAllPids c c1 t = Inr t1"
    using assms(2,8) by (auto simp: matchMeInPidTid_def getMeContextId_def split: sum.splits)
  note fr = insertIntoAllPids_frame [OF t1]
  let ?n = "needed_tid_length t"
  have "tid_search (needed_tids t) ?n (\<lambda>x. c = x \<or> x = c1) \<noteq> None"
    using assms(6) by (auto simp: tid_search_None tracked_iff)
  then obtain i where i: "tid_search (needed_tids t) ?n (\<lambda>x. c = x \<or> x = c1) = Some i"
    by blast
  from tid_search_Some [OF this] assms(5) have i': "i < ?n" "needed_tids t i = c1"
    by (auto simp: tracked_iff)
  have n: "0 < ?n" "i \<noteq> 0" using i' assms(7) by (auto intro: gr0I)
  have t': "needed_tids t' = (needed_tids t)(0 := c, i := needed_tids t 0)"
    "needed_tid_length t' = ?n"
    using assms(2,3,4,8) i fr by (auto simp: matchMeInPidTid_def getMeContextId_def t1)
  have c: "needed_tids t' 0 = c" using t' n by simp
  moreover have "needed_tids t' j \<noteq> c1" if "j < ?n" for j
  proof (cases "j = 0 \<or> j = i")
    case True
    then show ?thesis using t' n assms(5-7) by auto
  next
    case False
    then show ?thesis
      using t' that i' assms(1) by (auto simp: tracker_inv_def inj_on_def)
  qed
  ultimately show ?thesis using t' n by (auto simp: tracked_iff)
qed

text \<open>
  The first context ever seen is not recorded: on the empty table \<open>insertIntoAllPids\<close> stores it
  in the first cell and then overwrites it with the cell's former content, so that the contexts
  leave no trace but the length 1 (at start-up the one listed context is then 0).
\<close>

lemma allPids_first_lost:
  assumes "allPidsLength t = 0"
  shows "insertIntoAllPids one two t = Inr (t\<lparr>allPidsLength := 1\<rparr>)"
  using assms by (simp add: insertIntoAllPids_def)

section \<open>Blocks are printed once\<close>

fun alreadyPrinted_run ::
    "(u32 \<times> u32) list \<Rightarrow> hashset option \<Rightarrow> nat list \<times> hashset option" where
  "alreadyPrinted_run [] hs = ([], hs)"
| "alreadyPrinted_run ((pc, sz) # qs) hs =
     (let (r, h) = alreadyPrinted pc sz hs; (rs, hs') = alreadyPrinted_run qs (Some h)
      in (r # rs, hs'))"

definition hs_blocks :: "hashset option \<Rightarrow> (u32 \<times> u32) list" where
  "hs_blocks hs = (case hs of None \<Rightarrow> [] | Some h \<Rightarrow> printed_blocks h)"

definition hs_inv :: "hashset option \<Rightarrow> bool" where
  "hs_inv hs \<longleftrightarrow> distinct (hs_blocks hs) \<and>
     (case hs of None \<Rightarrow> True | Some h \<Rightarrow> length (printed_blocks h) \<le> hs_max h)"

lemma alreadyPrinted_spec:
  assumes "hs_inv hs" "alreadyPrinted pc sz hs = (r, h)"
  shows "hs_inv (Some h)"
    and "(r = 0) = ((pc, sz) \<notin> set (hs_blocks hs))"
    and "hs_blocks (Some h) = (if (pc, sz) \<in> set (hs_blocks hs) then hs_blocks hs
           else hs_blocks hs @ [(pc, sz)])"
    and "r \<noteq> 0 \<longrightarrow> r \<le> length (hs_blocks hs) \<and> hs_blocks hs ! (r - 1) = (pc, sz)"
proof -
  show "hs_inv (Some h)" "(r = 0) = ((pc, sz) \<notin> set (hs_blocks hs))"
    "hs_blocks (Some h) = (if (pc, sz) \<in> set (hs_blocks hs) then hs_blocks hs
           else hs_blocks hs @ [(pc, sz)])"
    "r \<noteq> 0 \<longrightarrow> r \<le> length (hs_blocks hs) \<and> hs_blocks hs ! (r - 1) = (pc, sz)"
    using assms
    by (auto simp: alreadyPrinted_def hs_inv_def hs_blocks_def find_None_iff find_Some_iff
        in_set_conv_nth split: option.splits if_splits)
qed

text \<open>
  Over any sequence of queries \<open>alreadyPrinted\<close> answers 0 exactly for the first query of each
  block, so every block is printed exactly once; the array grows as needed and lists the blocks
  without duplicates in the order of their first query.
\<close>

lemma alreadyPrinted_once:
  assumes "alreadyPrinted_run qs None = (rs, hs)"
  shows "length rs = length qs \<and>
    (\<forall>k<length qs. (rs ! k = 0) = (qs ! k \<notin> set (take k qs))) \<and>
    distinct (hs_blocks hs) \<and> set (hs_blocks hs) = set qs"
proof -
  have "length rs = length qs \<and>
    (\<forall>k<length qs. (rs ! k = 0) = (qs ! k \<notin> set (hs_blocks h0) \<union> set (take k qs))) \<and>
    hs_inv hs \<and> set (hs_blocks hs) = set (hs_blocks h0) \<union> set qs"
    if "hs_inv h0" "alreadyPrinted_run qs h0 = (rs, hs)" for h0
    using that
  proof (induction qs h0 arbitrary: rs rule: alreadyPrinted_run.induct)
    case (2 pc sz qs h0)
    obtain r h where r: "alreadyPrinted pc sz h0 = (r, h)" by fastforce
    obtain rs' where rs': "alreadyPrinted_run qs (Some h) = (rs', hs)" "rs = r # rs'"
      using "2.prems"(2) r by (auto split: prod.splits)
    note sp = alreadyPrinted_spec [OF "2.prems"(1) r]
    from "2.IH" [OF r [symmetric] refl sp(1) rs'(1)] sp(2,3) rs'(2) show ?case
      by (auto simp: nth_Cons' take_Cons' less_Suc_eq_0_disj split: if_splits)
  qed simp
  from this [of None] assms show ?thesis by (simp add: hs_inv_def hs_blocks_def)
qed

end
