(* ===== verification/Goldfish_Tty.thy ===== *)
theory Goldfish_Tty
  imports Qemu_File Guest_Store Irq Gem_Tracker
begin

unbundle bit_operations_syntax

text \<open>
  The goldfish serial port (hw/android/goldfish/tty.c), with the GemDroid hook that watches the
  console output for the lines that name the traced process.

  The world of the port is its own state, the line buffer of the hook, the thread tracker, the
  guest memory and the bytes sent to the character device. Operations return the levels assigned
  to the interrupt line. \<open>NEEDED_PROC_NAME_LOGCAT_FLAG\<close> is 0, as in gemdroid-tracer.h: the
  accumulator for \<open>top\<close> output is the one in use.
\<close>

section \<open>State\<close>

definition TTY_PUT_CHAR :: u64 where [dev_defs]: "TTY_PUT_CHAR = 0x00"
definition TTY_BYTES_READY :: u64 where [dev_defs]: "TTY_BYTES_READY = 0x04"
definition TTY_CMD :: u64 where [dev_defs]: "TTY_CMD = 0x08"
definition TTY_DATA_PTR :: u64 where [dev_defs]: "TTY_DATA_PTR = 0x10"
definition TTY_DATA_LEN :: u64 where [dev_defs]: "TTY_DATA_LEN = 0x14"
definition TTY_DATA_PTR_HIGH :: u64 where [dev_defs]: "TTY_DATA_PTR_HIGH = 0x18"
definition TTY_VERSION :: u64 where [dev_defs]: "TTY_VERSION = 0x20"
definition TTY_CMD_INT_DISABLE :: u32 where [dev_defs]: "TTY_CMD_INT_DISABLE = 0"
definition TTY_CMD_INT_ENABLE :: u32 where [dev_defs]: "TTY_CMD_INT_ENABLE = 1"
definition TTY_CMD_WRITE_BUFFER :: u32 where [dev_defs]: "TTY_CMD_WRITE_BUFFER = 2"
definition TTY_CMD_READ_BUFFER :: u32 where [dev_defs]: "TTY_CMD_READ_BUFFER = 3"

record tty_state =
  tty_cs :: bool
  tty_ptr :: u64
  tty_ptr_len :: u32
  tty_ready :: u32
  tty_data :: bytes
  tty_data_count :: u32

definition tty_data_size :: nat where "tty_data_size = 128"

definition goldfish_tty_add :: "bool \<Rightarrow> tty_state" where
  "goldfish_tty_add cs =
     \<lparr>tty_cs = cs, tty_ptr = 0, tty_ptr_len = 0, tty_ready = 0,
      tty_data = replicate tty_data_size 0, tty_data_count = 0\<rparr>"

record tty_world =
  w_tty :: tty_state
  pras_temp_line :: bytes
  pras_line_length :: nat
  printLength :: nat
  w_tracker :: gem_tracker
  w_ram :: ram
  w_out :: bytes

section \<open>Snapshots\<close>

text \<open>\<open>data_count\<close> is at most 128 in every state the port reaches (\<open>tty_inv\<close> below).\<close>

definition goldfish_tty_save :: "QEMUFile \<Rightarrow> tty_state \<Rightarrow> QEMUFile" where
  "goldfish_tty_save f s =
     qemu_put_buffer
       (qemu_put_byte (qemu_put_byte (qemu_put_be32 (qemu_put_be64 f (tty_ptr s))
         (tty_ptr_len s)) (tty_ready s)) (tty_data_count s))
       (take (unat (tty_data_count s)) (tty_data s))"

text \<open>A stream that announces more than 128 bytes and has them overruns \<open>data\<close>.\<close>

definition goldfish_tty_load ::
    "QEMUFile \<Rightarrow> tty_state \<Rightarrow> int \<Rightarrow> (int \<times> tty_state \<times> QEMUFile) outcome" where
  "goldfish_tty_load f s version_id =
     (if version_id \<noteq> 2 \<and> version_id \<noteq> 1 then Inr (-1, s, f)
      else
        (let (ptr, f1) = (if version_id = 1 then (let (v, f') = qemu_get_be32 f in (ucast v, f'))
                          else qemu_get_be64 f);
             (len, f2) = qemu_get_be32 f1;
             (rdy, f3) = qemu_get_byte f2;
             (count, f4) = qemu_get_byte f3;
             (buf, f5) = qemu_get_buffer f4 (unat count)
         in if length buf > tty_data_size then Inl Undefined_behaviour
            else Inr (0, s\<lparr>tty_ptr := ptr, tty_ptr_len := len, tty_ready := rdy,
                   tty_data_count := count, tty_data := seg_write (tty_data s) 0 buf\<rparr>, f5)))"

definition goldfish_tty_read :: "tty_state \<Rightarrow> u64 \<Rightarrow> u32 outcome" where
  "goldfish_tty_read s offset =
     (if offset = TTY_BYTES_READY then Inr (tty_data_count s)
      else if offset = TTY_VERSION then Inr 0
      else Inl Cpu_abort)"

section \<open>The console hook\<close>

definition NEEDED_PROC_NAME :: bytes where
  "NEEDED_PROC_NAME = string_bytes ''beeready''"

text \<open>
  The digits after the process name, at most nine characters. Reading beyond the array is
  undefined.
\<close>

fun logcat_tid_loop :: "bytes \<Rightarrow> nat \<Rightarrow> nat \<Rightarrow> int \<Rightarrow> int outcome" where
  "logcat_tid_loop line p 0 tid_now = Inr tid_now"
| "logcat_tid_loop line p (Suc n) tid_now =
     (if p \<ge> length line then Inl Undefined_behaviour
      else
        (let c = sint (line ! p);
             digit = (48 \<le> c \<and> c \<le> 57);
             tid' = (if digit then tid_now * 10 + (c - 48) else tid_now)
         in if digit \<and> (\<not> int32_ok (tid_now * 10) \<or> \<not> int32_ok tid') then Inl Undefined_behaviour
            else if tid' \<noteq> 0 \<and> c = 0 then Inr tid'
            else logcat_tid_loop line (p + 1) n tid'))"

definition newPidAccumulatorFromLogcatCommand ::
    "bytes \<Rightarrow> gem_tracker \<Rightarrow> gem_tracker outcome" where
  "newPidAccumulatorFromLogcatCommand line t =
     (case strstr (c_string line) NEEDED_PROC_NAME of
        None \<Rightarrow> Inl Undefined_behaviour
      | Some p \<Rightarrow>
          (case logcat_tid_loop line (p + length NEEDED_PROC_NAME) 9 0 of
             Inl e \<Rightarrow> Inl e
           | Inr tid_now \<Rightarrow> if tid_now = 0 then Inr t else tid_insert tid_now t))"

text \<open>
  The columns 6 to 14 of a line of \<open>top\<close>; every character that is not a blank counts as a digit,
  so that the value can leave the range of \<open>int\<close>.
\<close>

fun top_tid_loop :: "bytes \<Rightarrow> nat \<Rightarrow> nat \<Rightarrow> int \<Rightarrow> int outcome" where
  "top_tid_loop line p 0 tid_now = Inr tid_now"
| "top_tid_loop line p (Suc n) tid_now =
     (let c = sint (line ! p);
          tid' = (if c \<noteq> 32 then tid_now * 10 + (c - 48) else tid_now)
      in if c \<noteq> 32 \<and> (\<not> int32_ok (tid_now * 10) \<or> \<not> int32_ok tid') then Inl Undefined_behaviour
         else if tid' \<noteq> 0 \<and> c = 32 then Inr tid'
         else top_tid_loop line (p + 1) n tid')"

definition oldPidAccumulatorFromTopCommand ::
    "bytes \<Rightarrow> gem_tracker \<Rightarrow> gem_tracker outcome" where
  "oldPidAccumulatorFromTopCommand line t =
     (if line ! 1 = 32 then
        (case top_tid_loop line 6 9 0 of
           Inl e \<Rightarrow> Inl e
         | Inr tid_now \<Rightarrow> if tid_now = 0 then Inl Process_exit else tid_insert tid_now t)
      else Inr t)"

text \<open>
  One character of the console: it is appended to the line buffer, whose bounds are not checked
  in C. At a newline the line is examined; the next line then starts at index 1, because the
  length is incremented after it has been reset.
\<close>

definition tty_track_char :: "u8 \<Rightarrow> tty_world \<Rightarrow> tty_world outcome" where
  "tty_track_char c w =
     (let n = pras_line_length w in
      if n + 1 \<ge> length (pras_temp_line w) then Inl Undefined_behaviour
      else
        (let line = (pras_temp_line w)[n := c, n + 1 := 0];
             w1 = w\<lparr>pras_temp_line := line\<rparr>
         in if c = 10 then
              (if strstr (c_string line) NEEDED_PROC_NAME \<noteq> None then
                 (case oldPidAccumulatorFromTopCommand line (w_tracker w) of
                    Inl e \<Rightarrow> Inl e
                  | Inr t' \<Rightarrow> Inr (w1\<lparr>w_tracker := t', pras_line_length := 1\<rparr>))
               else Inr (w1\<lparr>pras_line_length := 1\<rparr>))
            else Inr (w1\<lparr>pras_line_length := n + 1\<rparr>)))"

fun tty_track_chars :: "bytes \<Rightarrow> tty_world \<Rightarrow> tty_world outcome" where
  "tty_track_chars [] w = Inr w"
| "tty_track_chars (c # cs) w =
     (case tty_track_char c w of Inl e \<Rightarrow> Inl e | Inr w' \<Rightarrow> tty_track_chars cs w')"

text \<open>Console output reaches the character device until a process is found, 1000 chunks at most.\<close>

definition tty_chr_write :: "bytes \<Rightarrow> tty_world \<Rightarrow> tty_world" where
  "tty_chr_write temp w =
     (if needed_pid (w_tracker w) = -1 \<and> printLength w \<noteq> 0 then
        w\<lparr>w_out := w_out w @ temp, printLength := printLength w - 1\<rparr>
      else w)"

section \<open>Register writes\<close>

text \<open>
  The loop of \<open>TTY_CMD_WRITE_BUFFER\<close>, 64 bytes at a time. \<open>len\<close> is the register read as a signed
  integer: a negative length makes one pass that reads nothing but may hand the negative length
  on to \<open>qemu_chr_write\<close>.
\<close>

function tty_write_loop :: "vtop \<Rightarrow> u32 \<Rightarrow> int \<Rightarrow> tty_world \<Rightarrow> tty_world outcome" where
  "tty_write_loop tr buf len w =
     (if len = 0 then Inr w
      else if len < 0 then
        (if needed_pid (w_tracker w) = -1 \<and> printLength w \<noteq> 0 then Inl Undefined_behaviour
         else Inr w)
      else
        (let to_write = (if 64 > len then len else 64) in
         case safe_memory_read tr (w_ram w) buf to_write of
           Inl e \<Rightarrow> Inl e
         | Inr temp \<Rightarrow>
             (case tty_track_chars temp w of
                Inl e \<Rightarrow> Inl e
              | Inr w1 \<Rightarrow>
                  tty_write_loop tr (buf + of_int to_write) (len - to_write) (tty_chr_write temp w1))))"
  by pat_completeness auto
termination
  by (relation "measure (\<lambda>(tr, buf, len, w). nat len)") auto

declare tty_write_loop.simps [simp del]

definition tty_contents :: "tty_state \<Rightarrow> bytes" where
  "tty_contents s = take (unat (tty_data_count s)) (tty_data s)"

text \<open>Removing the first \<open>n\<close> bytes of the receive buffer (the \<open>memmove\<close> and the new count).\<close>

definition tty_consume :: "u32 \<Rightarrow> tty_state \<Rightarrow> tty_state" where
  "tty_consume n s =
     s\<lparr>tty_data := (if tty_data_count s > n
          then seg_write (tty_data s) 0
                 (seg_read (tty_data s) (unat n) (unat (tty_data_count s) - unat n))
          else tty_data s),
       tty_data_count := tty_data_count s - n\<rparr>"

definition tty_read_buffer :: "vtop \<Rightarrow> tty_world \<Rightarrow> (tty_world \<times> bool list) outcome" where
  "tty_read_buffer tr w =
     (let s = w_tty w in
      if tty_ptr_len s > tty_data_count s then Inl Cpu_abort
      else if unat (tty_ptr_len s) > tty_data_size then Inl Undefined_behaviour
      else
        (let m = safe_memory_write tr (w_ram w) (ucast (tty_ptr s))
                   (take (unat (tty_ptr_len s)) (tty_data s));
             s1 = tty_consume (tty_ptr_len s) s
         in Inr (w\<lparr>w_tty := s1, w_ram := m\<rparr>,
                 if tty_data_count s1 = 0 \<and> tty_ready s1 \<noteq> 0 then [False] else [])))"

definition tty_command :: "vtop \<Rightarrow> u32 \<Rightarrow> tty_world \<Rightarrow> (tty_world \<times> bool list) outcome" where
  "tty_command tr value w =
     (let s = w_tty w in
      if value = TTY_CMD_INT_DISABLE then
        Inr (if tty_ready s \<noteq> 0 then
               (w\<lparr>w_tty := s\<lparr>tty_ready := 0\<rparr>\<rparr>, if tty_data_count s > 0 then [False] else [])
             else (w, []))
      else if value = TTY_CMD_INT_ENABLE then
        Inr (if tty_ready s = 0 then
               (w\<lparr>w_tty := s\<lparr>tty_ready := 1\<rparr>\<rparr>, if tty_data_count s > 0 then [True] else [])
             else (w, []))
      else if value = TTY_CMD_WRITE_BUFFER then
        (if tty_cs s then
           (case tty_write_loop tr (ucast (tty_ptr s)) (sint (tty_ptr_len s)) w of
              Inl e \<Rightarrow> Inl e
            | Inr w1 \<Rightarrow> Inr (w1, []))
         else Inr (w, []))
      else if value = TTY_CMD_READ_BUFFER then tty_read_buffer tr w
      else Inl Cpu_abort)"

definition goldfish_tty_write ::
    "vtop \<Rightarrow> u64 \<Rightarrow> u32 \<Rightarrow> tty_world \<Rightarrow> (tty_world \<times> bool list) outcome" where
  "goldfish_tty_write tr offset value w =
     (let s = w_tty w in
      if offset = TTY_PUT_CHAR then
        Inr (if tty_cs s then w\<lparr>w_out := w_out w @ [ucast value]\<rparr> else w, [])
      else if offset = TTY_CMD then tty_command tr value w
      else if offset = TTY_DATA_PTR then
        Inr (w\<lparr>w_tty := s\<lparr>tty_ptr := uint64_set_low (tty_ptr s) value\<rparr>\<rparr>, [])
      else if offset = TTY_DATA_PTR_HIGH then
        Inr (w\<lparr>w_tty := s\<lparr>tty_ptr := uint64_set_high (tty_ptr s) value\<rparr>\<rparr>, [])
      else if offset = TTY_DATA_LEN then Inr (w\<lparr>w_tty := s\<lparr>tty_ptr_len := value\<rparr>\<rparr>, [])
      else Inl Cpu_abort)"

section \<open>Host side\<close>

definition tty_can_receive :: "tty_state \<Rightarrow> int" where
  "tty_can_receive s = int tty_data_size - int (unat (tty_data_count s))"

text \<open>The copy is not checked against the size of the buffer.\<close>

definition tty_receive :: "bytes \<Rightarrow> tty_state \<Rightarrow> (tty_state \<times> bool list) outcome" where
  "tty_receive buf s =
     (if unat (tty_data_count s) + length buf > tty_data_size then Inl Undefined_behaviour
      else
        (let s1 = s\<lparr>tty_data := seg_write (tty_data s) (unat (tty_data_count s)) buf,
                    tty_data_count := tty_data_count s + of_nat (length buf)\<rparr>
         in Inr (s1, if tty_data_count s1 > 0 \<and> tty_ready s1 \<noteq> 0 then [True] else [])))"

section \<open>Invariant and interrupt line\<close>

definition tty_inv :: "tty_state \<Rightarrow> bool" where
  "tty_inv s \<longleftrightarrow> length (tty_data s) = tty_data_size \<and> unat (tty_data_count s) \<le> tty_data_size"

definition tty_wants_irq :: "tty_state \<Rightarrow> bool" where
  "tty_wants_irq s \<longleftrightarrow> tty_ready s \<noteq> 0 \<and> tty_data_count s > 0"

datatype tty_op = Tty_write u64 u32 | Tty_receive bytes

definition tty_step :: "vtop \<Rightarrow> tty_op \<Rightarrow> tty_world \<Rightarrow> (tty_world \<times> bool list) outcome" where
  "tty_step tr ev w =
     (case ev of
        Tty_write offset value \<Rightarrow> goldfish_tty_write tr offset value w
      | Tty_receive buf \<Rightarrow>
          (case tty_receive buf (w_tty w) of
             Inl e \<Rightarrow> Inl e
           | Inr (s, ls) \<Rightarrow> Inr (w\<lparr>w_tty := s\<rparr>, ls)))"

lemma track_char_tty: "tty_track_char c w = Inr w' \<Longrightarrow> w_tty w' = w_tty w"
  by (auto simp: tty_track_char_def Let_def split: if_splits sum.splits)

lemma track_chars_tty: "tty_track_chars cs w = Inr w' \<Longrightarrow> w_tty w' = w_tty w"
  by (induction cs arbitrary: w) (auto split: sum.splits dest: track_char_tty)

lemma write_loop_tty: "tty_write_loop tr buf len w = Inr w' \<Longrightarrow> w_tty w' = w_tty w"
proof (induction tr buf len w rule: tty_write_loop.induct)
  case (1 tr buf len w)
  show ?case
  proof (cases "0 < len")
    case True
    let ?n = "if 64 > len then len else 64"
    from 1(2) True obtain temp w1 where
      r: "safe_memory_read tr (w_ram w) buf ?n = Inr temp" "tty_track_chars temp w = Inr w1"
      "tty_write_loop tr (buf + of_int ?n) (len - ?n) (tty_chr_write temp w1) = Inr w'"
      unfolding tty_write_loop.simps [of tr buf len w] Let_def by (auto split: sum.splits if_splits)
    from 1(1) [OF _ _ refl r(1,2,3)] True track_chars_tty [OF r(2)] show ?thesis
      by (auto simp: tty_chr_write_def split: if_splits)
  qed (use 1(2) in \<open>auto simp: tty_write_loop.simps [of tr buf len w] split: if_splits\<close>)
qed

lemma tty_consume_count: "n \<le> tty_data_count s \<Longrightarrow>
    unat (tty_data_count (tty_consume n s)) = unat (tty_data_count s) - unat n"
  by (simp add: tty_consume_def unat_sub)

lemma tty_consume_ready [simp]: "tty_ready (tty_consume n s) = tty_ready s"
  by (simp add: tty_consume_def)

lemma tty_consume_nonempty:
  "n \<le> tty_data_count s \<Longrightarrow> tty_data_count (tty_consume n s) \<noteq> 0 \<Longrightarrow> tty_data_count s \<noteq> 0"
  by (auto simp: tty_consume_def)

lemma tty_consume_inv: "tty_inv s \<Longrightarrow> n \<le> tty_data_count s \<Longrightarrow> tty_inv (tty_consume n s)"
  using tty_consume_count [of n s]
  by (auto simp: tty_inv_def tty_consume_def)

lemma tty_consume_contents:
  assumes "tty_inv s" "n \<le> tty_data_count s"
  shows "tty_contents s = take (unat n) (tty_data s) @ tty_contents (tty_consume n s)"
proof (cases "tty_data_count s > n")
  case True
  then obtain k where k: "unat (tty_data_count s) = unat n + k"
    using less_imp_add_positive word_less_nat_alt by metis
  have c: "unat (tty_data_count (tty_consume n s)) = k"
    using tty_consume_count [OF assms(2)] k by simp
  have l: "length (seg_read (tty_data s) (unat n) k) = k"
    using assms(1) k by (auto simp: tty_inv_def)
  have "tty_data (tty_consume n s) = seg_write (tty_data s) 0 (seg_read (tty_data s) (unat n) k)"
    using True k by (simp add: tty_consume_def)
  then have "take k (tty_data (tty_consume n s)) = seg_read (tty_data s) (unat n) k"
    using l by (simp add: seg_write_def)
  then show ?thesis by (simp add: tty_contents_def c k take_add seg_read_def)
next
  case False
  with assms(2) have "n = tty_data_count s" by simp
  then show ?thesis by (simp add: tty_contents_def tty_consume_def)
qed

lemma tty_receive_step:
  assumes "tty_inv s" "tty_receive buf s = Inr (s', ls)"
  shows "tty_inv s'" "tty_contents s' = tty_contents s @ buf"
    "drive (tty_wants_irq s) ls = tty_wants_irq s'"
    "unat (tty_data_count s') = unat (tty_data_count s) + length buf"
proof -
  have le: "unat (tty_data_count s) + length buf \<le> 128"
    and s': "s' = s\<lparr>tty_data := seg_write (tty_data s) (unat (tty_data_count s)) buf,
       tty_data_count := tty_data_count s + of_nat (length buf)\<rparr>"
    and ls: "ls = (if tty_data_count s' > 0 \<and> tty_ready s' \<noteq> 0 then [True] else [])"
    using assms(2) by (auto simp: tty_receive_def tty_data_size_def Let_def split: if_splits)
  then show c: "unat (tty_data_count s') = unat (tty_data_count s) + length buf"
    by (simp add: unat_word_ariths unat_of_nat)
  show "tty_inv s'" using assms(1) le c s' by (simp add: tty_inv_def tty_data_size_def)
  show "tty_contents s' = tty_contents s @ buf"
    using assms(1) le c unfolding tty_contents_def c
    by (simp add: s' seg_write_def tty_inv_def tty_data_size_def)
  have "0 < tty_data_count s \<Longrightarrow> 0 < tty_data_count s'"
    using c by (simp add: word_less_nat_alt)
  then show "drive (tty_wants_irq s) ls = tty_wants_irq s'"
    using ls s' by (auto simp: tty_wants_irq_def)
qed

interpretation tty_irq: level_irq_device "tty_step tr" "\<lambda>w. tty_wants_irq (w_tty w)" "\<lambda>w. tty_inv (w_tty w)"
  for tr
proof
  fix w w' :: tty_world and a ls
  assume inv: "tty_inv (w_tty w)" and step: "tty_step tr a w = Inr (w', ls)"
  have "tty_inv (w_tty w') \<and> drive (tty_wants_irq (w_tty w)) ls = tty_wants_irq (w_tty w')"
  proof (cases a)
    case (Tty_receive buf)
    with step tty_receive_step [OF inv] show ?thesis
      by (auto simp: tty_step_def split: sum.splits)
  next
    case (Tty_write offset v)
    note w = this
    show ?thesis
    proof (cases "offset = TTY_CMD \<and> v = TTY_CMD_READ_BUFFER")
      case True
      let ?s = "w_tty w" and ?n = "tty_ptr_len (w_tty w)"
      from True w step have "?n \<le> tty_data_count ?s" "w_tty w' = tty_consume ?n ?s"
        "ls = (if tty_data_count (tty_consume ?n ?s) = 0 \<and> tty_ready ?s \<noteq> 0 then [False] else [])"
        by (auto simp: tty_step_def goldfish_tty_write_def tty_command_def tty_read_buffer_def
            dev_defs Let_def split: if_splits)
      then show ?thesis
        using tty_consume_inv [OF inv, of ?n] tty_consume_nonempty [of ?n ?s]
        by (auto simp: tty_wants_irq_def word_gt_0)
    next
      case False
      with w step inv show ?thesis
        by (auto simp: tty_step_def goldfish_tty_write_def tty_command_def dev_defs Let_def
            tty_inv_def tty_wants_irq_def split: if_splits sum.splits dest: write_loop_tty)
    qed
  qed
  then show "tty_inv (w_tty w')" "drive (tty_wants_irq (w_tty w)) ls = tty_wants_irq (w_tty w')"
    by simp_all
qed

text \<open>
  C9: The interrupt line of the serial port is level-triggered: after any sequence of register
  writes and receptions that does not fault, started in a well-formed state with the line at the
  level it should have, the line is up exactly when interrupts are enabled and the receive buffer
  is not empty, and the receive buffer has not overflowed.
\<close>

theorem tty_irq_level:
  assumes "tty_inv (w_tty w)" "run_device (tty_step tr) ops w (tty_wants_irq (w_tty w)) = Inr (w', line)"
  shows "tty_inv (w_tty w') \<and> line = (tty_ready (w_tty w') \<noteq> 0 \<and> tty_data_count (w_tty w') > 0)"
  using tty_irq.run_line [OF assms] by (simp add: tty_wants_irq_def)

definition tty_world_init :: tty_world where
  "tty_world_init =
     \<lparr>w_tty = goldfish_tty_add True, pras_temp_line = replicate 1000 0, pras_line_length = 0,
      printLength = 1000, w_tracker = gem_tracker_init, w_ram = (\<lambda>_. 0), w_out = []\<rparr>"

lemma tty_world_init_inv: "tty_inv (w_tty tty_world_init)"
  by (simp add: tty_world_init_def goldfish_tty_add_def tty_inv_def)

theorem tty_irq_level_witness:
  "\<exists>w' line. run_device (tty_step (\<lambda>_. None)) [Tty_receive [65, 66], Tty_write TTY_CMD TTY_CMD_INT_ENABLE]
     tty_world_init False = Inr (w', line) \<and> line"
proof -
  have w: "tty_wants_irq (w_tty tty_world_init) = False"
    by (simp add: tty_world_init_def goldfish_tty_add_def tty_wants_irq_def)
  obtain w' line where r: "run_device (tty_step (\<lambda>_. None))
      [Tty_receive [65, 66], Tty_write TTY_CMD TTY_CMD_INT_ENABLE] tty_world_init
      (tty_wants_irq (w_tty tty_world_init)) = Inr (w', line)"
    "tty_ready (w_tty w') \<noteq> 0" "tty_data_count (w_tty w') > 0"
    by (simp add: tty_step_def tty_receive_def tty_world_init_def goldfish_tty_add_def
        tty_data_size_def goldfish_tty_write_def tty_command_def dev_defs Let_def)
  with tty_irq_level [OF tty_world_init_inv r(1)] w show ?thesis by auto
qed

section \<open>The receive buffer is a queue\<close>

text \<open>
  The traffic of a port since a given state: what the character device delivered, never more at once
  than \<open>tty_can_receive\<close> announces, and what the guest found in its own memory at the data pointer
  after each \<open>TTY_CMD_READ_BUFFER\<close>. A guest reads into a buffer that is mapped, no byte of it
  twice. Between the two it may write any other register.
\<close>

inductive tty_traffic :: "vtop \<Rightarrow> tty_world \<Rightarrow> bytes \<Rightarrow> bytes \<Rightarrow> tty_world \<Rightarrow> bool" for tr w0 where
  traffic_start: "tty_traffic tr w0 [] [] w0"
| traffic_receive: "tty_traffic tr w0 acc del w \<Longrightarrow> int (length buf) \<le> tty_can_receive (w_tty w) \<Longrightarrow>
    tty_step tr (Tty_receive buf) w = Inr (w', ls) \<Longrightarrow> tty_traffic tr w0 (acc @ buf) del w'"
| traffic_read: "tty_traffic tr w0 acc del w \<Longrightarrow> a = ucast (tty_ptr (w_tty w)) \<Longrightarrow> n = unat (tty_ptr_len (w_tty w)) \<Longrightarrow>
    virt_mapped tr a n \<Longrightarrow> virt_distinct tr a n \<Longrightarrow>
    goldfish_tty_write tr TTY_CMD TTY_CMD_READ_BUFFER w = Inr (w', ls) \<Longrightarrow>
    tty_traffic tr w0 acc (del @ virt_bytes tr (w_ram w') a n) w'"
| traffic_other: "tty_traffic tr w0 acc del w \<Longrightarrow> (offset, v) \<noteq> (TTY_CMD, TTY_CMD_READ_BUFFER) \<Longrightarrow>
    goldfish_tty_write tr offset v w = Inr (w', ls) \<Longrightarrow> tty_traffic tr w0 acc del w'"

lemma tty_receive_fits:
  assumes "tty_inv s" "int (length buf) \<le> tty_can_receive s"
  shows "\<exists>s' ls. tty_receive buf s = Inr (s', ls)"
proof -
  have "unat (tty_data_count s) + length buf \<le> tty_data_size"
    using assms(2) unfolding tty_can_receive_def by linarith
  then show ?thesis by (simp add: tty_receive_def Let_def)
qed

lemma tty_read_command:
  assumes "tty_inv (w_tty w)" "virt_mapped tr (ucast (tty_ptr (w_tty w))) (unat (tty_ptr_len (w_tty w)))"
    "virt_distinct tr (ucast (tty_ptr (w_tty w))) (unat (tty_ptr_len (w_tty w)))"
    "goldfish_tty_write tr TTY_CMD TTY_CMD_READ_BUFFER w = Inr (w', ls)"
  shows "tty_inv (w_tty w')"
    "tty_contents (w_tty w) =
      virt_bytes tr (w_ram w') (ucast (tty_ptr (w_tty w))) (unat (tty_ptr_len (w_tty w))) @ tty_contents (w_tty w')"
proof -
  let ?s = "w_tty w" and ?n = "tty_ptr_len (w_tty w)" and ?a = "ucast (tty_ptr (w_tty w)) :: u32"
  let ?bs = "take (unat ?n) (tty_data ?s)"
  from assms(4) have r: "?n \<le> tty_data_count ?s" "w_tty w' = tty_consume ?n ?s" "w_ram w' = safe_memory_write tr (w_ram w) ?a ?bs"
    by (auto simp: goldfish_tty_write_def tty_command_def tty_read_buffer_def dev_defs Let_def split: if_splits)
  have "length ?bs = unat ?n" using r(1) assms(1) by (auto simp: tty_inv_def word_le_nat_alt)
  then have "virt_bytes tr (w_ram w') ?a (unat ?n) = ?bs"
    using virt_bytes_store [of tr ?a ?bs "w_ram w"] assms(2,3) by (simp add: r(3) safe_memory_write_bytes)
  then show "tty_contents ?s = virt_bytes tr (w_ram w') ?a (unat ?n) @ tty_contents (w_tty w')"
    using tty_consume_contents [OF assms(1) r(1)] r(2) by simp
  show "tty_inv (w_tty w')" using tty_consume_inv [OF assms(1) r(1)] r(2) by simp
qed

lemma tty_other_write:
  assumes "(offset, v) \<noteq> (TTY_CMD, TTY_CMD_READ_BUFFER)" "goldfish_tty_write tr offset v w = Inr (w', ls)"
  shows "tty_contents (w_tty w') = tty_contents (w_tty w) \<and> tty_inv (w_tty w') = tty_inv (w_tty w)"
  using assms
  by (auto simp: goldfish_tty_write_def tty_command_def dev_defs Let_def tty_inv_def tty_contents_def
      split: if_splits sum.splits dest: write_loop_tty)

lemma tty_traffic_inv:
  "tty_traffic tr w0 acc del w \<Longrightarrow> tty_inv (w_tty w0) \<Longrightarrow> tty_contents (w_tty w0) = [] \<Longrightarrow>
   tty_inv (w_tty w) \<and> acc = del @ tty_contents (w_tty w)"
proof (induction rule: tty_traffic.induct)
  case (traffic_receive acc del w buf w' ls)
  from traffic_receive(3) obtain l2 where "tty_receive buf (w_tty w) = Inr (w_tty w', l2)"
    by (auto simp: tty_step_def split: sum.splits)
  with tty_receive_step [of "w_tty w" buf "w_tty w'" l2] traffic_receive show ?case by simp
next
  case (traffic_read acc del w a n w' ls)
  with tty_read_command [of w tr w' ls] show ?case by simp
next
  case (traffic_other acc del w offset v w' ls)
  with tty_other_write [OF traffic_other(2,3)] show ?case by simp
qed simp

text \<open>
  C20: The serial port neither loses, duplicates nor reorders input, and its buffer does not overflow:
  after any traffic from the reset state the bytes delivered to it are the bytes the guest has found in
  its memory after its read commands, followed by the bytes still in the buffer, at most 128 of them;
  every delivery that keeps to what \<open>tty_can_receive\<close> announces is accepted, 128 less the bytes in the
  buffer are announced, and a read command for at most the bytes in the buffer succeeds.
\<close>

theorem tty_input_order:
  assumes "w_tty w0 = goldfish_tty_add cs" "tty_traffic tr w0 acc del w"
  shows "acc = del @ tty_contents (w_tty w) \<and> length (tty_contents (w_tty w)) \<le> 128 \<and>
    tty_can_receive (w_tty w) = 128 - int (length (tty_contents (w_tty w))) \<and>
    (\<forall>buf. int (length buf) \<le> tty_can_receive (w_tty w) \<longrightarrow> (\<exists>w' ls. tty_step tr (Tty_receive buf) w = Inr (w', ls))) \<and>
    (unat (tty_ptr_len (w_tty w)) \<le> length (tty_contents (w_tty w)) \<longrightarrow>
       (\<exists>w' ls. goldfish_tty_write tr TTY_CMD TTY_CMD_READ_BUFFER w = Inr (w', ls)))"
proof -
  have i: "tty_inv (w_tty w0)" "tty_contents (w_tty w0) = []"
    by (simp_all add: assms(1) goldfish_tty_add_def tty_inv_def tty_contents_def)
  from tty_traffic_inv [OF assms(2) i] have inv: "tty_inv (w_tty w)" and acc: "acc = del @ tty_contents (w_tty w)" by simp_all
  have len: "length (tty_contents (w_tty w)) = unat (tty_data_count (w_tty w))" "unat (tty_data_count (w_tty w)) \<le> 128"
    using inv by (simp_all add: tty_contents_def tty_inv_def tty_data_size_def)
  have "\<exists>w' ls. tty_step tr (Tty_receive buf) w = Inr (w', ls)" if "int (length buf) \<le> tty_can_receive (w_tty w)" for buf
    using tty_receive_fits [OF inv that] by (auto simp: tty_step_def)
  moreover have "\<exists>w' ls. goldfish_tty_write tr TTY_CMD TTY_CMD_READ_BUFFER w = Inr (w', ls)"
    if "unat (tty_ptr_len (w_tty w)) \<le> length (tty_contents (w_tty w))"
    using that len by (simp add: goldfish_tty_write_def tty_command_def tty_read_buffer_def dev_defs Let_def tty_data_size_def
        word_less_nat_alt)
  ultimately show ?thesis using acc len by (simp add: tty_can_receive_def tty_data_size_def)
qed

text \<open>A reset port takes three bytes; the guest asks for two of them at address \<open>0x10\<close>.\<close>

definition tty_world_reading :: tty_world where
  "tty_world_reading = tty_world_init
     \<lparr>w_tty := (goldfish_tty_add True)\<lparr>tty_data := [1, 2, 3] @ replicate 125 0, tty_data_count := 3, tty_ptr := 0x10, tty_ptr_len := 2\<rparr>\<rparr>"

lemma tty_world_reading_traffic:
  "tty_traffic (\<lambda>p. Some (ucast p)) tty_world_init [1, 2, 3] [] tty_world_reading"
proof -
  let ?tr = "\<lambda>p. Some (ucast p) :: u64 option"
  have data: "tty_data (w_tty tty_world_init) = 0 # 0 # 0 # replicate 125 0"
    by (simp add: tty_world_init_def goldfish_tty_add_def tty_data_size_def numeral_eq_Suc)
  have s: "tty_step ?tr (Tty_receive [1, 2, 3]) tty_world_init =
      Inr (tty_world_reading\<lparr>w_tty := (w_tty tty_world_reading)\<lparr>tty_ptr := 0, tty_ptr_len := 0\<rparr>\<rparr>, [])"
    by (simp add: tty_step_def tty_receive_def data seg_write_def Let_def tty_data_size_def,
        simp add: tty_world_reading_def tty_world_init_def goldfish_tty_add_def)
  have "tty_traffic ?tr tty_world_init [1, 2, 3] []
      (tty_world_reading\<lparr>w_tty := (w_tty tty_world_reading)\<lparr>tty_ptr := 0, tty_ptr_len := 0\<rparr>\<rparr>)"
    by (rule traffic_receive [OF traffic_start _ s, simplified append_Nil])
      (simp add: tty_can_receive_def tty_world_init_def goldfish_tty_add_def tty_data_size_def)
  then have "tty_traffic ?tr tty_world_init [1, 2, 3] []
      (tty_world_reading\<lparr>w_tty := (w_tty tty_world_reading)\<lparr>tty_ptr_len := 0\<rparr>\<rparr>)"
    by (rule traffic_other [where offset = TTY_DATA_PTR and v = "0x10" and ls = "[]"])
      (simp_all add: dev_defs goldfish_tty_write_def tty_world_reading_def goldfish_tty_add_def uint64_set_low_def)
  then show ?thesis
    by (rule traffic_other [where offset = TTY_DATA_LEN and v = 2 and ls = "[]"])
      (simp_all add: dev_defs goldfish_tty_write_def tty_world_reading_def goldfish_tty_add_def)
qed

theorem tty_input_order_witness:
  "\<exists>w del. tty_traffic (\<lambda>p. Some (ucast p)) tty_world_init [1, 2, 3] del w \<and> length del = 2 \<and>
     [1, 2, 3] = del @ tty_contents (w_tty w)"
proof -
  let ?tr = "\<lambda>p. Some (ucast p) :: u64 option" and ?w = tty_world_reading
  have i: "w_tty tty_world_init = goldfish_tty_add True" by (simp add: tty_world_init_def)
  have p: "tty_ptr (w_tty ?w) = 0x10" "tty_ptr_len (w_tty ?w) = 2" by (simp_all add: tty_world_reading_def)
  have "unat (tty_ptr_len (w_tty ?w)) \<le> length (tty_contents (w_tty ?w))"
    by (simp add: tty_world_reading_def tty_contents_def)
  with tty_input_order [OF i tty_world_reading_traffic] obtain w' ls where
    r: "goldfish_tty_write ?tr TTY_CMD TTY_CMD_READ_BUFFER ?w = Inr (w', ls)" by blast
  have v: "virt_mapped ?tr 0x10 2" "virt_distinct ?tr 0x10 2"
    by (simp_all add: virt_mapped_def virt_distinct_def virt_to_phys_def list_all_iff upt_rec)
  have t: "tty_traffic ?tr tty_world_init [1, 2, 3] ([] @ virt_bytes ?tr (w_ram w') 0x10 2) w'"
    by (rule traffic_read [OF tty_world_reading_traffic _ _ v r]) (simp_all add: p)
  have "length ([] @ virt_bytes ?tr (w_ram w') 0x10 2) = 2" by (simp add: virt_bytes_def)
  with tty_input_order [OF i t] t show ?thesis by blast
qed

section \<open>The console hook finds the process\<close>

lemma track_chars_append:
  "tty_track_chars (xs @ ys) w =
     (case tty_track_chars xs w of Inl e \<Rightarrow> Inl e | Inr w' \<Rightarrow> tty_track_chars ys w')"
  by (induction xs arbitrary: w) (auto split: sum.splits)

lemma track_chars_line:
  "10 \<notin> set cs \<Longrightarrow> pras_line_length w + length cs < length (pras_temp_line w) \<Longrightarrow>
   \<exists>line. tty_track_chars cs w =
     Inr (w\<lparr>pras_temp_line := line, pras_line_length := pras_line_length w + length cs\<rparr>) \<and>
     length line = length (pras_temp_line w) \<and>
     take (pras_line_length w + length cs) line = take (pras_line_length w) (pras_temp_line w) @ cs"
proof (induction cs arbitrary: w)
  case Nil
  then show ?case by (intro exI [of _ "pras_temp_line w"]) simp
next
  case (Cons c cs)
  let ?n = "pras_line_length w"
  define w1 where "w1 = w\<lparr>pras_temp_line := (pras_temp_line w)[?n := c, ?n + 1 := 0],
    pras_line_length := ?n + 1\<rparr>"
  have w1: "tty_track_char c w = Inr w1"
    using Cons.prems by (auto simp: tty_track_char_def w1_def Let_def)
  have "take (?n + 1) (pras_temp_line w1) = take ?n (pras_temp_line w) @ [c]"
    using Cons.prems(2) by (simp add: w1_def take_Suc_conv_app_nth)
  moreover from Cons.IH [of w1] Cons.prems obtain line where
    "tty_track_chars cs w1 =
      Inr (w1\<lparr>pras_temp_line := line, pras_line_length := pras_line_length w1 + length cs\<rparr>)"
    "length line = length (pras_temp_line w1)"
    "take (pras_line_length w1 + length cs) line =
      take (pras_line_length w1) (pras_temp_line w1) @ cs"
    by (auto simp: w1_def)
  ultimately show ?case
    using w1 by (intro exI [of _ line]) (simp add: w1_def)
qed

lemma track_chars_overflow:
  "10 \<notin> set cs \<Longrightarrow> pras_line_length w + length cs \<ge> length (pras_temp_line w) \<Longrightarrow> cs \<noteq> [] \<Longrightarrow>
   tty_track_chars cs w = Inl Undefined_behaviour"
proof (induction cs arbitrary: w)
  case (Cons c cs)
  show ?case
  proof (cases "pras_line_length w + 1 \<ge> length (pras_temp_line w)")
    case False
    with Cons.prems have "cs \<noteq> []" by auto
    with False Cons show ?thesis by (auto simp: tty_track_char_def Let_def)
  qed (simp add: tty_track_char_def)
qed simp

text \<open>
  The line buffer of the console hook has no bounds check: characters without a newline are
  accepted exactly as long as they fit in the 1000-byte array together with the terminating zero;
  the first one too many writes outside the array.
\<close>

lemma tty_console_overflow:
  assumes "length (pras_temp_line w) = 1000" "10 \<notin> set cs" "cs \<noteq> []"
  shows "tty_track_chars cs w = Inl Undefined_behaviour \<longleftrightarrow> pras_line_length w + length cs \<ge> 1000"
proof (cases "pras_line_length w + length cs \<ge> 1000")
  case True
  with track_chars_overflow [OF assms(2) _ assms(3)] assms(1) show ?thesis by simp
next
  case False
  with track_chars_line [OF assms(2), of w] assms(1) show ?thesis by auto
qed

text \<open>The number in columns 6 to 14 of a line.\<close>

definition decimal :: "int \<Rightarrow> nat list \<Rightarrow> int" where
  "decimal = foldl (\<lambda>a d. a * 10 + int d)"

lemma decimal_simps [simp]: "decimal a [] = a" "decimal a (d # ds) = decimal (a * 10 + int d) ds"
  by (simp_all add: decimal_def)

lemma top_tid_blanks:
  "(\<And>j. j < b \<Longrightarrow> line ! (p + j) = 32) \<Longrightarrow> b \<le> n \<Longrightarrow>
   top_tid_loop line p n 0 = top_tid_loop line (p + b) (n - b) 0"
proof (induction b arbitrary: p n)
  case (Suc b)
  obtain n' where n: "n = Suc n'" using Suc.prems(2) by (cases n) auto
  have "line ! p = 32" using Suc.prems(1) [of 0] by simp
  then have "top_tid_loop line p n 0 = top_tid_loop line (p + 1) n' 0"
    by (simp add: n)
  also have "\<dots> = top_tid_loop line (p + 1 + b) (n' - b) 0"
    using Suc.prems by (intro Suc.IH) (auto simp: n dest: spec [of _ "Suc _"] intro: Suc.prems(1) [of "Suc _", simplified])
  finally show ?case by (simp add: n)
qed simp

lemma sint_digit: "d \<le> 9 \<Longrightarrow> sint (48 + of_nat d :: u8) = 48 + int d"
proof -
  assume "d \<le> 9"
  then have "d \<in> {0, 1, 2, 3, 4, 5, 6, 7, 8, 9}" by auto
  then show ?thesis by auto
qed

lemma decimal_bound:
  "0 \<le> a \<Longrightarrow> list_all (\<lambda>d. d \<le> 9) ds \<Longrightarrow> decimal a ds < (a + 1) * 10 ^ length ds \<and> a \<le> decimal a ds"
proof (induction ds arbitrary: a)
  case (Cons d ds)
  have d: "int d \<le> 9" "0 \<le> a * 10 + int d" "list_all (\<lambda>d. d \<le> 9) ds" using Cons.prems by auto
  have "(a * 10 + int d + 1) * 10 ^ length ds \<le> ((a + 1) * 10) * 10 ^ length ds"
    using d(1) by (intro mult_right_mono) auto
  moreover have "(a + 1) * 10 ^ length (d # ds) = ((a + 1) * 10) * 10 ^ length ds"
    by (simp add: algebra_simps)
  ultimately show ?case
    using Cons.IH [OF d(2,3)] Cons.prems(1) unfolding decimal_simps by linarith
qed simp

lemma top_tid_digits:
  "list_all (\<lambda>d. d \<le> 9) ds \<Longrightarrow> 0 \<le> a \<Longrightarrow> (a + 1) * 10 ^ length ds \<le> 10 ^ 9 \<Longrightarrow>
   (\<And>j. j < length ds \<Longrightarrow> line ! (p + j) = 48 + of_nat (ds ! j)) \<Longrightarrow>
   line ! (p + length ds) = 32 \<Longrightarrow> length ds < n \<Longrightarrow> decimal a ds \<noteq> 0 \<Longrightarrow>
   top_tid_loop line p n a = Inr (decimal a ds)"
proof (induction ds arbitrary: p n a)
  case Nil
  then show ?case by (cases n) auto
next
  case (Cons d ds)
  obtain n' where n: "n = Suc n'" using Cons.prems(6) by (cases n) auto
  have d: "d \<le> 9" "line ! p = 48 + of_nat d" using Cons.prems(1) Cons.prems(4) [of 0] by auto
  have ge: "1 \<le> (10 :: int) ^ length ds" by simp
  have "(a + 1) * 10 ^ length (d # ds) = (a + 1) * 10 * 10 ^ length ds"
    by (simp add: algebra_simps)
  with Cons.prems(3) have "(a + 1) * 10 * 10 ^ length ds \<le> 10 ^ 9" by (simp only:)
  moreover have "(a * 10 + int d + 1) * 10 ^ length ds \<le> (a + 1) * 10 * 10 ^ length ds"
    using d(1) by (intro mult_right_mono) auto
  ultimately have b: "(a * 10 + int d + 1) * 10 ^ length ds \<le> 10 ^ 9" by linarith
  have "(a * 10 + int d + 1) * 1 \<le> (a * 10 + int d + 1) * 10 ^ length ds"
    using ge Cons.prems(2) by (intro mult_left_mono) auto
  from order_trans [OF this b] have le: "a * 10 + int d + 1 \<le> 10 ^ 9" by (simp only: mult_1_right)
  have IH: "top_tid_loop line (p + 1) n' (a * 10 + int d) = Inr (decimal (a * 10 + int d) ds)"
    using Cons.prems b by (intro Cons.IH) (auto simp: n intro: Cons.prems(4) [of "Suc _", simplified])
  have "int32_ok (a * 10)" "int32_ok (a * 10 + int d)"
    using le Cons.prems(2) by (auto simp: int32_ok_def)
  with d IH show ?case by (simp add: n sint_digit Let_def)
qed

lemma strstr_line:
  "strstr body needle \<noteq> None \<Longrightarrow> strstr (x # body @ [c]) needle \<noteq> None"
  unfolding strstr_iff by (metis append.assoc append_Cons)

text \<open>
  C13: The console hook traces the right process: a line of \<open>top\<close> output that starts with a blank,
  mentions the process name and has a non-zero number of at most eight digits (after any blanks)
  in the columns 5 to 13, delivered character by character while the line buffer is at the start
  of a line, records exactly this number as a traced thread and leaves the buffer at the start of
  the next line.
\<close>

theorem tty_console_line_traced:
  assumes "length (pras_temp_line w) = 1000" "pras_line_length w = 1" "pras_temp_line w ! 0 \<noteq> 0"
    and "length body \<le> 997" "10 \<notin> set body" "0 \<notin> set body" "body ! 0 = 32"
    and "strstr body NEEDED_PROC_NAME \<noteq> None"
    and "body = pre @ replicate b 32 @ map (\<lambda>d. 48 + of_nat d) ds @ [32] @ post"
    and "length pre = 5" "list_all (\<lambda>d. d \<le> 9) ds" "b + length ds < 9" "decimal 0 ds \<noteq> 0"
    and "tid_insert (decimal 0 ds) (w_tracker w) = Inr t'"
  shows "\<exists>line. tty_track_chars (body @ [10]) w =
    Inr (w\<lparr>pras_temp_line := line, w_tracker := t', pras_line_length := 1\<rparr>) \<and> length line = 1000"
proof -
  let ?x = "pras_temp_line w ! 0" and ?n = "1 + length body"
  obtain l1 where l1: "tty_track_chars body w = Inr (w\<lparr>pras_temp_line := l1, pras_line_length := ?n\<rparr>)"
    "length l1 = 1000" "take ?n l1 = ?x # body"
    using track_chars_line [OF assms(5), of w] assms(1,2,4) by (auto simp: take_Suc_conv_app_nth)
  define line where "line = l1[?n := 10, ?n + 1 := 0]"
  have tk: "take (?n + 2) line = ?x # body @ [10, 0]"
    using l1(2,3) assms(4) by (simp add: line_def take_Suc_conv_app_nth nth_list_update)
  then have "line = ?x # body @ [10, 0] @ drop (?n + 2) line"
    by (metis append_take_drop_id append_Cons append.assoc)
  then obtain rest where line: "line = ?x # body @ [10, 0] @ rest" by blast
  have cs: "c_string line = ?x # body @ [10]"
    using assms(3,6) unfolding line c_string_def by (subst takeWhile.simps) (auto simp: takeWhile_append)
  have col: "line ! (6 + j) = (replicate b 32 @ map (\<lambda>d. 48 + of_nat d) ds @ [32] @ post @ [10, 0] @ rest) ! j" for j
    unfolding line assms(9) using assms(10) by (simp add: nth_append)
  have "top_tid_loop line 6 9 0 = top_tid_loop line (6 + b) (9 - b) 0"
    using assms(12) by (intro top_tid_blanks) (auto simp: col nth_append)
  also have "\<dots> = Inr (decimal 0 ds)"
  proof (rule top_tid_digits)
    have "(10::int) ^ length ds \<le> 10 ^ 9" using assms(12) by (intro power_increasing) auto
    then show "(0 + 1) * 10 ^ length ds \<le> (10 ^ 9 :: int)" by simp
  qed (use assms(11-13) in \<open>auto simp: col nth_append add.assoc\<close>)
  finally have tid: "top_tid_loop line 6 9 0 = Inr (decimal 0 ds)" .
  have "body \<noteq> []" using assms(9) by simp
  with assms(7) have "line ! 1 = 32" by (simp add: line nth_append)
  then have "oldPidAccumulatorFromTopCommand line (w_tracker w) = Inr t'"
    using tid assms(13,14) by (simp add: oldPidAccumulatorFromTopCommand_def)
  moreover have "strstr (c_string line) NEEDED_PROC_NAME \<noteq> None"
    unfolding cs by (rule strstr_line [OF assms(8)])
  ultimately have "tty_track_char 10 (w\<lparr>pras_temp_line := l1, pras_line_length := ?n\<rparr>) =
      Inr (w\<lparr>pras_temp_line := line, w_tracker := t', pras_line_length := 1\<rparr>)"
    using l1(2) assms(4) by (auto simp: tty_track_char_def Let_def line_def)
  moreover have "length line = 1000" using l1(2) by (simp add: line_def)
  ultimately show ?thesis using l1(1) by (auto simp: track_chars_append)
qed

theorem tty_console_line_traced_witness:
  "\<exists>line t'. tty_track_chars (string_bytes '' u0_a  1234 beeready'' @ [10])
       (tty_world_init\<lparr>pras_temp_line := 10 # replicate 999 0, pras_line_length := 1\<rparr>) =
     Inr (tty_world_init\<lparr>pras_temp_line := line, w_tracker := t', pras_line_length := 1\<rparr>) \<and>
     needed_pid t' = 1234"
proof -
  let ?w = "tty_world_init\<lparr>pras_temp_line := 10 # replicate 999 0, pras_line_length := 1\<rparr>"
  let ?body = "string_bytes '' u0_a  1234 beeready''"
  have t: "tid_insert (decimal 0 [1, 2, 3, 4]) (w_tracker ?w) =
      Inr (gem_tracker_init\<lparr>needed_pid := 1234, needed_tids := (\<lambda>_. 0)(0 := 1234), needed_tid_length := 1\<rparr>)"
    by (simp add: tty_world_init_def gem_tracker_init_def tid_insert_def tid_search_def)
  have b: "?body = string_bytes '' u0_a'' @ replicate 2 32 @ map (\<lambda>d. 48 + of_nat d) [1, 2, 3, 4] @ [32] @
      string_bytes ''beeready''"
    by (simp add: string_bytes_def numeral_2_eq_2)
  have s: "strstr ?body NEEDED_PROC_NAME \<noteq> None"
    unfolding strstr_iff b NEEDED_PROC_NAME_def by (metis append.assoc append_Nil2)
  from tty_console_line_traced [OF _ _ _ _ _ _ _ s b _ _ _ _ t] show ?thesis
    by (auto simp: string_bytes_def tty_world_init_def)
qed

section \<open>Snapshot contract\<close>

definition tty_enc :: "tty_state \<Rightarrow> bytes" where
  "tty_enc s = be64_bytes (tty_ptr s) @ be32_bytes (tty_ptr_len s) @ [ucast (tty_ready s)] @
     [ucast (tty_data_count s)] @ tty_contents s"

definition tty_restore :: "tty_state \<Rightarrow> tty_state \<Rightarrow> tty_state" where
  "tty_restore s0 s =
     s0\<lparr>tty_ptr := tty_ptr s, tty_ptr_len := tty_ptr_len s, tty_ready := tty_ready s,
        tty_data_count := tty_data_count s, tty_data := seg_write (tty_data s0) 0 (tty_contents s)\<rparr>"

interpretation tty_snap: snapshot_device goldfish_tty_save goldfish_tty_load 2 "\<lambda>v. v = 1 \<or> v = 2"
  tty_enc tty_restore "\<lambda>s. tty_inv s \<and> tty_ready s < 256"
proof
  fix s s0 :: tty_state and f :: QEMUFile and rest
  assume inv: "tty_inv s \<and> tty_ready s < 256" and f: "fbuf f = tty_enc s @ rest"
  let ?c = "tty_data_count s"
  have c: "unat ?c \<le> 128" "?c < 256"
    using inv by (auto simp: tty_inv_def tty_data_size_def word_less_nat_alt)
  have len: "length (tty_contents s) = unat ?c"
    using inv by (auto simp: tty_contents_def tty_inv_def tty_data_size_def)
  show "goldfish_tty_load f s0 2 = Inr (0, tty_restore s0 s, f\<lparr>fbuf := rest\<rparr>)"
    using f inv c len
    by (simp add: goldfish_tty_load_def tty_enc_def codec_get get_byte_small get_buffer_enc
        tty_restore_def tty_data_size_def ucast_u8_small)
qed (auto simp: goldfish_tty_save_def goldfish_tty_load_def tty_enc_def codec_put
    qemu_put_byte_def put_buffer_enc tty_contents_def)

text \<open>
  A serial port restored from its own snapshot, whatever state it is restored into, has the
  same registers and the same unread input.
\<close>

lemma tty_snapshot_roundtrip:
  assumes "tty_inv s" "tty_ready s < 256" "tty_inv s0"
  shows "\<exists>s'. goldfish_tty_load (goldfish_tty_save qemu_file_empty s) s0 2 = Inr (0, s', qemu_file_empty) \<and>
    tty_inv s' \<and> tty_contents s' = tty_contents s \<and> tty_ready s' = tty_ready s \<and>
    tty_ptr s' = tty_ptr s \<and> tty_ptr_len s' = tty_ptr_len s"
proof -
  have len: "length (tty_contents s) = unat (tty_data_count s)"
    using assms(1) by (auto simp: tty_contents_def tty_inv_def)
  have "goldfish_tty_load (goldfish_tty_save qemu_file_empty s) s0 2
      = Inr (0, tty_restore s0 s, qemu_file_empty)"
    using assms by (intro tty_snap.load_save) (simp_all add: qemu_file_empty_def)
  moreover have "tty_contents (tty_restore s0 s) = tty_contents s"
    using len unfolding tty_contents_def [of "tty_restore s0 s"]
    by (simp add: tty_restore_def seg_write_def)
  moreover have "tty_inv (tty_restore s0 s)"
    using assms(1,3) len by (auto simp: tty_inv_def tty_restore_def)
  ultimately show ?thesis by (auto simp: tty_restore_def)
qed

end
