(* ===== verification/Goldfish_Battery.thy ===== *)
theory Goldfish_Battery
  imports Qemu_File Irq
begin

unbundle bit_operations_syntax

text \<open>
  The goldfish battery (hw/android/goldfish/battery.c): the power-supply properties set from the
  emulator console, the registers the guest reads them with, the change interrupt and the console
  listing. \<open>int\<close> members are 32-bit words.
\<close>

section \<open>State and operations\<close>

definition BATTERY_INT_STATUS :: u64 where [dev_defs]: "BATTERY_INT_STATUS = 0x00"
definition BATTERY_INT_ENABLE :: u64 where [dev_defs]: "BATTERY_INT_ENABLE = 0x04"
definition BATTERY_AC_ONLINE :: u64 where [dev_defs]: "BATTERY_AC_ONLINE = 0x08"
definition BATTERY_STATUS :: u64 where [dev_defs]: "BATTERY_STATUS = 0x0C"
definition BATTERY_HEALTH :: u64 where [dev_defs]: "BATTERY_HEALTH = 0x10"
definition BATTERY_PRESENT :: u64 where [dev_defs]: "BATTERY_PRESENT = 0x14"
definition BATTERY_CAPACITY :: u64 where [dev_defs]: "BATTERY_CAPACITY = 0x18"
definition BATTERY_STATUS_CHANGED :: u32 where [dev_defs]: "BATTERY_STATUS_CHANGED = 1"
definition AC_STATUS_CHANGED :: u32 where [dev_defs]: "AC_STATUS_CHANGED = 2"
definition BATTERY_INT_MASK :: u32 where [dev_defs]: "BATTERY_INT_MASK = 3"

definition POWER_SUPPLY_PROP_STATUS :: int where [dev_defs]: "POWER_SUPPLY_PROP_STATUS = 0"
definition POWER_SUPPLY_PROP_HEALTH :: int where [dev_defs]: "POWER_SUPPLY_PROP_HEALTH = 1"
definition POWER_SUPPLY_PROP_PRESENT :: int where [dev_defs]: "POWER_SUPPLY_PROP_PRESENT = 2"
definition POWER_SUPPLY_PROP_ONLINE :: int where [dev_defs]: "POWER_SUPPLY_PROP_ONLINE = 3"
definition POWER_SUPPLY_PROP_CAPACITY :: int where [dev_defs]: "POWER_SUPPLY_PROP_CAPACITY = 23"

record goldfish_battery_state =
  bat_int_status :: u32
  bat_int_enable :: u32
  bat_ac_online :: u32
  bat_status :: u32
  bat_health :: u32
  bat_present :: u32
  bat_capacity :: u32
  hw_has_battery :: bool

definition goldfish_battery_init :: "bool \<Rightarrow> goldfish_battery_state" where
  "goldfish_battery_init has_battery =
     \<lparr>bat_int_status = 0, bat_int_enable = 0, bat_ac_online = 1,
      bat_status = (if has_battery then 1 else 3), bat_health = (if has_battery then 1 else 3),
      bat_present = (if has_battery then 1 else 0), bat_capacity = (if has_battery then 50 else 0),
      hw_has_battery = has_battery\<rparr>"

definition battery_values :: "goldfish_battery_state \<Rightarrow> qvalue list" where
  "battery_values s =
     [QInt32 (bat_int_status s), QInt32 (bat_int_enable s), QInt32 (bat_ac_online s),
      QInt32 (bat_status s), QInt32 (bat_health s), QInt32 (bat_present s), QInt32 (bat_capacity s)]"

definition goldfish_battery_fields :: "qfield list" where
  "goldfish_battery_fields = replicate 7 Q_FIELD_INT32"

definition goldfish_battery_save :: "QEMUFile \<Rightarrow> goldfish_battery_state \<Rightarrow> QEMUFile" where
  "goldfish_battery_save f s = qemu_put_struct f (battery_values s)"

definition goldfish_battery_load ::
    "QEMUFile \<Rightarrow> goldfish_battery_state \<Rightarrow> int \<Rightarrow> int \<times> goldfish_battery_state \<times> QEMUFile" where
  "goldfish_battery_load f s version_id =
     (if version_id \<noteq> 1 then (-1, s, f)
      else case qemu_get_struct f goldfish_battery_fields of
          (Some [QInt32 a, QInt32 b, QInt32 c, QInt32 d, QInt32 e, QInt32 g, QInt32 h], f') \<Rightarrow>
            (0, s\<lparr>bat_int_status := a, bat_int_enable := b, bat_ac_online := c, bat_status := d,
                  bat_health := e, bat_present := g, bat_capacity := h\<rparr>, f')
        | (_, f') \<Rightarrow> (-1, s, f'))"

definition goldfish_battery_read ::
    "goldfish_battery_state \<Rightarrow> u64 \<Rightarrow> (u32 \<times> goldfish_battery_state \<times> bool list) outcome" where
  "goldfish_battery_read s offset =
     (if offset = BATTERY_INT_STATUS then
        (let ret = bat_int_status s AND bat_int_enable s
         in if ret \<noteq> 0 then Inr (ret, s\<lparr>bat_int_status := 0\<rparr>, [False]) else Inr (ret, s, []))
      else if offset = BATTERY_INT_ENABLE then Inr (bat_int_enable s, s, [])
      else if offset = BATTERY_AC_ONLINE then Inr (bat_ac_online s, s, [])
      else if offset = BATTERY_STATUS then Inr (bat_status s, s, [])
      else if offset = BATTERY_HEALTH then Inr (bat_health s, s, [])
      else if offset = BATTERY_PRESENT then Inr (bat_present s, s, [])
      else if offset = BATTERY_CAPACITY then Inr (bat_capacity s, s, [])
      else Inl Cpu_abort)"

definition goldfish_battery_write ::
    "goldfish_battery_state \<Rightarrow> u64 \<Rightarrow> u32 \<Rightarrow> goldfish_battery_state outcome" where
  "goldfish_battery_write s offset val =
     (if offset = BATTERY_INT_ENABLE then Inr (s\<lparr>bat_int_enable := val\<rparr>) else Inl Cpu_abort)"

definition battery_assign ::
    "bool \<Rightarrow> int \<Rightarrow> u32 \<Rightarrow> goldfish_battery_state \<Rightarrow> goldfish_battery_state" where
  "battery_assign ac property value s =
     (if ac then
        (if property = POWER_SUPPLY_PROP_ONLINE then s\<lparr>bat_ac_online := value\<rparr> else s)
      else if property = POWER_SUPPLY_PROP_STATUS then s\<lparr>bat_status := value\<rparr>
      else if property = POWER_SUPPLY_PROP_HEALTH then s\<lparr>bat_health := value\<rparr>
      else if property = POWER_SUPPLY_PROP_PRESENT then s\<lparr>bat_present := value\<rparr>
      else if property = POWER_SUPPLY_PROP_CAPACITY then s\<lparr>bat_capacity := value\<rparr>
      else s)"

definition goldfish_battery_set_prop ::
    "bool \<Rightarrow> int \<Rightarrow> u32 \<Rightarrow> goldfish_battery_state \<Rightarrow> goldfish_battery_state \<times> bool list" where
  "goldfish_battery_set_prop ac property value s =
     (let new_status = (if ac then AC_STATUS_CHANGED else BATTERY_STATUS_CHANGED) in
      if \<not> hw_has_battery s then (s, [])
      else
        (let s1 = battery_assign ac property value s in
         if new_status \<noteq> bat_int_status s1 then
           (let s2 = s1\<lparr>bat_int_status := bat_int_status s1 OR new_status\<rparr>
            in (s2, [bat_int_status s2 AND bat_int_enable s2 \<noteq> 0]))
         else (s1, [])))"

text \<open>The listing of the console; \<open>%d\<close> prints a signed decimal number.\<close>

fun show_nat :: "nat \<Rightarrow> string" where
  "show_nat n = (if n < 10 then [char_of (48 + n)] else show_nat (n div 10) @ [char_of (48 + n mod 10)])"

declare show_nat.simps [simp del]

definition show_int :: "int \<Rightarrow> string" where
  "show_int i = (if i < 0 then ''-'' @ show_nat (nat (- i)) else show_nat (nat i))"

definition battery_status_text :: "u32 \<Rightarrow> string" where
  "battery_status_text v =
     (if v = 1 then ''Charging'' else if v = 2 then ''Discharging''
      else if v = 3 then ''Not charging'' else if v = 4 then ''Full'' else ''Unknown'')"

definition battery_health_text :: "u32 \<Rightarrow> string" where
  "battery_health_text v =
     (if v = 1 then ''Good'' else if v = 2 then ''Overhead'' else if v = 3 then ''Dead''
      else if v = 4 then ''Overvoltage'' else if v = 5 then ''Unspecified failure'' else ''Unknown'')"

definition crlf :: string where
  "crlf = [char_of (13::nat), char_of (10::nat)]"

definition goldfish_battery_display :: "goldfish_battery_state \<Rightarrow> string list" where
  "goldfish_battery_display s =
     [''AC: '' @ (if bat_ac_online s \<noteq> 0 then ''online'' else ''offline'') @ crlf,
      ''status: '' @ battery_status_text (bat_status s) @ crlf,
      ''health: '' @ battery_health_text (bat_health s) @ crlf,
      ''present: '' @ (if bat_present s \<noteq> 0 then ''true'' else ''false'') @ crlf,
      ''capacity: '' @ show_int (sint (bat_capacity s)) @ crlf]"

section \<open>The change interrupt\<close>

datatype battery_op = Battery_read u64 | Battery_enable_all | Battery_set_prop bool int u32

text \<open>The operations of a guest that enables both interrupts and keeps them enabled.\<close>

definition battery_step ::
    "battery_op \<Rightarrow> goldfish_battery_state \<Rightarrow> (goldfish_battery_state \<times> bool list) outcome" where
  "battery_step ev s =
     (case ev of
        Battery_read offset \<Rightarrow>
          (case goldfish_battery_read s offset of Inl e \<Rightarrow> Inl e | Inr (v, s', ls) \<Rightarrow> Inr (s', ls))
      | Battery_enable_all \<Rightarrow>
          (case goldfish_battery_write s BATTERY_INT_ENABLE BATTERY_INT_MASK of
             Inl e \<Rightarrow> Inl e | Inr s' \<Rightarrow> Inr (s', []))
      | Battery_set_prop ac property value \<Rightarrow> Inr (goldfish_battery_set_prop ac property value s))"

definition battery_inv :: "goldfish_battery_state \<Rightarrow> bool" where
  "battery_inv s \<longleftrightarrow> bat_int_enable s = BATTERY_INT_MASK \<and> bat_int_status s \<in> {0, 1, 2, 3}"

definition battery_wants_irq :: "goldfish_battery_state \<Rightarrow> bool" where
  "battery_wants_irq s \<longleftrightarrow> bat_int_status s \<noteq> 0"

lemma battery_assign_frame [simp]:
  "bat_int_status (battery_assign ac p v s) = bat_int_status s"
  "bat_int_enable (battery_assign ac p v s) = bat_int_enable s"
  "hw_has_battery (battery_assign ac p v s) = hw_has_battery s"
  by (simp_all add: battery_assign_def)

lemma battery_set_prop_irq:
  assumes "battery_inv s" "goldfish_battery_set_prop ac p v s = (s', ls)"
  shows "battery_inv s' \<and> drive (battery_wants_irq s) ls = battery_wants_irq s'"
  using assms
  by (auto simp: battery_inv_def goldfish_battery_set_prop_def battery_wants_irq_def Let_def
      dev_defs split: if_splits)

interpretation battery_irq: level_irq_device battery_step battery_wants_irq battery_inv
proof
  fix s s' a ls
  assume inv: "battery_inv s" and step: "battery_step a s = Inr (s', ls)"
  have "battery_inv s' \<and> drive (battery_wants_irq s) ls = battery_wants_irq s'"
  proof (cases a)
    case (Battery_read offset)
    with inv step show ?thesis
      by (auto simp: battery_step_def goldfish_battery_read_def battery_inv_def
          battery_wants_irq_def Let_def BATTERY_INT_MASK_def split: if_splits)
  next
    case Battery_enable_all
    with inv step show ?thesis
      by (auto simp: battery_step_def goldfish_battery_write_def battery_inv_def battery_wants_irq_def)
  next
    case (Battery_set_prop ac p v)
    with step battery_set_prop_irq [OF inv] show ?thesis by (auto simp: battery_step_def)
  qed
  then show "battery_inv s'" "drive (battery_wants_irq s) ls = battery_wants_irq s'" by simp_all
qed

text \<open>
  While the guest has both battery interrupts enabled, the interrupt line is up exactly when
  a change has been made since the guest last read the status register: any sequence of property
  changes, register reads and renewed enabling keeps it so.
\<close>

lemma battery_irq_level:
  assumes "battery_inv s" "run_device battery_step ops s (bat_int_status s \<noteq> 0) = Inr (s', line)"
  shows "line = (bat_int_status s' \<noteq> 0) \<and> battery_inv s'"
  using battery_irq.run_line [OF assms(1), of ops s' line] assms(2)
  by (simp add: battery_wants_irq_def)

text \<open>
  A change made before the guest enables the interrupt is never announced: the pending bit
  stays set without an interrupt, and as long as the guest does not read the status register, no
  number of further changes of the same kind raises the line.
\<close>

lemma battery_interrupt_lost:
  assumes "hw_has_battery s" "bat_int_status s = 0" "bat_int_enable s = 0"
    and "goldfish_battery_set_prop False p v s = (s1, ls)"
    and "goldfish_battery_write s1 BATTERY_INT_ENABLE BATTERY_INT_MASK = Inr s2"
  shows "ls = [False] \<and> bat_int_status s2 AND bat_int_enable s2 = BATTERY_STATUS_CHANGED \<and>
    (\<exists>s3. run_device battery_step (map (\<lambda>(q, x). Battery_set_prop False q x) changes) s2 False
       = Inr (s3, False))"
proof -
  have s1: "bat_int_status s1 = BATTERY_STATUS_CHANGED" "ls = [False]" "hw_has_battery s1"
    using assms by (auto simp: goldfish_battery_set_prop_def Let_def dev_defs split: if_splits)
  have s2: "bat_int_status s2 = BATTERY_STATUS_CHANGED" "bat_int_enable s2 = BATTERY_INT_MASK"
    "hw_has_battery s2"
    using assms(5) s1 by (auto simp: goldfish_battery_write_def split: if_splits)
  have "\<exists>s3. run_device battery_step (map (\<lambda>(q, x). Battery_set_prop False q x) changes) t False
      = Inr (s3, False)" if "bat_int_status t = BATTERY_STATUS_CHANGED" for t
    using that
  proof (induction changes arbitrary: t)
    case (Cons c changes)
    then show ?case
      by (cases c) (simp add: battery_step_def goldfish_battery_set_prop_def)
  qed simp
  from this [OF s2(1)] s1(2) s2 show ?thesis by (simp add: dev_defs)
qed

section \<open>Snapshots\<close>

definition battery_restore ::
    "goldfish_battery_state \<Rightarrow> goldfish_battery_state \<Rightarrow> goldfish_battery_state" where
  "battery_restore s0 s = s\<lparr>hw_has_battery := hw_has_battery s0\<rparr>"

interpretation battery_snap: snapshot_device goldfish_battery_save
  "\<lambda>f s v. Inr (goldfish_battery_load f s v)" 1 "\<lambda>v. v = 1"
  "\<lambda>s. concat (map qvalue_bytes (battery_values s))" battery_restore "\<lambda>s. True"
proof
  fix s s0 :: goldfish_battery_state and f :: QEMUFile and rest
  assume "fbuf f = concat (map qvalue_bytes (battery_values s)) @ rest"
  from get_struct_bytes [OF this]
  show "Inr (goldfish_battery_load f s0 1) = Inr (0, battery_restore s0 s, f\<lparr>fbuf := rest\<rparr>)"
    by (simp add: goldfish_battery_load_def goldfish_battery_fields_def battery_values_def
        battery_restore_def numeral_eq_Suc)
qed (simp_all add: goldfish_battery_save_def put_struct_bytes goldfish_battery_load_def)

end
