(* ===== verification/Goldfish_Events.thy ===== *)
theory Goldfish_Events
  imports Qemu_File Irq
begin

unbundle bit_operations_syntax

text \<open>
  The goldfish input device (hw/android/goldfish/events_device.c): the ring of event words, the
  interrupt line, the configuration pages and the capability bits.

  Operations return the levels assigned to the interrupt line. The capability table \<open>ev_bits\<close> is
  a list of byte arrays, one per event type. Events go to the multi-touch screen through the
  function \<open>multitouch_update_pointer\<close>, modelled in its own theory.
\<close>

section \<open>Constants and state\<close>

definition MAX_EVENTS :: nat where "MAX_EVENTS = 256 * 4"
definition REG_READ :: int where [dev_defs]: "REG_READ = 0x00"
definition REG_SET_PAGE :: int where [dev_defs]: "REG_SET_PAGE = 0x00"
definition REG_LEN :: int where [dev_defs]: "REG_LEN = 0x04"
definition REG_DATA :: int where [dev_defs]: "REG_DATA = 0x08"
definition PAGE_NAME :: int where [dev_defs]: "PAGE_NAME = 0x00000"
definition PAGE_EVBITS :: int where [dev_defs]: "PAGE_EVBITS = 0x10000"
definition PAGE_ABSDATA :: int where [dev_defs]: "PAGE_ABSDATA = 0x20003"
definition STATE_INIT :: u32 where [dev_defs]: "STATE_INIT = 0"
definition STATE_BUFFERED :: u32 where [dev_defs]: "STATE_BUFFERED = 1"
definition STATE_LIVE :: u32 where [dev_defs]: "STATE_LIVE = 2"

definition EV_SYN :: nat where "EV_SYN = 0"
definition EV_KEY :: nat where "EV_KEY = 1"
definition EV_REL :: nat where "EV_REL = 2"
definition EV_ABS :: nat where "EV_ABS = 3"
definition EV_SW :: nat where "EV_SW = 5"
definition EV_MAX :: nat where "EV_MAX = 0x1f"

record events_state =
  ev_pending :: u32
  ev_page :: u32
  ev_events :: "u32 list"
  ev_first :: u32
  ev_last :: u32
  ev_state :: u32
  ev_name :: bytes
  ev_bits :: "bytes list"
  abs_info :: "u32 list"

section \<open>The queue\<close>

definition ev_next :: "u32 \<Rightarrow> u32" where
  "ev_next i = (i + 1) AND 0x3FF"

definition enqueue_event ::
    "events_state \<Rightarrow> u32 \<Rightarrow> u32 \<Rightarrow> u32 \<Rightarrow> (events_state \<times> bool list) outcome" where
  "enqueue_event s type code value =
     (let diff = sint (ev_last s - ev_first s);
          enqueued = (if diff < 0 then diff + int MAX_EVENTS else diff)
      in if enqueued + 3 > int MAX_EVENTS then Inr (s, [])
         else if unat (ev_last s) \<ge> MAX_EVENTS then Inl Undefined_behaviour
         else
           (let (s1, ls) =
                  (if ev_first s = ev_last s then
                     (if ev_state s = STATE_LIVE then (s, [True])
                      else (s\<lparr>ev_state := STATE_BUFFERED\<rparr>, []))
                   else (s, []));
                l0 = ev_last s; l1 = ev_next l0; l2 = ev_next l1
            in Inr (s1\<lparr>ev_events := (ev_events s)[unat l0 := type, unat l1 := code, unat l2 := value],
                      ev_last := ev_next l2\<rparr>, ls)))"

definition dequeue_event :: "events_state \<Rightarrow> (u32 \<times> events_state \<times> bool list) outcome" where
  "dequeue_event s =
     (if ev_first s = ev_last s then Inr (0, s, [])
      else if unat (ev_first s) \<ge> MAX_EVENTS then Inl Undefined_behaviour
      else
        (let n = ev_events s ! unat (ev_first s);
             s1 = s\<lparr>ev_first := ev_next (ev_first s)\<rparr>
         in Inr (n, s1, if ev_first s1 = ev_last s1 then [False] else [])))"

section \<open>Registers\<close>

definition ev_page_is_bits :: "int \<Rightarrow> bool" where
  "ev_page_is_bits page \<longleftrightarrow> page \<ge> PAGE_EVBITS \<and> page \<le> PAGE_EVBITS + int EV_MAX"

definition get_page_len :: "events_state \<Rightarrow> int" where
  "get_page_len s =
     (let page = sint (ev_page s) in
      if page = PAGE_NAME then int (length (ev_name s))
      else if ev_page_is_bits page then int (length (ev_bits s ! nat (page - PAGE_EVBITS)))
      else if page = PAGE_ABSDATA then int (length (abs_info s)) * 4
      else 0)"

text \<open>
  The test is \<open>offset > page_len\<close>, so that the byte at \<open>page_len\<close> itself is read: the terminating
  zero of the name, but a cell outside the array for the other pages.
\<close>

definition get_page_data :: "events_state \<Rightarrow> int \<Rightarrow> u32 outcome" where
  "get_page_data s offset =
     (let page = sint (ev_page s) in
      if offset > get_page_len s then Inr 0
      else if page = PAGE_NAME then
        (if offset < 0 then Inl Undefined_behaviour
         else if offset = int (length (ev_name s)) then Inr 0
         else Inr (scast (ev_name s ! nat offset)))
      else if ev_page_is_bits page then
        (let bits = ev_bits s ! nat (page - PAGE_EVBITS)
         in if offset < 0 \<or> nat offset \<ge> length bits then Inl Undefined_behaviour
            else Inr (ucast (bits ! nat offset)))
      else if page = PAGE_ABSDATA then
        (if offset < 0 \<or> nat offset div 4 \<ge> length (abs_info s) then Inl Undefined_behaviour
         else Inr (abs_info s ! (nat offset div 4)))
      else Inr 0)"

definition events_read :: "events_state \<Rightarrow> u64 \<Rightarrow> (u32 \<times> events_state \<times> bool list) outcome" where
  "events_read s off =
     (let offset = sint (ucast off :: u32);
          (s1, ls) =
            (if offset = REG_LEN \<and> sint (ev_page s) = PAGE_ABSDATA then
               (s\<lparr>ev_state := STATE_LIVE\<rparr>, if ev_state s = STATE_BUFFERED then [True] else [])
             else (s, []))
      in if offset = REG_READ then
           (case dequeue_event s1 of
              Inl e \<Rightarrow> Inl e | Inr (v, s2, ls2) \<Rightarrow> Inr (v, s2, ls @ ls2))
         else if offset = REG_LEN then Inr (of_int (get_page_len s1), s1, ls)
         else if offset \<ge> REG_DATA then
           (case get_page_data s1 (offset - REG_DATA) of Inl e \<Rightarrow> Inl e | Inr v \<Rightarrow> Inr (v, s1, ls))
         else Inr (0, s1, ls))"

definition events_write :: "events_state \<Rightarrow> u64 \<Rightarrow> u32 \<Rightarrow> events_state" where
  "events_write s off val =
     (if sint (ucast off :: u32) = REG_SET_PAGE then s\<lparr>ev_page := val\<rparr> else s)"

section \<open>Sources of events\<close>

fun enqueue_all ::
    "(u32 \<times> u32 \<times> u32) list \<Rightarrow> events_state \<Rightarrow> (events_state \<times> bool list) outcome" where
  "enqueue_all [] s = Inr (s, [])"
| "enqueue_all ((t, c, v) # evs) s =
     (case enqueue_event s t c v of
        Inl e \<Rightarrow> Inl e
      | Inr (s1, ls1) \<Rightarrow>
          (case enqueue_all evs s1 of Inl e \<Rightarrow> Inl e | Inr (s2, ls2) \<Rightarrow> Inr (s2, ls1 @ ls2)))"

definition events_put_keycode :: "events_state \<Rightarrow> u32 \<Rightarrow> (events_state \<times> bool list) outcome" where
  "events_put_keycode s keycode =
     enqueue_event s (of_nat EV_KEY) (keycode AND 0x1ff) (if keycode AND 0x200 \<noteq> 0 then 1 else 0)"

text \<open>
  The events of a mouse movement on a screen that is not multi-touch; on a multi-touch screen a
  movement with \<open>dz = 0\<close> is handed to \<open>multitouch_update_pointer\<close> instead.
\<close>

definition mouse_events :: "bool \<Rightarrow> u32 \<Rightarrow> u32 \<Rightarrow> u32 \<Rightarrow> u32 \<Rightarrow> (u32 \<times> u32 \<times> u32) list" where
  "mouse_events touch dx dy dz buttons_state =
     (if dz = 0 then
        (if touch then
           [(of_nat EV_ABS, 0, dx), (of_nat EV_ABS, 1, dy), (of_nat EV_ABS, 2, dz),
            (of_nat EV_KEY, 0x14a, buttons_state AND 1), (of_nat EV_SYN, 0, 0)]
         else [])
      else [(of_nat EV_REL, 0, dx), (of_nat EV_REL, 1, dy), (of_nat EV_SYN, 0, 0)])"

definition events_put_mouse ::
    "bool \<Rightarrow> events_state \<Rightarrow> u32 \<Rightarrow> u32 \<Rightarrow> u32 \<Rightarrow> u32 \<Rightarrow> (events_state \<times> bool list) outcome" where
  "events_put_mouse touch s dx dy dz buttons_state =
     enqueue_all (mouse_events touch dx dy dz buttons_state) s"

definition events_put_generic ::
    "events_state \<Rightarrow> u32 \<Rightarrow> u32 \<Rightarrow> u32 \<Rightarrow> (events_state \<times> bool list) outcome" where
  "events_put_generic s type code value = enqueue_event s type code value"

section \<open>Capability bits\<close>

text \<open>
  Setting the bits \<open>bitl\<close> to \<open>bith\<close> of one byte array; the array grows to the byte of \<open>bith\<close>.
\<close>

definition set_bits :: "bytes \<Rightarrow> nat \<Rightarrow> nat \<Rightarrow> bytes" where
  "set_bits old bitl bith =
     (let il = bitl div 8; ih = bith div 8;
          bits = (if ih \<ge> length old then old @ replicate (ih + 1 - length old) 0 else old);
          maskl = ucast (push_bit (bitl mod 8) (0xff :: u32)) :: u8;
          maskh = drop_bit (7 - bith mod 8) (0xff :: u8)
      in if il \<ge> ih then bits[ih := bits ! ih OR (maskh AND maskl)]
         else
           (let bits1 = bits[il := bits ! il OR maskl];
                bits2 = foldl (\<lambda>b i. b[i := 0xff]) bits1 [il + 1..<ih]
            in bits2[ih := bits2 ! ih OR maskh]))"

definition events_set_bits :: "bytes list \<Rightarrow> nat \<Rightarrow> nat \<Rightarrow> nat \<Rightarrow> bytes list" where
  "events_set_bits t type bitl bith = t[type := set_bits (t ! type) bitl bith]"

definition events_set_bit :: "bytes list \<Rightarrow> nat \<Rightarrow> nat \<Rightarrow> bytes list" where
  "events_set_bit t type b = events_set_bits t type b b"

definition clr_bit :: "bytes \<Rightarrow> nat \<Rightarrow> bytes" where
  "clr_bit bits b =
     (let ii = b div 8 in
      if ii < length bits then bits[ii := bits ! ii AND NOT (push_bit (b mod 8) 1)] else bits)"

definition events_clr_bit :: "bytes list \<Rightarrow> nat \<Rightarrow> nat \<Rightarrow> bytes list" where
  "events_clr_bit t type b = t[type := clr_bit (t ! type) b]"

section \<open>Initialisation\<close>

record events_config =
  hw_dPad :: bool
  hw_trackBall :: bool
  hw_screen :: string
  hw_camera_back :: string
  hw_camera_front :: string
  hw_keyboard :: bool
  hw_keyboard_lid :: bool
  hw_keyboard_charmap :: bytes
  hw_lcd_width :: u32
  hw_lcd_height :: u32

definition dpad_keys :: "nat list" where
  "dpad_keys = [108, 103, 105, 106, 232]"

definition always_keys :: "nat list" where
  "always_keys = [102, 158, 231, 107, 229, 115, 114, 230, 116, 217]"

definition events_key_base :: "events_config \<Rightarrow> bytes list \<Rightarrow> bytes list" where
  "events_key_base cfg t0 =
     (let t1 = fold (\<lambda>k t. events_set_bit t EV_KEY k) always_keys (events_set_bit t0 EV_SYN EV_KEY);
          t2 = (if hw_dPad cfg then fold (\<lambda>k t. events_set_bit t EV_KEY k) dpad_keys t1 else t1);
          t3 = (if hw_trackBall cfg then events_set_bit t2 EV_KEY 0x110 else t2);
          t4 = (if hw_screen cfg = ''touch'' then events_set_bit t3 EV_KEY 0x14a else t3)
      in if hw_camera_back cfg \<noteq> ''none'' \<or> hw_camera_front cfg \<noteq> ''none''
         then events_set_bit t4 EV_KEY 212 else t4)"

definition events_key_table :: "events_config \<Rightarrow> bytes list \<Rightarrow> bytes list" where
  "events_key_table cfg t0 =
     (let t5 = events_key_base cfg t0
      in if hw_keyboard cfg then
           (let t6 = events_set_bits (events_set_bits t5 EV_KEY 1 0xff) EV_KEY 0x160 0x1ff
            in if \<not> hw_dPad cfg then fold (\<lambda>k t. events_clr_bit t EV_KEY k) dpad_keys t6 else t6)
         else t5)"

definition events_abs_table :: "events_config \<Rightarrow> bytes list \<Rightarrow> bytes list" where
  "events_abs_table cfg t =
     (if hw_screen cfg = ''no-touch'' then t
      else
        (let t1 = events_set_bits (events_set_bit t EV_SYN EV_ABS) EV_ABS 0 2
         in if hw_screen cfg = ''multi-touch''
            then fold (\<lambda>k t. events_set_bit t EV_ABS k) [0x2f, 0x35, 0x36, 0x39, 0x30, 0x3a] t1
            else t1))"

definition events_bits_table :: "events_config \<Rightarrow> bytes list" where
  "events_bits_table cfg =
     (let t1 = events_key_table cfg (replicate (EV_MAX + 1) []);
          t2 = (if hw_trackBall cfg
                then events_set_bits (events_set_bit t1 EV_SYN EV_REL) EV_REL 0 1 else t1);
          t3 = events_abs_table cfg t2
      in if hw_keyboard cfg \<and> hw_keyboard_lid cfg
         then events_set_bit (events_set_bit t3 EV_SYN EV_SW) EV_SW 0 else t3)"

text \<open>
  \<open>abs_values[k].max\<close> is the word \<open>4 * k + 1\<close> of the array. \<open>max_slot\<close> is the result of
  \<open>multitouch_get_max_slot\<close>.
\<close>

definition events_abs_info :: "events_config \<Rightarrow> u32 \<Rightarrow> u32 list" where
  "events_abs_info cfg max_slot =
     (let w = hw_lcd_width cfg - 1; h = hw_lcd_height cfg - 1 in
      if hw_screen cfg = ''no-touch'' then []
      else if hw_screen cfg = ''multi-touch'' then
        (replicate (0x3f * 4) 0)
          [1 := w, 5 := h, 9 := 1, 0x2f * 4 + 1 := max_slot, 0x39 * 4 + 1 := max_slot + 1,
           0x35 * 4 + 1 := w, 0x36 * 4 + 1 := h, 0x30 * 4 + 1 := 0x7fffffff, 0x3a * 4 + 1 := 0x100]
      else (replicate (3 * 4) 0)[1 := w, 5 := h, 9 := 1])"

definition events_dev_init :: "events_config \<Rightarrow> u32 \<Rightarrow> events_state" where
  "events_dev_init cfg max_slot =
     \<lparr>ev_pending = 0, ev_page = 0, ev_events = replicate MAX_EVENTS 0, ev_first = 0, ev_last = 0,
      ev_state = STATE_INIT, ev_name = hw_keyboard_charmap cfg, ev_bits = events_bits_table cfg,
      abs_info = events_abs_info cfg max_slot\<rparr>"

section \<open>The queue is a queue\<close>

definition ev_count :: "events_state \<Rightarrow> nat" where
  "ev_count s = (unat (ev_last s) + MAX_EVENTS - unat (ev_first s)) mod MAX_EVENTS"

definition ev_queue :: "events_state \<Rightarrow> u32 list" where
  "ev_queue s = ring_list (ev_events s) (unat (ev_first s)) (ev_count s)"

definition ev_inv :: "events_state \<Rightarrow> bool" where
  "ev_inv s \<longleftrightarrow> length (ev_events s) = MAX_EVENTS \<and> unat (ev_first s) < MAX_EVENTS \<and>
     unat (ev_last s) < MAX_EVENTS"

lemma ev_next_unat: "unat i < 1024 \<Longrightarrow> unat (ev_next i) = (unat i + 1) mod 1024"
proof -
  assume "unat i < 1024"
  then have "unat (i + 1) = unat i + 1" by (simp add: unat_word_ariths)
  moreover have "ev_next i = take_bit 10 (i + 1)"
    by (simp add: ev_next_def take_bit_eq_mask mask_eq_exp_minus_1)
  moreover have "unat (take_bit 10 (i + 1)) = take_bit 10 (unat (i + 1))"
    by (rule unsigned_take_bit_eq)
  ultimately show ?thesis by (simp add: take_bit_eq_mod)
qed

lemma ev_count_less: "ev_count s < 1024"
  by (simp add: ev_count_def MAX_EVENTS_def)

lemma mod_twice: "x < 2 * n \<Longrightarrow> x mod n = (if x < n then x else x - n :: nat)"
  by (simp add: le_mod_geq)

lemma ev_enqueued:
  assumes "ev_inv s"
  defines "d \<equiv> sint (ev_last s - ev_first s)"
  shows "(if d < 0 then d + int MAX_EVENTS else d) = int (ev_count s)"
proof -
  define l where "l = unat (ev_last s)"
  define f where "f = unat (ev_first s)"
  have b: "l < 1024" "f < 1024" using assms(1) by (auto simp: ev_inv_def MAX_EVENTS_def l_def f_def)
  have d: "d = int l - int f"
    using b unfolding d_def l_def f_def by (intro sint_diff_small) simp_all
  have c: "ev_count s = (l + 1024 - f) mod 1024" by (simp add: ev_count_def MAX_EVENTS_def l_def f_def)
  show ?thesis
  proof (cases "f \<le> l")
    case True
    then have "(l + 1024 - f) mod 1024 = l - f"
      using b mod_twice [of "l + 1024 - f" 1024] by simp
    with True d show ?thesis by (simp add: c)
  next
    case False
    then have "(l + 1024 - f) mod 1024 = l + 1024 - f" using b by simp
    with False b d show ?thesis by (simp add: c MAX_EVENTS_def of_nat_diff)
  qed
qed

lemma ev_step3:
  assumes "l < (1024::nat)" "f < 1024" "(l + 1024 - f) mod 1024 = c"
  shows "l = (f + c) mod 1024"
    and "c + 3 < 1024 \<Longrightarrow> ((l + 3) mod 1024 + 1024 - f) mod 1024 = c + 3"
    and "c = 1021 \<Longrightarrow> (l + 3) mod 1024 = f"
    and "(c = 0) = (f = l)"
    and "0 < c \<Longrightarrow> (l + 1024 - (f + 1) mod 1024) mod 1024 = c - 1"
proof -
  have m: "x mod 1024 = (if x < 1024 then x else x - 1024 :: nat)" if "x < 2048" for x
    using mod_twice [of x 1024] that by simp
  have c: "c = (if f \<le> l then l - f else l + 1024 - f)"
    unfolding assms(3) [symmetric] using assms(1,2) by (subst m) auto
  have "f + c < 2048" using assms(1,2) unfolding c by simp
  from m [OF this] show "l = (f + c) mod 1024" using assms(1,2) unfolding c by simp
  have l3: "(l + 3) mod 1024 = (if l + 3 < 1024 then l + 3 else l + 3 - 1024)"
    using assms(1) by (intro m) simp
  show "((l + 3) mod 1024 + 1024 - f) mod 1024 = c + 3" if c3: "c + 3 < 1024"
  proof -
    have lt: "(l + 3) mod 1024 + 1024 - f < 2048" by (simp add: less_diff_conv2 trans_less_add1)
    show ?thesis unfolding m [OF lt] unfolding l3 using c3 assms(1,2) unfolding c
      by (cases "f \<le> l") auto
  qed
  show "(l + 3) mod 1024 = f" if "c = 1021"
    unfolding l3 using that assms(1,2) unfolding c by (cases "f \<le> l") auto
  show "(c = 0) = (f = l)" using assms(1,2) unfolding c by auto
  show "(l + 1024 - (f + 1) mod 1024) mod 1024 = c - 1" if c0: "0 < c"
  proof -
    have f1: "(f + 1) mod 1024 = (if f + 1 < 1024 then f + 1 else f + 1 - 1024)"
      using assms(2) by (intro m) simp
    have lt: "l + 1024 - (f + 1) mod 1024 < 2048" using assms(1) by simp
    show ?thesis unfolding m [OF lt] unfolding f1 using c0 assms(1,2) unfolding c
      by (cases "f \<le> l") auto
  qed
qed

lemma ev_next3:
  assumes "unat l < 1024"
  shows "unat (ev_next (ev_next (ev_next l))) = (unat l + 3) mod 1024"
    and "unat (ev_next (ev_next l)) = (unat l + 2) mod 1024"
proof -
  have a: "unat (ev_next l) = (unat l + 1) mod 1024" by (rule ev_next_unat [OF assms])
  then have "unat (ev_next l) < 1024" by simp
  then have b: "unat (ev_next (ev_next l)) = ((unat l + 1) mod 1024 + 1) mod 1024"
    using ev_next_unat [of "ev_next l"] a by simp
  then show "unat (ev_next (ev_next l)) = (unat l + 2) mod 1024" by (simp add: mod_simps)
  from b have "unat (ev_next (ev_next l)) < 1024" by simp
  then show "unat (ev_next (ev_next (ev_next l))) = (unat l + 3) mod 1024"
    using ev_next_unat [of "ev_next (ev_next l)"] b by (simp add: mod_simps add.commute)
qed

text \<open>Three words stored one after the other extend the ring by three words.\<close>

lemma ring_store3:
  assumes "length buf = n" "c + 3 \<le> n" "l = (f + c) mod n"
  shows "ring_list (buf[l := x, (l + 1) mod n := y, (l + 2) mod n := z]) f (c + 3) =
    ring_list buf f c @ [x, y, z]"
proof -
  let ?b = "buf[l := x, (l + 1) mod n := y, (l + 2) mod n := z]"
  have i: "l = (f + c) mod n" "(l + 1) mod n = (f + (c + 1)) mod n" "(l + 2) mod n = (f + (c + 2)) mod n"
    using assms(3) by (simp_all add: mod_simps add.assoc)
  have ne: "(f + j) mod n \<noteq> (f + k) mod n" if "j < k" "k < c + 3" for j k
    using mod_offset_neq [of j k n f] that assms(2) by simp
  have lt: "(f + j) mod n < n" for j using assms(2) by (intro mod_less_divisor) simp
  show ?thesis
  proof (rule nth_equalityI)
    fix j assume "j < length (ring_list ?b f (c + 3))"
    then have j: "j < c + 3" by simp
    then consider "j < c" | "j = c" | "j = c + 1" | "j = c + 2" by linarith
    then show "ring_list ?b f (c + 3) ! j = (ring_list buf f c @ [x, y, z]) ! j"
      using assms(1) j lt [of j] lt [of c] lt [of "c + 1"] lt [of "c + 2"] ne [of j c] ne [of j "c + 1"] ne [of j "c + 2"] ne [of c "c + 1"]
        ne [of c "c + 2"] ne [of "c + 1" "c + 2"] unfolding i(2,3) unfolding i(1)
      by cases (simp_all add: nth_ring_list nth_append nth_list_update)
  qed simp
qed

lemma enqueue_cases:
  fixes t c v :: u32
  assumes "ev_inv s"
  defines "s' \<equiv> s\<lparr>ev_state := (if ev_first s = ev_last s \<and> ev_state s \<noteq> STATE_LIVE
        then STATE_BUFFERED else ev_state s),
      ev_events := (ev_events s)[unat (ev_last s) := t, unat (ev_next (ev_last s)) := c,
        unat (ev_next (ev_next (ev_last s))) := v],
      ev_last := ev_next (ev_next (ev_next (ev_last s)))\<rparr>"
  shows "enqueue_event s t c v =
    (if ev_count s + 3 > 1024 then Inr (s, [])
     else Inr (s', if ev_first s = ev_last s \<and> ev_state s = STATE_LIVE then [True] else []))"
  using assms(1) ev_enqueued [OF assms(1)]
  by (auto simp: enqueue_event_def s'_def ev_inv_def MAX_EVENTS_def Let_def)

lemma ev_empty_iff: "ev_inv s \<Longrightarrow> (ev_queue s = []) = (ev_first s = ev_last s)"
  using ev_step3(4) [of "unat (ev_last s)" "unat (ev_first s)" "ev_count s"]
  by (auto simp: ev_queue_def ev_inv_def ev_count_def MAX_EVENTS_def ring_list_def
      dest: unsigned_word_eqI)

lemma enqueue_appends:
  assumes "ev_inv s" "ev_count s + 3 < 1024" "enqueue_event s t c v = Inr (s', ls)"
  shows "ev_inv s'" "ev_queue s' = ev_queue s @ [t, c, v]"
    "ev_state s = STATE_LIVE \<Longrightarrow> ev_state s' = STATE_LIVE \<and> ls = (if ev_queue s = [] then [True] else [])"
proof -
  let ?l = "unat (ev_last s)" and ?f = "unat (ev_first s)"
  have b: "?l < 1024" "?f < 1024" "length (ev_events s) = 1024"
    using assms(1) by (auto simp: ev_inv_def MAX_EVENTS_def)
  have c: "(?l + 1024 - ?f) mod 1024 = ev_count s" by (simp add: ev_count_def MAX_EVENTS_def)
  have e: "unat (ev_next (ev_last s)) = (?l + 1) mod 1024"
    "unat (ev_next (ev_next (ev_last s))) = (?l + 2) mod 1024"
    "unat (ev_next (ev_next (ev_next (ev_last s)))) = (?l + 3) mod 1024"
    using b(1) ev_next3 [of "ev_last s"] ev_next_unat [of "ev_last s"] by simp_all
  have s': "ev_events s' = (ev_events s)[?l := t, (?l + 1) mod 1024 := c, (?l + 2) mod 1024 := v]"
    "ev_first s' = ev_first s" "unat (ev_last s') = (?l + 3) mod 1024"
    "ev_state s = STATE_LIVE \<Longrightarrow> ev_state s' = STATE_LIVE"
    "ev_state s = STATE_LIVE \<Longrightarrow> ls = (if ev_first s = ev_last s then [True] else [])"
    using assms(2,3) e unfolding enqueue_cases [OF assms(1)] by auto
  show "ev_inv s'" using b s' by (simp add: ev_inv_def MAX_EVENTS_def)
  have "ev_count s' = ev_count s + 3"
    using ev_step3(2) [OF b(1,2) c] assms(2) by (simp add: ev_count_def [of s'] s' MAX_EVENTS_def)
  moreover note ring_store3 [OF b(3), of "ev_count s" ?l ?f t c v] ev_step3(1) [OF b(1,2) c]
  ultimately show "ev_queue s' = ev_queue s @ [t, c, v]"
    using assms(2) by (simp add: ev_queue_def s')
  show "ev_state s = STATE_LIVE \<Longrightarrow> ev_state s' = STATE_LIVE \<and> ls = (if ev_queue s = [] then [True] else [])"
    using s' ev_empty_iff [OF assms(1)] by simp
qed

lemma dequeue_pops:
  assumes "ev_inv s" "dequeue_event s = Inr (x, s', ls)" "ev_queue s \<noteq> []"
  shows "ev_inv s' \<and> ev_queue s = x # ev_queue s' \<and> ls = (if ev_queue s' = [] then [False] else [])"
proof -
  let ?l = "unat (ev_last s)" and ?f = "unat (ev_first s)"
  have b: "?l < 1024" "?f < 1024" "length (ev_events s) = 1024"
    using assms(1) by (auto simp: ev_inv_def MAX_EVENTS_def)
  have ne: "ev_first s \<noteq> ev_last s" using assms(3) ev_empty_iff [OF assms(1)] by simp
  have c: "(?l + 1024 - ?f) mod 1024 = ev_count s" by (simp add: ev_count_def MAX_EVENTS_def)
  have pos: "0 < ev_count s" using ev_step3(4) [OF b(1,2) c] ne by (auto simp: unsigned_word_eqI)
  have s': "x = ev_events s ! ?f" "s' = s\<lparr>ev_first := ev_next (ev_first s)\<rparr>"
    "ls = (if ev_first s' = ev_last s' then [False] else [])"
    using assms(2) ne b by (auto simp: dequeue_event_def MAX_EVENTS_def Let_def)
  have f': "unat (ev_first s') = (?f + 1) mod 1024" using b s' by (simp add: ev_next_unat)
  have inv: "ev_inv s'" using b f' s'(2) by (simp add: ev_inv_def MAX_EVENTS_def)
  have "ev_count s' = (?l + 1024 - (?f + 1) mod 1024) mod 1024"
    unfolding ev_count_def f' by (simp add: s'(2) MAX_EVENTS_def)
  then have "ev_count s' = ev_count s - 1" by (simp only: ev_step3(5) [OF b(1,2) c pos])
  then have "ev_queue s' = drop 1 (ev_queue s)"
    using ring_list_drop [of 1 "ev_count s" "ev_events s" ?f] pos b(3)
      ring_list_mod [of "ev_events s" "?f + 1" "ev_count s - 1"]
    by (simp add: ev_queue_def f') (simp add: s'(2))
  moreover have "hd (ev_queue s) = x"
    using pos b by (simp add: ev_queue_def ring_list_def s'(1) upt_rec)
  ultimately have "ev_queue s = x # ev_queue s'"
    using assms(3) by (metis drop0 drop_Suc list.collapse One_nat_def)
  with inv s'(3) ev_empty_iff [OF inv] show ?thesis by simp
qed

text \<open>
  When exactly three words of the ring are free, the test for a full queue lets an event in
  that fills the ring: the read and write positions coincide, the queue looks empty and all
  queued events are lost.
\<close>

lemma events_queue_overrun:
  assumes "ev_inv s" "length (ev_queue s) = 1021"
  shows "\<exists>s'. enqueue_event s t c v = Inr (s', []) \<and> ev_queue s' = [] \<and> ev_inv s' \<and> ev_state s' = ev_state s"
proof -
  let ?l = "unat (ev_last s)" and ?f = "unat (ev_first s)"
  have b: "?l < 1024" "?f < 1024" "length (ev_events s) = 1024"
    using assms(1) by (auto simp: ev_inv_def MAX_EVENTS_def)
  have n: "ev_count s = 1021" using assms(2) by (simp add: ev_queue_def)
  then have c: "(?l + 1024 - ?f) mod 1024 = 1021" by (simp add: ev_count_def MAX_EVENTS_def)
  have ne: "ev_first s \<noteq> ev_last s" using ev_step3(4) [OF b(1,2) c] by auto
  let ?l3 = "ev_next (ev_next (ev_next (ev_last s)))"
  have "?l3 = ev_first s"
    using ev_next3(1) [OF b(1)] ev_step3(3) [OF b(1,2) c] by (auto intro: unsigned_word_eqI)
  then show ?thesis
    using n ne unfolding enqueue_cases [OF assms(1)]
    using b by (simp add: ev_queue_def ev_count_def ev_inv_def MAX_EVENTS_def)
qed

lemma enqueue_line:
  assumes "ev_inv s" "enqueue_event s t c v = Inr (s', ls)" "ev_state s \<noteq> STATE_LIVE"
  shows "ls = [] \<and> ev_state s' = (if ev_queue s = [] then STATE_BUFFERED else ev_state s)"
proof -
  have "length (ev_queue s) = ev_count s" by (simp add: ev_queue_def)
  then have "ev_count s + 3 > 1024 \<Longrightarrow> ev_queue s \<noteq> []" by auto
  with assms(2,3) ev_empty_iff [OF assms(1)] show ?thesis unfolding enqueue_cases [OF assms(1)] by (auto split: if_splits)
qed

text \<open>
  C17: What the event queue does in every well-formed state. An event is appended whole when more
  than three words of the ring are free and dropped whole when fewer than three are; when exactly
  three are free it is accepted and the whole queue is lost with it. Reading removes the oldest word,
  and gives 0 when there is none. Before the device is live no event raises the interrupt line, and the first one is
  remembered in the state; in the live state the line is raised when the queue stops being empty and lowered when it
  becomes empty by reading, but left as it is when the queue is lost.
\<close>

theorem events_queue_correct:
  assumes "ev_inv s"
  shows "(\<exists>s' ls. enqueue_event s t c v = Inr (s', ls) \<and> ev_inv s' \<and>
      ev_queue s' = (if length (ev_queue s) < 1021 then ev_queue s @ [t, c, v]
        else if length (ev_queue s) = 1021 then [] else ev_queue s) \<and>
      (if ev_state s = STATE_LIVE
       then ev_state s' = STATE_LIVE \<and> ls = (if ev_queue s = [] then [True] else [])
       else ev_state s' = (if ev_queue s = [] then STATE_BUFFERED else ev_state s) \<and> ls = [])) \<and>
    (case ev_queue s of
       [] \<Rightarrow> dequeue_event s = Inr (0, s, [])
     | x # q \<Rightarrow> \<exists>s' ls. dequeue_event s = Inr (x, s', ls) \<and> ev_inv s' \<and> ev_queue s' = q \<and>
         ls = (if q = [] then [False] else []))"
proof
  have len: "length (ev_queue s) = ev_count s" by (simp add: ev_queue_def)
  have "\<exists>r. enqueue_event s t c v = Inr r" by (simp add: enqueue_cases [OF assms(1)])
  then obtain s' ls where e: "enqueue_event s t c v = Inr (s', ls)" by auto
  have live: "ev_state s = STATE_LIVE \<Longrightarrow> ev_state s' = STATE_LIVE \<and> ls = (if ev_queue s = [] then [True] else [])"
    using e ev_empty_iff [OF assms(1)] len unfolding enqueue_cases [OF assms(1)] by (auto split: if_splits)
  have "ev_inv s' \<and> ev_queue s' = (if length (ev_queue s) < 1021 then ev_queue s @ [t, c, v]
        else if length (ev_queue s) = 1021 then [] else ev_queue s)"
  proof -
    consider "ev_count s < 1021" | "ev_count s = 1021" | "ev_count s > 1021" by linarith
    then show ?thesis
    proof cases
      case 1
      with enqueue_appends(1,2) [OF assms(1) _ e] len show ?thesis by simp
    next
      case 2
      with events_queue_overrun [OF assms, of t c v] e len show ?thesis by simp
    next
      case 3
      with e assms(1) len show ?thesis unfolding enqueue_cases [OF assms(1)] by simp
    qed
  qed
  with e live enqueue_line [OF assms e]
  show "\<exists>s' ls. enqueue_event s t c v = Inr (s', ls) \<and> ev_inv s' \<and>
      ev_queue s' = (if length (ev_queue s) < 1021 then ev_queue s @ [t, c, v]
        else if length (ev_queue s) = 1021 then [] else ev_queue s) \<and>
      (if ev_state s = STATE_LIVE
       then ev_state s' = STATE_LIVE \<and> ls = (if ev_queue s = [] then [True] else [])
       else ev_state s' = (if ev_queue s = [] then STATE_BUFFERED else ev_state s) \<and> ls = [])"
    by (intro exI [of _ s'] exI [of _ ls]) simp
  show "case ev_queue s of
       [] \<Rightarrow> dequeue_event s = Inr (0, s, [])
     | x # q \<Rightarrow> \<exists>s' ls. dequeue_event s = Inr (x, s', ls) \<and> ev_inv s' \<and> ev_queue s' = q \<and>
         ls = (if q = [] then [False] else [])"
  proof (cases "ev_queue s")
    case Nil
    then show ?thesis using ev_empty_iff [OF assms] by (simp add: dequeue_event_def)
  next
    case (Cons x q)
    have "\<exists>r. dequeue_event s = Inr r"
      using assms(1) by (simp add: dequeue_event_def ev_inv_def Let_def)
    then obtain y s2 l2 where d: "dequeue_event s = Inr (y, s2, l2)" by auto
    from dequeue_pops [OF assms d] Cons d show ?thesis by simp
  qed
qed

definition events_example :: events_state where
  "events_example =
     \<lparr>ev_pending = 0, ev_page = 0, ev_events = replicate MAX_EVENTS 0, ev_first = 5, ev_last = 5,
      ev_state = STATE_LIVE, ev_name = [], ev_bits = [], abs_info = []\<rparr>"

theorem events_queue_correct_witness:
  "\<exists>s' ls. enqueue_event events_example 1 30 1 = Inr (s', ls) \<and> ev_queue s' = [1, 30, 1] \<and> drive False ls"
proof -
  have i: "ev_inv events_example" and l: "ev_state events_example = STATE_LIVE"
    by (simp_all add: events_example_def ev_inv_def MAX_EVENTS_def)
  have "ev_count events_example = 0"
    by (simp add: events_example_def ev_count_def MAX_EVENTS_def)
  moreover from this have "ev_queue events_example = []" by (simp add: ev_queue_def)
  ultimately show ?thesis using events_queue_correct [OF i, of 1 30 1] l by auto
qed

section \<open>Capability bits are exact\<close>

definition has_bit :: "bytes \<Rightarrow> nat \<Rightarrow> bool" where
  "has_bit bits n \<longleftrightarrow> n div 8 < length bits \<and> bit (bits ! (n div 8)) (n mod 8)"

lemma length_foldl_fill [simp]: "length (foldl (\<lambda>b i. b[i := v]) b is) = length b"
  by (induction "is" arbitrary: b) auto

lemma nth_foldl_fill:
  "j < length b \<Longrightarrow> foldl (\<lambda>b i. b[i := v]) b is ! j = (if j \<in> set is then v else b ! j)"
  by (induction "is" arbitrary: b) (auto simp: nth_list_update)

lemma ff_mask: "(0xff :: u32) = mask 8" "(0xff :: u8) = mask 8"
  by (simp_all add: mask_eq_exp_minus_1)

lemma bit_maskl: "k < 8 \<Longrightarrow> i < 8 \<Longrightarrow> bit (ucast (push_bit k (0xff :: u32)) :: u8) i = (k \<le> i)"
  unfolding ff_mask by (auto simp: bit_simps)

lemma bit_maskh: "k < 8 \<Longrightarrow> i < 8 \<Longrightarrow> bit (drop_bit (7 - k) (0xff :: u8)) i = (i \<le> k)"
  unfolding ff_mask by (auto simp: bit_simps)

lemma bit_ff: "i < 8 \<Longrightarrow> bit (0xff :: u8) i"
  unfolding ff_mask by (auto simp: bit_simps)

lemma has_bit_extend [simp]: "has_bit (bits @ replicate k 0) n = has_bit bits n"
  by (auto simp: has_bit_def nth_append)

lemma nat_div_mod_le: "(l \<le> n) = (l div 8 < n div 8 \<or> l div 8 = n div 8 \<and> l mod 8 \<le> n mod (8::nat))"
proof -
  have "l = 8 * (l div 8) + l mod 8" "n = 8 * (n div 8) + n mod 8" "l mod 8 < 8" "n mod 8 < 8"
    by simp_all
  then show ?thesis by linarith
qed

lemma has_bit_set_bits:
  assumes "bitl \<le> bith"
  shows "has_bit (set_bits old bitl bith) n = (has_bit old n \<or> bitl \<le> n \<and> n \<le> bith)"
proof -
  define il where "il = bitl div 8"
  define ih where "ih = bith div 8"
  define j where "j = n div 8"
  define bits where "bits = (if ih \<ge> length old then old @ replicate (ih + 1 - length old) 0 else old)"
  define maskl where "maskl = (ucast (push_bit (bitl mod 8) (0xff :: u32)) :: u8)"
  define maskh where "maskh = drop_bit (7 - bith mod 8) (0xff :: u8)"
  note defs = il_def [symmetric] ih_def [symmetric] j_def [symmetric] bits_def [symmetric]
    maskl_def [symmetric] maskh_def [symmetric]
  have len: "ih < length bits" by (simp add: bits_def)
  have old: "has_bit old n = has_bit bits n" by (simp add: bits_def)
  have le: "il \<le> ih" using assms by (simp add: il_def ih_def div_le_mono)
  have m: "bitl mod 8 < 8" "bith mod 8 < 8" "n mod 8 < 8" by simp_all
  note masks = bit_maskl [OF m(1,3), folded maskl_def] bit_maskh [OF m(2,3), folded maskh_def]
    bit_ff [OF m(3)]
  have lens: "length (set_bits old bitl bith) = length bits"
    unfolding set_bits_def Let_def defs by simp
  have nth: "set_bits old bitl bith ! j =
      (if il = ih then (if j = ih then bits ! ih OR (maskh AND maskl) else bits ! j)
       else if j = ih then bits ! ih OR maskh
       else if j = il then bits ! il OR maskl
       else if il < j \<and> j < ih then 0xff else bits ! j)" if "j < length bits"
    using that le len unfolding set_bits_def Let_def defs
    by (auto simp: nth_list_update nth_foldl_fill)
  have ord: "(bitl \<le> n \<and> n \<le> bith) =
      ((il < j \<or> il = j \<and> bitl mod 8 \<le> n mod 8) \<and> (j < ih \<or> j = ih \<and> n mod 8 \<le> bith mod 8))"
    using nat_div_mod_le [of bitl n] nat_div_mod_le [of n bith] unfolding defs by blast
  show ?thesis
  proof (cases "j < length bits")
    case True
    show ?thesis
      using True le len masks(3) unfolding old unfolding ord has_bit_def lens defs nth [OF True]
      by (auto simp: masks(1,2) bit_or_iff bit_and_iff)
  next
    case False
    with len le show ?thesis unfolding old unfolding ord has_bit_def lens defs by auto
  qed
qed

lemma has_bit_clr_bit: "has_bit (clr_bit bits b) n = (has_bit bits n \<and> n \<noteq> b)"
proof -
  have "n = b \<longleftrightarrow> n div 8 = b div 8 \<and> n mod 8 = b mod 8" by (metis mult_div_mod_eq)
  moreover have "bit (push_bit (b mod 8) (1::u8)) (n mod 8) = (n mod 8 = b mod 8)"
    by (simp add: bit_simps)
  ultimately show ?thesis
    by (auto simp: clr_bit_def has_bit_def Let_def nth_list_update bit_and_iff bit_not_iff)
qed

text \<open>
  \<open>events_set_bits\<close> advertises exactly the requested range of codes of one event type: besides
  the codes that were advertised before, the codes from \<open>bitl\<close> to \<open>bith\<close> and no others, and the
  other event types are not touched.
\<close>

lemma events_set_bits_exact:
  assumes "bitl \<le> bith" "type < length t"
  shows "has_bit (events_set_bits t type bitl bith ! ty) n \<longleftrightarrow>
    has_bit (t ! ty) n \<or> ty = type \<and> bitl \<le> n \<and> n \<le> bith"
  using assms(2) by (cases "ty = type") (auto simp: events_set_bits_def has_bit_set_bits [OF assms(1)])

lemma nth_set_other [simp]: "type \<noteq> ty \<Longrightarrow> events_set_bits t type l h ! ty = t ! ty"
  "type \<noteq> ty \<Longrightarrow> events_set_bit t type b ! ty = t ! ty"
  by (simp_all add: events_set_bits_def events_set_bit_def)

lemma length_ev_table [simp]: "length (events_set_bits t type l h) = length t"
  "length (events_set_bit t type b) = length t" "length (events_clr_bit t type b) = length t"
  by (simp_all add: events_set_bits_def events_set_bit_def events_clr_bit_def)

lemma length_fold_table [simp]:
  "length (fold (\<lambda>k t. events_set_bit t type k) ks t) = length t"
  "length (fold (\<lambda>k t. events_clr_bit t type k) ks t) = length t"
  by (induction ks arbitrary: t) auto

lemma fold_set_other: "type \<noteq> ty \<Longrightarrow> fold (\<lambda>k t. events_set_bit t type k) ks t ! ty = t ! ty"
  by (induction ks arbitrary: t) auto

lemma fold_clr_bits:
  "type < length t \<Longrightarrow> has_bit (fold (\<lambda>k t. events_clr_bit t type k) ks t ! type) n
     = (has_bit (t ! type) n \<and> n \<notin> set ks)"
  by (induction ks arbitrary: t) (auto simp: events_clr_bit_def has_bit_clr_bit)

lemma length_key_base [simp]: "length (events_key_base cfg t) = length t"
  by (simp add: events_key_base_def Let_def)

text \<open>
  On a device with a keyboard, every key code from 1 to 255 is advertised to the guest, except
  that without a directional pad exactly its five codes are left out.
\<close>

lemma events_keyboard_keys:
  assumes "hw_keyboard cfg" "1 \<le> k" "k \<le> 255"
  shows "has_bit (events_bits_table cfg ! EV_KEY) k \<longleftrightarrow> hw_dPad cfg \<or> k \<notin> set dpad_keys"
proof -
  let ?t0 = "replicate (EV_MAX + 1) [] :: bytes list"
  have other: "events_bits_table cfg ! EV_KEY = events_key_table cfg ?t0 ! EV_KEY"
    by (simp add: events_bits_table_def events_abs_table_def Let_def fold_set_other
        EV_KEY_def EV_SYN_def EV_REL_def EV_ABS_def EV_SW_def)
  define t5 where "t5 = events_key_base cfg ?t0"
  have t5: "length t5 = EV_MAX + 1" by (simp only: t5_def length_key_base length_replicate)
  have key: "events_key_table cfg ?t0 =
      (let t6 = events_set_bits (events_set_bits t5 EV_KEY 1 0xff) EV_KEY 0x160 0x1ff
       in if \<not> hw_dPad cfg then fold (\<lambda>k t. events_clr_bit t EV_KEY k) dpad_keys t6 else t6)"
    unfolding events_key_table_def t5_def Let_def using assms(1) by (simp only: if_True)
  have ev: "EV_KEY < length t5" using t5 by (simp add: EV_KEY_def EV_MAX_def)
  have "has_bit (events_set_bits (events_set_bits t5 EV_KEY 1 0xff) EV_KEY 0x160 0x1ff ! EV_KEY) k"
    using assms(2,3) ev by (simp add: events_set_bits_def has_bit_set_bits)
  with ev show ?thesis unfolding other key by (simp add: Let_def fold_clr_bits)
qed

definition events_witness_config :: events_config where
  "events_witness_config =
     \<lparr>hw_dPad = False, hw_trackBall = True, hw_screen = ''touch'', hw_camera_back = ''none'',
      hw_camera_front = ''none'', hw_keyboard = True, hw_keyboard_lid = False,
      hw_keyboard_charmap = [], hw_lcd_width = 320, hw_lcd_height = 480\<rparr>"

text \<open>
  The bounds check of the configuration pages is off by one: reading the byte just after a
  capability page or the table of axes, which the check lets through, reads outside the array.
\<close>

lemma events_page_overread:
  assumes "ev_page_is_bits (sint (ev_page s)) \<or> sint (ev_page s) = PAGE_ABSDATA"
  shows "get_page_data s (get_page_len s) = Inl Undefined_behaviour"
  using assms
  by (auto simp: get_page_data_def get_page_len_def ev_page_is_bits_def PAGE_NAME_def
      PAGE_EVBITS_def PAGE_ABSDATA_def EV_MAX_def Let_def nat_mult_distrib)

section \<open>Snapshots\<close>

text \<open>The event words are saved as raw bytes in the order of a little-endian host.\<close>

fun words_of_bytes :: "bytes \<Rightarrow> u32 list" where
  "words_of_bytes (a # b # c # d # rest) =
     (ucast a OR push_bit 8 (ucast b) OR push_bit 16 (ucast c) OR push_bit 24 (ucast d)) # words_of_bytes rest"
| "words_of_bytes _ = []"

definition events_values :: "events_state \<Rightarrow> qvalue list" where
  "events_values s =
     [QInt32 (ev_pending s), QInt32 (ev_page s), QBuffer (concat (map le32_bytes (ev_events s))),
      QInt32 (ev_first s), QInt32 (ev_last s), QInt32 (ev_state s)]"

definition events_state_fields :: "qfield list" where
  "events_state_fields =
     [Q_FIELD_INT32, Q_FIELD_INT32, Q_FIELD_BUFFER (4 * MAX_EVENTS), Q_FIELD_INT32, Q_FIELD_INT32,
      Q_FIELD_INT32]"

definition events_state_save :: "QEMUFile \<Rightarrow> events_state \<Rightarrow> QEMUFile" where
  "events_state_save f s = qemu_put_struct f (events_values s)"

text \<open>
  When the stream ends inside the event words, the members read before are already stored; this
  partial update is not modelled, the result being -1 in any case.
\<close>

definition events_state_load ::
    "QEMUFile \<Rightarrow> events_state \<Rightarrow> int \<Rightarrow> int \<times> events_state \<times> QEMUFile" where
  "events_state_load f s version_id =
     (if version_id \<noteq> 2 then (-1, s, f)
      else case qemu_get_struct f events_state_fields of
          (Some [QInt32 a, QInt32 b, QBuffer e, QInt32 c, QInt32 d, QInt32 g], f') \<Rightarrow>
            (0, s\<lparr>ev_pending := a, ev_page := b, ev_events := words_of_bytes e, ev_first := c,
                  ev_last := d, ev_state := g\<rparr>, f')
        | (_, f') \<Rightarrow> (-1, s, f'))"

lemma le32_join:
  "ucast (ucast v :: u8) OR push_bit 8 (ucast (ucast (drop_bit 8 v) :: u8)) OR
   push_bit 16 (ucast (ucast (drop_bit 16 v) :: u8)) OR
   push_bit 24 (ucast (ucast (drop_bit 24 v) :: u8)) = (v :: u32)"
  using be32_join [of v] by (simp only: or.commute or.left_commute or.assoc)

lemma words_of_bytes_inverse [simp]: "words_of_bytes (concat (map le32_bytes ws)) = ws"
  by (induction ws) (auto simp: le32_bytes_def le32_join)

lemma length_le32 [simp]: "length (concat (map le32_bytes ws)) = 4 * length ws"
  by (induction ws) (auto simp: le32_bytes_def)

definition events_restore :: "events_state \<Rightarrow> events_state \<Rightarrow> events_state" where
  "events_restore s0 s =
     s\<lparr>ev_name := ev_name s0, ev_bits := ev_bits s0, abs_info := abs_info s0\<rparr>"

interpretation events_snap: snapshot_device events_state_save
  "\<lambda>f s v. Inr (events_state_load f s v)" 2 "\<lambda>v. v = 2"
  "\<lambda>s. concat (map qvalue_bytes (events_values s))" events_restore ev_inv
proof
  fix s s0 :: events_state and f :: QEMUFile and rest
  assume inv: "ev_inv s" and f: "fbuf f = concat (map qvalue_bytes (events_values s)) @ rest"
  have "map qvalue_field (events_values s) = events_state_fields"
    using inv by (simp add: events_values_def events_state_fields_def ev_inv_def)
  with get_struct_bytes [OF f]
  have "qemu_get_struct f events_state_fields = (Some (events_values s), f\<lparr>fbuf := rest\<rparr>)" by simp
  then show "Inr (events_state_load f s0 2) = Inr (0, events_restore s0 s, f\<lparr>fbuf := rest\<rparr>)"
    by (simp add: events_state_load_def events_values_def events_restore_def)
qed (simp_all add: events_state_save_def put_struct_bytes events_state_load_def)

end
