(* ===== verification/Goldfish_Nand.thy ===== *)
theory Goldfish_Nand
  imports Guest_Store Qemu_File
begin

unbundle bit_operations_syntax

text \<open>
  The flash memory controller, \<open>hw/android/goldfish/nand.c\<close>: registers, commands, the image files
  behind the devices and their snapshots.

  An image file is its bytes, with the semantics of POSIX for regular files: reading stops at the
  end, writing past the end fills the gap with zeroes. \<open>lim\<close> is the size a file can grow to: a write
  stores what still fits and returns its length, or -1 when nothing fits. Reading and seeking in an open
  file succeed. The image of a device with the read-only flag is opened for reading only, so that writing
  and truncating it fail; the other images are opened for both. The file position is local
  to an operation, since each one starts with a seek. A \<open>None\<close> outside an outcome is a loop that
  does not end. Counters of the \<open>-nand-limits\<close> option are not compiled in (see the findings).
\<close>

section \<open>Files\<close>

definition file_read :: "bytes \<Rightarrow> nat \<Rightarrow> nat \<Rightarrow> bytes" where
  "file_read file pos n = take n (drop pos file)"

definition file_put :: "bytes \<Rightarrow> nat \<Rightarrow> bytes \<Rightarrow> bytes" where
  "file_put file pos bs = take pos (file @ replicate (pos - length file) 0) @ bs @ drop (pos + length bs) file"

definition file_write :: "nat \<Rightarrow> bytes \<Rightarrow> nat \<Rightarrow> bytes \<Rightarrow> int \<times> bytes" where
  "file_write lim file pos bs =
     (let n = min (length bs) (lim - pos) in
      if bs = [] then (0, file) else if n = 0 then (-1, file)
      else (int n, file_put file pos (take n bs)))"

section \<open>Devices\<close>

text \<open>\<open>nd_fd\<close> is the image, \<open>None\<close> for a negative descriptor.\<close>

record nand_dev =
  nd_devname :: bytes
  nd_data :: bytes
  nd_fd :: "bytes option"
  nd_flags :: u32
  nd_page_size :: u32
  nd_extra_size :: u32
  nd_erase_size :: u32
  nd_max_size :: u64

record nand_dev_controller_state =
  nand_dev_sel :: u32
  nand_addr_low :: u32
  nand_addr_high :: u32
  nand_transfer_size :: u32
  nand_data :: u64
  nand_batch_addr_low :: u32
  nand_batch_addr_high :: u32
  nand_result :: u32

text \<open>Bytes past the end of the file are read as \<open>0xff\<close>; the data goes through the buffer of the device.\<close>

function nand_read_loop ::
    "vtop \<Rightarrow> bytes \<Rightarrow> nat \<Rightarrow> nat \<Rightarrow> nat \<Rightarrow> bool \<Rightarrow> u32 \<Rightarrow> nat \<Rightarrow> bytes \<Rightarrow> ram \<Rightarrow> (bytes \<times> ram) option" where
  "nand_read_loop tr file erase pos read_len eof data len buf m =
     (if len = 0 then Some (buf, m)
      else if erase = 0 then None
      else
        let eof1 = (eof \<or> read_len < erase);
            buf1 = (if read_len < erase then replicate erase 0xff else buf);
            want = min len (if read_len < erase then erase else read_len);
            got = file_read file pos want;
            n = (if eof1 then want else length got);
            buf2 = (if eof1 then buf1 else got @ drop (length got) buf1)
        in nand_read_loop tr file erase (if eof1 then pos else pos + n) n eof1 (data + of_nat n) (len - n) buf2
             (safe_memory_write tr m data (take (nat (c_int n)) buf2)))"
  by pat_completeness auto
termination
  by (relation "measures [\<lambda>(tr, file, erase, pos, read_len, eof, data, len, buf, m). len,
      \<lambda>(tr, file, erase, pos, read_len, eof, data, len, buf, m). if eof then 0 else if read_len < erase then 1 else 2]")
    (auto simp: Let_def)

declare nand_read_loop.simps [simp del]

text \<open>
  The result of a failed write, -1, is compared as an unsigned number and passes for success; a short
  write ends the loop.
\<close>

function nand_write_loop ::
    "vtop \<Rightarrow> nat \<Rightarrow> ram \<Rightarrow> nat \<Rightarrow> nat \<Rightarrow> u32 \<Rightarrow> nat \<Rightarrow> bytes \<Rightarrow> bytes \<Rightarrow> (nat \<times> bytes \<times> bytes) option" where
  "nand_write_loop tr lim m write_len pos data len buf file =
     (if len = 0 then Some (0, buf, file)
      else if write_len = 0 then None
      else
        let n = min len write_len;
            bs = fst (cpu_memory_rw_debug_read tr m data (c_int n));
            buf1 = bs @ drop (length bs) buf;
            (ret, file1) = file_write lim file pos (take n buf1)
        in if 0 \<le> ret \<and> ret < int n then Some (len, buf1, file1)
           else nand_write_loop tr lim m n (pos + nat ret) (data + of_nat n) (len - n) buf1 file1)"
  by pat_completeness auto
termination
  by (relation "measure (\<lambda>(tr, lim, m, write_len, pos, data, len, buf, file). len)") (auto simp: Let_def)

declare nand_write_loop.simps [simp del]

function nand_erase_loop :: "nat \<Rightarrow> bytes \<Rightarrow> nat \<Rightarrow> nat \<Rightarrow> nat \<Rightarrow> bytes \<Rightarrow> (nat \<times> bytes) option" where
  "nand_erase_loop lim buf write_len pos len file =
     (if len = 0 then Some (0, file)
      else if write_len = 0 then None
      else
        let n = min len write_len;
            (ret, file1) = file_write lim file pos (take n buf)
        in if 0 \<le> ret \<and> ret < int n then Some (len, file1)
           else nand_erase_loop lim buf n (pos + nat ret) (len - n) file1)"
  by pat_completeness auto
termination
  by (relation "measure (\<lambda>(lim, buf, write_len, pos, len, file). len)") (auto simp: Let_def)

declare nand_erase_loop.simps [simp del]

definition nand_dev_read_file :: "vtop \<Rightarrow> nand_dev \<Rightarrow> bytes \<Rightarrow> u32 \<Rightarrow> u64 \<Rightarrow> u32 \<Rightarrow> ram \<Rightarrow> (u32 \<times> nand_dev \<times> ram) option" where
  "nand_dev_read_file tr dev file data addr total_len m =
     map_option (\<lambda>(buf, m'). (total_len, dev\<lparr>nd_data := buf\<rparr>, m'))
       (nand_read_loop tr file (unat (nd_erase_size dev)) (unat addr) (unat (nd_erase_size dev)) False data
          (unat total_len) (nd_data dev) m)"

definition nand_dev_write_file :: "vtop \<Rightarrow> nat \<Rightarrow> nand_dev \<Rightarrow> bytes \<Rightarrow> u32 \<Rightarrow> u64 \<Rightarrow> u32 \<Rightarrow> ram \<Rightarrow> (u32 \<times> nand_dev) option" where
  "nand_dev_write_file tr lim dev file data addr total_len m =
     map_option (\<lambda>(len, buf, file'). (total_len - of_nat len, dev\<lparr>nd_data := buf, nd_fd := Some file'\<rparr>))
       (nand_write_loop tr lim m (unat (nd_erase_size dev)) (unat addr) data (unat total_len) (nd_data dev) file)"

definition nand_dev_erase_file :: "nat \<Rightarrow> nand_dev \<Rightarrow> bytes \<Rightarrow> u64 \<Rightarrow> u32 \<Rightarrow> (u32 \<times> nand_dev) option" where
  "nand_dev_erase_file lim dev file addr total_len =
     (let buf = replicate (unat (nd_erase_size dev)) 0xff in
      map_option (\<lambda>(len, file'). (total_len - of_nat len, dev\<lparr>nd_data := buf, nd_fd := Some file'\<rparr>))
        (nand_erase_loop lim buf (unat (nd_erase_size dev)) (unat addr) (unat total_len) file))"

section \<open>Commands\<close>

definition NAND_CMD_GET_DEV_NAME :: u32 where [dev_defs]: "NAND_CMD_GET_DEV_NAME = 0"
definition NAND_CMD_READ :: u32 where [dev_defs]: "NAND_CMD_READ = 1"
definition NAND_CMD_WRITE :: u32 where [dev_defs]: "NAND_CMD_WRITE = 2"
definition NAND_CMD_ERASE :: u32 where [dev_defs]: "NAND_CMD_ERASE = 3"
definition NAND_CMD_BLOCK_BAD_GET :: u32 where [dev_defs]: "NAND_CMD_BLOCK_BAD_GET = 4"
definition NAND_CMD_BLOCK_BAD_SET :: u32 where [dev_defs]: "NAND_CMD_BLOCK_BAD_SET = 5"
definition NAND_CMD_READ_BATCH :: u32 where [dev_defs]: "NAND_CMD_READ_BATCH = 6"
definition NAND_CMD_WRITE_BATCH :: u32 where [dev_defs]: "NAND_CMD_WRITE_BATCH = 7"
definition NAND_CMD_ERASE_BATCH :: u32 where [dev_defs]: "NAND_CMD_ERASE_BATCH = 8"
definition NAND_DEV_FLAG_READ_ONLY :: u32 where [dev_defs]: "NAND_DEV_FLAG_READ_ONLY = 1"

definition nand_is_batch :: "u32 \<Rightarrow> bool" where
  "nand_is_batch cmd \<longleftrightarrow> cmd = NAND_CMD_WRITE_BATCH \<or> cmd = NAND_CMD_READ_BATCH \<or> cmd = NAND_CMD_ERASE_BATCH"

definition nand_batch_addr :: "nand_dev_controller_state \<Rightarrow> u64" where
  "nand_batch_addr s = push_bit 32 (ucast (nand_batch_addr_high s)) OR ucast (nand_batch_addr_low s)"

text \<open>The registers are loaded from the descriptor; \<open>is64\<close> is \<open>goldfish_guest_is_64bit\<close>.\<close>

definition nand_load_batch :: "bool \<Rightarrow> ram \<Rightarrow> nand_dev_controller_state \<Rightarrow> nand_dev_controller_state" where
  "nand_load_batch is64 m s =
     (let b = cpu_physical_memory_read m (nand_batch_addr s) (if is64 then 32 else 24) in
      s\<lparr>nand_dev_sel := le32 b 0, nand_addr_low := le32 b 4, nand_addr_high := le32 b 8, nand_transfer_size := le32 b 12,
        nand_data := (if is64 then push_bit 32 (ucast (le32 b 20)) OR ucast (le32 b 16) else ucast (le32 b 16))\<rparr>)"

text \<open>A transfer of a device without a file, from or to its buffer.\<close>

definition buffer_part :: "nand_dev \<Rightarrow> u64 \<Rightarrow> u32 \<Rightarrow> bool" where
  "buffer_part dev addr sz \<longleftrightarrow> unat addr + unat sz \<le> length (nd_data dev)"

text \<open>The part of a request that lies inside the device.\<close>

definition nand_clip :: "nand_dev \<Rightarrow> u64 \<Rightarrow> u32 \<Rightarrow> u32" where
  "nand_clip dev addr sz = (if ucast sz > nd_max_size dev - addr then ucast (nd_max_size dev - addr) else sz)"

text \<open>One command on a device: the result, the device and the guest memory.\<close>

definition nand_dev_cmd ::
    "vtop \<Rightarrow> nat \<Rightarrow> u32 \<Rightarrow> u64 \<Rightarrow> u64 \<Rightarrow> u32 \<Rightarrow> nand_dev \<Rightarrow> ram \<Rightarrow> (u32 \<times> nand_dev \<times> ram) outcome option" where
  "nand_dev_cmd tr lim cmd addr data sz dev m =
     (let ro = (nd_flags dev AND NAND_DEV_FLAG_READ_ONLY \<noteq> 0); out = (addr \<ge> nd_max_size dev);
          n = nand_clip dev addr sz; va = ucast data
      in if cmd = NAND_CMD_GET_DEV_NAME then
           (let n = (if unat sz > length (nd_devname dev) then of_nat (length (nd_devname dev)) else sz)
            in Some (Inr (n, dev, safe_memory_write tr m va (take (unat n) (nd_devname dev)))))
         else if cmd = NAND_CMD_READ_BATCH \<or> cmd = NAND_CMD_READ then
           (if out then Some (Inr (0, dev, m))
            else case nd_fd dev of
                Some file \<Rightarrow> map_option Inr (nand_dev_read_file tr dev file va addr n m)
              | None \<Rightarrow> if \<not> buffer_part dev addr n then Some (Inl Undefined_behaviour)
                        else Some (Inr (n, dev, safe_memory_write tr m va (take (nat (sint n)) (drop (unat addr) (nd_data dev))))))
         else if cmd = NAND_CMD_WRITE_BATCH \<or> cmd = NAND_CMD_WRITE then
           (if ro \<or> out then Some (Inr (0, dev, m))
            else case nd_fd dev of
                Some file \<Rightarrow> map_option (\<lambda>(r, dev'). Inr (r, dev', m)) (nand_dev_write_file tr lim dev file va addr n m)
              | None \<Rightarrow> if \<not> buffer_part dev addr n then Some (Inl Undefined_behaviour)
                        else Some (Inr (n, dev\<lparr>nd_data := seg_write (nd_data dev) (unat addr)
                               (fst (cpu_memory_rw_debug_read tr m va (sint n)))\<rparr>, m)))
         else if cmd = NAND_CMD_ERASE_BATCH \<or> cmd = NAND_CMD_ERASE then
           (if ro \<or> out then Some (Inr (0, dev, m))
            else case nd_fd dev of
                Some file \<Rightarrow> map_option (\<lambda>(r, dev'). Inr (r, dev', m)) (nand_dev_erase_file lim dev file addr n)
              | None \<Rightarrow> if \<not> buffer_part dev addr n then Some (Inl Undefined_behaviour)
                        else Some (Inr (n, dev\<lparr>nd_data := seg_write (nd_data dev) (unat addr) (replicate (unat n) 0xff)\<rparr>, m)))
         else if cmd = NAND_CMD_BLOCK_BAD_GET \<or> cmd = NAND_CMD_BLOCK_BAD_SET then Some (Inr (0, dev, m))
         else Some (Inl Cpu_abort))"

definition nand_dev_do_cmd ::
    "bool \<Rightarrow> vtop \<Rightarrow> nat \<Rightarrow> u32 \<Rightarrow> nand_dev_controller_state \<Rightarrow> nand_dev list \<Rightarrow> ram \<Rightarrow>
     (u32 \<times> nand_dev_controller_state \<times> nand_dev list \<times> ram) outcome option" where
  "nand_dev_do_cmd is64 tr lim cmd s devs m =
     (let s1 = (if nand_is_batch cmd then nand_load_batch is64 m s else s);
          addr = ucast (nand_addr_low s1) OR push_bit 32 (ucast (nand_addr_high s1)); i = unat (nand_dev_sel s1)
      in if i \<ge> length devs then Some (Inr (0, s1, devs, m))
         else map_option (\<lambda>r. obind r (\<lambda>(res, dev', m'). Inr (res, s1, devs[i := dev'], m')))
                (nand_dev_cmd tr lim cmd addr (nand_data s1) (nand_transfer_size s1) (devs ! i) m))"

section \<open>Registers\<close>

text \<open>
  The result of a batch is written back as a whole descriptor of which only one member has been
  set: \<open>junk\<close> is what the others hold.
\<close>

definition nand_store_batch :: "bool \<Rightarrow> bytes \<Rightarrow> nand_dev_controller_state \<Rightarrow> ram \<Rightarrow> ram" where
  "nand_store_batch is64 junk s m =
     cpu_physical_memory_write m (nand_batch_addr s)
       (if is64 then seg_write (take 32 junk) 24 (le32_bytes (nand_result s))
        else seg_write (take 24 junk) 20 (le32_bytes (nand_result s)))"

definition nand_dev_write ::
    "bool \<Rightarrow> vtop \<Rightarrow> nat \<Rightarrow> bytes \<Rightarrow> u32 \<Rightarrow> u32 \<Rightarrow> nand_dev_controller_state \<Rightarrow> nand_dev list \<Rightarrow> ram \<Rightarrow>
     (nand_dev_controller_state \<times> nand_dev list \<times> ram) outcome option" where
  "nand_dev_write is64 tr lim junk offset value s devs m =
     (if offset = 0x008 then
        (if unat value \<ge> length devs then Some (Inl Cpu_abort) else Some (Inr (s\<lparr>nand_dev_sel := value\<rparr>, devs, m)))
      else if offset = 0x054 then Some (Inr (s\<lparr>nand_addr_high := value\<rparr>, devs, m))
      else if offset = 0x050 then Some (Inr (s\<lparr>nand_addr_low := value\<rparr>, devs, m))
      else if offset = 0x058 then Some (Inr (s\<lparr>nand_batch_addr_low := value\<rparr>, devs, m))
      else if offset = 0x05c then Some (Inr (s\<lparr>nand_batch_addr_high := value\<rparr>, devs, m))
      else if offset = 0x04c then Some (Inr (s\<lparr>nand_transfer_size := value\<rparr>, devs, m))
      else if offset = 0x048 then Some (Inr (s\<lparr>nand_data := uint64_set_low (nand_data s) value\<rparr>, devs, m))
      else if offset = 0x100 then Some (Inr (s\<lparr>nand_data := uint64_set_high (nand_data s) value\<rparr>, devs, m))
      else if offset = 0x044 then
        map_option (\<lambda>r. obind r (\<lambda>(res, s1, devs', m').
            let s2 = s1\<lparr>nand_result := res\<rparr>
            in Inr (s2, devs', if nand_is_batch value then nand_store_batch is64 junk s2 m' else m')))
          (nand_dev_do_cmd is64 tr lim value s devs m)
      else Some (Inl Cpu_abort))"

definition nand_dev_read :: "u32 \<Rightarrow> nand_dev_controller_state \<Rightarrow> nand_dev list \<Rightarrow> u32 outcome" where
  "nand_dev_read offset s devs =
     (if offset = 0 then Inr 1
      else if offset = 4 then Inr (of_nat (length devs))
      else if offset = 0x40 then Inr (nand_result s)
      else if unat (nand_dev_sel s) \<ge> length devs then Inr 0
      else
        let dev = devs ! unat (nand_dev_sel s) in
        if offset = 0x10 then Inr (nd_flags dev)
        else if offset = 0x14 then Inr (of_nat (length (nd_devname dev)))
        else if offset = 0x18 then Inr (nd_page_size dev)
        else if offset = 0x1c then Inr (nd_extra_size dev)
        else if offset = 0x20 then Inr (if nd_extra_size dev = 0 then 0 else nd_erase_size dev)
        else if offset = 0x28 then Inr (ucast (nd_max_size dev))
        else if offset = 0x2c then Inr (ucast (drop_bit 32 (nd_max_size dev)))
        else Inl Cpu_abort)"

definition nand_dev_init :: nand_dev_controller_state where
  "nand_dev_init = \<lparr>nand_dev_sel = 0, nand_addr_low = 0, nand_addr_high = 0, nand_transfer_size = 0, nand_data = 0,
     nand_batch_addr_low = 0, nand_batch_addr_high = 0, nand_result = 0\<rparr>"

section \<open>Snapshots\<close>

definition NAND_DEV_SAVE_DISK_BUF_SIZE :: nat where [dev_defs]: "NAND_DEV_SAVE_DISK_BUF_SIZE = 2048"

function nand_save_loop :: "QEMUFile \<Rightarrow> bytes \<Rightarrow> nat \<Rightarrow> u64 \<Rightarrow> QEMUFile" where
  "nand_save_loop f file total_copied max_sz =
     (let got = file_read file total_copied NAND_DEV_SAVE_DISK_BUF_SIZE;
          f1 = qemu_put_buffer f got; total1 = total_copied + length got
      in if length got = NAND_DEV_SAVE_DISK_BUF_SIZE \<and> total1 < unat max_sz then nand_save_loop f1 file total1 max_sz else f1)"
  by pat_completeness auto
termination
  by (relation "measure (\<lambda>(f, file, total_copied, max_sz). length file - total_copied)")
    (auto simp: file_read_def dev_defs)

declare nand_save_loop.simps [simp del]

text \<open>Without a file the seek fails, which is recorded in the stream.\<close>

definition nand_dev_save_disk_state :: "QEMUFile \<Rightarrow> nand_dev \<Rightarrow> QEMUFile" where
  "nand_dev_save_disk_state f dev =
     (case nd_fd dev of
        None \<Rightarrow> f\<lparr>last_error := True\<rparr>
      | Some file \<Rightarrow> nand_save_loop (qemu_put_be64 f (of_nat (length file))) file 0 (nd_max_size dev))"

definition nand_dev_save_disks :: "QEMUFile \<Rightarrow> nand_dev list \<Rightarrow> QEMUFile" where
  "nand_dev_save_disks f devs = fold (\<lambda>dev f. nand_dev_save_disk_state f dev) devs f"

text \<open>
  The result is 0 or \<open>-EIO\<close>, the file and the rest of the stream; \<open>ro\<close> says that the file is open for
  reading only.
\<close>

function nand_load_loop :: "nat \<Rightarrow> bool \<Rightarrow> QEMUFile \<Rightarrow> bytes \<Rightarrow> nat \<Rightarrow> nat \<Rightarrow> int \<times> bytes \<times> QEMUFile" where
  "nand_load_loop lim ro f file next_offset total_sz =
     (if next_offset < total_sz then
        (let n = min NAND_DEV_SAVE_DISK_BUF_SIZE (total_sz - next_offset);
             (got, f1) = qemu_get_buffer f n
         in if length got \<noteq> n then (-5, file, f1)
            else (let (ret, file1) = (if ro then (-1, file) else file_write lim file next_offset got) in
                  if ret \<noteq> int n then (-5, file1, f1)
                  else nand_load_loop lim ro f1 file1 (next_offset + n) total_sz))
      else if ro then (-5, file, f)
      else (0, take total_sz file @ replicate (total_sz - length file) 0, f))"
  by pat_completeness auto
termination
  by (relation "measure (\<lambda>(lim, ro, f, file, next_offset, total_sz). total_sz - next_offset)") (auto simp: dev_defs)

declare nand_load_loop.simps [simp del]

definition nand_dev_load_disk_state :: "nat \<Rightarrow> QEMUFile \<Rightarrow> nand_dev \<Rightarrow> int \<times> nand_dev \<times> QEMUFile" where
  "nand_dev_load_disk_state lim f dev =
     (let (total_sz, f1) = qemu_get_be64 f in
      if total_sz > nd_max_size dev then (-5, dev, f1)
      else case nd_fd dev of
          None \<Rightarrow> (-5, dev, f1)
        | Some file \<Rightarrow>
            (let (ret, file', f2) = nand_load_loop lim (nd_flags dev AND NAND_DEV_FLAG_READ_ONLY \<noteq> 0) f1 file 0 (unat total_sz)
             in (ret, dev\<lparr>nd_fd := Some file'\<rparr>, f2)))"

fun nand_dev_load_disks :: "nat \<Rightarrow> QEMUFile \<Rightarrow> nand_dev list \<Rightarrow> int \<times> nand_dev list \<times> QEMUFile" where
  "nand_dev_load_disks lim f [] = (0, [], f)"
| "nand_dev_load_disks lim f (dev # devs) =
     (let (ret, dev', f1) = nand_dev_load_disk_state lim f dev in
      if ret \<noteq> 0 then (ret, dev' # devs, f1)
      else let (ret2, devs', f2) = nand_dev_load_disks lim f1 devs in (ret2, dev' # devs', f2))"

definition nand_values :: "nand_dev_controller_state \<Rightarrow> qvalue list" where
  "nand_values s = [QInt32 (nand_dev_sel s), QInt32 (nand_addr_low s), QInt32 (nand_addr_high s), QInt32 (nand_transfer_size s),
     QInt64 (nand_data s), QInt32 (nand_batch_addr_low s), QInt32 (nand_batch_addr_high s), QInt32 (nand_result s)]"

definition nand_dev_controller_state_fields :: "qfield list" where
  "nand_dev_controller_state_fields = [Q_FIELD_INT32, Q_FIELD_INT32, Q_FIELD_INT32, Q_FIELD_INT32, Q_FIELD_INT64,
     Q_FIELD_INT32, Q_FIELD_INT32, Q_FIELD_INT32]"

fun qint32 :: "qvalue \<Rightarrow> u32" where
  "qint32 (QInt32 v) = v"
| "qint32 _ = 0"

fun qint64 :: "qvalue \<Rightarrow> u64" where
  "qint64 (QInt64 v) = v"
| "qint64 _ = 0"

definition nand_set_values :: "qvalue list \<Rightarrow> nand_dev_controller_state" where
  "nand_set_values vs =
     \<lparr>nand_dev_sel = qint32 (vs ! 0), nand_addr_low = qint32 (vs ! 1), nand_addr_high = qint32 (vs ! 2),
      nand_transfer_size = qint32 (vs ! 3), nand_data = qint64 (vs ! 4), nand_batch_addr_low = qint32 (vs ! 5),
      nand_batch_addr_high = qint32 (vs ! 6), nand_result = qint32 (vs ! 7)\<rparr>"

definition nand_dev_controller_state_save :: "QEMUFile \<Rightarrow> nand_dev_controller_state \<Rightarrow> nand_dev list \<Rightarrow> QEMUFile" where
  "nand_dev_controller_state_save f s devs = nand_dev_save_disks (qemu_put_struct f (nand_values s)) devs"

text \<open>The integer members cannot fail to be read; the older format has a narrower \<open>data\<close>.\<close>

definition nand_load_legacy :: "QEMUFile \<Rightarrow> nand_dev_controller_state \<times> QEMUFile" where
  "nand_load_legacy f =
     (let (d, f1) = qemu_get_be32 f; (al, f2) = qemu_get_be32 f1; (ah, f3) = qemu_get_be32 f2; (t, f4) = qemu_get_be32 f3;
          (v, f5) = qemu_get_be32 f4; (bl, f6) = qemu_get_be32 f5; (bh, f7) = qemu_get_be32 f6; (r, f8) = qemu_get_be32 f7
      in (nand_set_values [QInt32 d, QInt32 al, QInt32 ah, QInt32 t, QInt64 (ucast v), QInt32 bl, QInt32 bh, QInt32 r], f8))"

definition nand_dev_controller_state_load ::
    "nat \<Rightarrow> QEMUFile \<Rightarrow> nand_dev_controller_state \<Rightarrow> nand_dev list \<Rightarrow> int \<Rightarrow> int \<times> nand_dev_controller_state \<times> nand_dev list \<times> QEMUFile" where
  "nand_dev_controller_state_load lim f s devs version_id =
     (if version_id = 5 then
        (case qemu_get_struct f nand_dev_controller_state_fields of
           (None, f1) \<Rightarrow> (-1, s, devs, f1)
         | (Some vs, f1) \<Rightarrow>
             (let (ret, devs', f2) = nand_dev_load_disks lim f1 devs in (ret, nand_set_values vs, devs', f2)))
      else if version_id = 4 then
        (let (s1, f1) = nand_load_legacy f; (ret, devs', f2) = nand_dev_load_disks lim f1 devs in (ret, s1, devs', f2))
      else (-1, s, devs, f))"

section \<open>Transfers\<close>

lemma file_put_append: "file_put (file_put f p xs) (p + length xs) ys = file_put f p (xs @ ys)"
proof -
  have "length (take p (f @ replicate (p - length f) 0)) = p" by simp
  then show ?thesis by (simp add: file_put_def drop_append ac_simps)
qed

lemma file_put_Nil: "p \<le> length f \<Longrightarrow> file_put f p [] = f"
  by (simp add: file_put_def)

lemma virt_bytes_append: "n \<le> len \<Longrightarrow> virt_bytes tr m a len = virt_bytes tr m a n @ virt_bytes tr m (a + of_nat n) (len - n)"
proof -
  assume n: "n \<le> len"
  have "[0..<len] = [0..<n] @ map (\<lambda>i. i + n) [0..<len - n]"
    using n upt_add_eq_append [of 0 n "len - n"] by (simp add: map_add_upt)
  then show ?thesis by (simp add: virt_bytes_def comp_def ac_simps)
qed

lemma length_virt_bytes [simp]: "length (virt_bytes tr m a n) = n"
  by (simp add: virt_bytes_def)

lemma virt_mapped_mono: "virt_mapped tr a n \<Longrightarrow> k \<le> n \<Longrightarrow> virt_mapped tr a k"
  by (auto simp: virt_mapped_def list_all_iff)

text \<open>What a read transfers: the file from \<open>pos\<close> on, continued with \<open>0xff\<close>.\<close>

lemma nand_read_loop_correct:
  assumes "0 < erase" "erase < 2 ^ 31"
  shows "length buf = erase \<Longrightarrow> read_len \<le> erase \<Longrightarrow> (eof \<Longrightarrow> buf = replicate erase 0xff) \<Longrightarrow> virt_mapped tr data len \<Longrightarrow>
    \<exists>buf'. length buf' = erase \<and> nand_read_loop tr file erase pos read_len eof data len buf m =
      Some (buf', virt_store tr m data (if eof \<or> read_len < erase then replicate len 0xff
        else take len (drop pos file @ replicate len 0xff)))"
  using assms
proof (induction tr "file" erase pos read_len eof data len buf m rule: nand_read_loop.induct)
  case (1 tr img erase pos read_len eof data len buf m)
  show ?case
  proof (cases "len = 0")
    case True
    with "1.prems" show ?thesis by (subst nand_read_loop.simps) auto
  next
    case False
    define eof1 where "eof1 = (eof \<or> read_len < erase)"
    define buf1 where "buf1 = (if read_len < erase then replicate erase 0xff else buf)"
    define want where "want = min len (if read_len < erase then erase else read_len)"
    define got where "got = file_read img pos want"
    define n where "n = (if eof1 then want else length got)"
    define buf2 where "buf2 = (if eof1 then buf1 else got @ drop (length got) buf1)"
    have w: "want = min len erase" "0 < want" using "1.prems" False by (auto simp: want_def)
    have n: "n \<le> len" "n \<le> erase" "length got \<le> want" using w by (auto simp: n_def got_def file_read_def)
    then have tk: "take (nat (c_int n)) buf2 = (if eof1 then replicate n 0xff else got)" "length buf2 = erase"
      using "1.prems" w by (auto simp: c_int_small buf2_def buf1_def n_def eof1_def)
    define bs where "bs = (if eof1 then replicate n 0xff else got)"
    have len_bs: "length bs = n" by (simp add: bs_def n_def)
    have st: "safe_memory_write tr m data (take (nat (c_int n)) buf2) = virt_store tr m data bs"
      using tk(1) virt_mapped_mono [OF "1.prems"(4), of n] n by (simp add: bs_def [symmetric] len_bs safe_memory_write_bytes)
    define m1 where "m1 = virt_store tr m data bs"
    have ff: "eof1 \<Longrightarrow> buf2 = replicate erase 0xff" using "1.prems"(3) by (auto simp: buf2_def buf1_def eof1_def)
    have ez: "erase \<noteq> 0" using "1.prems"(5) by simp
    have "\<exists>buf'. length buf' = erase \<and> nand_read_loop tr img erase (if eof1 then pos else pos + n) n eof1
        (data + of_nat n) (len - n) buf2 m1 =
      Some (buf', virt_store tr m1 (data + of_nat n) (if eof1 \<or> n < erase then replicate (len - n) 0xff
        else take (len - n) (drop (if eof1 then pos else pos + n) img @ replicate (len - n) 0xff)))"
      unfolding m1_def st [symmetric]
      by (rule "1.IH" [OF False ez eof1_def buf1_def want_def got_def n_def buf2_def tk(2) n(2) ff
            virt_mapped_drop [OF "1.prems"(4) n(1)] "1.prems"(5,6)])
    then obtain buf' where b': "length buf' = erase" "nand_read_loop tr img erase (if eof1 then pos else pos + n) n eof1
        (data + of_nat n) (len - n) buf2 m1 =
      Some (buf', virt_store tr m1 (data + of_nat n) (if eof1 \<or> n < erase then replicate (len - n) 0xff
        else take (len - n) (drop (if eof1 then pos else pos + n) img @ replicate (len - n) 0xff)))" by blast
    have "bs @ (if eof1 \<or> n < erase then replicate (len - n) 0xff
        else take (len - n) (drop (if eof1 then pos else pos + n) img @ replicate (len - n) 0xff)) =
      (if eof1 then replicate len 0xff else take len (drop pos img @ replicate len 0xff))"
    proof (cases eof1)
      case True
      with n show ?thesis by (simp add: bs_def replicate_add [symmetric])
    next
      case e: False
      have g: "bs = take want (drop pos img)" "n = min want (length (drop pos img))"
        using e by (simp_all add: bs_def n_def got_def file_read_def)
      show ?thesis
        using e w g take_add [of erase "len - erase" "drop pos img"] by (auto simp: min_def ac_simps split: if_splits)
    qed
    then have "virt_store tr m1 (data + of_nat n) (if eof1 \<or> n < erase then replicate (len - n) 0xff
        else take (len - n) (drop (if eof1 then pos else pos + n) img @ replicate (len - n) 0xff)) =
      virt_store tr m data (if eof1 then replicate len 0xff else take len (drop pos img @ replicate len 0xff))"
      unfolding m1_def len_bs [symmetric] by (simp only: virt_store_append [symmetric])
    moreover have "nand_read_loop tr img erase pos read_len eof data len buf m =
      nand_read_loop tr img erase (if eof1 then pos else pos + n) n eof1 (data + of_nat n) (len - n) buf2 m1"
      by (subst nand_read_loop.simps)
        (simp only: Let_def eof1_def buf1_def want_def got_def n_def buf2_def m1_def st [symmetric] False ez if_False)
    ultimately show ?thesis using b' by (simp add: eof1_def [symmetric])
  qed
qed

lemma file_write_fits: "bs \<noteq> [] \<Longrightarrow> pos + length bs \<le> lim \<Longrightarrow> file_write lim img pos bs = (int (length bs), file_put img pos bs)"
  by (auto simp: file_write_def min_def Let_def)

lemma nand_write_loop_correct:
  assumes "0 < len" "write_len \<le> length buf" "write_len < 2 ^ 31"
  shows "0 < write_len \<Longrightarrow> virt_mapped tr data len \<Longrightarrow> pos + len \<le> lim \<Longrightarrow>
    \<exists>buf'. length buf' = length buf \<and> nand_write_loop tr lim m write_len pos data len buf img =
      Some (0, buf', file_put img pos (virt_bytes tr m data len))"
  using assms
proof (induction tr lim m write_len pos data len buf img rule: nand_write_loop.induct)
  case (1 tr lim m write_len pos data len buf img)
  define n where "n = min len write_len"
  define bs where "bs = virt_bytes tr m data n"
  define buf1 where "buf1 = bs @ drop (length bs) buf"
  have n: "0 < n" "n \<le> len" "n \<le> write_len" "n < 2 ^ 31" using "1.prems" by (auto simp: n_def)
  have rd: "fst (cpu_memory_rw_debug_read tr m data (c_int n)) = bs"
    using rw_debug_read_bytes [of tr data "c_int n" m] virt_mapped_mono [OF "1.prems"(2) n(2)] n(4)
    by (simp add: c_int_small bs_def)
  have b1: "length buf1 = length buf" "take n buf1 = bs" using n(3) "1.prems"(5) by (simp_all add: buf1_def bs_def)
  have wr: "file_write lim img pos bs = (int n, file_put img pos bs)"
    using file_write_fits [of bs pos lim img] n "1.prems"(3) length_virt_bytes [of tr m data n]
    unfolding bs_def [symmetric] by (cases bs) auto
  have step: "nand_write_loop tr lim m write_len pos data len buf img =
      nand_write_loop tr lim m n (pos + n) (data + of_nat n) (len - n) buf1 (file_put img pos bs)"
  proof -
    have "len \<noteq> 0" "write_len \<noteq> 0" using "1.prems"(1,4) by simp_all
    then show ?thesis
      by (subst nand_write_loop.simps)
        (simp only: if_False Let_def n_def [symmetric] rd buf1_def [symmetric] b1(2) wr prod.case, simp)
  qed
  show ?case
  proof (cases "len = n")
    case True
    then show ?thesis unfolding step using b1(1) by (subst nand_write_loop.simps) (simp add: bs_def)
  next
    case False
    have "\<exists>buf'. length buf' = length buf1 \<and> nand_write_loop tr lim m n (pos + n) (data + of_nat n) (len - n) buf1 (file_put img pos bs) =
      Some (0, buf', file_put (file_put img pos bs) (pos + n) (virt_bytes tr m (data + of_nat n) (len - n)))"
    proof -
      have c: "len \<noteq> 0" "write_len \<noteq> 0" "\<not> (0 \<le> int n \<and> int n < int n)" using "1.prems"(1,4) by simp_all
      have e: "(int n, file_put img pos bs) = file_write lim img pos (take n buf1)" by (simp only: b1(2) wr)
      show ?thesis
        using "1.IH" [OF c(1,2) n_def rd [symmetric] buf1_def e refl c(3)] "1.prems" n False b1(1)
          virt_mapped_drop [OF "1.prems"(2) n(2)] by simp
    qed
    moreover have "file_put (file_put img pos bs) (pos + n) (virt_bytes tr m (data + of_nat n) (len - n)) =
        file_put img pos (virt_bytes tr m data len)"
      using file_put_append [of img pos bs] virt_bytes_append [OF n(2), of tr m data] by (simp add: bs_def)
    ultimately show ?thesis unfolding step b1(1) by simp
  qed
qed

lemma nand_erase_loop_correct:
  assumes "0 < len" "buf = replicate erase 0xff" "write_len \<le> erase"
  shows "0 < write_len \<Longrightarrow> pos + len \<le> lim \<Longrightarrow>
    nand_erase_loop lim buf write_len pos len img = Some (0, file_put img pos (replicate len 0xff))"
  using assms
proof (induction lim buf write_len pos len img rule: nand_erase_loop.induct)
  case (1 lim buf write_len pos len img)
  define n where "n = min len write_len"
  define bs where "bs = (replicate n 0xff :: bytes)"
  have n: "0 < n" "n \<le> len" "n \<le> write_len" using "1.prems" by (auto simp: n_def)
  have wr: "take n buf = bs" "file_write lim img pos bs = (int n, file_put img pos bs)"
    "file_write lim img pos (replicate n 0xff) = (int n, file_put img pos bs)"
    using file_write_fits [of bs pos lim img] n "1.prems" by (auto simp: bs_def)
  have step: "nand_erase_loop lim buf write_len pos len img = nand_erase_loop lim buf n (pos + n) (len - n) (file_put img pos bs)"
    using n "1.prems" wr by (subst nand_erase_loop.simps) (simp add: n_def [symmetric] Let_def)
  show ?case
  proof (cases "len = n")
    case True
    then show ?thesis unfolding step by (subst nand_erase_loop.simps) (simp add: bs_def)
  next
    case False
    have "nand_erase_loop lim buf n (pos + n) (len - n) (file_put img pos bs) =
      Some (0, file_put (file_put img pos bs) (pos + n) (replicate (len - n) 0xff))"
      using "1.IH" [OF _ _ n_def, of "(int n, file_put img pos bs)" "int n" "file_put img pos bs"] "1.prems" n False
      by (simp add: wr)
    moreover have "bs @ replicate (len - n) 0xff = replicate len 0xff"
      using n(2) by (simp add: bs_def replicate_add [symmetric])
    ultimately show ?thesis using file_put_append [of img pos bs] unfolding step by (simp add: bs_def)
  qed
qed

section \<open>Commands on an image\<close>

definition nand_dev_ok :: "nand_dev \<Rightarrow> bool" where
  "nand_dev_ok dev \<longleftrightarrow> 0 < unat (nd_erase_size dev) \<and> unat (nd_erase_size dev) < 2 ^ 31 \<and>
     length (nd_data dev) = unat (nd_erase_size dev)"

text \<open>The contents of the flash: the image, and \<open>0xff\<close> behind its end.\<close>

definition flash_bytes :: "bytes \<Rightarrow> nat \<Rightarrow> nat \<Rightarrow> bytes" where
  "flash_bytes img addr n = take n (drop addr img @ replicate n 0xff)"

definition nand_addr :: "nand_dev_controller_state \<Rightarrow> u64" where
  "nand_addr s = ucast (nand_addr_low s) OR push_bit 32 (ucast (nand_addr_high s))"

text \<open>The number of bytes a request is cut to.\<close>

definition clip_len :: "nand_dev \<Rightarrow> u64 \<Rightarrow> u32 \<Rightarrow> nat" where
  "clip_len dev addr sz = min (unat sz) (unat (nd_max_size dev) - unat addr)"

lemma nand_clip_unat:
  assumes "addr < nd_max_size dev"
  shows "unat (nand_clip dev addr sz) = clip_len dev addr sz" "nand_clip dev addr sz = of_nat (clip_len dev addr sz)"
proof -
  have d: "unat (nd_max_size dev - addr) = unat (nd_max_size dev) - unat addr"
    using assms by (simp add: unat_sub less_imp_le)
  have lt: "unat sz < 2 ^ 32" using unsigned_less [of sz, where 'a = nat] by simp
  then have u: "unat (ucast sz :: u64) = unat sz" by (simp add: unsigned_ucast_eq take_bit_nat_eq_self)
  show e: "unat (nand_clip dev addr sz) = clip_len dev addr sz"
  proof (cases "ucast sz > nd_max_size dev - addr")
    case True
    then have "unat (nd_max_size dev - addr) < unat sz" using u by (simp add: word_less_nat_alt)
    with lt have "unat (ucast (nd_max_size dev - addr) :: u32) = unat (nd_max_size dev) - unat addr"
      unfolding d by (simp add: unsigned_ucast_eq take_bit_nat_eq_self d)
    with True d u show ?thesis by (simp add: nand_clip_def clip_len_def word_less_nat_alt)
  next
    case False
    with d u show ?thesis by (simp add: nand_clip_def clip_len_def word_less_nat_alt)
  qed
  have "nand_clip dev addr sz = of_nat (unat (nand_clip dev addr sz))" by simp
  then show "nand_clip dev addr sz = of_nat (clip_len dev addr sz)" unfolding e .
qed

lemma flash_bytes_put: "flash_bytes (file_put img pos bs) pos (length bs) = bs"
  by (simp add: flash_bytes_def file_put_def)

lemma nand_dev_cmd_read:
  assumes ok: "nand_dev_ok dev" "nd_fd dev = Some img" and addr: "addr < nd_max_size dev"
    and map: "virt_mapped tr (ucast data) (clip_len dev addr sz)"
  shows "\<exists>buf. length buf = length (nd_data dev) \<and> nand_dev_cmd tr lim NAND_CMD_READ addr data sz dev m =
    Some (Inr (of_nat (clip_len dev addr sz), dev\<lparr>nd_data := buf\<rparr>,
      virt_store tr m (ucast data) (flash_bytes img (unat addr) (clip_len dev addr sz))))"
proof -
  note c = nand_clip_unat [OF addr, of sz]
  obtain buf where "length buf = unat (nd_erase_size dev)"
    "nand_read_loop tr img (unat (nd_erase_size dev)) (unat addr) (unat (nd_erase_size dev)) False (ucast data)
        (clip_len dev addr sz) (nd_data dev) m =
      Some (buf, virt_store tr m (ucast data) (flash_bytes img (unat addr) (clip_len dev addr sz)))"
    using nand_read_loop_correct [of "unat (nd_erase_size dev)" "nd_data dev" "unat (nd_erase_size dev)" False tr "ucast data"
        "clip_len dev addr sz" img "unat addr" m] ok map by (auto simp: nand_dev_ok_def flash_bytes_def)
  then show ?thesis
    using ok addr c by (auto simp: nand_dev_cmd_def nand_dev_read_file_def dev_defs nand_dev_ok_def Let_def)
qed

lemma nand_dev_cmd_write:
  assumes ok: "nand_dev_ok dev" "nd_fd dev = Some img" "nd_flags dev AND NAND_DEV_FLAG_READ_ONLY = 0"
    and addr: "addr < nd_max_size dev" "0 < sz" "unat addr + clip_len dev addr sz \<le> lim"
    and map: "virt_mapped tr (ucast data) (clip_len dev addr sz)"
  shows "\<exists>buf. length buf = length (nd_data dev) \<and> nand_dev_cmd tr lim NAND_CMD_WRITE addr data sz dev m =
    Some (Inr (of_nat (clip_len dev addr sz), dev\<lparr>nd_data := buf,
      nd_fd := Some (file_put img (unat addr) (virt_bytes tr m (ucast data) (clip_len dev addr sz)))\<rparr>, m))"
proof -
  note c = nand_clip_unat [OF addr(1), of sz]
  have "0 < clip_len dev addr sz" using addr by (simp add: clip_len_def word_less_nat_alt)
  then obtain buf where "length buf = length (nd_data dev)"
    "nand_write_loop tr lim m (unat (nd_erase_size dev)) (unat addr) (ucast data) (clip_len dev addr sz) (nd_data dev) img =
      Some (0, buf, file_put img (unat addr) (virt_bytes tr m (ucast data) (clip_len dev addr sz)))"
    using nand_write_loop_correct [of "clip_len dev addr sz" "unat (nd_erase_size dev)" "nd_data dev" tr "ucast data" "unat addr" lim m img]
      ok map addr(3) by (auto simp: nand_dev_ok_def)
  then show ?thesis
    using ok addr c by (auto simp: nand_dev_cmd_def nand_dev_write_file_def dev_defs nand_dev_ok_def Let_def)
qed

lemma nand_dev_cmd_erase:
  assumes ok: "nand_dev_ok dev" "nd_fd dev = Some img" "nd_flags dev AND NAND_DEV_FLAG_READ_ONLY = 0"
    and addr: "addr < nd_max_size dev" "0 < sz" "unat addr + clip_len dev addr sz \<le> lim"
  shows "nand_dev_cmd tr lim NAND_CMD_ERASE addr data sz dev m =
    Some (Inr (of_nat (clip_len dev addr sz), dev\<lparr>nd_data := replicate (unat (nd_erase_size dev)) 0xff,
      nd_fd := Some (file_put img (unat addr) (replicate (clip_len dev addr sz) 0xff))\<rparr>, m))"
proof -
  note c = nand_clip_unat [OF addr(1), of sz]
  have "0 < clip_len dev addr sz" using addr by (simp add: clip_len_def word_less_nat_alt)
  then have "nand_erase_loop lim (replicate (unat (nd_erase_size dev)) 0xff) (unat (nd_erase_size dev)) (unat addr)
      (clip_len dev addr sz) img = Some (0, file_put img (unat addr) (replicate (clip_len dev addr sz) 0xff))"
    using ok addr(3) by (intro nand_erase_loop_correct) (auto simp: nand_dev_ok_def)
  then show ?thesis
    using ok addr c by (auto simp: nand_dev_cmd_def nand_dev_erase_file_def dev_defs nand_dev_ok_def Let_def)
qed

text \<open>A command through the register, without a batch.\<close>

lemma nand_command:
  assumes "unat (nand_dev_sel s) < length devs" "\<not> nand_is_batch cmd"
    and "nand_dev_cmd tr lim cmd (nand_addr s) (nand_data s) (nand_transfer_size s) (devs ! unat (nand_dev_sel s)) m =
      Some (Inr (r, dev', m'))"
  shows "nand_dev_write wide tr lim junk 0x44 cmd s devs m =
    Some (Inr (s\<lparr>nand_result := r\<rparr>, devs[unat (nand_dev_sel s) := dev'], m'))"
  using assms by (simp add: nand_dev_write_def nand_dev_do_cmd_def nand_addr_def Let_def)

text \<open>
  C3: What the guest writes to the flash it reads back: after a write command for a range of a
  writable device, a read command for the same range, to any other place in guest memory, stores
  there the bytes that were written, and each command reports their number. The request is cut at
  the end of the device; the image is changed in the range only, and the rest of the guest's
  memory, the other devices and the registers stay as they are.
\<close>

theorem nand_write_read:
  assumes "unat (nand_dev_sel s) < length devs" and "dev = devs ! unat (nand_dev_sel s)"
    and "nand_dev_ok dev" "nd_fd dev = Some img" "nd_flags dev AND NAND_DEV_FLAG_READ_ONLY = 0"
    and "nand_addr s < nd_max_size dev" "0 < nand_transfer_size s"
    and "n = clip_len dev (nand_addr s) (nand_transfer_size s)" "unat (nand_addr s) + n \<le> lim"
    and "virt_mapped tr (ucast (nand_data s)) n" "virt_mapped tr (ucast target) n"
  shows "\<exists>dev1 dev2. nand_dev_write wide tr lim junk 0x44 NAND_CMD_WRITE s devs m =
      Some (Inr (s\<lparr>nand_result := of_nat n\<rparr>, devs[unat (nand_dev_sel s) := dev1], m)) \<and>
    nd_fd dev1 = Some (file_put img (unat (nand_addr s)) (virt_bytes tr m (ucast (nand_data s)) n)) \<and>
    nand_dev_write wide tr lim junk 0x44 NAND_CMD_READ (s\<lparr>nand_data := target\<rparr>) (devs[unat (nand_dev_sel s) := dev1]) m =
      Some (Inr (s\<lparr>nand_data := target, nand_result := of_nat n\<rparr>, devs[unat (nand_dev_sel s) := dev2],
        virt_store tr m (ucast target) (virt_bytes tr m (ucast (nand_data s)) n))) \<and> nd_fd dev2 = nd_fd dev1"
proof -
  let ?bs = "virt_bytes tr m (ucast (nand_data s)) n" and ?i = "unat (nand_dev_sel s)" and ?a = "nand_addr s"
  obtain buf1 where b1: "length buf1 = length (nd_data dev)" "nand_dev_cmd tr lim NAND_CMD_WRITE ?a (nand_data s) (nand_transfer_size s) dev m =
      Some (Inr (of_nat n, dev\<lparr>nd_data := buf1, nd_fd := Some (file_put img (unat ?a) ?bs)\<rparr>, m))"
    using nand_dev_cmd_write [OF assms(3-7)] assms(8-10) by metis
  define dev1 where "dev1 = dev\<lparr>nd_data := buf1, nd_fd := Some (file_put img (unat ?a) ?bs)\<rparr>"
  have ok: "nand_dev_ok dev1" "nd_fd dev1 = Some (file_put img (unat ?a) ?bs)" "?a < nd_max_size dev1"
    "clip_len dev1 ?a (nand_transfer_size s) = n"
    using assms b1(1) by (simp_all add: dev1_def nand_dev_ok_def clip_len_def)
  have f: "flash_bytes (file_put img (unat ?a) ?bs) (unat ?a) n = ?bs" using flash_bytes_put [of img "unat ?a" ?bs] by simp
  obtain buf2 where b2: "nand_dev_cmd tr lim NAND_CMD_READ ?a target (nand_transfer_size s) dev1 m =
      Some (Inr (of_nat n, dev1\<lparr>nd_data := buf2\<rparr>, virt_store tr m (ucast target) ?bs))"
    using nand_dev_cmd_read [OF ok(1-3), of tr target "nand_transfer_size s"] assms(11) ok(4) f by metis
  have nb: "\<not> nand_is_batch NAND_CMD_WRITE" "\<not> nand_is_batch NAND_CMD_READ" by (simp_all add: nand_is_batch_def dev_defs)
  have w: "nand_dev_write wide tr lim junk 0x44 NAND_CMD_WRITE s devs m = Some (Inr (s\<lparr>nand_result := of_nat n\<rparr>, devs[?i := dev1], m))"
    using nand_command [OF assms(1) nb(1)] b1(2) assms(2) by (simp add: dev1_def)
  have r: "nand_dev_write wide tr lim junk 0x44 NAND_CMD_READ (s\<lparr>nand_data := target\<rparr>) (devs[?i := dev1]) m =
      Some (Inr (s\<lparr>nand_data := target, nand_result := of_nat n\<rparr>, devs[?i := dev1\<lparr>nd_data := buf2\<rparr>], virt_store tr m (ucast target) ?bs))"
    using nand_command [of "s\<lparr>nand_data := target\<rparr>" "devs[?i := dev1]" NAND_CMD_READ] nb(2) assms(1) b2 by (simp add: nand_addr_def)
  show ?thesis by (rule exI [of _ dev1], rule exI [of _ "dev1\<lparr>nd_data := buf2\<rparr>"]) (simp add: w r ok(2))
qed

lemma nand_dev_cmd_keeps:
  assumes "nand_dev_cmd tr lim cmd addr data sz dev m = Some (Inr (r, dev', m'))"
  shows "nd_flags dev' = nd_flags dev" "nd_max_size dev' = nd_max_size dev"
    "nd_flags dev AND NAND_DEV_FLAG_READ_ONLY \<noteq> 0 \<Longrightarrow> nd_fd dev' = nd_fd dev"
  using assms
  by (auto simp: nand_dev_cmd_def nand_dev_read_file_def nand_dev_write_file_def nand_dev_erase_file_def Let_def
      split: if_splits option.splits)

lemma nand_do_cmd_devs:
  assumes "nand_dev_do_cmd wide tr lim cmd s devs m = Some (Inr (r, s', devs', m'))"
  shows "devs' = devs \<or> (\<exists>k addr data sz dev'. k < length devs \<and> devs' = devs[k := dev'] \<and>
    nand_dev_cmd tr lim cmd addr data sz (devs ! k) m = Some (Inr (r, dev', m')))"
  using assms by (auto simp: nand_dev_do_cmd_def Let_def not_le split: if_splits)

text \<open>
  C36: A read-only device is never changed: whatever the guest writes to the registers, with or
  without batches, the image and the properties of a device with the read-only flag stay the same.
\<close>

theorem nand_read_only_kept:
  assumes "nand_dev_write wide tr lim junk offset value s devs m = Some (Inr (s', devs', m'))"
    and "i < length devs" "nd_flags (devs ! i) AND NAND_DEV_FLAG_READ_ONLY \<noteq> 0"
  shows "length devs' = length devs \<and> nd_fd (devs' ! i) = nd_fd (devs ! i) \<and>
    nd_flags (devs' ! i) = nd_flags (devs ! i) \<and> nd_max_size (devs' ! i) = nd_max_size (devs ! i)"
proof (cases "offset = 0x44")
  case True
  then obtain r s1 m1 where "nand_dev_do_cmd wide tr lim value s devs m = Some (Inr (r, s1, devs', m1))"
    using assms(1) by (auto simp: nand_dev_write_def Let_def)
  from nand_do_cmd_devs [OF this] show ?thesis
    using assms(2,3) nand_dev_cmd_keeps by (auto simp: nth_list_update split: if_splits)
next
  case False
  then have "devs' = devs" using assms(1) by (auto simp: nand_dev_write_def split: if_splits)
  then show ?thesis by simp
qed

text \<open>The image does not grow past the capacity, whether or not the writes succeed.\<close>

definition nand_fits :: "nand_dev \<Rightarrow> bool" where
  "nand_fits dev \<longleftrightarrow> (case nd_fd dev of None \<Rightarrow> False | Some img \<Rightarrow> length img \<le> unat (nd_max_size dev))"

lemma file_write_bound:
  assumes "file_write lim img pos bs = (ret, img')" "length img \<le> b" "pos + n \<le> b" "length bs \<le> n"
  shows "length img' \<le> b" "ret \<le> int n"
  using assms by (auto simp: file_write_def file_put_def Let_def split: if_splits)

lemma nand_write_loop_bound:
  "nand_write_loop tr lim m write_len pos data len buf img = Some (r, buf', img') \<Longrightarrow> length img \<le> b \<Longrightarrow> pos + len \<le> b \<Longrightarrow>
   length img' \<le> b"
proof (induction tr lim m write_len pos data len buf img rule: nand_write_loop.induct)
  case (1 tr lim m write_len pos data len buf img)
  define n where "n = min len write_len"
  define bs where "bs = fst (cpu_memory_rw_debug_read tr m data (c_int n))"
  define buf1 where "buf1 = bs @ drop (length bs) buf"
  have n_le: "n \<le> len" by (simp add: n_def)
  obtain ret img1 where wr: "(ret, img1) = file_write lim img pos (take n buf1)" by (metis surj_pair)
  have b1: "length img1 \<le> b" "ret \<le> int n"
    using file_write_bound [OF wr [symmetric] "1.prems"(2), of n] "1.prems"(3) n_le by simp_all
  show ?case
  proof (cases "len = 0 \<or> write_len = 0")
    case True
    with "1.prems" show ?thesis by (subst (asm) nand_write_loop.simps) (auto split: if_splits)
  next
    case False
    then have step: "nand_write_loop tr lim m write_len pos data len buf img =
        (if 0 \<le> ret \<and> ret < int n then Some (len, buf1, img1)
         else nand_write_loop tr lim m n (pos + nat ret) (data + of_nat n) (len - n) buf1 img1)"
      by (subst nand_write_loop.simps)
        (simp only: de_Morgan_disj if_False Let_def n_def [symmetric] bs_def [symmetric] buf1_def [symmetric] wr [symmetric] prod.case)
    show ?thesis
    proof (cases "0 \<le> ret \<and> ret < int n")
      case True
      with "1.prems"(1) b1 show ?thesis unfolding step by simp
    next
      case cont: False
      have "pos + nat ret + (len - n) \<le> b" using b1(2) "1.prems"(3) by (auto simp: n_def)
      with "1.IH" [OF _ _ n_def bs_def buf1_def wr refl cont] "1.prems"(1) b1(1) cont False show ?thesis unfolding step by simp
    qed
  qed
qed

lemma nand_erase_loop_bound:
  "nand_erase_loop lim buf write_len pos len img = Some (r, img') \<Longrightarrow> length img \<le> b \<Longrightarrow> pos + len \<le> b \<Longrightarrow> length img' \<le> b"
proof (induction lim buf write_len pos len img rule: nand_erase_loop.induct)
  case (1 lim buf write_len pos len img)
  define n where "n = min len write_len"
  have n_le: "n \<le> len" by (simp add: n_def)
  obtain ret img1 where wr: "(ret, img1) = file_write lim img pos (take n buf)" by (metis surj_pair)
  have b1: "length img1 \<le> b" "ret \<le> int n"
    using file_write_bound [OF wr [symmetric] "1.prems"(2), of n] "1.prems"(3) n_le by simp_all
  show ?case
  proof (cases "len = 0 \<or> write_len = 0")
    case True
    with "1.prems" show ?thesis by (subst (asm) nand_erase_loop.simps) (auto split: if_splits)
  next
    case False
    then have step: "nand_erase_loop lim buf write_len pos len img =
        (if 0 \<le> ret \<and> ret < int n then Some (len, img1) else nand_erase_loop lim buf n (pos + nat ret) (len - n) img1)"
      by (subst nand_erase_loop.simps)
        (simp only: de_Morgan_disj if_False Let_def n_def [symmetric] wr [symmetric] prod.case)
    show ?thesis
    proof (cases "0 \<le> ret \<and> ret < int n")
      case True
      with "1.prems"(1) b1 show ?thesis unfolding step by simp
    next
      case cont: False
      have "pos + nat ret + (len - n) \<le> b" using b1(2) "1.prems"(3) by (auto simp: n_def)
      with "1.IH" [OF _ _ n_def wr refl cont] "1.prems"(1) b1(1) cont False show ?thesis unfolding step by simp
    qed
  qed
qed

lemma nand_dev_cmd_bound:
  assumes "nand_dev_cmd tr lim cmd addr data sz dev m = Some (Inr (r, dev', m'))" "nd_fd dev = Some img"
    and "length img \<le> unat (nd_max_size dev)"
  shows "\<exists>img'. nd_fd dev' = Some img' \<and> length img' \<le> unat (nd_max_size dev)"
proof (cases "addr < nd_max_size dev")
  case True
  have "unat addr + unat (nand_clip dev addr sz) \<le> unat (nd_max_size dev)"
    using True nand_clip_unat(1) [OF True, of sz] by (simp add: clip_len_def word_less_nat_alt)
  with assms show ?thesis
    by (auto simp: nand_dev_cmd_def nand_dev_read_file_def nand_dev_write_file_def nand_dev_erase_file_def Let_def
        split: if_splits dest: nand_write_loop_bound nand_erase_loop_bound)
next
  case False
  with assms show ?thesis
    by (auto simp: nand_dev_cmd_def Let_def split: if_splits)
qed

text \<open>
  C22: The capacity is respected: starting with images that fit their devices, no write to the
  registers, with any addresses and sizes, with failing and short writes of the host, and with unmapped
  guest pages, makes an image longer than the capacity of its device.
\<close>

theorem nand_capacity_kept:
  assumes "nand_dev_write wide tr lim junk offset value s devs m = Some (Inr (s', devs', m'))"
    and "list_all nand_fits devs"
  shows "list_all nand_fits devs'"
proof (cases "offset = 0x44")
  case True
  then obtain r s1 m1 where "nand_dev_do_cmd wide tr lim value s devs m = Some (Inr (r, s1, devs', m1))"
    using assms(1) by (auto simp: nand_dev_write_def Let_def)
  from nand_do_cmd_devs [OF this] show ?thesis
  proof
    assume "\<exists>k addr data sz dev'. k < length devs \<and> devs' = devs[k := dev'] \<and>
      nand_dev_cmd tr lim value addr data sz (devs ! k) m = Some (Inr (r, dev', m1))"
    then obtain k addr data sz dev' where k: "k < length devs" "devs' = devs[k := dev']"
      "nand_dev_cmd tr lim value addr data sz (devs ! k) m = Some (Inr (r, dev', m1))" by blast
    have "nand_fits (devs ! k)" using assms(2) k(1) by (simp add: list_all_length)
    then obtain img where "nd_fd (devs ! k) = Some img" "length img \<le> unat (nd_max_size (devs ! k))"
      by (auto simp: nand_fits_def split: option.splits)
    from nand_dev_cmd_bound [OF k(3) this] nand_dev_cmd_keeps(2) [OF k(3)] have "nand_fits dev'" by (auto simp: nand_fits_def)
    then show ?thesis
      using assms(2) k(2) by (auto simp: list_all_iff dest!: set_update_subset_insert [THEN subsetD])
  qed (use assms(2) in simp)
next
  case False
  then have "devs' = devs" using assms(1) by (auto simp: nand_dev_write_def split: if_splits)
  then show ?thesis using assms(2) by simp
qed

section \<open>Snapshots of the images\<close>

definition disk_bytes :: "bytes \<Rightarrow> bytes" where
  "disk_bytes img = be64_bytes (of_nat (length img)) @ img"

lemma drop_take_split: "drop c xs = take n (drop c xs) @ drop (c + length (take n (drop c xs))) xs"
proof (cases "n \<le> length (drop c xs)")
  case True
  then show ?thesis using append_take_drop_id [of n "drop c xs"] by (simp add: min_absorb2 add.commute)
next
  case False
  then show ?thesis by simp
qed

lemma nand_save_loop_bytes:
  "\<not> last_error f \<Longrightarrow> length img \<le> unat max_sz \<Longrightarrow> nand_save_loop f img c max_sz = f\<lparr>fbuf := fbuf f @ drop c img\<rparr>"
proof (induction f img c max_sz rule: nand_save_loop.induct)
  case (1 f img c max_sz)
  define got where "got = file_read img c NAND_DEV_SAVE_DISK_BUF_SIZE"
  have g: "drop c img = got @ drop (c + length got) img"
    unfolding got_def file_read_def by (rule drop_take_split)
  have put: "qemu_put_buffer f got = f\<lparr>fbuf := fbuf f @ got\<rparr>" using "1.prems" by (simp add: put_buffer_enc)
  show ?case
  proof (cases "length got = NAND_DEV_SAVE_DISK_BUF_SIZE \<and> c + length got < unat max_sz")
    case True
    have "nand_save_loop (qemu_put_buffer f got) img (c + length got) max_sz =
        (qemu_put_buffer f got)\<lparr>fbuf := fbuf (qemu_put_buffer f got) @ drop (c + length got) img\<rparr>"
      using "1.IH" [OF got_def refl refl True] "1.prems" by (simp add: put)
    with True g show ?thesis by (subst nand_save_loop.simps) (simp add: got_def [symmetric] put Let_def)
  next
    case False
    have "drop (c + length got) img = []"
      using False "1.prems"(2) by (auto simp: got_def file_read_def)
    with g have "drop c img = got" by simp
    then show ?thesis
      by (subst nand_save_loop.simps) (simp only: Let_def got_def [symmetric] False if_False put)
  qed
qed

lemma nand_load_loop_bytes:
  "fbuf f = drop k img @ rest \<Longrightarrow> length img \<le> lim \<Longrightarrow> k \<le> length img \<Longrightarrow> k \<le> length cur \<Longrightarrow> take k cur = take k img \<Longrightarrow>
   nand_load_loop lim False f cur k (length img) = (0, img, f\<lparr>fbuf := rest\<rparr>)"
proof (induction lim False f cur k "length img" rule: nand_load_loop.induct)
  case (1 lim f cur k)
  show ?case
  proof (cases "k < length img")
    case False
    with "1.prems" show ?thesis by (subst nand_load_loop.simps) simp
  next
    case True
    define n where "n = min NAND_DEV_SAVE_DISK_BUF_SIZE (length img - k)"
    define got where "got = take n (drop k img)"
    have n: "0 < n" "k + n \<le> length img" using True by (auto simp: n_def dev_defs)
    have got: "length got = n" "got \<noteq> []" using n by (auto simp: got_def)
    have d: "drop k img = got @ drop (k + n) img"
      using drop_take_split [of k img n] unfolding got_def [symmetric] got(1) .
    have get: "qemu_get_buffer f n = (got, f\<lparr>fbuf := drop (k + n) img @ rest\<rparr>)"
      using "1.prems"(1) got by (simp add: qemu_get_buffer_def d)
    have wr: "file_write lim cur k got = (int n, file_put cur k got)"
      using file_write_fits [of got k lim cur] got n "1.prems"(2) by simp
    have "take (k + n) (file_put cur k got) = take k cur @ got" using "1.prems"(4) got by (simp add: file_put_def)
    also have "\<dots> = take (k + n) img" using "1.prems"(5) by (simp add: got_def take_add)
    finally have "nand_load_loop lim False (f\<lparr>fbuf := drop (k + n) img @ rest\<rparr>) (file_put cur k got) (k + n) (length img) =
        (0, img, f\<lparr>fbuf := rest\<rparr>)"
      using "1.hyps" [OF True n_def get [symmetric] refl _ _ refl, of "int n" "file_put cur k got"] wr got n "1.prems" by (simp add: file_put_def)
    with True got wr get show ?thesis by (subst nand_load_loop.simps) (simp add: n_def [symmetric] Let_def)
  qed
qed

lemma nand_save_disk_bytes:
  assumes "\<not> last_error f" "nd_fd dev = Some img" "length img \<le> unat (nd_max_size dev)"
  shows "nand_dev_save_disk_state f dev = f\<lparr>fbuf := fbuf f @ disk_bytes img\<rparr>"
  using assms by (simp add: nand_dev_save_disk_state_def codec_put nand_save_loop_bytes disk_bytes_def)

lemma nand_load_disk_bytes:
  assumes "fbuf f = disk_bytes img @ rest" "nd_fd dev \<noteq> None" "length img \<le> unat (nd_max_size dev)" "length img \<le> lim"
    "nd_flags dev AND NAND_DEV_FLAG_READ_ONLY = 0"
  shows "nand_dev_load_disk_state lim f dev = (0, dev\<lparr>nd_fd := Some img\<rparr>, f\<lparr>fbuf := rest\<rparr>)"
proof -
  have u: "unat (of_nat (length img) :: u64) = length img"
    using assms(3) unsigned_less [of "nd_max_size dev", where 'a = nat] by (simp add: unat_of_nat)
  have le: "\<not> of_nat (length img) > nd_max_size dev" using assms(3) u by (simp add: word_less_nat_alt)
  obtain cur where "nd_fd dev = Some cur" using assms(2) by auto
  moreover have "qemu_get_be64 f = (of_nat (length img), f\<lparr>fbuf := img @ rest\<rparr>)"
    using assms(1) by (simp add: disk_bytes_def codec_get)
  ultimately show ?thesis
    using le u nand_load_loop_bytes [of "f\<lparr>fbuf := img @ rest\<rparr>" 0 img rest lim cur] assms(4,5)
    by (simp add: nand_dev_load_disk_state_def)
qed

lemma nand_load_read_only:
  assumes "nd_flags dev AND NAND_DEV_FLAG_READ_ONLY \<noteq> 0"
  shows "\<exists>f'. nand_dev_load_disk_state lim f dev = (-5, dev, f')"
proof -
  have lp: "\<exists>f2. nand_load_loop lim True f1 img k n = (-5, img, f2)" for f1 img k n
    by (subst nand_load_loop.simps) (auto simp: dev_defs Let_def split: prod.split)
  obtain sz f1 where g: "qemu_get_be64 f = (sz, f1)" by fastforce
  show ?thesis
  proof (cases "nd_fd dev")
    case (Some img)
    from lp [of f1 img 0 "unat sz"] obtain f2 where "nand_load_loop lim True f1 img 0 (unat sz) = (-5, img, f2)" by blast
    with Some g assms show ?thesis by (simp add: nand_dev_load_disk_state_def)
  qed (simp add: nand_dev_load_disk_state_def g)
qed

lemma nand_save_disks_bytes:
  "\<not> last_error f \<Longrightarrow> list_all (\<lambda>(dev, img). nd_fd dev = Some img \<and> length img \<le> unat (nd_max_size dev)) (zip devs imgs) \<Longrightarrow>
   length devs = length imgs \<Longrightarrow> nand_dev_save_disks f devs = f\<lparr>fbuf := fbuf f @ concat (map disk_bytes imgs)\<rparr>"
  unfolding nand_dev_save_disks_def
proof (induction devs arbitrary: f imgs)
  case (Cons dev devs)
  then obtain img imgs' where "imgs = img # imgs'" by (cases imgs) auto
  with Cons.prems Cons.IH [of "f\<lparr>fbuf := fbuf f @ disk_bytes img\<rparr>" imgs'] show ?case by (simp add: nand_save_disk_bytes)
qed simp

lemma nand_load_disks_bytes:
  "fbuf f = concat (map disk_bytes imgs) @ rest \<Longrightarrow>
   list_all (\<lambda>(dev, img). nd_fd dev \<noteq> None \<and> length img \<le> unat (nd_max_size dev) \<and> length img \<le> lim) (zip devs imgs) \<Longrightarrow>
   list_all (\<lambda>dev. nd_flags dev AND NAND_DEV_FLAG_READ_ONLY = 0) devs \<Longrightarrow> length devs = length imgs \<Longrightarrow>
   nand_dev_load_disks lim f devs = (0, map (\<lambda>(dev, img). dev\<lparr>nd_fd := Some img\<rparr>) (zip devs imgs), f\<lparr>fbuf := rest\<rparr>)"
proof (induction devs arbitrary: f imgs)
  case (Cons dev devs)
  then obtain img imgs' where i: "imgs = img # imgs'" by (cases imgs) auto
  have "nand_dev_load_disk_state lim f dev = (0, dev\<lparr>nd_fd := Some img\<rparr>, f\<lparr>fbuf := concat (map disk_bytes imgs') @ rest\<rparr>)"
    using Cons.prems i by (intro nand_load_disk_bytes) simp_all
  moreover have "nand_dev_load_disks lim (f\<lparr>fbuf := concat (map disk_bytes imgs') @ rest\<rparr>) devs =
      (0, map (\<lambda>(dev, img). dev\<lparr>nd_fd := Some img\<rparr>) (zip devs imgs'), f\<lparr>fbuf := rest\<rparr>)"
    using Cons.IH [of "f\<lparr>fbuf := concat (map disk_bytes imgs') @ rest\<rparr>" imgs'] Cons.prems i by simp
  ultimately show ?case by (simp add: i)
qed simp

lemma nand_load_disks_read_only:
  "fbuf f = concat (map disk_bytes imgs) @ rest \<Longrightarrow>
   list_all (\<lambda>(dev, img). nd_fd dev \<noteq> None \<and> length img \<le> unat (nd_max_size dev) \<and> length img \<le> lim) (zip devs imgs) \<Longrightarrow>
   \<not> list_all (\<lambda>dev. nd_flags dev AND NAND_DEV_FLAG_READ_ONLY = 0) devs \<Longrightarrow> length devs = length imgs \<Longrightarrow>
   fst (nand_dev_load_disks lim f devs) = -5"
proof (induction devs arbitrary: f imgs)
  case (Cons dev devs)
  then obtain img imgs' where i: "imgs = img # imgs'" by (cases imgs) auto
  show ?case
  proof (cases "nd_flags dev AND NAND_DEV_FLAG_READ_ONLY = 0")
    case True
    have "nand_dev_load_disk_state lim f dev = (0, dev\<lparr>nd_fd := Some img\<rparr>, f\<lparr>fbuf := concat (map disk_bytes imgs') @ rest\<rparr>)"
      using Cons.prems i True by (intro nand_load_disk_bytes) simp_all
    moreover have "fst (nand_dev_load_disks lim (f\<lparr>fbuf := concat (map disk_bytes imgs') @ rest\<rparr>) devs) = -5"
      using Cons.IH [of "f\<lparr>fbuf := concat (map disk_bytes imgs') @ rest\<rparr>" imgs'] Cons.prems i True by simp
    ultimately show ?thesis by (auto split: prod.split)
  next
    case False
    then show ?thesis using nand_load_read_only [of dev lim f] by auto
  qed
qed simp

text \<open>
  C15: A snapshot holds the disks: when the controller is saved, and loaded later into a controller
  whose devices have the same capacities, are writable, and whose images and registers hold anything else, the
  registers and every image are exactly what they were, whatever their sizes, and the stream is
  read to its end. With a read-only device among them the load fails with \<open>-EIO\<close>, even if its image
  has not changed.
\<close>

theorem nand_snapshot_roundtrip:
  assumes "length devs = length imgs" "length devs0 = length imgs"
    and "list_all (\<lambda>(dev, img). nd_fd dev = Some img \<and> length img \<le> unat (nd_max_size dev)) (zip devs imgs)"
    and "list_all (\<lambda>(dev, img). nd_fd dev \<noteq> None \<and> length img \<le> unat (nd_max_size dev) \<and> length img \<le> lim) (zip devs0 imgs)"
  shows "let result = nand_dev_controller_state_load lim (nand_dev_controller_state_save qemu_file_empty s devs) s0 devs0 5
    in if list_all (\<lambda>dev. nd_flags dev AND NAND_DEV_FLAG_READ_ONLY = 0) devs0
       then result = (0, s, map (\<lambda>(dev, img). dev\<lparr>nd_fd := Some img\<rparr>) (zip devs0 imgs), qemu_file_empty)
       else fst result = -5"
proof -
  let ?e = "concat (map qvalue_bytes (nand_values s))"
  have f: "map qvalue_field (nand_values s) = nand_dev_controller_state_fields"
    by (simp add: nand_values_def nand_dev_controller_state_fields_def)
  have v: "nand_set_values (nand_values s) = s" by (simp add: nand_set_values_def nand_values_def)
  have sv: "nand_dev_controller_state_save qemu_file_empty s devs = qemu_file_empty\<lparr>fbuf := ?e @ concat (map disk_bytes imgs)\<rparr>"
    using assms(1,3) by (simp add: nand_dev_controller_state_save_def put_struct_bytes nand_save_disks_bytes qemu_file_empty_def)
  have g: "qemu_get_struct (qemu_file_empty\<lparr>fbuf := ?e @ concat (map disk_bytes imgs)\<rparr>) nand_dev_controller_state_fields =
      (Some (nand_values s), qemu_file_empty\<lparr>fbuf := concat (map disk_bytes imgs)\<rparr>)"
    unfolding f [symmetric] by (subst get_struct_bytes) simp_all
  let ?f = "qemu_file_empty\<lparr>fbuf := concat (map disk_bytes imgs)\<rparr>"
  have l: "list_all (\<lambda>dev. nd_flags dev AND NAND_DEV_FLAG_READ_ONLY = 0) devs0 \<Longrightarrow>
      nand_dev_load_disks lim ?f devs0 = (0, map (\<lambda>(dev, img). dev\<lparr>nd_fd := Some img\<rparr>) (zip devs0 imgs), qemu_file_empty)"
    using nand_load_disks_bytes [where f = ?f and rest = "[]"] assms(2,4) by (simp add: qemu_file_empty_def)
  have r: "\<not> list_all (\<lambda>dev. nd_flags dev AND NAND_DEV_FLAG_READ_ONLY = 0) devs0 \<Longrightarrow> fst (nand_dev_load_disks lim ?f devs0) = -5"
    using nand_load_disks_read_only [where f = ?f and rest = "[]"] assms(2,4) by simp
  show ?thesis unfolding sv Let_def using l r by (auto simp: nand_dev_controller_state_load_def g v split: prod.split)
qed

definition example_nand :: "bytes \<Rightarrow> nand_dev" where
  "example_nand img = \<lparr>nd_devname = [0x73], nd_data = replicate 4 0, nd_fd = Some img, nd_flags = 0, nd_page_size = 2,
     nd_extra_size = 0, nd_erase_size = 4, nd_max_size = 16\<rparr>"

theorem nand_snapshot_roundtrip_witness:
  "nand_dev_controller_state_load 100 (nand_dev_controller_state_save qemu_file_empty nand_dev_init [example_nand [1, 2, 3]])
     (nand_dev_init\<lparr>nand_data := 7\<rparr>) [example_nand [9, 9, 9, 9]] 5 = (0, nand_dev_init, [example_nand [1, 2, 3]], qemu_file_empty)"
  using nand_snapshot_roundtrip [of "[example_nand [1, 2, 3]]" "[[1, 2, 3]]" "[example_nand [9, 9, 9, 9]]" 100 nand_dev_init
      "nand_dev_init\<lparr>nand_data := 7\<rparr>"]
  by (simp add: example_nand_def)

theorem nand_write_read_witness:
  "\<exists>dev1 dev2. nand_dev_write False (\<lambda>p. Some (ucast p)) 100 [] 0x44 NAND_CMD_WRITE
      (nand_dev_init\<lparr>nand_addr_low := 2, nand_transfer_size := 6, nand_data := 0x1000\<rparr>) [example_nand [5]] (\<lambda>a. ucast a) =
      Some (Inr (nand_dev_init\<lparr>nand_addr_low := 2, nand_transfer_size := 6, nand_data := 0x1000, nand_result := 6\<rparr>, [dev1], \<lambda>a. ucast a)) \<and>
    nd_fd dev1 = Some [5, 0, 0, 1, 2, 3, 4, 5] \<and>
    nand_dev_write False (\<lambda>p. Some (ucast p)) 100 [] 0x44 NAND_CMD_READ
      (nand_dev_init\<lparr>nand_addr_low := 2, nand_transfer_size := 6, nand_data := 0x2000\<rparr>) [dev1] (\<lambda>a. ucast a) =
      Some (Inr (nand_dev_init\<lparr>nand_addr_low := 2, nand_transfer_size := 6, nand_data := 0x2000, nand_result := 6\<rparr>, [dev2],
        virt_store (\<lambda>p. Some (ucast p)) (\<lambda>a. ucast a) 0x2000 [0, 1, 2, 3, 4, 5]))"
proof -
  let ?tr = "\<lambda>p. Some (ucast p) :: u64 option" and ?m = "\<lambda>a. ucast a :: u8"
  let ?s = "nand_dev_init\<lparr>nand_addr_low := 2, nand_transfer_size := 6, nand_data := 0x1000\<rparr>"
  have mapped: "virt_mapped ?tr a n" for a n by (simp add: virt_mapped_def virt_to_phys_def list_all_iff)
  have a: "nand_addr ?s = 2" by (simp add: nand_addr_def nand_dev_init_def)
  have n: "clip_len (example_nand [5]) 2 6 = 6" by (simp add: clip_len_def example_nand_def)
  have b: "virt_bytes ?tr ?m 0x1000 6 = [0, 1, 2, 3, 4, 5]"
    by (simp add: virt_bytes_def virt_to_phys_def upt_rec)
  have sel: "nand_dev_sel nand_dev_init = 0" by (simp add: nand_dev_init_def)
  have h: "unat (nand_dev_sel ?s) < length [example_nand [5]]" "example_nand [5] = [example_nand [5]] ! unat (nand_dev_sel ?s)"
    "nand_dev_ok (example_nand [5])" "nd_fd (example_nand [5]) = Some [5]" "nd_flags (example_nand [5]) AND NAND_DEV_FLAG_READ_ONLY = 0"
    "nand_addr ?s < nd_max_size (example_nand [5])" "0 < nand_transfer_size ?s"
    "6 = clip_len (example_nand [5]) (nand_addr ?s) (nand_transfer_size ?s)" "unat (nand_addr ?s) + 6 \<le> 100"
    by (simp_all add: sel a n) (simp_all add: nand_dev_ok_def example_nand_def)
  have p: "file_put [5] 2 [0, 1, 2, 3, 4, 5] = [5, 0, 0, 1, 2, 3, 4, 5]" by (simp add: file_put_def)
  have u: "(ucast (0x1000 :: u64) :: u32) = 0x1000" "(ucast (0x2000 :: u64) :: u32) = 0x2000" by simp_all
  have list: "[example_nand [5]][unat (nand_dev_sel ?s) := d] = [d]" for d by (simp add: sel)
  show ?thesis
    using nand_write_read [OF h mapped mapped, where target = "0x2000" and junk = "[]" and m = ?m and wide = False]
    unfolding a list by (elim exE conjE, intro exI conjI) (assumption | simp add: b p u del: virt_store.simps)+
qed

theorem nand_read_only_kept_witness:
  "\<exists>s' devs' m'. nand_dev_write False (\<lambda>p. None) 100 [] 0x44 NAND_CMD_ERASE
      (nand_dev_init\<lparr>nand_transfer_size := 6\<rparr>) [example_nand [5]\<lparr>nd_flags := 1\<rparr>] (\<lambda>a. 0) = Some (Inr (s', devs', m')) \<and>
    nd_fd (devs' ! 0) = Some [5]"
proof -
  let ?d = "example_nand [5]\<lparr>nd_flags := 1\<rparr>" and ?s = "nand_dev_init\<lparr>nand_transfer_size := 6\<rparr>"
  have "nand_dev_write False (\<lambda>p. None) 100 [] 0x44 NAND_CMD_ERASE ?s [?d] (\<lambda>a. 0) =
      Some (Inr (?s\<lparr>nand_result := 0\<rparr>, [?d], \<lambda>a. 0))"
    by (simp add: nand_dev_write_def nand_dev_do_cmd_def nand_dev_cmd_def nand_is_batch_def dev_defs nand_dev_init_def)
  with nand_read_only_kept [OF this, of 0] show ?thesis by (simp add: dev_defs example_nand_def)
qed

theorem nand_capacity_kept_witness:
  "\<exists>s' devs' m'. nand_dev_write False (\<lambda>p. None) 100 [] 0x44 NAND_CMD_ERASE
      (nand_dev_init\<lparr>nand_addr_low := 14, nand_transfer_size := 0x1000\<rparr>) [example_nand [5]] (\<lambda>a. 0) = Some (Inr (s', devs', m')) \<and>
    list_all nand_fits devs'"
proof -
  let ?d = "example_nand [5]" and ?s = "nand_dev_init\<lparr>nand_addr_low := 14, nand_transfer_size := 0x1000\<rparr>"
  have "nand_dev_cmd (\<lambda>p. None) 100 NAND_CMD_ERASE (nand_addr ?s) (nand_data ?s) (nand_transfer_size ?s) ?d (\<lambda>a. 0) =
      Some (Inr (of_nat (clip_len ?d (nand_addr ?s) (nand_transfer_size ?s)), ?d\<lparr>nd_data := replicate (unat (nd_erase_size ?d)) 0xff,
        nd_fd := Some (file_put [5] (unat (nand_addr ?s)) (replicate (clip_len ?d (nand_addr ?s) (nand_transfer_size ?s)) 0xff))\<rparr>, \<lambda>a. 0))"
    by (rule nand_dev_cmd_erase)
      (simp_all add: nand_addr_def nand_dev_init_def example_nand_def nand_dev_ok_def clip_len_def dev_defs)
  then obtain dev' where w: "nand_dev_write False (\<lambda>p. None) 100 [] 0x44 NAND_CMD_ERASE ?s [?d] (\<lambda>a. 0) =
      Some (Inr (?s\<lparr>nand_result := of_nat (clip_len ?d (nand_addr ?s) (nand_transfer_size ?s))\<rparr>, [dev'], \<lambda>a. 0))"
    using nand_command [of ?s "[?d]" NAND_CMD_ERASE] by (simp add: nand_dev_init_def nand_is_batch_def dev_defs)
  with nand_capacity_kept [OF w] show ?thesis by (simp add: nand_fits_def example_nand_def)
qed

end
