(* ===== verification/Nand_Config.thy ===== *)
theory Nand_Config
  imports Goldfish_Nand
begin

unbundle bit_operations_syntax

text \<open>
  Attaching flash devices, \<open>nand_add_dev\<close> of \<open>hw/android/goldfish/nand.c\<close>: the argument string of
  the \<open>-nand\<close> option, and the device and image made from it.

  Parameters: \<open>num\<close> is \<open>strtoull\<close> and \<open>strtoul\<close>, which agree where \<open>long\<close> has 64
  bits (the value and the number of characters read), \<open>open_file\<close> the
  contents of the files of the host by name, \<open>tmp\<close> the name of a fresh temporary file, \<open>junk\<close> the
  bytes of allocated memory, \<open>lim\<close> the size a file can grow to. All messages end the process.
\<close>

section \<open>Arguments\<close>

fun arg_match :: "bytes \<Rightarrow> bytes \<Rightarrow> bool" where
  "arg_match [] b = (b = [])"
| "arg_match (x # a) [] = False"
| "arg_match (x # a) (y # b) = (if x \<noteq> y then False else arg_match a b)"

lemma arg_match_iff: "arg_match a b \<longleftrightarrow> a = b"
  by (induction a b rule: arg_match.induct) auto

fun path_unescape_path :: "bytes \<Rightarrow> bytes" where
  "path_unescape_path [] = []"
| "path_unescape_path [c] = (if c = 0x25 then [] else [c])"
| "path_unescape_path (c # d # str) =
     (if c \<noteq> 0x25 then c # path_unescape_path (d # str)
      else if d = 0x43 then 0x2c # path_unescape_path str
      else if d = 0x45 then 0x3d # path_unescape_path str
      else if d = 0x50 then 0x25 # path_unescape_path str
      else path_unescape_path (d # str))"

definition path_escape_path :: "bytes \<Rightarrow> bytes" where
  "path_escape_path str = concat (map (\<lambda>c. if c = 0x3d then [0x25, 0x45] else if c = 0x2c then [0x25, 0x43]
     else if c = 0x25 then [0x25, 0x50] else [c]) str)"

lemma path_unescape_Cons: "c \<noteq> 0x25 \<Longrightarrow> path_unescape_path (c # str) = c # path_unescape_path str"
  by (cases str) simp_all

lemma path_unescape_escape: "path_unescape_path (path_escape_path str) = str"
  by (induction str) (auto simp: path_escape_path_def path_unescape_Cons)

lemma path_escape_chars: "0x2c \<notin> set (path_escape_path str)"
  by (auto simp: path_escape_path_def)

record nand_args =
  na_devname :: "bytes option"
  na_size :: u64
  na_page_size :: u32
  na_extra_size :: u32
  na_erase_pages :: u32
  na_initfile :: "bytes option"
  na_file :: "bytes option"
  na_read_only :: bool

definition nand_args_init :: nand_args where
  "nand_args_init = \<lparr>na_devname = None, na_size = 0, na_page_size = 2048, na_extra_size = 64, na_erase_pages = 64,
     na_initfile = None, na_file = None, na_read_only = False\<rparr>"

text \<open>A number must take up the whole value; \<open>rest\<close> is the string from the value on.\<close>

definition arg_number :: "(bytes \<Rightarrow> u64 \<times> nat) \<Rightarrow> bytes \<Rightarrow> bytes \<Rightarrow> u64 outcome" where
  "arg_number num value rest = (let (v, n) = num rest in if n \<noteq> length value then Inl Process_exit else Inr v)"

definition nand_arg :: "(bytes \<Rightarrow> u64 \<times> nat) \<Rightarrow> bytes \<Rightarrow> (bytes \<times> bytes) option \<Rightarrow> nand_args \<Rightarrow> nand_args outcome" where
  "nand_arg num name value st =
     (case value of
        None \<Rightarrow>
          if na_devname st = None then Inr (st\<lparr>na_devname := Some name\<rparr>)
          else if arg_match (string_bytes ''readonly'') name then Inr (st\<lparr>na_read_only := True\<rparr>)
          else Inl Process_exit
      | Some (v, rest) \<Rightarrow>
          if na_devname st = None then Inl Process_exit
          else if arg_match (string_bytes ''size'') name then obind (arg_number num v rest) (\<lambda>x. Inr (st\<lparr>na_size := x\<rparr>))
          else if arg_match (string_bytes ''pagesize'') name then obind (arg_number num v rest) (\<lambda>x. Inr (st\<lparr>na_page_size := ucast x\<rparr>))
          else if arg_match (string_bytes ''extrasize'') name then obind (arg_number num v rest) (\<lambda>x. Inr (st\<lparr>na_extra_size := ucast x\<rparr>))
          else if arg_match (string_bytes ''erasepages'') name then obind (arg_number num v rest) (\<lambda>x. Inr (st\<lparr>na_erase_pages := ucast x\<rparr>))
          else if arg_match (string_bytes ''initfile'') name then Inr (st\<lparr>na_initfile := Some (path_unescape_path v)\<rparr>)
          else if arg_match (string_bytes ''file'') name then Inr (st\<lparr>na_file := Some (path_unescape_path v)\<rparr>)
          else Inl Process_exit)"

function nand_parse :: "(bytes \<Rightarrow> u64 \<times> nat) \<Rightarrow> bytes \<Rightarrow> nand_args \<Rightarrow> nand_args outcome" where
  "nand_parse num arg st =
     (let comma = strchr 0x2c arg; eq = strchr 0x3d arg;
          name = take (min comma eq) arg;
          value = (if eq < comma then Some (take (comma - eq - 1) (drop (eq + 1) arg), drop (eq + 1) arg) else None)
      in obind (nand_arg num name value st)
           (\<lambda>st1. if comma < length arg then nand_parse num (drop (comma + 1) arg) st1 else Inr st1))"
  by pat_completeness auto
termination
  by (relation "measure (\<lambda>(num, arg, st). length arg)") auto

declare nand_parse.simps [simp del]

section \<open>The device\<close>

text \<open>
  The loop that copies the initial contents, to the first short read: the buffer and the new image.
\<close>

function nand_copy_loop :: "nat \<Rightarrow> bytes \<Rightarrow> nat \<Rightarrow> nat \<Rightarrow> bytes \<Rightarrow> bytes \<Rightarrow> (bytes \<times> bytes) outcome" where
  "nand_copy_loop lim init erase pos buf img =
     (let got = file_read init pos erase; buf1 = got @ drop (length got) buf; wr = file_write lim img pos got
      in if fst wr \<noteq> int (length got) then Inl Process_exit
         else if erase \<le> length got \<and> 0 < erase then nand_copy_loop lim init erase (pos + erase) buf1 (snd wr)
         else Inr (buf1, snd wr))"
  by pat_completeness auto
termination
  by (relation "measure (\<lambda>(lim, init, erase, pos, buf, img). length init - pos)") (auto simp: file_read_def)

declare nand_copy_loop.simps [simp del]

text \<open>The capacity, rounded up to whole erase units.\<close>

definition nand_round_size :: "u32 \<Rightarrow> u64 \<Rightarrow> u64" where
  "nand_round_size erase size0 =
     (let pad = (ucast (size0 mod ucast erase) :: u32) in if pad \<noteq> 0 then size0 + ucast (erase - pad) else size0)"

definition nand_rw_name :: "bytes \<Rightarrow> nand_args \<Rightarrow> bytes" where
  "nand_rw_name tmp st = (case na_file st of None \<Rightarrow> tmp | Some f \<Rightarrow> f)"

text \<open>The initial contents; the image file has been opened, and truncated, before.\<close>

definition nand_open_init :: "(bytes \<Rightarrow> bytes option) \<Rightarrow> bytes \<Rightarrow> nand_args \<Rightarrow> bytes option outcome" where
  "nand_open_init open_file rwname st =
     (case na_initfile st of
        None \<Rightarrow> Inr None
      | Some f \<Rightarrow>
          if na_read_only st then Inl Process_exit
          else case open_file f of None \<Rightarrow> Inl Process_exit | Some c \<Rightarrow> Inr (Some (if f = rwname then [] else c)))"

definition nand_new_dev :: "nand_args \<Rightarrow> u32 \<Rightarrow> u64 \<Rightarrow> bytes \<Rightarrow> bytes \<Rightarrow> nand_dev" where
  "nand_new_dev st erase size0 data img =
     \<lparr>nd_devname = (case na_devname st of None \<Rightarrow> [] | Some n \<Rightarrow> n), nd_data = data, nd_fd = Some img,
      nd_flags = (if na_read_only st then NAND_DEV_FLAG_READ_ONLY else 0), nd_page_size = na_page_size st,
      nd_extra_size = na_extra_size st, nd_erase_size = erase, nd_max_size = nand_round_size erase size0\<rparr>"

definition nand_make_dev ::
    "(bytes \<Rightarrow> bytes option) \<Rightarrow> bytes \<Rightarrow> (nat \<Rightarrow> bytes) \<Rightarrow> nat \<Rightarrow> nand_args \<Rightarrow> nand_dev outcome" where
  "nand_make_dev open_file tmp junk lim st =
     (case open_file (nand_rw_name tmp st) of
        None \<Rightarrow> Inl Process_exit
      | Some old \<Rightarrow>
          obind (nand_open_init open_file (nand_rw_name tmp st) st) (\<lambda>init.
            let size0 = (case init of Some c \<Rightarrow> if na_size st = 0 then of_nat (length c) else na_size st | None \<Rightarrow> na_size st);
                erase = na_erase_pages st * (na_page_size st + na_extra_size st)
            in if erase = 0 then Inl Undefined_behaviour
               else case init of
                   None \<Rightarrow> Inr (nand_new_dev st erase size0 (junk (unat erase)) old)
                 | Some c \<Rightarrow> obind (nand_copy_loop lim c (unat erase) 0 (junk (unat erase)) [])
                     (\<lambda>(buf, img). Inr (nand_new_dev st erase size0 buf img))))"

definition nand_add_dev ::
    "(bytes \<Rightarrow> u64 \<times> nat) \<Rightarrow> (bytes \<Rightarrow> bytes option) \<Rightarrow> bytes \<Rightarrow> (nat \<Rightarrow> bytes) \<Rightarrow> nat \<Rightarrow> bytes \<Rightarrow> nand_dev list \<Rightarrow> nand_dev list outcome" where
  "nand_add_dev num open_file tmp junk lim arg devs =
     obind (nand_parse num arg nand_args_init) (\<lambda>st.
     obind (nand_make_dev open_file tmp junk lim st) (\<lambda>dev. Inr (devs @ [dev])))"

lemma nand_copy_loop_image:
  "nand_copy_loop lim src erase pos buf img = Inr (buf', img') \<Longrightarrow> 0 < erase \<Longrightarrow> length buf = erase \<Longrightarrow> img = take pos src \<Longrightarrow> pos \<le> length src \<Longrightarrow>
   img' = src \<and> length buf' = erase"
proof (induction lim src erase pos buf img rule: nand_copy_loop.induct)
  case (1 lim src erase pos buf img)
  define got where "got = file_read src pos erase"
  define buf1 where "buf1 = got @ drop (length got) buf"
  define wr where "wr = file_write lim img pos got"
  have got: "length got = min erase (length src - pos)" "got = take (length got) (drop pos src)" by (simp_all add: got_def file_read_def min_def)
  have b1: "length buf1 = erase" using "1.prems"(3) got by (simp add: buf1_def)
  have step: "nand_copy_loop lim src erase pos buf img = (if fst wr \<noteq> int (length got) then Inl Process_exit
      else if erase \<le> length got \<and> 0 < erase then nand_copy_loop lim src erase (pos + erase) buf1 (snd wr) else Inr (buf1, snd wr))"
    by (subst nand_copy_loop.simps) (simp only: Let_def got_def buf1_def wr_def)
  then have ret: "fst wr = int (length got)" using "1.prems"(1) by (auto split: if_splits)
  have "length img = pos" using "1.prems"(4,5) by simp
  then have "file_put img pos got = take (pos + length got) src"
    using got(2) "1.prems"(4) by (simp add: file_put_def take_add)
  then have snd: "snd wr = take (pos + length got) src"
    using ret "1.prems"(4) by (auto simp: wr_def file_write_def Let_def min_def split: if_splits)
  show ?case
  proof (cases "erase \<le> length got")
    case True
    then have l: "length got = erase" "pos + erase \<le> length src" using got(1) "1.prems"(2) by auto
    show ?thesis
      using "1.IH" [OF got_def buf1_def wr_def] ret True "1.prems"(1,2) snd b1 l unfolding step by simp
  next
    case False
    then have "pos + length got = length src" using got(1) "1.prems"(5) by simp
    then show ?thesis using "1.prems"(1) False ret snd b1 unfolding step by simp
  qed
qed

lemma nand_copy_loop_returns:
  "length src \<le> lim \<Longrightarrow> 0 < erase \<Longrightarrow> pos \<le> length src \<Longrightarrow> \<exists>r. nand_copy_loop lim src erase pos buf img = Inr r"
proof (induction lim src erase pos buf img rule: nand_copy_loop.induct)
  case (1 lim src erase pos buf img)
  define got where "got = file_read src pos erase"
  define buf1 where "buf1 = got @ drop (length got) buf"
  define wr where "wr = file_write lim img pos got"
  have got: "length got = min erase (length src - pos)" by (simp add: got_def file_read_def min_def)
  have "got \<noteq> [] \<Longrightarrow> pos + length got \<le> lim" using got "1.prems" by (cases "length src - pos") auto
  then have ret: "fst wr = int (length got)"
    using file_write_fits [of got pos lim img] by (cases "got = []") (auto simp: wr_def file_write_def)
  have step: "nand_copy_loop lim src erase pos buf img = (if fst wr \<noteq> int (length got) then Inl Process_exit
      else if erase \<le> length got \<and> 0 < erase then nand_copy_loop lim src erase (pos + erase) buf1 (snd wr) else Inr (buf1, snd wr))"
    by (subst nand_copy_loop.simps) (simp only: Let_def got_def buf1_def wr_def)
  show ?case
  proof (cases "erase \<le> length got")
    case True
    then have "pos + erase \<le> length src" using got "1.prems"(2) by auto
    with "1.IH" [OF got_def buf1_def wr_def] ret True "1.prems" show ?thesis unfolding step by simp
  qed (simp add: step ret)
qed

text \<open>The capacity is the least multiple of the erase unit that is not below the size, unless it overflows.\<close>

lemma nand_round_size_multiple:
  fixes erase :: u32 and size0 :: u64
  assumes "erase \<noteq> 0" "unat size0 + unat erase < 2 ^ 64"
  shows "unat erase dvd unat (nand_round_size erase size0) \<and> unat size0 \<le> unat (nand_round_size erase size0) \<and>
    unat (nand_round_size erase size0) < unat size0 + unat erase"
proof -
  have e: "0 < unat erase" "unat erase < 2 ^ 32" using assms(1) unsigned_less [of erase, where 'a = nat] by (simp_all add: unat_gt_0)
  then have ue: "unat (ucast erase :: u64) = unat erase" by (simp add: unsigned_ucast_eq take_bit_nat_eq_self)
  define r where "r = unat size0 mod unat erase"
  have r: "r < unat erase" using e by (simp add: r_def)
  have pad: "unat (ucast (size0 mod ucast erase) :: u32) = r"
  proof -
    have "unat size0 mod unat erase < 2 ^ 32" using r e(2) unfolding r_def by (rule order_less_trans)
    then show ?thesis using ue by (simp add: unsigned_ucast_eq unat_mod_distrib r_def take_bit_nat_eq_self)
  qed
  show ?thesis
  proof (cases "r = 0")
    case True
    with pad have "(ucast (size0 mod ucast erase) :: u32) = 0" by (simp add: unat_eq_0)
    with True e show ?thesis by (simp add: nand_round_size_def r_def mod_eq_0_iff_dvd)
  next
    case False
    with pad have nz: "(ucast (size0 mod ucast erase) :: u32) \<noteq> 0" by auto
    have "unat (erase - ucast (size0 mod ucast erase)) = unat erase - r"
      using pad r by (simp add: unat_sub word_le_nat_alt)
    then have "unat (ucast (erase - ucast (size0 mod ucast erase)) :: u64) = unat erase - r"
      using e by (simp add: unsigned_ucast_eq take_bit_nat_eq_self)
    then have "unat (nand_round_size erase size0) = unat size0 + (unat erase - r)"
      using nz assms(2) r by (simp add: nand_round_size_def unat_word_ariths)
    moreover have "unat size0 + (unat erase - r) = unat size0 div unat erase * unat erase + unat erase"
      using r div_mult_mod_eq [of "unat size0" "unat erase"] unfolding r_def by linarith
    moreover have "unat size0 \<le> unat size0 + (unat erase - r)" "unat size0 + (unat erase - r) < unat size0 + unat erase"
      using r False by simp_all
    ultimately show ?thesis by (metis dvd_add dvd_refl dvd_triv_right)
  qed
qed

section \<open>The text of an option\<close>

text \<open>
  What is asked for with \<open>-nand\<close>. A number is written with the digits \<open>ds\<close>, which \<open>strtoull\<close> and
  \<open>strtoul\<close> read as \<open>n\<close>, all of them, at the end of the string and before a comma. File names are escaped,
  as \<open>vl-android.c\<close> does it.
\<close>

datatype nand_opt =
    Opt_size bytes u64 | Opt_pagesize bytes u64 | Opt_extrasize bytes u64 | Opt_erasepages bytes u64
  | Opt_initfile bytes | Opt_file bytes | Opt_readonly

definition nand_number :: "(bytes \<Rightarrow> u64 \<times> nat) \<Rightarrow> bytes \<Rightarrow> u64 \<Rightarrow> bool" where
  "nand_number num ds n \<longleftrightarrow> 0x2c \<notin> set ds \<and> num ds = (n, length ds) \<and> (\<forall>rest. num (ds @ 0x2c # rest) = (n, length ds))"

fun nand_opt_ok :: "(bytes \<Rightarrow> u64 \<times> nat) \<Rightarrow> nand_opt \<Rightarrow> bool" where
  "nand_opt_ok num (Opt_size ds n) = nand_number num ds n"
| "nand_opt_ok num (Opt_pagesize ds n) = nand_number num ds n"
| "nand_opt_ok num (Opt_extrasize ds n) = nand_number num ds n"
| "nand_opt_ok num (Opt_erasepages ds n) = nand_number num ds n"
| "nand_opt_ok num _ = True"

fun nand_opt_text :: "nand_opt \<Rightarrow> bytes" where
  "nand_opt_text (Opt_size ds n) = string_bytes ''size='' @ ds"
| "nand_opt_text (Opt_pagesize ds n) = string_bytes ''pagesize='' @ ds"
| "nand_opt_text (Opt_extrasize ds n) = string_bytes ''extrasize='' @ ds"
| "nand_opt_text (Opt_erasepages ds n) = string_bytes ''erasepages='' @ ds"
| "nand_opt_text (Opt_initfile f) = string_bytes ''initfile='' @ path_escape_path f"
| "nand_opt_text (Opt_file f) = string_bytes ''file='' @ path_escape_path f"
| "nand_opt_text Opt_readonly = string_bytes ''readonly''"

fun nand_opt_set :: "nand_opt \<Rightarrow> nand_args \<Rightarrow> nand_args" where
  "nand_opt_set (Opt_size ds n) st = st\<lparr>na_size := n\<rparr>"
| "nand_opt_set (Opt_pagesize ds n) st = st\<lparr>na_page_size := ucast n\<rparr>"
| "nand_opt_set (Opt_extrasize ds n) st = st\<lparr>na_extra_size := ucast n\<rparr>"
| "nand_opt_set (Opt_erasepages ds n) st = st\<lparr>na_erase_pages := ucast n\<rparr>"
| "nand_opt_set (Opt_initfile f) st = st\<lparr>na_initfile := Some f\<rparr>"
| "nand_opt_set (Opt_file f) st = st\<lparr>na_file := Some f\<rparr>"
| "nand_opt_set Opt_readonly st = st\<lparr>na_read_only := True\<rparr>"

definition nand_opts_text :: "nand_opt list \<Rightarrow> bytes" where
  "nand_opts_text opts = concat (map (\<lambda>opt. 0x2c # nand_opt_text opt) opts)"

lemma strchr_append: "c \<notin> set xs \<Longrightarrow> strchr c (xs @ ys) = length xs + strchr c ys"
  by (induction xs) (auto simp: strchr_def)

lemma strchr_hd: "strchr c (c # ys) = 0"
  by (simp add: strchr_def)

lemma nand_parse_value:
  assumes "0x2c \<notin> set k" "0x3d \<notin> set k" "0x2c \<notin> set v"
  shows "nand_parse num (k @ 0x3d # v @ nand_opts_text opts) st =
    obind (nand_arg num k (Some (v, v @ nand_opts_text opts)) st)
      (\<lambda>st1. if opts = [] then Inr st1 else nand_parse num (tl (nand_opts_text opts)) st1)"
proof -
  let ?arg = "k @ 0x3d # v @ nand_opts_text opts"
  have e: "strchr 0x3d ?arg = length k" using assms(2) by (simp add: strchr_append strchr_hd)
  have "strchr 0x2c (nand_opts_text opts) = 0" by (cases opts) (simp_all add: nand_opts_text_def strchr_hd, simp add: strchr_def)
  then have c: "strchr 0x2c ?arg = length (k @ 0x3d # v)"
    using assms(1,3) strchr_append [of "0x2c" "k @ 0x3d # v" "nand_opts_text opts"] by simp
  have l: "(length (k @ 0x3d # v) < length ?arg) = (opts \<noteq> [])" by (cases opts) (simp_all add: nand_opts_text_def)
  have d: "drop (length (k @ 0x3d # v) + 1) ?arg = tl (nand_opts_text opts)" by (simp add: drop_Suc drop_tl)
  show ?thesis by (subst nand_parse.simps) (unfold Let_def e c l d, cases "opts = []", simp_all)
qed

lemma nand_parse_plain:
  assumes "0x2c \<notin> set k" "0x3d \<notin> set k"
  shows "nand_parse num (k @ nand_opts_text opts) st =
    obind (nand_arg num k None st) (\<lambda>st1. if opts = [] then Inr st1 else nand_parse num (tl (nand_opts_text opts)) st1)"
proof -
  let ?arg = "k @ nand_opts_text opts"
  have e: "strchr 0x3d ?arg = length k + strchr 0x3d (nand_opts_text opts)" using assms(2) by (simp add: strchr_append)
  have "strchr 0x2c (nand_opts_text opts) = 0" by (cases opts) (simp_all add: nand_opts_text_def strchr_hd, simp add: strchr_def)
  then have c: "strchr 0x2c ?arg = length k" using assms(1) by (simp add: strchr_append)
  have l: "(length k < length ?arg) = (opts \<noteq> [])" by (cases opts) (simp_all add: nand_opts_text_def)
  have d: "drop (length k + 1) ?arg = tl (nand_opts_text opts)" by (simp add: drop_Suc drop_tl)
  show ?thesis by (subst nand_parse.simps) (unfold Let_def e c l d, cases "opts = []", simp_all)
qed

lemma nand_number_reads:
  "nand_number num ds n \<Longrightarrow> arg_number num ds (ds @ nand_opts_text opts) = Inr n"
  by (cases opts) (simp_all add: nand_number_def arg_number_def nand_opts_text_def)

lemma nand_parse_opt:
  assumes "nand_opt_ok num opt" "na_devname st \<noteq> None"
  shows "nand_parse num (nand_opt_text opt @ nand_opts_text opts) st =
    (if opts = [] then Inr (nand_opt_set opt st) else nand_parse num (tl (nand_opts_text opts)) (nand_opt_set opt st))"
proof -
  have key: "string_bytes ''size='' = string_bytes ''size'' @ [0x3d]" "string_bytes ''pagesize='' = string_bytes ''pagesize'' @ [0x3d]"
    "string_bytes ''extrasize='' = string_bytes ''extrasize'' @ [0x3d]" "string_bytes ''erasepages='' = string_bytes ''erasepages'' @ [0x3d]"
    "string_bytes ''initfile='' = string_bytes ''initfile'' @ [0x3d]" "string_bytes ''file='' = string_bytes ''file'' @ [0x3d]"
    by (simp_all add: string_bytes_def)
  have chars: "0x2c \<notin> set (string_bytes k) \<and> 0x3d \<notin> set (string_bytes k)"
    if "k \<in> {''size'', ''pagesize'', ''extrasize'', ''erasepages'', ''initfile'', ''file'', ''readonly''}" for k
    using that by (auto simp: string_bytes_def)
  have neq: "string_bytes ''size'' \<noteq> string_bytes ''pagesize''" "string_bytes ''size'' \<noteq> string_bytes ''extrasize''"
    "string_bytes ''size'' \<noteq> string_bytes ''erasepages''" "string_bytes ''size'' \<noteq> string_bytes ''initfile''" "string_bytes ''size'' \<noteq> string_bytes ''file''"
    "string_bytes ''pagesize'' \<noteq> string_bytes ''extrasize''" "string_bytes ''pagesize'' \<noteq> string_bytes ''erasepages''"
    "string_bytes ''pagesize'' \<noteq> string_bytes ''initfile''" "string_bytes ''pagesize'' \<noteq> string_bytes ''file''"
    "string_bytes ''extrasize'' \<noteq> string_bytes ''erasepages''" "string_bytes ''extrasize'' \<noteq> string_bytes ''initfile''" "string_bytes ''extrasize'' \<noteq> string_bytes ''file''"
    "string_bytes ''erasepages'' \<noteq> string_bytes ''initfile''" "string_bytes ''erasepages'' \<noteq> string_bytes ''file''" "string_bytes ''initfile'' \<noteq> string_bytes ''file''"
    by (simp_all add: string_bytes_def)
  have val: "nand_parse num (string_bytes k @ 0x3d # v @ nand_opts_text opts) st =
      (if opts = [] then Inr st1 else nand_parse num (tl (nand_opts_text opts)) st1)"
    if "k \<in> {''size'', ''pagesize'', ''extrasize'', ''erasepages'', ''initfile'', ''file'', ''readonly''}" "0x2c \<notin> set v"
      "nand_arg num (string_bytes k) (Some (v, v @ nand_opts_text opts)) st = Inr st1" for k v st1
    using nand_parse_value [of "string_bytes k" v num opts st] chars [OF that(1)] that(2,3) by simp
  show ?thesis
  proof (cases opt)
    case (Opt_size ds n)
    with assms(1) have n: "nand_number num ds n" by simp
    show ?thesis unfolding Opt_size nand_opt_text.simps nand_opt_set.simps key append_assoc append.simps
      by (rule val) (use n assms(2) neq in \<open>auto simp: nand_number_def nand_arg_def arg_match_iff nand_number_reads [OF n]\<close>)
  next
    case (Opt_pagesize ds n)
    with assms(1) have n: "nand_number num ds n" by simp
    show ?thesis unfolding Opt_pagesize nand_opt_text.simps nand_opt_set.simps key append_assoc append.simps
      by (rule val) (use n assms(2) neq in \<open>auto simp: nand_number_def nand_arg_def arg_match_iff nand_number_reads [OF n]\<close>)
  next
    case (Opt_extrasize ds n)
    with assms(1) have n: "nand_number num ds n" by simp
    show ?thesis unfolding Opt_extrasize nand_opt_text.simps nand_opt_set.simps key append_assoc append.simps
      by (rule val) (use n assms(2) neq in \<open>auto simp: nand_number_def nand_arg_def arg_match_iff nand_number_reads [OF n]\<close>)
  next
    case (Opt_erasepages ds n)
    with assms(1) have n: "nand_number num ds n" by simp
    show ?thesis unfolding Opt_erasepages nand_opt_text.simps nand_opt_set.simps key append_assoc append.simps
      by (rule val) (use n assms(2) neq in \<open>auto simp: nand_number_def nand_arg_def arg_match_iff nand_number_reads [OF n]\<close>)
  next
    case (Opt_initfile f)
    show ?thesis unfolding Opt_initfile nand_opt_text.simps nand_opt_set.simps key append_assoc append.simps
      by (rule val) (use assms(2) neq in \<open>auto simp: path_escape_chars nand_arg_def arg_match_iff path_unescape_escape\<close>)
  next
    case (Opt_file f)
    show ?thesis unfolding Opt_file nand_opt_text.simps nand_opt_set.simps key append_assoc append.simps
      by (rule val) (use assms(2) neq in \<open>auto simp: path_escape_chars nand_arg_def arg_match_iff path_unescape_escape\<close>)
  next
    case Opt_readonly
    with assms(2) nand_parse_plain [of "string_bytes ''readonly''" num opts st] chars [of "''readonly''"] show ?thesis
      by (auto simp: nand_arg_def arg_match_iff)
  qed
qed

lemma nand_parse_opts:
  "list_all (nand_opt_ok num) opts \<Longrightarrow> na_devname st \<noteq> None \<Longrightarrow> opts \<noteq> [] \<Longrightarrow>
   nand_parse num (tl (nand_opts_text opts)) st = Inr (fold nand_opt_set opts st)"
proof (induction opts arbitrary: st)
  case (Cons opt opts)
  have t: "tl (nand_opts_text (opt # opts)) = nand_opt_text opt @ nand_opts_text opts" by (simp add: nand_opts_text_def)
  have n: "na_devname (nand_opt_set opt st) \<noteq> None" using Cons.prems(2) by (cases opt) simp_all
  show ?case
    unfolding t using nand_parse_opt [of num opt st opts] Cons.prems(1,2) Cons.IH [OF _ n] by auto
qed simp

text \<open>The settings the text of a device's options stands for.\<close>

definition nand_request :: "bytes \<Rightarrow> nand_opt list \<Rightarrow> nand_args" where
  "nand_request name opts = fold nand_opt_set opts (nand_args_init\<lparr>na_devname := Some name\<rparr>)"

lemma nand_parse_request:
  assumes "0x2c \<notin> set name" "0x3d \<notin> set name" "list_all (nand_opt_ok num) opts"
  shows "nand_parse num (name @ nand_opts_text opts) nand_args_init = Inr (nand_request name opts)"
  using nand_parse_plain [OF assms(1,2), of num opts nand_args_init]
    nand_parse_opts [OF assms(3), of "nand_args_init\<lparr>na_devname := Some name\<rparr>"]
  by (simp add: nand_arg_def nand_args_init_def nand_request_def)

lemma nand_request_devname: "na_devname (nand_request name opts) = Some name"
proof -
  have "na_devname (fold nand_opt_set opts st) = na_devname st" for st
  proof (induction opts arbitrary: st)
    case (Cons opt opts)
    then show ?case by (cases opt) simp_all
  qed simp
  then show ?thesis by (simp add: nand_request_def)
qed

text \<open>
  C37: Attaching a flash device makes the device that is asked for. The text names the device and gives
  its options in any order; the files named in them can be opened, the erase unit is not zero, and an
  initial file is not the image itself, fits on the host and does not come with \<open>readonly\<close>. Then one
  device is appended, with that name and geometry, writable unless \<open>readonly\<close> is given; its image holds the contents
  of the initial file, or else of its own file; its buffer has the size of an erase unit; and its capacity is the size asked for, or
  with an initial file and no size the length of that file, rounded up to whole erase units unless that overflows 64 bits.
\<close>

theorem nand_add_dev_ok:
  fixes name opts
  defines "st \<equiv> nand_request name opts"
  defines "erase \<equiv> na_erase_pages st * (na_page_size st + na_extra_size st)"
  assumes "0x2c \<notin> set name" "0x3d \<notin> set name" "list_all (nand_opt_ok num) opts"
    and "open_file (nand_rw_name tmp st) = Some old" "erase \<noteq> 0" "\<And>n. length (junk n) = n"
    and "case na_initfile st of None \<Rightarrow> img = old \<and> size0 = na_size st
       | Some f \<Rightarrow> f \<noteq> nand_rw_name tmp st \<and> open_file f = Some img \<and> length img \<le> lim \<and> \<not> na_read_only st \<and>
           size0 = (if na_size st = 0 then of_nat (length img) else na_size st)"
  shows "\<exists>dev. nand_add_dev num open_file tmp junk lim (name @ nand_opts_text opts) devs = Inr (devs @ [dev]) \<and>
    nd_devname dev = name \<and> nd_page_size dev = na_page_size st \<and> nd_extra_size dev = na_extra_size st \<and> nd_erase_size dev = erase \<and>
    nd_flags dev = (if na_read_only st then NAND_DEV_FLAG_READ_ONLY else 0) \<and> nd_fd dev = Some img \<and>
    length (nd_data dev) = unat erase \<and>
    (unat size0 + unat erase < 2 ^ 64 \<longrightarrow> unat erase dvd unat (nd_max_size dev) \<and>
       unat size0 \<le> unat (nd_max_size dev) \<and> unat (nd_max_size dev) < unat size0 + unat erase)"
proof -
  have parse: "nand_parse num (name @ nand_opts_text opts) nand_args_init = Inr st"
    unfolding st_def by (rule nand_parse_request [OF assms(3-5)])
  have pos: "0 < unat erase" using assms(7) by (simp add: unat_gt_0)
  obtain data where mk: "nand_make_dev open_file tmp junk lim st = Inr (nand_new_dev st erase size0 data img)" "length data = unat erase"
  proof (cases "na_initfile st")
    case None
    then have "nand_make_dev open_file tmp junk lim st = Inr (nand_new_dev st erase size0 (junk (unat erase)) img)"
      using assms(6,7,9) by (simp add: nand_make_dev_def nand_open_init_def erase_def [symmetric])
    then show thesis by (rule that) (rule assms(8))
  next
    case (Some f)
    with assms(9) have f: "f \<noteq> nand_rw_name tmp st" "open_file f = Some img" "length img \<le> lim" "\<not> na_read_only st"
      "size0 = (if na_size st = 0 then of_nat (length img) else na_size st)" by simp_all
    obtain buf img' where cp: "nand_copy_loop lim img (unat erase) 0 (junk (unat erase)) [] = Inr (buf, img')"
      using nand_copy_loop_returns [OF f(3) pos, of 0 "junk (unat erase)" "[]"] by auto
    from nand_copy_loop_image [OF cp pos assms(8)] have "img' = img" and lb: "length buf = unat erase" by simp_all
    with cp have "nand_make_dev open_file tmp junk lim st = Inr (nand_new_dev st erase size0 buf img)"
      using Some f assms(6,7) by (simp add: nand_make_dev_def nand_open_init_def erase_def [symmetric])
    then show thesis using lb by (rule that)
  qed
  have "nd_devname (nand_new_dev st erase size0 data img) = name"
    by (simp add: nand_new_dev_def st_def nand_request_devname)
  moreover have "nand_add_dev num open_file tmp junk lim (name @ nand_opts_text opts) devs = Inr (devs @ [nand_new_dev st erase size0 data img])"
    by (simp add: nand_add_dev_def parse mk(1))
  ultimately show ?thesis
    using nand_round_size_multiple [OF assms(7), of size0] mk(2)
    by (intro exI [of _ "nand_new_dev st erase size0 data img"]) (simp add: nand_new_dev_def)
qed

text \<open>A reader of one-digit numbers.\<close>

definition one_digit :: "bytes \<Rightarrow> u64 \<times> nat" where
  "one_digit str = (case str of [] \<Rightarrow> (0, 0) | c # _ \<Rightarrow> if 0x30 \<le> c \<and> c \<le> 0x39 then (ucast (c - 0x30), 1) else (0, 0))"

theorem nand_add_dev_ok_witness:
  "\<exists>dev. nand_add_dev one_digit (\<lambda>f. if f = [0x61] then Some [1, 2, 3] else Some []) [] (\<lambda>n. replicate n 0) 100
      (string_bytes ''sd,pagesize=2,file=b,extrasize=0,erasepages=2,initfile=a'') [] = Inr [dev] \<and>
    nd_devname dev = string_bytes ''sd'' \<and> nd_fd dev = Some [1, 2, 3] \<and> nd_erase_size dev = 4 \<and> nd_flags dev = 0 \<and> unat (nd_max_size dev) = 4"
proof -
  let ?opts = "[Opt_pagesize [0x32] 2, Opt_file [0x62], Opt_extrasize [0x30] 0, Opt_erasepages [0x32] 2, Opt_initfile [0x61]]"
  let ?files = "\<lambda>f. if f = [0x61] then Some [1, 2, 3] else Some [] :: bytes option"
  let ?name = "string_bytes ''sd''"
  have st: "nand_request ?name ?opts = nand_args_init\<lparr>na_devname := Some ?name, na_page_size := 2, na_extra_size := 0, na_erase_pages := 2,
      na_initfile := Some [0x61], na_file := Some [0x62]\<rparr>"
    by (simp add: nand_request_def nand_args_init_def)
  have arg: "string_bytes ''sd,pagesize=2,file=b,extrasize=0,erasepages=2,initfile=a'' = ?name @ nand_opts_text ?opts"
    by (simp add: nand_opts_text_def string_bytes_def path_escape_path_def)
  have ok: "0x2c \<notin> set ?name" "0x3d \<notin> set ?name" "list_all (nand_opt_ok one_digit) ?opts"
    by (simp_all add: string_bytes_def nand_number_def one_digit_def)
  have "\<exists>dev. nand_add_dev one_digit ?files [] (\<lambda>n. replicate n 0) 100 (?name @ nand_opts_text ?opts) [] = Inr ([] @ [dev]) \<and>
    nd_devname dev = ?name \<and> nd_page_size dev = 2 \<and> nd_extra_size dev = 0 \<and> nd_erase_size dev = 4 \<and>
    nd_flags dev = 0 \<and> nd_fd dev = Some [1, 2, 3] \<and> length (nd_data dev) = unat (4 :: u32) \<and>
    (unat (3 :: u64) + unat (4 :: u32) < 2 ^ 64 \<longrightarrow> unat (4 :: u32) dvd unat (nd_max_size dev) \<and>
       unat (3 :: u64) \<le> unat (nd_max_size dev) \<and> unat (nd_max_size dev) < unat (3 :: u64) + unat (4 :: u32))"
    using nand_add_dev_ok [OF ok, of ?files "[]" "[]" "\<lambda>n. replicate n 0" "[1, 2, 3]" 3 100 "[]"]
    by (simp add: st nand_args_init_def nand_rw_name_def)
  then obtain dev where d: "nand_add_dev one_digit ?files [] (\<lambda>n. replicate n 0) 100 (?name @ nand_opts_text ?opts) [] = Inr [dev]"
    "nd_devname dev = ?name" "nd_erase_size dev = 4" "nd_flags dev = 0" "nd_fd dev = Some [1, 2, 3]"
    "4 dvd unat (nd_max_size dev)" "3 \<le> unat (nd_max_size dev)" "unat (nd_max_size dev) < 7" by auto
  from d(6) obtain k where "unat (nd_max_size dev) = 4 * k" by (elim dvdE)
  with d(7,8) have "unat (nd_max_size dev) = 4" by arith
  with d show ?thesis unfolding arg by blast
qed

end
