(* ===== verification/Goldfish_Mmc.thy ===== *)
theory Goldfish_Mmc
  imports Guest_Store Qemu_File Irq
begin

unbundle bit_operations_syntax

text \<open>
  The memory card, \<open>hw/android/goldfish/mmc.c\<close>: registers, commands, transfers between the card and
  guest memory, and snapshots.

  The card's image is a block device of the block layer, which is a parameter: \<open>'b\<close> is its state
  and a \<open>bdrv\<close> holds the functions that are called, on one sector at a time; \<open>None\<close> is a negative
  result. The sector buffer \<open>buf\<close> carries nothing from one transfer to the next and is left out.
\<close>

section \<open>State\<close>

record 'b bdrv =
  bdrv_read :: "'b \<Rightarrow> int \<Rightarrow> bytes option"
  bdrv_write :: "'b \<Rightarrow> int \<Rightarrow> bytes \<Rightarrow> 'b option"
  bdrv_get_geometry :: "'b \<Rightarrow> u64"
  bdrv_is_read_only :: "'b \<Rightarrow> bool"

record 'b goldfish_mmc_state =
  mmc_bs :: 'b
  mmc_buffer_address :: u64
  mmc_read_offset :: u32
  mmc_write_offset :: u32
  mmc_int_status :: u32
  mmc_int_enable :: u32
  mmc_arg :: u32
  mmc_resp0 :: u32
  mmc_resp1 :: u32
  mmc_resp2 :: u32
  mmc_resp3 :: u32
  mmc_block_length :: u32
  mmc_block_count :: u32
  mmc_is_SDHC :: u32

definition MMC_STAT_END_OF_CMD :: u32 where [dev_defs]: "MMC_STAT_END_OF_CMD = 1"
definition MMC_STAT_END_OF_DATA :: u32 where [dev_defs]: "MMC_STAT_END_OF_DATA = 2"
definition MMC_STATE_INSERTED :: u32 where [dev_defs]: "MMC_STATE_INSERTED = 1"
definition MMC_STATE_READ_ONLY :: u32 where [dev_defs]: "MMC_STATE_READ_ONLY = 2"
definition R1_READY_FOR_DATA :: u32 where [dev_defs]: "R1_READY_FOR_DATA = 256"
definition R1_APP_CMD :: u32 where [dev_defs]: "R1_APP_CMD = 32"

definition SET_R1_CURRENT_STATE :: "u32 \<Rightarrow> u32" where [dev_defs]:
  "SET_R1_CURRENT_STATE st = push_bit 9 st AND 0x00001E00"

section \<open>Transfers\<close>

text \<open>A sector at a time, up to the first failure; the callers ignore the result.\<close>

fun goldfish_mmc_bdrv_read :: "'b bdrv \<Rightarrow> 'b \<Rightarrow> int \<Rightarrow> u64 \<Rightarrow> nat \<Rightarrow> ram \<Rightarrow> ram" where
  "goldfish_mmc_bdrv_read d bs sector dst 0 m = m"
| "goldfish_mmc_bdrv_read d bs sector dst (Suc n) m =
     (case bdrv_read d bs sector of
        None \<Rightarrow> m
      | Some b \<Rightarrow> goldfish_mmc_bdrv_read d bs (sector + 1) (dst + 512) n (cpu_physical_memory_write m dst b))"

fun goldfish_mmc_bdrv_write :: "'b bdrv \<Rightarrow> 'b \<Rightarrow> int \<Rightarrow> u64 \<Rightarrow> nat \<Rightarrow> ram \<Rightarrow> 'b" where
  "goldfish_mmc_bdrv_write d bs sector dst 0 m = bs"
| "goldfish_mmc_bdrv_write d bs sector dst (Suc n) m =
     (case bdrv_write d bs sector (cpu_physical_memory_read m dst 512) of
        None \<Rightarrow> bs
      | Some bs' \<Rightarrow> goldfish_mmc_bdrv_write d bs' (sector + 1) (dst + 512) n m)"

section \<open>Commands\<close>

text \<open>The loop that finds the exponent of the capacity.\<close>

function mmc_exponent :: "nat \<Rightarrow> nat \<Rightarrow> nat \<times> nat" where
  "mmc_exponent capacity e = (if capacity > 4096 then mmc_exponent (capacity div 2) (e + 1) else (capacity, e))"
  by pat_completeness auto
termination
  by (relation "measure fst") auto

declare mmc_exponent.simps [simp del]

text \<open>The card specific data: the card's capacity in the encoding of its kind. \<open>abort\<close> ends the process.\<close>

definition mmc_send_csd :: "u64 \<Rightarrow> 'b goldfish_mmc_state \<Rightarrow> 'b goldfish_mmc_state outcome" where
  "mmc_send_csd sectors s =
     (let capacity = sectors * 512 in
      if capacity > 2147483648 then
        (let m = (ucast (capacity div (512 * 1024)) :: u32) - 1 in
         if m AND 0xFFC00000 \<noteq> 0 then Inl Process_exit
         else Inr (s\<lparr>mmc_is_SDHC := 1, mmc_resp3 := 0x400E0032, mmc_resp2 := 0x5B590000 OR drop_bit 16 m,
                     mmc_resp1 := 0x00007F80 OR push_bit 16 (m AND 0x0000FFFF), mmc_resp0 := 0x0A4040DF\<rparr>))
      else
        (let (cap, e) = mmc_exponent (unat (drop_bit 10 capacity)) 0; c = (of_nat cap :: u32) - 1 in
         if e < 2 then Inl Cpu_abort
         else if e - 2 > 7 then Inl Cpu_abort
         else Inr (s\<lparr>mmc_is_SDHC := 0, mmc_resp3 := 0x00260032, mmc_resp2 := 0x5F5A8000 OR (drop_bit 2 c AND 0x3FF),
                     mmc_resp1 := 0x3EF84FFF OR push_bit 30 (c AND 3) OR push_bit 15 (of_nat (e - 2)), mmc_resp0 := 0x928040CB\<rparr>)))"

text \<open>The first sector of a transfer; a card of standard capacity is addressed in bytes.\<close>

definition mmc_sector :: "'b goldfish_mmc_state \<Rightarrow> u32 \<Rightarrow> u32 outcome" where
  "mmc_sector s arg =
     (if mmc_is_SDHC s \<noteq> 0 then Inr arg
      else if mmc_block_length s = 0 then Inl Undefined_behaviour
      else Inr (arg div mmc_block_length s))"

definition mmc_read_blocks :: "'b bdrv \<Rightarrow> u32 \<Rightarrow> 'b goldfish_mmc_state \<Rightarrow> ram \<Rightarrow> ('b goldfish_mmc_state \<times> ram) outcome" where
  "mmc_read_blocks d arg s m =
     obind (mmc_sector s arg) (\<lambda>sec.
       Inr (s\<lparr>mmc_resp0 := SET_R1_CURRENT_STATE 4 OR R1_READY_FOR_DATA\<rparr>,
            goldfish_mmc_bdrv_read d (mmc_bs s) (uint sec) (mmc_buffer_address s) (nat (sint (mmc_block_count s))) m))"

definition mmc_write_blocks :: "'b bdrv \<Rightarrow> u32 \<Rightarrow> 'b goldfish_mmc_state \<Rightarrow> ram \<Rightarrow> ('b goldfish_mmc_state \<times> ram) outcome" where
  "mmc_write_blocks d arg s m =
     obind (mmc_sector s arg) (\<lambda>sec.
       Inr (s\<lparr>mmc_resp0 := SET_R1_CURRENT_STATE 4 OR R1_READY_FOR_DATA,
              mmc_bs := goldfish_mmc_bdrv_write d (mmc_bs s) (uint sec) (mmc_buffer_address s) (nat (sint (mmc_block_count s))) m\<rparr>, m))"

text \<open>The effect of a command on the registers, the card and the memory, and its status bits.\<close>

definition mmc_opcode ::
    "'b bdrv \<Rightarrow> u32 \<Rightarrow> u32 \<Rightarrow> 'b goldfish_mmc_state \<Rightarrow> ram \<Rightarrow> (u32 \<times> 'b goldfish_mmc_state \<times> ram) outcome" where
  "mmc_opcode d opc arg s m =
     (let cmd = MMC_STAT_END_OF_CMD; data = MMC_STAT_END_OF_CMD OR MMC_STAT_END_OF_DATA;
          app = SET_R1_CURRENT_STATE 4 OR R1_READY_FOR_DATA OR R1_APP_CMD
      in if opc = 9 then obind (mmc_send_csd (bdrv_get_geometry d (mmc_bs s)) s) (\<lambda>s'. Inr (cmd, s', m))
         else if opc = 8 then Inr (cmd, s\<lparr>mmc_resp0 := arg\<rparr>, m)
         else if opc = 55 then Inr (cmd, s\<lparr>mmc_resp0 := app\<rparr>, m)
         else if opc = 41 then Inr (cmd, s\<lparr>mmc_resp0 := 0x80FF8000\<rparr>, m)
         else if opc = 51 then
           Inr (data, s\<lparr>mmc_resp0 := app\<rparr>, cpu_physical_memory_write m (mmc_buffer_address s) [2, 0x25, 0, 0, 0, 0, 0, 0])
         else if opc = 3 then Inr (cmd, s\<lparr>mmc_resp0 := - 518519520\<rparr>, m)
         else if opc = 2 then
           Inr (cmd, s\<lparr>mmc_resp3 := 55788627, mmc_resp2 := 1429221959, mmc_resp1 := - 2147479692, mmc_resp0 := - 436179883\<rparr>, m)
         else if opc = 7 then Inr (cmd, s\<lparr>mmc_resp0 := SET_R1_CURRENT_STATE 3 OR R1_READY_FOR_DATA\<rparr>, m)
         else if opc = 6 then
           (if arg = 0x00FFFFF1 \<or> arg = 0x80FFFFF1 then
              Inr (data, s\<lparr>mmc_resp0 := app\<rparr>, cpu_physical_memory_write m (mmc_buffer_address s) ((replicate 64 0)[13 := 2]))
            else Inr (cmd, s\<lparr>mmc_resp0 := app\<rparr>, m))
         else if opc = 16 then
           Inr (cmd, s\<lparr>mmc_block_length := arg, mmc_resp0 := SET_R1_CURRENT_STATE 4 OR R1_READY_FOR_DATA\<rparr>, m)
         else if opc = 17 then obind (mmc_read_blocks d arg (s\<lparr>mmc_block_count := 1\<rparr>) m) (\<lambda>(s', m'). Inr (data, s', m'))
         else if opc = 18 then obind (mmc_read_blocks d arg s m) (\<lambda>(s', m'). Inr (data, s', m'))
         else if opc = 24 then obind (mmc_write_blocks d arg (s\<lparr>mmc_block_count := 1\<rparr>) m) (\<lambda>(s', m'). Inr (data, s', m'))
         else if opc = 25 then obind (mmc_write_blocks d arg s m) (\<lambda>(s', m'). Inr (data, s', m'))
         else if opc = 12 then Inr (cmd, s\<lparr>mmc_resp0 := SET_R1_CURRENT_STATE 5 OR R1_READY_FOR_DATA\<rparr>, m)
         else if opc = 13 then Inr (cmd, s\<lparr>mmc_resp0 := SET_R1_CURRENT_STATE 4 OR R1_READY_FOR_DATA\<rparr>, m)
         else Inr (cmd, s, m))"

definition goldfish_mmc_do_command ::
    "'b bdrv \<Rightarrow> u32 \<Rightarrow> u32 \<Rightarrow> 'b goldfish_mmc_state \<Rightarrow> ram \<Rightarrow> ('b goldfish_mmc_state \<times> bool list \<times> ram) outcome" where
  "goldfish_mmc_do_command d cmd arg s m =
     obind (mmc_opcode d (cmd AND 63) arg (s\<lparr>mmc_resp0 := 0, mmc_resp1 := 0, mmc_resp2 := 0, mmc_resp3 := 0\<rparr>) m) (\<lambda>(st, s1, m').
       let s2 = s1\<lparr>mmc_int_status := mmc_int_status s1 OR st\<rparr>
       in Inr (s2, if mmc_int_status s2 AND mmc_int_enable s2 \<noteq> 0 then [True] else [], m'))"

section \<open>Registers\<close>

definition goldfish_mmc_read :: "'b bdrv \<Rightarrow> u32 \<Rightarrow> 'b goldfish_mmc_state \<Rightarrow> u32 outcome" where
  "goldfish_mmc_read d offset s =
     (if offset = 0x00 then Inr (mmc_int_status s AND mmc_int_enable s)
      else if offset = 0x14 then Inr (mmc_resp0 s)
      else if offset = 0x18 then Inr (mmc_resp1 s)
      else if offset = 0x1C then Inr (mmc_resp2 s)
      else if offset = 0x20 then Inr (mmc_resp3 s)
      else if offset = 0x2C then
        Inr (if bdrv_is_read_only d (mmc_bs s) then MMC_STATE_INSERTED OR MMC_STATE_READ_ONLY else MMC_STATE_INSERTED)
      else Inl Cpu_abort)"

text \<open>Clearing status bits drives the line with the remaining bits, enabled or not.\<close>

definition goldfish_mmc_write ::
    "'b bdrv \<Rightarrow> u32 \<Rightarrow> u32 \<Rightarrow> 'b goldfish_mmc_state \<Rightarrow> ram \<Rightarrow> ('b goldfish_mmc_state \<times> bool list \<times> ram) outcome" where
  "goldfish_mmc_write d offset val s m =
     (if offset = 0x00 then
        (let status = mmc_int_status s AND NOT val
         in Inr (s\<lparr>mmc_int_status := status\<rparr>, if status \<noteq> mmc_int_status s then [status \<noteq> 0] else [], m))
      else if offset = 0x04 then Inr (s\<lparr>mmc_int_enable := val, mmc_int_status := 0\<rparr>, [False], m)
      else if offset = 0x08 then Inr (s\<lparr>mmc_buffer_address := uint64_set_low (mmc_buffer_address s) val\<rparr>, [], m)
      else if offset = 0x30 then Inr (s\<lparr>mmc_buffer_address := uint64_set_high (mmc_buffer_address s) val\<rparr>, [], m)
      else if offset = 0x0C then goldfish_mmc_do_command d val (mmc_arg s) s m
      else if offset = 0x10 then Inr (s\<lparr>mmc_arg := val\<rparr>, [], m)
      else if offset = 0x24 then Inr (s\<lparr>mmc_block_length := val + 1\<rparr>, [], m)
      else if offset = 0x28 then Inr (s\<lparr>mmc_block_count := val + 1\<rparr>, [], m)
      else Inl Cpu_abort)"

definition goldfish_mmc_init :: "'b \<Rightarrow> 'b goldfish_mmc_state" where
  "goldfish_mmc_init bs = \<lparr>mmc_bs = bs, mmc_buffer_address = 0, mmc_read_offset = 0, mmc_write_offset = 0, mmc_int_status = 0,
     mmc_int_enable = 0, mmc_arg = 0, mmc_resp0 = 0, mmc_resp1 = 0, mmc_resp2 = 0, mmc_resp3 = 0, mmc_block_length = 0,
     mmc_block_count = 0, mmc_is_SDHC = 0\<rparr>"

section \<open>Snapshots\<close>

definition mmc_values :: "'b goldfish_mmc_state \<Rightarrow> qvalue list" where
  "mmc_values s = map QInt32 [mmc_read_offset s, mmc_write_offset s, mmc_int_status s, mmc_int_enable s, mmc_arg s, mmc_resp0 s, mmc_resp1 s,
     mmc_resp2 s, mmc_resp3 s, mmc_block_length s, mmc_block_count s, mmc_is_SDHC s]"

definition goldfish_mmc_fields :: "qfield list" where
  "goldfish_mmc_fields = replicate 12 Q_FIELD_INT32"

definition goldfish_mmc_save :: "QEMUFile \<Rightarrow> 'b goldfish_mmc_state \<Rightarrow> QEMUFile" where
  "goldfish_mmc_save f s = qemu_put_struct (qemu_put_be64 f (mmc_buffer_address s)) (mmc_values s)"

definition mmc_set_values :: "qvalue list \<Rightarrow> 'b goldfish_mmc_state \<Rightarrow> 'b goldfish_mmc_state" where
  "mmc_set_values vs s =
     (let g = (\<lambda>i. case vs ! i of QInt32 v \<Rightarrow> v | _ \<Rightarrow> 0) in
      s\<lparr>mmc_read_offset := g 0, mmc_write_offset := g 1, mmc_int_status := g 2, mmc_int_enable := g 3, mmc_arg := g 4, mmc_resp0 := g 5,
        mmc_resp1 := g 6, mmc_resp2 := g 7, mmc_resp3 := g 8, mmc_block_length := g 9, mmc_block_count := g 10, mmc_is_SDHC := g 11\<rparr>)"

definition goldfish_mmc_load :: "QEMUFile \<Rightarrow> 'b goldfish_mmc_state \<Rightarrow> int \<Rightarrow> int \<times> 'b goldfish_mmc_state \<times> QEMUFile" where
  "goldfish_mmc_load f s version_id =
     (if version_id \<noteq> 3 \<and> version_id \<noteq> 2 then (-1, s, f)
      else
        let (a, f1) = (if version_id = 3 then qemu_get_be64 f else (let (c, g) = qemu_get_be32 f in (ucast c, g)));
            s1 = s\<lparr>mmc_buffer_address := a\<rparr>
        in case qemu_get_struct f1 goldfish_mmc_fields of
             (Some vs, f2) \<Rightarrow> (0, mmc_set_values vs s1, f2)
           | (None, f2) \<Rightarrow> (-1, s1, f2))"

section \<open>Interrupts\<close>

lemma mmc_opcode_int:
  assumes "mmc_opcode d opc arg s m = Inr (st, s', m')"
  shows "mmc_int_status s' = mmc_int_status s \<and> mmc_int_enable s' = mmc_int_enable s"
proof -
  have csd: "mmc_send_csd n s = Inr s'' \<Longrightarrow> mmc_int_status s'' = mmc_int_status s \<and> mmc_int_enable s'' = mmc_int_enable s" for n s''
    by (auto simp: mmc_send_csd_def Let_def split: if_split_asm prod.split_asm)
  show ?thesis
    using assms csd unfolding mmc_opcode_def Let_def
    by (simp only: split: if_split_asm) (auto simp: mmc_read_blocks_def mmc_write_blocks_def)
qed

datatype mmc_op = Mmc_write u32 u32 | Mmc_read u32

fun mmc_step :: "'b bdrv \<Rightarrow> mmc_op \<Rightarrow> 'b goldfish_mmc_state \<times> ram \<Rightarrow> (('b goldfish_mmc_state \<times> ram) \<times> bool list) outcome" where
  "mmc_step d (Mmc_write offset val) (s, m) = obind (goldfish_mmc_write d offset val s m) (\<lambda>(s', ls, m'). Inr ((s', m'), ls))"
| "mmc_step d (Mmc_read offset) (s, m) = obind (goldfish_mmc_read d offset s) (\<lambda>_. Inr ((s, m), []))"

definition mmc_pending :: "'b goldfish_mmc_state \<Rightarrow> bool" where
  "mmc_pending s \<longleftrightarrow> mmc_int_status s AND mmc_int_enable s \<noteq> 0"

lemma mmc_write_line:
  assumes "goldfish_mmc_write d offset val s m = Inr (s', ls, m')" "mmc_pending s \<longrightarrow> line" "mmc_pending s'"
  shows "drive line ls"
proof (cases "offset = 0x0C")
  case True
  with assms(1,3) show ?thesis
    by (auto simp: goldfish_mmc_write_def goldfish_mmc_do_command_def mmc_pending_def Let_def dest: mmc_opcode_int)
next
  case False
  with assms show ?thesis
    by (auto simp: goldfish_mmc_write_def mmc_pending_def Let_def split: if_split_asm)
qed

interpretation mmc_irq: pending_irq_device "mmc_step d" "\<lambda>s. mmc_pending (fst s)" "\<lambda>s. True"
proof
  fix s s' :: "'a goldfish_mmc_state \<times> ram" and a ls line
  assume st: "mmc_step d a s = Inr (s', ls)" and p: "mmc_pending (fst s) \<longrightarrow> line" "mmc_pending (fst s')"
  show "drive line ls"
  proof (cases a)
    case (Mmc_write offset val)
    with st have "goldfish_mmc_write d offset val (fst s) (snd s) = Inr (fst s', ls, snd s')" by (cases s) auto
    then show ?thesis using p by (rule mmc_write_line)
  next
    case (Mmc_read offset)
    with st p show ?thesis by (cases s) auto
  qed
qed simp

text \<open>
  With only the end of commands enabled, the acknowledgement of a transfer leaves the line raised
  although no enabled bit is set.
\<close>

lemma mmc_masked_bit_raises:
  "mmc_int_status s = 3 \<Longrightarrow> mmc_int_enable s = 1 \<Longrightarrow>
   \<exists>s'. goldfish_mmc_write d 0 1 s m = Inr (s', [True], m) \<and> goldfish_mmc_read d 0 s' = Inr 0"
  by (simp add: goldfish_mmc_write_def goldfish_mmc_read_def Let_def)

section \<open>Data\<close>

text \<open>What the block layer promises: a written sector is read back, and no other one changes.\<close>

definition bdrv_ok :: "'b bdrv \<Rightarrow> bool" where
  "bdrv_ok d \<longleftrightarrow>
     (\<forall>bs n b bs'. length b = 512 \<longrightarrow> bdrv_write d bs n b = Some bs' \<longrightarrow>
        bdrv_read d bs' n = Some b \<and> (\<forall>k. k \<noteq> n \<longrightarrow> bdrv_read d bs' k = bdrv_read d bs k) \<and>
        bdrv_get_geometry d bs' = bdrv_get_geometry d bs \<and> bdrv_is_read_only d bs' = bdrv_is_read_only d bs) \<and>
     (\<forall>bs n b. length b = 512 \<longrightarrow> \<not> bdrv_is_read_only d bs \<longrightarrow> 0 \<le> n \<longrightarrow> n < uint (bdrv_get_geometry d bs) \<longrightarrow> bdrv_write d bs n b \<noteq> None)"

lemma bdrv_ok_write:
  assumes "bdrv_ok d" "bdrv_write d bs n b = Some bs'" "length b = 512"
  shows "bdrv_read d bs' n = Some b" "k \<noteq> n \<Longrightarrow> bdrv_read d bs' k = bdrv_read d bs k"
    "bdrv_get_geometry d bs' = bdrv_get_geometry d bs" "bdrv_is_read_only d bs' = bdrv_is_read_only d bs"
  using assms unfolding bdrv_ok_def by blast+

lemma mmc_write_loop:
  "bdrv_ok d \<Longrightarrow> \<not> bdrv_is_read_only d bs \<Longrightarrow> 0 \<le> sec \<Longrightarrow> sec + int n \<le> uint (bdrv_get_geometry d bs) \<Longrightarrow>
   (\<forall>i<n. bdrv_read d (goldfish_mmc_bdrv_write d bs sec dst n m) (sec + int i) = Some (cpu_physical_memory_read m (dst + of_nat (512 * i)) 512)) \<and>
   (\<forall>k. k < sec \<longrightarrow> bdrv_read d (goldfish_mmc_bdrv_write d bs sec dst n m) k = bdrv_read d bs k)"
proof (induction n arbitrary: bs sec dst)
  case (Suc n)
  let ?b = "cpu_physical_memory_read m dst 512"
  have "sec < uint (bdrv_get_geometry d bs)" using Suc.prems(4) by simp
  then have "bdrv_write d bs sec ?b \<noteq> None" using Suc.prems(1-3) unfolding bdrv_ok_def by simp
  then obtain bs' where w: "bdrv_write d bs sec ?b = Some bs'" by blast
  have bs': "bdrv_read d bs' sec = Some ?b" "\<And>k. k \<noteq> sec \<Longrightarrow> bdrv_read d bs' k = bdrv_read d bs k"
    "bdrv_get_geometry d bs' = bdrv_get_geometry d bs" "\<not> bdrv_is_read_only d bs'"
    using bdrv_ok_write [OF Suc.prems(1) w] Suc.prems(2) by simp_all
  let ?r = "goldfish_mmc_bdrv_write d bs' (sec + 1) (dst + 512) n m"
  have IH: "(\<forall>i<n. bdrv_read d ?r (sec + 1 + int i) = Some (cpu_physical_memory_read m (dst + 512 + of_nat (512 * i)) 512)) \<and>
      (\<forall>k. k < sec + 1 \<longrightarrow> bdrv_read d ?r k = bdrv_read d bs' k)"
    using Suc.prems bs' by (intro Suc.IH) auto
  have eq: "goldfish_mmc_bdrv_write d bs sec dst (Suc n) m = ?r" using w by simp
  show ?case
    unfolding eq
  proof (intro conjI allI impI)
    fix i
    assume i: "i < Suc n"
    show "bdrv_read d ?r (sec + int i) = Some (cpu_physical_memory_read m (dst + of_nat (512 * i)) 512)"
    proof (cases i)
      case 0
      with IH bs'(1) show ?thesis by simp
    next
      case (Suc j)
      then have "bdrv_read d ?r (sec + 1 + int j) = Some (cpu_physical_memory_read m (dst + 512 + of_nat (512 * j)) 512)" using IH i by simp
      with Suc show ?thesis by (simp add: algebra_simps)
    qed
  qed (use IH bs'(2) in auto)
qed simp

lemma phys_write_append:
  assumes "length x + length y \<le> 2 ^ 64" "length x < 2 ^ 64"
  shows "cpu_physical_memory_write (cpu_physical_memory_write m a x) (a + of_nat (length x)) y = cpu_physical_memory_write m a (x @ y)"
proof
  fix c
  define u where "u = unat (c - a)"
  have lt: "u < 2 ^ 64" unfolding u_def using unsigned_less [of "c - a", where 'a = nat] by simp
  have off: "unat (c - (a + of_nat (length x))) = (if u < length x then u + 2 ^ 64 - length x else u - length x)"
  proof -
    have c: "c - (a + of_nat (length x)) = (c - a) - of_nat (length x)" by simp
    have "unat (of_nat (length x) :: u64) = length x" using assms(2) by (simp add: unat_of_nat)
    then show ?thesis unfolding c u_def by (auto simp: unat_sub_if_size word_size)
  qed
  show "cpu_physical_memory_write (cpu_physical_memory_write m a x) (a + of_nat (length x)) y c = cpu_physical_memory_write m a (x @ y) c"
    unfolding cpu_physical_memory_write_def off u_def [symmetric] using assms lt by (auto simp: nth_append)
qed

lemma mmc_read_loop:
  "(\<And>i. i < n \<Longrightarrow> bdrv_read d bs (sec + int i) = Some (b i) \<and> length (b i) = 512) \<Longrightarrow> 512 * n \<le> 2 ^ 64 \<Longrightarrow>
   goldfish_mmc_bdrv_read d bs sec dst n m = cpu_physical_memory_write m dst (concat (map b [0..<n]))"
proof (induction n arbitrary: b sec dst m)
  case (Suc n)
  have b0: "bdrv_read d bs sec = Some (b 0)" "length (b 0) = 512" using Suc.prems(1) [of 0] by auto
  have len: "length (concat (map (\<lambda>i. b (Suc i)) [0..<n])) = 512 * n"
    using Suc.prems(1) by (simp add: length_concat comp_def sum_list_triv interv_sum_list_conv_sum_set_nat)
  have "goldfish_mmc_bdrv_read d bs (sec + 1) (dst + 512) n (cpu_physical_memory_write m dst (b 0)) =
      cpu_physical_memory_write (cpu_physical_memory_write m dst (b 0)) (dst + 512) (concat (map (\<lambda>i. b (Suc i)) [0..<n]))"
    using Suc.prems(2) Suc.prems(1) [of "Suc _"] by (intro Suc.IH) (auto simp: algebra_simps)
  also have "\<dots> = cpu_physical_memory_write m dst (b 0 @ concat (map (\<lambda>i. b (Suc i)) [0..<n]))"
    using phys_write_append [of "b 0" "concat (map (\<lambda>i. b (Suc i)) [0..<n])" m dst] b0(2) len Suc.prems(2) by simp
  also have "b 0 @ concat (map (\<lambda>i. b (Suc i)) [0..<n]) = concat (map b [0..<Suc n])"
    by (simp only: upt_conv_Cons [of 0 "Suc n"] map_Suc_upt [symmetric] list.map concat.simps map_map comp_def zero_less_Suc if_True)
  finally show ?case using b0(1) by simp
qed simp

lemma concat_sectors: "concat (map (\<lambda>i. cpu_physical_memory_read m (a + of_nat (512 * i)) 512) [0..<n]) = cpu_physical_memory_read m a (512 * n)"
proof (induction n)
  case (Suc n)
  have "cpu_physical_memory_read m a (512 * n + 512) = cpu_physical_memory_read m a (512 * n) @ cpu_physical_memory_read m (a + of_nat (512 * n)) 512"
    by (rule nth_equalityI) (auto simp: nth_append nth_phys_read algebra_simps)
  with Suc show ?case by (simp add: add.commute)
qed (simp add: cpu_physical_memory_read_def)

text \<open>
  C4: What the guest writes to the card it reads back, from and to any place of its memory: after a
  command that writes a number of sectors, a command that reads as many sectors from the same address
  copies the same bytes to the other buffer, whatever happened to the memory in between, and writes
  nothing else.
\<close>

theorem mmc_write_read:
  assumes "bdrv_ok d" "\<not> bdrv_is_read_only d (mmc_bs s)" "mmc_sector s (mmc_arg s) = Inr sec" "n = nat (sint (mmc_block_count s))"
    and "uint sec + int n \<le> uint (bdrv_get_geometry d (mmc_bs s))"
  shows "\<exists>s1 l1 s2 l2.
    goldfish_mmc_write d 0x0C 25 s m = Inr (s1, l1, m) \<and>
    goldfish_mmc_write d 0x0C 18 (s1\<lparr>mmc_buffer_address := addr\<rparr>) m1 =
      Inr (s2, l2, cpu_physical_memory_write m1 addr (cpu_physical_memory_read m (mmc_buffer_address s) (512 * n)))"
proof -
  let ?bs = "goldfish_mmc_bdrv_write d (mmc_bs s) (uint sec) (mmc_buffer_address s) n m"
  let ?b = "\<lambda>i. cpu_physical_memory_read m (mmc_buffer_address s + of_nat (512 * i)) 512"
  have "\<forall>i<n. bdrv_read d ?bs (uint sec + int i) = Some (?b i)"
    using mmc_write_loop [OF assms(1,2) _ assms(5), of "mmc_buffer_address s" m] by simp
  then have rd: "\<And>i. i < n \<Longrightarrow> bdrv_read d ?bs (uint sec + int i) = Some (?b i) \<and> length (?b i) = 512" by simp
  have "sint (mmc_block_count s) < 2 ^ 31" using sint_less [of "mmc_block_count s"] by simp
  then have "512 * n \<le> 2 ^ 64" unfolding assms(4) by simp
  from mmc_read_loop [OF rd this, of addr m1]
  have r: "goldfish_mmc_bdrv_read d ?bs (uint sec) addr n m1 = cpu_physical_memory_write m1 addr (cpu_physical_memory_read m (mmc_buffer_address s) (512 * n))"
    unfolding concat_sectors .
  have sec: "mmc_sector (t :: 'a goldfish_mmc_state) (mmc_arg s) = Inr sec" if "mmc_is_SDHC t = mmc_is_SDHC s" "mmc_block_length t = mmc_block_length s" for t
    using assms(3) unfolding mmc_sector_def that .
  show ?thesis
    using r assms(4) by (simp add: goldfish_mmc_write_def goldfish_mmc_do_command_def mmc_opcode_def mmc_write_blocks_def mmc_read_blocks_def sec Let_def)
qed

text \<open>A card that keeps its sectors in a list.\<close>

definition list_bdrv :: "bytes list bdrv" where
  "list_bdrv = \<lparr>bdrv_read = (\<lambda>bs n. if 0 \<le> n \<and> nat n < length bs then Some (bs ! nat n) else None),
     bdrv_write = (\<lambda>bs n b. if 0 \<le> n \<and> nat n < length bs then Some (bs[nat n := b]) else None),
     bdrv_get_geometry = (\<lambda>bs. if length bs < 2 ^ 64 then of_nat (length bs) else 0), bdrv_is_read_only = (\<lambda>bs. False)\<rparr>"

lemma list_bdrv_ok: "bdrv_ok list_bdrv"
proof -
  have g: "uint (of_nat k :: u64) = int k" if "k < 2 ^ 64" for k using that by (simp add: uint_nat unat_of_nat)
  show ?thesis
    unfolding bdrv_ok_def list_bdrv_def by (auto simp: g nth_list_update split: if_split_asm)
qed

theorem mmc_write_read_witness:
  "\<exists>(s :: bytes list goldfish_mmc_state) s1 l1 s2 l2 m'.
    goldfish_mmc_write list_bdrv 0x0C 25 s (\<lambda>a. ucast a) = Inr (s1, l1, \<lambda>a. ucast a) \<and>
    goldfish_mmc_write list_bdrv 0x0C 18 (s1\<lparr>mmc_buffer_address := 0x4000\<rparr>) (\<lambda>a. 0) = Inr (s2, l2, m') \<and> m' 0x4011 = 0x11"
proof -
  define s where "s = (goldfish_mmc_init [[] :: bytes, []])\<lparr>mmc_block_length := 512, mmc_block_count := 1, mmc_arg := 512\<rparr>"
  have "mmc_sector s (mmc_arg s) = Inr 1" by (simp add: s_def mmc_sector_def goldfish_mmc_init_def)
  moreover have "uint (1 :: u32) + int 1 \<le> uint (bdrv_get_geometry list_bdrv (mmc_bs s))" "\<not> bdrv_is_read_only list_bdrv (mmc_bs s)"
    "1 = nat (sint (mmc_block_count s))"
    by (simp_all add: s_def goldfish_mmc_init_def list_bdrv_def)
  ultimately obtain s1 l1 s2 l2 where
    r: "goldfish_mmc_write list_bdrv 0x0C 25 s (\<lambda>a. ucast a) = Inr (s1, l1, \<lambda>a. ucast a)"
      "goldfish_mmc_write list_bdrv 0x0C 18 (s1\<lparr>mmc_buffer_address := 0x4000\<rparr>) (\<lambda>a. 0) =
        Inr (s2, l2, cpu_physical_memory_write (\<lambda>a. 0) 0x4000 (cpu_physical_memory_read (\<lambda>a. ucast a) (mmc_buffer_address s) (512 * 1)))"
    using mmc_write_read [OF list_bdrv_ok, of s 1 1 "\<lambda>a. ucast a" "0x4000" "\<lambda>a. 0"] by blast
  let ?m = "cpu_physical_memory_write (\<lambda>a. 0) 0x4000 (cpu_physical_memory_read (\<lambda>a. ucast a) (mmc_buffer_address s) (512 * 1)) :: ram"
  have "?m 0x4011 = 0x11" by (simp add: cpu_physical_memory_write_def nth_phys_read s_def goldfish_mmc_init_def)
  with r show ?thesis by blast
qed

section \<open>Capacity\<close>

text \<open>
  The capacity in bytes a driver computes from the card specific data: bits 48 to 69 of a card of
  high capacity, bits 62 to 73 and the exponent in bits 47 to 49 of a standard one, which counts
  in blocks of 1 KB.
\<close>

definition csd_capacity :: "'b goldfish_mmc_state \<Rightarrow> nat" where
  "csd_capacity s =
     (if mmc_is_SDHC s \<noteq> 0 then
        (unat (drop_bit 16 (mmc_resp1 s) OR push_bit 16 (mmc_resp2 s AND 0x3F)) + 1) * (512 * 1024)
      else
        (unat (drop_bit 30 (mmc_resp1 s) OR push_bit 2 (mmc_resp2 s AND 0x3FF)) + 1) * 2 ^ (unat (drop_bit 15 (mmc_resp1 s) AND 7) + 2) * 1024)"

lemma mmc_exponent_div: "mmc_exponent c e0 = (c', e) \<Longrightarrow> e0 \<le> e \<and> c' = c div 2 ^ (e - e0) \<and> c' \<le> 4096"
proof (induction c e0 rule: mmc_exponent.induct)
  case (1 c e0)
  show ?case
  proof (cases "c > 4096")
    case True
    with "1.prems" have "mmc_exponent (c div 2) (e0 + 1) = (c', e)" by (subst (asm) mmc_exponent.simps) simp
    from "1.IH" [OF True this] have h: "e0 + 1 \<le> e" "c' = c div 2 div 2 ^ (e - (e0 + 1))" "c' \<le> 4096" by auto
    have "e - e0 = Suc (e - (e0 + 1))" using h(1) by simp
    then have "c div 2 ^ (e - e0) = c div 2 div 2 ^ (e - (e0 + 1))" by (simp add: div_mult2_eq)
    with h show ?thesis by simp
  next
    case False
    with "1.prems" show ?thesis by (subst (asm) mmc_exponent.simps) simp
  qed
qed

lemma mmc_exponent_pos: "mmc_exponent c e0 = (c', e) \<Longrightarrow> 0 < c \<Longrightarrow> 0 < c'"
proof (induction c e0 rule: mmc_exponent.induct)
  case (1 c e0)
  show ?case
  proof (cases "c > 4096")
    case True
    with "1.prems" have "mmc_exponent (c div 2) (e0 + 1) = (c', e)" by (subst (asm) mmc_exponent.simps) simp
    then show ?thesis by (rule "1.IH" [OF True]) (use True in simp)
  next
    case False
    with "1.prems" show ?thesis by (subst (asm) mmc_exponent.simps) simp
  qed
qed

lemma field_low:
  assumes "k + j \<le> 32" "drop_bit k c = (0 :: u32)"
  shows "drop_bit k (c OR push_bit k (take_bit j m)) = take_bit j m"
proof -
  have "drop_bit k (push_bit k (take_bit j m)) = take_bit j m"
    using assms(1) by (intro bit_word_eqI) (auto simp: bit_simps)
  with assms(2) show ?thesis by (simp add: drop_bit_or)
qed

lemma field_join: "take_bit k (m :: u32) OR push_bit k (take_bit j (drop_bit k m)) = take_bit (k + j) m"
  by (rule bit_word_eqI) (auto simp: bit_simps add.commute)

lemma masks:
  "(m :: u32) AND 0xFFFF = take_bit 16 m" "m AND 0x3F = take_bit 6 m" "m AND 0x3FF = take_bit 10 m" "m AND 3 = take_bit 2 m" "m AND 7 = take_bit 3 m"
  by (simp_all add: take_bit_eq_mask mask_eq_exp_minus_1)

lemma take_bit_small: "unat (m :: u32) < 2 ^ k \<Longrightarrow> take_bit k m = m"
  by (rule unsigned_word_eqI [where 'a = nat]) (simp add: unsigned_take_bit_eq take_bit_nat_eq_self)

lemma and_high: "(m :: u32) AND 0xFFC00000 = 0 \<Longrightarrow> take_bit 22 m = m"
proof -
  assume h: "m AND 0xFFC00000 = 0"
  have "(0xFFC00000 :: u32) = NOT (mask 22)" by (simp add: mask_eq_exp_minus_1)
  with h have "m AND NOT (mask 22) = 0" by simp
  then have eq: "bit (m AND NOT (mask 22)) n = bit (0 :: u32) n" for n by (rule arg_cong)
  have low: "n < 22" if "bit m n" "n < 32" for n
    using that eq [of n] by (auto simp: bit_simps not_less)
  show ?thesis by (intro bit_word_eqI) (auto simp: bit_simps dest: low)
qed

lemma csd_high:
  assumes "(m :: u32) AND 0xFFC00000 = 0"
  shows "drop_bit 16 (0x00007F80 OR push_bit 16 (m AND 0x0000FFFF)) OR push_bit 16 ((0x5B590000 OR drop_bit 16 m) AND 0x3F) = m"
proof -
  have "drop_bit 16 (0x00007F80 OR push_bit 16 (m AND 0x0000FFFF)) = take_bit 16 m"
    unfolding masks by (rule field_low) simp_all
  moreover have "(0x5B590000 OR drop_bit 16 m) AND 0x3F = take_bit 6 (drop_bit 16 m)"
    unfolding masks by (simp add: take_bit_or)
  ultimately show ?thesis using field_join [of 16 m 6] and_high [OF assms] by simp
qed

lemma csd_standard:
  assumes "unat (c :: u32) < 4096" "unat e < 8"
  shows "drop_bit 30 (0x3EF84FFF OR push_bit 30 (c AND 3) OR push_bit 15 e) OR push_bit 2 ((0x5F5A8000 OR (drop_bit 2 c AND 0x3FF)) AND 0x3FF) = c"
    "drop_bit 15 (0x3EF84FFF OR push_bit 30 (c AND 3) OR push_bit 15 e) AND 7 = e"
proof -
  have e: "take_bit 3 e = e" using assms(2) by (intro take_bit_small) simp
  have "drop_bit 30 (push_bit 15 (take_bit 3 e)) = 0" by (intro bit_word_eqI) (auto simp: bit_simps)
  then have e30: "drop_bit 30 (push_bit 15 e) = 0" by (simp only: e)
  have "drop_bit 30 (0x3EF84FFF OR push_bit 30 (c AND 3) OR push_bit 15 e) = take_bit 2 c"
    unfolding masks using field_low [of 30 2 "0x3EF84FFF" c] e30 by (simp add: drop_bit_or)
  moreover have "(0x5F5A8000 OR (drop_bit 2 c AND 0x3FF)) AND 0x3FF = take_bit 10 (drop_bit 2 c)"
    unfolding masks by (simp add: take_bit_or)
  moreover have "take_bit 12 c = c" using assms(1) by (intro take_bit_small) simp
  ultimately show "drop_bit 30 (0x3EF84FFF OR push_bit 30 (c AND 3) OR push_bit 15 e) OR push_bit 2 ((0x5F5A8000 OR (drop_bit 2 c AND 0x3FF)) AND 0x3FF) = c"
    using field_join [of 2 c 10] by simp
  have "take_bit 3 (drop_bit 15 (push_bit 30 x)) = (0 :: u32)" for x by (intro bit_word_eqI) (auto simp: bit_simps)
  moreover have "take_bit 3 (drop_bit 15 (0x3EF84FFF :: u32)) = 0" by (simp add: take_bit_eq_mask mask_eq_exp_minus_1)
  moreover have "take_bit 3 (drop_bit 15 (push_bit 15 e)) = e"
  proof -
    have "take_bit 3 (drop_bit 15 (push_bit 15 e)) = take_bit 3 e" by (intro bit_word_eqI) (auto simp: bit_simps)
    with e show ?thesis by simp
  qed
  ultimately show "drop_bit 15 (0x3EF84FFF OR push_bit 30 (c AND 3) OR push_bit 15 e) AND 7 = e"
    unfolding masks by (simp add: drop_bit_or take_bit_or)
qed

text \<open>
  C39: The capacity a driver computes from the card specific data never exceeds the capacity of the
  image, and falls short of it by less than 512 KB: it is the capacity rounded down to a multiple of a
  granule \<open>g\<close>, which is 512 KB for a card above 2 GB and less for a smaller one.
\<close>

theorem mmc_csd_capacity:
  assumes "mmc_send_csd sectors s = Inr s'" "unat sectors * 512 < 2 ^ 40"
  shows "\<exists>g. 0 < g \<and> g \<le> 512 * 1024 \<and> csd_capacity s' = unat sectors * 512 div g * g"
proof -
  let ?cap = "sectors * 512"
  have cap: "unat ?cap = unat sectors * 512"
    using assms(2) by (simp add: unat_word_ariths)
  show ?thesis
  proof (cases "?cap > 2147483648")
    case True
    define m where "m = (ucast (?cap div (512 * 1024)) :: u32) - 1"
    have ge: "unat ?cap > 2147483648" using True by (simp add: word_less_nat_alt)
    have "unat ?cap div 524288 < 2 ^ 32" using cap assms(2) by (simp add: less_mult_imp_div_less)
    then have u: "unat (ucast (?cap div (512 * 1024)) :: u32) = unat ?cap div 524288"
      by (simp add: unsigned_ucast_eq unat_div_distrib take_bit_nat_eq_self)
    have "1 \<le> unat ?cap div 524288" using ge by (simp add: div_greater_zero_iff Suc_le_eq)
    then have um: "unat m + 1 = unat ?cap div 524288" unfolding m_def using u by (simp add: unat_sub word_le_nat_alt)
    have hi: "m AND 0xFFC00000 = 0" and s': "s' = s\<lparr>mmc_is_SDHC := 1, mmc_resp3 := 0x400E0032, mmc_resp2 := 0x5B590000 OR drop_bit 16 m,
          mmc_resp1 := 0x00007F80 OR push_bit 16 (m AND 0x0000FFFF), mmc_resp0 := 0x0A4040DF\<rparr>"
      using assms(1) True unfolding mmc_send_csd_def Let_def m_def by (auto split: if_split_asm)
    have "csd_capacity s' = (unat m + 1) * (512 * 1024)"
      using csd_high [OF hi] by (simp add: csd_capacity_def s')
    then show ?thesis unfolding um cap by (intro exI [of _ "524288"]) simp
  next
    case False
    obtain c e where ce: "mmc_exponent (unat (drop_bit 10 ?cap)) 0 = (c, e)" by fastforce
    have kb: "unat (drop_bit 10 ?cap) = unat ?cap div 1024" by (simp add: drop_bit_eq_div unat_div_distrib)
    from mmc_exponent_div [OF ce] have c: "c = unat ?cap div 1024 div 2 ^ e" "c \<le> 4096" by (simp_all add: kb)
    have e: "2 \<le> e" "e \<le> 9" and s': "s' = s\<lparr>mmc_is_SDHC := 0, mmc_resp3 := 0x00260032,
          mmc_resp2 := 0x5F5A8000 OR (drop_bit 2 (of_nat c - 1) AND 0x3FF),
          mmc_resp1 := 0x3EF84FFF OR push_bit 30 ((of_nat c - 1) AND 3) OR push_bit 15 (of_nat (e - 2)), mmc_resp0 := 0x928040CB\<rparr>"
      using assms(1) False ce unfolding mmc_send_csd_def Let_def by (auto split: if_split_asm)
    have "0 < unat (drop_bit 10 ?cap)"
    proof (rule ccontr)
      assume "\<not> 0 < unat (drop_bit 10 ?cap)"
      with ce have "e = 0" by (subst (asm) mmc_exponent.simps) simp
      with e(1) show False by simp
    qed
    then have cp: "0 < c" by (rule mmc_exponent_pos [OF ce])
    then have uc: "unat (of_nat c - 1 :: u32) = c - 1" using c(2) by (simp add: unat_sub word_le_nat_alt unat_of_nat)
    have ue: "unat (of_nat (e - 2) :: u32) = e - 2" using e(2) by (simp add: unat_of_nat)
    have "csd_capacity s' = (unat (of_nat c - 1 :: u32) + 1) * 2 ^ (unat (of_nat (e - 2) :: u32) + 2) * 1024"
      using csd_standard [of "of_nat c - 1" "of_nat (e - 2)"] c(2) cp e uc ue by (simp add: csd_capacity_def s')
    also have "\<dots> = c * 2 ^ e * 1024"
    proof -
      have "e - 2 + 2 = e" using e(1) by simp
      then show ?thesis unfolding uc ue using cp by (simp only:) simp
    qed
    also have "\<dots> = unat ?cap div (2 ^ e * 1024) * (2 ^ e * 1024)" 
      unfolding c(1) by (simp add: div_mult2_eq [symmetric] mult.commute)
    finally have "csd_capacity s' = unat sectors * 512 div (2 ^ e * 1024) * (2 ^ e * 1024)" unfolding cap .
    moreover have "(2 :: nat) ^ e \<le> 2 ^ 9" using e(2) by (intro power_increasing) simp_all
    ultimately show ?thesis by (intro exI [of _ "2 ^ e * 1024"]) simp
  qed
qed

theorem mmc_csd_capacity_witness:
  "\<exists>s'. mmc_send_csd 32768 (goldfish_mmc_init (0 :: nat)) = Inr s' \<and> (\<exists>g. 0 < g \<and> csd_capacity s' = 32768 * 512 div g * g)"
proof -
  obtain s' where s: "mmc_send_csd 32768 (goldfish_mmc_init (0 :: nat)) = Inr s'"
    by (simp add: mmc_send_csd_def mmc_exponent.simps)
  with mmc_csd_capacity [OF s] show ?thesis by auto
qed

section \<open>Restoring\<close>

interpretation mmc_snap: snapshot_device goldfish_mmc_save
  "\<lambda>f s v. Inr (goldfish_mmc_load f s v)" 3 "\<lambda>v. v = 3 \<or> v = 2"
  "\<lambda>s. be64_bytes (mmc_buffer_address s) @ concat (map qvalue_bytes (mmc_values s))" "\<lambda>s0 s. s\<lparr>mmc_bs := mmc_bs s0\<rparr>" "\<lambda>s. True"
proof
  fix s s0 :: "'a goldfish_mmc_state" and f :: QEMUFile and rest
  assume f: "fbuf f = (be64_bytes (mmc_buffer_address s) @ concat (map qvalue_bytes (mmc_values s))) @ rest"
  let ?g = "f\<lparr>fbuf := concat (map qvalue_bytes (mmc_values s)) @ rest\<rparr>"
  have "qemu_get_be64 f = (mmc_buffer_address s, ?g)" by (rule be64.get_enc) (simp add: f)
  moreover have "qemu_get_struct ?g goldfish_mmc_fields = (Some (mmc_values s), f\<lparr>fbuf := rest\<rparr>)"
    using get_struct_bytes [of ?g "mmc_values s" rest] by (simp add: goldfish_mmc_fields_def mmc_values_def numeral_eq_Suc)
  moreover have "mmc_set_values (mmc_values s) (s0\<lparr>mmc_buffer_address := mmc_buffer_address s\<rparr>) = s\<lparr>mmc_bs := mmc_bs s0\<rparr>"
    by (cases s; cases s0) (simp add: mmc_set_values_def mmc_values_def Let_def)
  ultimately show "Inr (goldfish_mmc_load f s0 3) = Inr (0, s\<lparr>mmc_bs := mmc_bs s0\<rparr>, f\<lparr>fbuf := rest\<rparr>)"
    by (simp add: goldfish_mmc_load_def)
qed (simp_all add: goldfish_mmc_save_def be64.put_enc put_struct_bytes goldfish_mmc_load_def)

end
