(* ===== verification/Goldfish_Audio.thy ===== *)
theory Goldfish_Audio
  imports Guest_Store Qemu_File Irq
begin

unbundle bit_operations_syntax

text \<open>
  The sound device, \<open>hw/android/goldfish/audio.c\<close>: two output buffers played alternately, one input
  buffer, the callbacks of the host's sound system, and snapshots.

  The host's sound system is a parameter: \<open>AUD_write\<close> takes a prefix of the bytes offered and
  \<open>AUD_read\<close> gives at most the number of bytes asked for; \<open>'v\<close> and \<open>'w\<close> are the states of the two voices.
  \<open>junk\<close> gives the bytes of new memory by position.
\<close>

section \<open>Buffers\<close>

text \<open>The member \<open>capacity\<close> is the length of the data.\<close>

record goldfish_audio_buff =
  ab_address :: u64
  ab_length :: u32
  ab_data :: bytes
  ab_offset :: u32

definition goldfish_audio_buff_init :: goldfish_audio_buff where
  "goldfish_audio_buff_init = \<lparr>ab_address = 0, ab_length = 0, ab_data = [], ab_offset = 0\<rparr>"

definition goldfish_audio_buff_reset :: "goldfish_audio_buff \<Rightarrow> goldfish_audio_buff" where
  "goldfish_audio_buff_reset b = b\<lparr>ab_offset := 0, ab_length := 0\<rparr>"

definition goldfish_audio_buff_ensure :: "(nat \<Rightarrow> u8) \<Rightarrow> goldfish_audio_buff \<Rightarrow> u32 \<Rightarrow> goldfish_audio_buff" where
  "goldfish_audio_buff_ensure junk b sz =
     (if length (ab_data b) < unat sz then b\<lparr>ab_data := ab_data b @ map junk [length (ab_data b)..<unat sz]\<rparr> else b)"

definition goldfish_audio_buff_set_length :: "(nat \<Rightarrow> u8) \<Rightarrow> goldfish_audio_buff \<Rightarrow> u32 \<Rightarrow> goldfish_audio_buff" where
  "goldfish_audio_buff_set_length junk b len = goldfish_audio_buff_ensure junk (b\<lparr>ab_length := len, ab_offset := 0\<rparr>) len"

definition goldfish_audio_buff_read :: "ram \<Rightarrow> goldfish_audio_buff \<Rightarrow> goldfish_audio_buff" where
  "goldfish_audio_buff_read m b =
     b\<lparr>ab_data := seg_write (ab_data b) 0 (cpu_physical_memory_read m (ab_address b) (unat (ab_length b)))\<rparr>"

definition goldfish_audio_buff_write :: "goldfish_audio_buff \<Rightarrow> ram \<Rightarrow> ram" where
  "goldfish_audio_buff_write b m = cpu_physical_memory_write m (ab_address b) (take (unat (ab_length b)) (ab_data b))"

text \<open>A length that is negative as an \<open>int\<close>, or bytes outside the data, is a fault.\<close>

definition goldfish_audio_buff_send ::
    "('v \<Rightarrow> bytes \<Rightarrow> nat \<times> 'v) \<Rightarrow> goldfish_audio_buff \<Rightarrow> nat \<Rightarrow> 'v \<Rightarrow> (nat \<times> goldfish_audio_buff \<times> 'v) outcome" where
  "goldfish_audio_buff_send AUD_write b free v =
     (let n = min (unat (ab_length b)) free in
      if 2 ^ 31 \<le> unat (ab_length b) \<or> unat (ab_offset b) + n > length (ab_data b) then Inl Undefined_behaviour
      else
        let (ret, v') = AUD_write v (seg_read (ab_data b) (unat (ab_offset b)) n)
        in Inr (ret, b\<lparr>ab_offset := ab_offset b + of_nat ret, ab_length := ab_length b - of_nat ret\<rparr>, v'))"

definition goldfish_audio_buff_available :: "goldfish_audio_buff \<Rightarrow> u32" where
  "goldfish_audio_buff_available b = ab_length b - ab_offset b"

text \<open>The bytes are stored behind those already there, but what is copied to the guest starts with the first byte.\<close>

definition goldfish_audio_buff_recv ::
    "('w \<Rightarrow> nat \<Rightarrow> bytes \<times> 'w) \<Rightarrow> goldfish_audio_buff \<Rightarrow> nat \<Rightarrow> 'w \<Rightarrow> ram \<Rightarrow> (nat \<times> goldfish_audio_buff \<times> 'w \<times> ram) outcome" where
  "goldfish_audio_buff_recv AUD_read b avail w m =
     (let missing = goldfish_audio_buff_available b in
      if 2 ^ 31 \<le> unat missing then Inl Undefined_behaviour
      else
        let avail2 = min avail (unat missing); (got, w') = AUD_read w avail2 in
        if got = [] then Inr (0, b, w', m)
        else if unat (ab_offset b) + length got > length (ab_data b) then Inl Undefined_behaviour
        else
          let data = seg_write (ab_data b) (unat (ab_offset b)) got
          in Inr (length got, b\<lparr>ab_data := data, ab_offset := ab_offset b + of_nat (length got)\<rparr>, w',
                  cpu_physical_memory_write m (ab_address b + ucast (ab_offset b)) (take (length got) data)))"

section \<open>State and registers\<close>

record ('v, 'w) goldfish_audio_state =
  au_int_status :: u32
  au_int_enable :: u32
  au_read_buffer_available :: u32
  au_current_buffer :: u32
  au_out_buff1 :: goldfish_audio_buff
  au_out_buff2 :: goldfish_audio_buff
  au_in_buff :: goldfish_audio_buff
  au_voice :: "'v option"
  au_voicein :: "'w option"
  au_active_out :: bool
  au_active_in :: bool

definition AUDIO_INT_WRITE_BUFFER_1_EMPTY :: u32 where [dev_defs]: "AUDIO_INT_WRITE_BUFFER_1_EMPTY = 1"
definition AUDIO_INT_WRITE_BUFFER_2_EMPTY :: u32 where [dev_defs]: "AUDIO_INT_WRITE_BUFFER_2_EMPTY = 2"
definition AUDIO_INT_READ_BUFFER_FULL :: u32 where [dev_defs]: "AUDIO_INT_READ_BUFFER_FULL = 4"

definition AUD_set_active_out :: "u32 \<Rightarrow> ('v, 'w) goldfish_audio_state \<Rightarrow> ('v, 'w) goldfish_audio_state" where
  "AUD_set_active_out enable s =
     (if au_voice s \<noteq> None then
        s\<lparr>au_active_out := (enable AND (AUDIO_INT_WRITE_BUFFER_1_EMPTY OR AUDIO_INT_WRITE_BUFFER_2_EMPTY) \<noteq> 0)\<rparr> else s)"

definition AUD_set_active_in :: "u32 \<Rightarrow> ('v, 'w) goldfish_audio_state \<Rightarrow> ('v, 'w) goldfish_audio_state" where
  "AUD_set_active_in enable s =
     (if au_voicein s \<noteq> None then s\<lparr>au_active_in := (enable AND AUDIO_INT_READ_BUFFER_FULL \<noteq> 0)\<rparr> else s)"

definition enable_audio :: "u32 \<Rightarrow> ('v, 'w) goldfish_audio_state \<Rightarrow> ('v, 'w) goldfish_audio_state" where
  "enable_audio enable s =
     (let s1 = AUD_set_active_out enable s;
          s2 = (if au_voice s \<noteq> None then
                  s1\<lparr>au_out_buff1 := goldfish_audio_buff_reset (au_out_buff1 s), au_out_buff2 := goldfish_audio_buff_reset (au_out_buff2 s)\<rparr>
                else s1);
          s3 = AUD_set_active_in enable s2;
          s4 = (if au_voicein s \<noteq> None then s3\<lparr>au_in_buff := goldfish_audio_buff_reset (au_in_buff s)\<rparr> else s3)
      in s4\<lparr>au_current_buffer := 0\<rparr>)"

definition start_read :: "(nat \<Rightarrow> u8) \<Rightarrow> ('v, 'w) goldfish_audio_state \<Rightarrow> u32 \<Rightarrow> ('v, 'w) goldfish_audio_state" where
  "start_read junk s count =
     s\<lparr>au_in_buff := goldfish_audio_buff_set_length junk (au_in_buff s) count, au_read_buffer_available := count\<rparr>"

definition goldfish_audio_read ::
    "u32 \<Rightarrow> ('v, 'w) goldfish_audio_state \<Rightarrow> ram \<Rightarrow> (u32 \<times> bool list \<times> ram) outcome" where
  "goldfish_audio_read offset s m =
     (if offset = 0x00 then
        (let ret = au_int_status s AND au_int_enable s in Inr (ret, if ret \<noteq> 0 then [False] else [], m))
      else if offset = 0x18 then Inr (if au_voicein s \<noteq> None then 1 else 0, [], m)
      else if offset = 0x24 then Inr (au_read_buffer_available s, [], goldfish_audio_buff_write (au_in_buff s) m)
      else Inl Cpu_abort)"

definition audio_level :: "('v, 'w) goldfish_audio_state \<Rightarrow> bool" where
  "audio_level s \<longleftrightarrow> au_int_status s AND au_int_enable s \<noteq> 0"

definition goldfish_audio_buff_set_address :: "goldfish_audio_buff \<Rightarrow> u32 \<Rightarrow> goldfish_audio_buff" where
  "goldfish_audio_buff_set_address b v = b\<lparr>ab_address := uint64_set_low (ab_address b) v\<rparr>"

definition goldfish_audio_buff_set_address_high :: "goldfish_audio_buff \<Rightarrow> u32 \<Rightarrow> goldfish_audio_buff" where
  "goldfish_audio_buff_set_address_high b v = b\<lparr>ab_address := uint64_set_high (ab_address b) v\<rparr>"

text \<open>The guest has filled an output buffer.\<close>

definition audio_fill :: "(nat \<Rightarrow> u8) \<Rightarrow> ram \<Rightarrow> goldfish_audio_buff \<Rightarrow> u32 \<Rightarrow> goldfish_audio_buff" where
  "audio_fill junk m b len = goldfish_audio_buff_read m (goldfish_audio_buff_set_length junk b len)"

definition goldfish_audio_write ::
    "(nat \<Rightarrow> u8) \<Rightarrow> u32 \<Rightarrow> u32 \<Rightarrow> ('v, 'w) goldfish_audio_state \<Rightarrow> ram \<Rightarrow> (('v, 'w) goldfish_audio_state \<times> bool list) outcome" where
  "goldfish_audio_write junk offset val s m =
     (if offset = 0x04 then
        (let s1 = (enable_audio val s)\<lparr>au_int_enable := val, au_int_status := AUDIO_INT_WRITE_BUFFER_1_EMPTY OR AUDIO_INT_WRITE_BUFFER_2_EMPTY\<rparr>
         in Inr (s1, [audio_level s1]))
      else if offset = 0x08 then Inr (s\<lparr>au_out_buff1 := goldfish_audio_buff_set_address (au_out_buff1 s) val\<rparr>, [])
      else if offset = 0x28 then Inr (s\<lparr>au_out_buff1 := goldfish_audio_buff_set_address_high (au_out_buff1 s) val\<rparr>, [])
      else if offset = 0x0C then Inr (s\<lparr>au_out_buff2 := goldfish_audio_buff_set_address (au_out_buff2 s) val\<rparr>, [])
      else if offset = 0x30 then Inr (s\<lparr>au_out_buff2 := goldfish_audio_buff_set_address_high (au_out_buff2 s) val\<rparr>, [])
      else if offset = 0x10 then
        Inr (s\<lparr>au_current_buffer := (if au_current_buffer s = 0 then 1 else au_current_buffer s),
               au_out_buff1 := audio_fill junk m (au_out_buff1 s) val,
               au_int_status := au_int_status s AND NOT AUDIO_INT_WRITE_BUFFER_1_EMPTY\<rparr>, [])
      else if offset = 0x14 then
        Inr (s\<lparr>au_current_buffer := (if au_current_buffer s = 0 then 2 else au_current_buffer s),
               au_out_buff2 := audio_fill junk m (au_out_buff2 s) val,
               au_int_status := au_int_status s AND NOT AUDIO_INT_WRITE_BUFFER_2_EMPTY\<rparr>, [])
      else if offset = 0x1C then Inr (s\<lparr>au_in_buff := goldfish_audio_buff_set_address (au_in_buff s) val\<rparr>, [])
      else if offset = 0x20 then
        (let s1 = (start_read junk s val)\<lparr>au_int_status := au_int_status s AND NOT AUDIO_INT_READ_BUFFER_FULL\<rparr>
         in Inr (s1, [audio_level s1]))
      else if offset = 0x34 then Inr (s\<lparr>au_in_buff := goldfish_audio_buff_set_address_high (au_in_buff s) val\<rparr>, [])
      else Inl Cpu_abort)"

section \<open>Playing\<close>

text \<open>What the output loops work on: the free space, the two buffers, the current one, the voice and the new status bits.\<close>

record 'v audio_out =
  ao_free :: nat
  ao_current :: u32
  ao_buff1 :: goldfish_audio_buff
  ao_buff2 :: goldfish_audio_buff
  ao_voice :: 'v
  ao_status :: u32

text \<open>The two inner loops are alike: \<open>first\<close> says for which buffer.\<close>

definition ao_buff :: "bool \<Rightarrow> 'v audio_out \<Rightarrow> goldfish_audio_buff" where
  "ao_buff first a = (if first then ao_buff1 a else ao_buff2 a)"

definition ao_store :: "bool \<Rightarrow> goldfish_audio_buff \<Rightarrow> 'v audio_out \<Rightarrow> 'v audio_out" where
  "ao_store first b a = (if first then a\<lparr>ao_buff1 := b\<rparr> else a\<lparr>ao_buff2 := b\<rparr>)"

definition ao_emptied :: "bool \<Rightarrow> 'v audio_out \<Rightarrow> 'v audio_out" where
  "ao_emptied first a =
     (if ab_length (ao_buff first a) = 0 then
        a\<lparr>ao_status := ao_status a OR (if first then AUDIO_INT_WRITE_BUFFER_1_EMPTY else AUDIO_INT_WRITE_BUFFER_2_EMPTY),
          ao_current := (if ab_length (ao_buff (\<not> first) a) \<noteq> 0 then (if first then 2 else 1) else 0)\<rparr>
      else a)"

function audio_play :: "('v \<Rightarrow> bytes \<Rightarrow> nat \<times> 'v) \<Rightarrow> bool \<Rightarrow> 'v audio_out \<Rightarrow> 'v audio_out outcome" where
  "audio_play AUD_write first a =
     (if ao_free a \<noteq> 0 \<and> ao_current a = (if first then 1 else 2) then
        (case goldfish_audio_buff_send AUD_write (ao_buff first a) (ao_free a) (ao_voice a) of
           Inl e \<Rightarrow> Inl e
         | Inr (written, b, v) \<Rightarrow>
             (let a1 = (ao_store first b a)\<lparr>ao_voice := v\<rparr> in
              if written = 0 then Inr a1
              else audio_play AUD_write first (ao_emptied first (a1\<lparr>ao_free := ao_free a - written\<rparr>))))
      else Inr a)"
  by pat_completeness auto
termination
  by (relation "measure (\<lambda>(w, first, a). ao_free a)") (auto simp: ao_emptied_def)

declare audio_play.simps [simp del]

text \<open>The outer loop; it does not end when a buffer takes no data.\<close>

partial_function (option) audio_out_loop :: "('v \<Rightarrow> bytes \<Rightarrow> nat \<times> 'v) \<Rightarrow> 'v audio_out \<Rightarrow> 'v audio_out outcome option" where
  "audio_out_loop AUD_write a =
     (if ao_free a \<noteq> 0 \<and> ao_current a \<noteq> 0 then
        (case obind (audio_play AUD_write True a) (audio_play AUD_write False) of
           Inl e \<Rightarrow> Some (Inl e)
         | Inr a1 \<Rightarrow> audio_out_loop AUD_write a1)
      else Some (Inr a))"

definition audio_new_status :: "u32 \<Rightarrow> ('v, 'w) goldfish_audio_state \<Rightarrow> ('v, 'w) goldfish_audio_state \<times> bool list" where
  "audio_new_status st s =
     (if st \<noteq> 0 \<and> st \<noteq> au_int_status s then
        (let s1 = s\<lparr>au_int_status := au_int_status s OR st\<rparr> in (s1, [audio_level s1]))
      else (s, []))"

definition audio_view :: "nat \<Rightarrow> 'x \<Rightarrow> ('v, 'w) goldfish_audio_state \<Rightarrow> 'x audio_out" where
  "audio_view free v s =
     \<lparr>ao_free = free, ao_current = au_current_buffer s, ao_buff1 = au_out_buff1 s, ao_buff2 = au_out_buff2 s, ao_voice = v, ao_status = 0\<rparr>"

definition goldfish_audio_callback ::
    "('v \<Rightarrow> bytes \<Rightarrow> nat \<times> 'v) \<Rightarrow> nat \<Rightarrow> 'v \<Rightarrow> ('v, 'w) goldfish_audio_state \<Rightarrow>
     ('v \<times> ('v, 'w) goldfish_audio_state \<times> bool list) outcome option" where
  "goldfish_audio_callback AUD_write free v s =
     map_option (\<lambda>r. obind r (\<lambda>a.
         let (s1, ls) = audio_new_status (ao_status a)
               (s\<lparr>au_current_buffer := ao_current a, au_out_buff1 := ao_buff1 a, au_out_buff2 := ao_buff2 a, au_voice := Some (ao_voice a)\<rparr>)
         in Inr (ao_voice a, s1, ls)))
       (audio_out_loop AUD_write (audio_view free v s))"

section \<open>Recording\<close>

text \<open>The loop gives the buffer, the voice, the memory and whether the buffer is full.\<close>

function audio_in_loop ::
    "('w \<Rightarrow> nat \<Rightarrow> bytes \<times> 'w) \<Rightarrow> nat \<Rightarrow> goldfish_audio_buff \<Rightarrow> 'w \<Rightarrow> ram \<Rightarrow> (bool \<times> goldfish_audio_buff \<times> 'w \<times> ram) outcome" where
  "audio_in_loop AUD_read avail b w m =
     (if avail > 0 then
        (case goldfish_audio_buff_recv AUD_read b avail w m of
           Inl e \<Rightarrow> Inl e
         | Inr (n, b1, w1, m1) \<Rightarrow>
             if n = 0 then Inr (False, b1, w1, m1)
             else if goldfish_audio_buff_available b1 = 0 then Inr (True, b1, w1, m1)
             else audio_in_loop AUD_read (avail - n) b1 w1 m1)
      else Inr (False, b, w, m))"
  by pat_completeness auto
termination
  by (relation "measure (\<lambda>(r, avail, b, w, m). avail)") auto

declare audio_in_loop.simps [simp del]

definition goldfish_audio_in_callback ::
    "('w \<Rightarrow> nat \<Rightarrow> bytes \<times> 'w) \<Rightarrow> nat \<Rightarrow> 'w \<Rightarrow> ('v, 'w) goldfish_audio_state \<Rightarrow> ram \<Rightarrow>
     (('v, 'w) goldfish_audio_state \<times> bool list \<times> ram) outcome" where
  "goldfish_audio_in_callback AUD_read avail w s m =
     (if goldfish_audio_buff_available (au_in_buff s) = 0 then Inr (s, [], m)
      else obind (audio_in_loop AUD_read avail (au_in_buff s) w m) (\<lambda>(full, b, w1, m1).
        let (s1, ls) = audio_new_status (if full then AUDIO_INT_READ_BUFFER_FULL else 0) (s\<lparr>au_in_buff := b, au_voicein := Some w1\<rparr>)
        in Inr (s1, ls, m1)))"

section \<open>Snapshots\<close>

definition goldfish_audio_buff_put :: "QEMUFile \<Rightarrow> goldfish_audio_buff \<Rightarrow> QEMUFile" where
  "goldfish_audio_buff_put f b =
     qemu_put_buffer (qemu_put_be32 (qemu_put_be32 (qemu_put_be64 f (ab_address b)) (ab_length b)) (ab_offset b))
       (take (unat (ab_length b)) (ab_data b))"

definition goldfish_audio_buff_get :: "(nat \<Rightarrow> u8) \<Rightarrow> int \<Rightarrow> QEMUFile \<Rightarrow> goldfish_audio_buff \<Rightarrow> goldfish_audio_buff \<times> QEMUFile" where
  "goldfish_audio_buff_get junk version_id f b =
     (let (a, f1) = (if version_id = 2 then (let (c, g) = qemu_get_be32 f in (ucast c, g)) else qemu_get_be64 f);
          (len, f2) = qemu_get_be32 f1; (off, f3) = qemu_get_be32 f2;
          b1 = goldfish_audio_buff_ensure junk (b\<lparr>ab_address := a, ab_length := len, ab_offset := off\<rparr>) len;
          (got, f4) = qemu_get_buffer f3 (unat len)
      in (b1\<lparr>ab_data := seg_write (ab_data b1) 0 got\<rparr>, f4))"

definition audio_state_fields :: "qfield list" where
  "audio_state_fields = replicate 4 Q_FIELD_INT32"

definition audio_state_save :: "QEMUFile \<Rightarrow> ('v, 'w) goldfish_audio_state \<Rightarrow> QEMUFile" where
  "audio_state_save f s =
     goldfish_audio_buff_put (goldfish_audio_buff_put (goldfish_audio_buff_put
       (qemu_put_struct f (map QInt32 [au_int_status s, au_int_enable s, au_read_buffer_available s, au_current_buffer s]))
       (au_out_buff1 s)) (au_out_buff2 s)) (au_in_buff s)"

definition audio_reactivate :: "('v, 'w) goldfish_audio_state \<Rightarrow> ('v, 'w) goldfish_audio_state" where
  "audio_reactivate s = AUD_set_active_in (au_int_enable s) (AUD_set_active_out (au_int_enable s) s)"

definition audio_state_load ::
    "(nat \<Rightarrow> u8) \<Rightarrow> QEMUFile \<Rightarrow> ('v, 'w) goldfish_audio_state \<Rightarrow> int \<Rightarrow> int \<times> ('v, 'w) goldfish_audio_state \<times> QEMUFile \<times> bool list" where
  "audio_state_load junk f s version_id =
     (if version_id \<noteq> 3 \<and> version_id \<noteq> 2 then (-1, s, f, [])
      else case qemu_get_struct f audio_state_fields of
          (Some [QInt32 a, QInt32 b, QInt32 c, QInt32 d], f1) \<Rightarrow>
            (let (b1, f2) = goldfish_audio_buff_get junk version_id f1 (au_out_buff1 s);
                 (b2, f3) = goldfish_audio_buff_get junk version_id f2 (au_out_buff2 s);
                 (b3, f4) = goldfish_audio_buff_get junk version_id f3 (au_in_buff s);
                 s1 = s\<lparr>au_int_status := a, au_int_enable := b, au_read_buffer_available := c, au_current_buffer := d,
                        au_out_buff1 := b1, au_out_buff2 := b2, au_in_buff := b3\<rparr>
             in (0, audio_reactivate s1, f4, [audio_level s1]))
        | (_, f1) \<Rightarrow> (-1, audio_reactivate s, f1, [audio_level s]))"

text \<open>The two flags are the hardware configuration; \<open>AUD_open_out\<close> and \<open>AUD_open_in\<close> may fail.\<close>

definition goldfish_audio_init ::
    "bool \<Rightarrow> bool \<Rightarrow> 'v option \<Rightarrow> 'w option \<Rightarrow> ('v, 'w) goldfish_audio_state option" where
  "goldfish_audio_init hw_audioOutput hw_audioInput AUD_open_out AUD_open_in =
     (if \<not> hw_audioOutput \<and> \<not> hw_audioInput then None
      else if hw_audioOutput \<and> AUD_open_out = None then None
      else Some \<lparr>au_int_status = 0, au_int_enable = 0, au_read_buffer_available = 0, au_current_buffer = 0,
                 au_out_buff1 = goldfish_audio_buff_init, au_out_buff2 = goldfish_audio_buff_init, au_in_buff = goldfish_audio_buff_init,
                 au_voice = (if hw_audioOutput then AUD_open_out else None), au_voicein = (if hw_audioInput then AUD_open_in else None),
                 au_active_out = False, au_active_in = False\<rparr>)"

end
