(* ===== verification/Audio_Stream.thy ===== *)
theory Audio_Stream
  imports Goldfish_Audio
begin

unbundle bit_operations_syntax

text \<open>
  Playing on the sound device: the output loops hand over the bytes of the two buffers in order, and a
  buffer of length zero stops the emulator. The voice of the host is described by what the loops rely on;
  the theory \<open>Audio_Voice\<close> has the voice itself.
\<close>

section \<open>What a callback plays\<close>

text \<open>The bytes of a buffer still to be played, and when the fields of a buffer fit its data.\<close>

definition ab_rem :: "goldfish_audio_buff \<Rightarrow> bytes" where
  "ab_rem b = seg_read (ab_data b) (unat (ab_offset b)) (unat (ab_length b))"

definition ab_ok :: "goldfish_audio_buff \<Rightarrow> bool" where
  "ab_ok b \<longleftrightarrow> unat (ab_length b) < 2 ^ 31 \<and> unat (ab_offset b) + unat (ab_length b) \<le> length (ab_data b) \<and> length (ab_data b) < 2 ^ 32"

text \<open>
  What is relied on of \<open>AUD_write\<close>: it takes whole frames of four bytes, as many as it is offered and has
  room for. \<open>sent\<close> gives the bytes a voice has taken so far, \<open>room\<close> the number of bytes it has room for.
  It takes nothing when it is offered less than a frame, or is full or disabled and so has no room.
\<close>

definition AUD_write_ok :: "('v \<Rightarrow> nat) \<Rightarrow> ('v \<Rightarrow> bytes) \<Rightarrow> ('v \<Rightarrow> bytes \<Rightarrow> nat \<times> 'v) \<Rightarrow> bool" where
  "AUD_write_ok room sent AUD_write \<longleftrightarrow>
     (\<forall>v bs. fst (AUD_write v bs) = 4 * (min (length bs) (room v) div 4) \<and>
        sent (snd (AUD_write v bs)) = sent v @ take (fst (AUD_write v bs)) bs \<and>
        room (snd (AUD_write v bs)) = room v - fst (AUD_write v bs))"

lemma length_ab_rem: "ab_ok b \<Longrightarrow> length (ab_rem b) = unat (ab_length b)"
  by (auto simp: ab_rem_def ab_ok_def)

lemma ab_rem_nil_iff: "ab_ok b \<Longrightarrow> ab_rem b = [] \<longleftrightarrow> ab_length b = 0"
  using length_ab_rem [of b] by (metis length_0_conv unat_eq_zero)

lemma ab_advance:
  assumes "ab_ok b" "n \<le> unat (ab_length b)"
  defines "b' \<equiv> b\<lparr>ab_offset := ab_offset b + of_nat n, ab_length := ab_length b - of_nat n\<rparr>"
  shows "ab_ok b'" "ab_rem b' = drop n (ab_rem b)"
proof -
  have n: "n < 2 ^ 32" "unat (of_nat n :: u32) = n"
    using assms(1,2) by (auto simp: ab_ok_def unat_of_nat)
  then have len: "unat (ab_length b') = unat (ab_length b) - n"
    using assms(2) by (simp add: b'_def unat_sub_if')
  have off: "unat (ab_offset b') = unat (ab_offset b) + n"
    using assms(1,2) n by (auto simp: b'_def ab_ok_def unat_plus_if')
  have data: "ab_data b' = ab_data b" by (simp add: b'_def)
  show "ab_ok b'"
    using assms(1,2) len off data by (auto simp: ab_ok_def)
  show "ab_rem b' = drop n (ab_rem b)"
    using assms(2) len off data by (simp add: ab_rem_def seg_read_def drop_take add.commute)
qed

lemma buff_send_ok:
  fixes AUD_write :: "'v \<Rightarrow> bytes \<Rightarrow> nat \<times> 'v"
  assumes "AUD_write_ok room sent AUD_write" "ab_ok b" "ab_length b \<noteq> 0" "free \<noteq> 0"
    and "4 dvd unat (ab_length b)" "4 dvd free" "free \<le> room v"
  shows "\<exists>n b' v'. goldfish_audio_buff_send AUD_write b free v = Inr (n, b', v') \<and> 0 < n \<and> n \<le> free \<and>
    n \<le> length (ab_rem b) \<and> ab_ok b' \<and> ab_rem b' = drop n (ab_rem b) \<and> sent v' = sent v @ take n (ab_rem b) \<and>
    4 dvd n \<and> room v' = room v - n"
proof -
  define m where "m = min (unat (ab_length b)) free"
  define bs where "bs = seg_read (ab_data b) (unat (ab_offset b)) m"
  define n where "n = fst (AUD_write v bs)"
  have bs: "bs = take m (ab_rem b)" by (simp add: bs_def ab_rem_def seg_read_def m_def min.commute min.left_commute)
  have m: "0 < m" "m \<le> free" "m \<le> unat (ab_length b)"
    using assms(3,4) by (auto simp: m_def unat_gt_0)
  then have lbs: "length bs = m" using length_ab_rem [OF assms(2)] by (simp add: bs)
  have d: "4 dvd m" using assms(5,6) by (simp add: m_def min_def)
  have "n = 4 * (min m (room v) div 4)" and sent: "sent (snd (AUD_write v bs)) = sent v @ take n bs"
    and room: "room (snd (AUD_write v bs)) = room v - n"
    using assms(1) lbs unfolding AUD_write_ok_def n_def by simp_all
  moreover have "min m (room v) = m" using m(2) assms(7) by simp
  ultimately have nn: "n \<le> m" "0 < n" "4 dvd n" using d m(1) by simp_all
  have eq: "goldfish_audio_buff_send AUD_write b free v =
      Inr (n, b\<lparr>ab_offset := ab_offset b + of_nat n, ab_length := ab_length b - of_nat n\<rparr>, snd (AUD_write v bs))"
    using assms(2) m by (auto simp: goldfish_audio_buff_send_def ab_ok_def n_def bs_def m_def [symmetric] case_prod_unfold Let_def)
  show ?thesis
    unfolding eq using ab_advance [OF assms(2), of n] nn m sent room length_ab_rem [OF assms(2)]
    by (auto simp: bs min_def)
qed

text \<open>The state of the loops: no current buffer means that both are empty, and the current one is not.\<close>

definition ao_ok :: "'v audio_out \<Rightarrow> bool" where
  "ao_ok a \<longleftrightarrow> ab_ok (ao_buff1 a) \<and> ab_ok (ao_buff2 a) \<and>
     (if ao_current a = 1 then ab_length (ao_buff1 a) \<noteq> 0
      else if ao_current a = 2 then ab_length (ao_buff2 a) \<noteq> 0
      else ao_current a = 0 \<and> ab_length (ao_buff1 a) = 0 \<and> ab_length (ao_buff2 a) = 0)"

definition ao_todo :: "'v audio_out \<Rightarrow> bytes" where
  "ao_todo a = (if ao_current a = 2 then ab_rem (ao_buff2 a) @ ab_rem (ao_buff1 a) else ab_rem (ao_buff1 a) @ ab_rem (ao_buff2 a))"

definition ao_empty :: "bool \<Rightarrow> 'v audio_out \<Rightarrow> bool" where
  "ao_empty first a \<longleftrightarrow> ab_length (ao_buff first a) = 0"

definition ao_flag :: "bool \<Rightarrow> 'v audio_out \<Rightarrow> bool" where
  "ao_flag first a \<longleftrightarrow> bit (ao_status a) (if first then 0 else 1)"

text \<open>Buffers and free space of whole frames, the latter within the room the voice has.\<close>

definition ao_frames :: "('v \<Rightarrow> nat) \<Rightarrow> 'v audio_out \<Rightarrow> bool" where
  "ao_frames room a \<longleftrightarrow> 4 dvd ao_free a \<and> ao_free a \<le> room (ao_voice a) \<and>
     4 dvd unat (ab_length (ao_buff1 a)) \<and> 4 dvd unat (ab_length (ao_buff2 a))"

lemma ao_frames_buff: "ao_frames room a \<longleftrightarrow> 4 dvd ao_free a \<and> ao_free a \<le> room (ao_voice a) \<and>
    4 dvd unat (ab_length (ao_buff first a)) \<and> 4 dvd unat (ab_length (ao_buff (\<not> first) a))"
  by (cases first) (auto simp: ao_frames_def ao_buff_def)

text \<open>Progress by \<open>k\<close> bytes: they are the next ones to be played, and a buffer that becomes empty is reported.\<close>

definition ao_progress :: "('v \<Rightarrow> bytes) \<Rightarrow> nat \<Rightarrow> 'v audio_out \<Rightarrow> 'v audio_out \<Rightarrow> bool" where
  "ao_progress sent k a a' \<longleftrightarrow> ao_ok a' \<and> k \<le> length (ao_todo a) \<and> ao_free a = k + ao_free a' \<and>
     sent (ao_voice a') = sent (ao_voice a) @ take k (ao_todo a) \<and> ao_todo a' = drop k (ao_todo a) \<and>
     (\<forall>i. (ao_empty i a \<longrightarrow> ao_empty i a') \<and> (ao_flag i a' \<longleftrightarrow> ao_flag i a \<or> \<not> ao_empty i a \<and> ao_empty i a'))"

lemma ao_progress_refl: "ao_ok a \<Longrightarrow> ao_progress sent 0 a a"
  by (auto simp: ao_progress_def)

lemma ao_progress_free: "ao_progress sent k a a' \<Longrightarrow> ao_free a = k + ao_free a'" "ao_progress sent k a a' \<Longrightarrow> ao_ok a'"
  by (simp_all add: ao_progress_def)

lemma ao_progress_trans:
  "ao_progress sent k a b \<Longrightarrow> ao_progress sent l b c \<Longrightarrow> ao_progress sent (k + l) a c"
  unfolding ao_progress_def by (auto simp: take_add add.commute)

definition ao_number :: "bool \<Rightarrow> u32" where
  "ao_number first = (if first then 1 else 2)"

lemma ao_todo_current:
  "ao_current a = ao_number first \<Longrightarrow> ao_todo a = ab_rem (ao_buff first a) @ ab_rem (ao_buff (\<not> first) a)"
  by (simp add: ao_todo_def ao_number_def ao_buff_def split: if_splits)

lemma ao_ok_current:
  "ao_current a = ao_number first \<Longrightarrow>
   ao_ok a \<longleftrightarrow> ab_ok (ao_buff first a) \<and> ab_ok (ao_buff (\<not> first) a) \<and> ab_length (ao_buff first a) \<noteq> 0"
  by (auto simp: ao_ok_def ao_number_def ao_buff_def split: if_splits)

lemma ao_ok_idle:
  "ao_current a = 0 \<Longrightarrow>
   ao_ok a \<longleftrightarrow> ab_ok (ao_buff first a) \<and> ab_ok (ao_buff (\<not> first) a) \<and> ab_length (ao_buff first a) = 0 \<and> ab_length (ao_buff (\<not> first) a) = 0"
  by (auto simp: ao_ok_def ao_buff_def)

lemma all_bool_iff: "(\<forall>i. P i) \<longleftrightarrow> P first \<and> P (\<not> first)"
  by (cases first) (auto simp: all_bool_eq)

lemma status_flags:
  "bit ((x::u32) OR AUDIO_INT_WRITE_BUFFER_1_EMPTY) 0" "bit (x OR AUDIO_INT_WRITE_BUFFER_2_EMPTY) (Suc 0)"
  "bit (x OR AUDIO_INT_WRITE_BUFFER_1_EMPTY) (Suc 0) \<longleftrightarrow> bit x (Suc 0)" "bit (x OR AUDIO_INT_WRITE_BUFFER_2_EMPTY) 0 \<longleftrightarrow> bit x 0"
  by (simp_all add: dev_defs bit_or_iff bit_1_iff bit_2_iff)

text \<open>One turn of an inner loop.\<close>

definition ao_turn :: "bool \<Rightarrow> nat \<Rightarrow> goldfish_audio_buff \<Rightarrow> 'v \<Rightarrow> 'v audio_out \<Rightarrow> 'v audio_out" where
  "ao_turn first n b v a = ao_emptied first ((ao_store first b a)\<lparr>ao_voice := v, ao_free := ao_free a - n\<rparr>)"

lemma ao_turn_sel:
  "ao_buff first (ao_turn first n b v a) = b" "ao_buff (\<not> first) (ao_turn first n b v a) = ao_buff (\<not> first) a"
  "ao_voice (ao_turn first n b v a) = v" "ao_free (ao_turn first n b v a) = ao_free a - n"
  "ao_current (ao_turn first n b v a) =
     (if ab_length b = 0 then (if ab_length (ao_buff (\<not> first) a) \<noteq> 0 then ao_number (\<not> first) else 0) else ao_current a)"
  "ao_flag first (ao_turn first n b v a) \<longleftrightarrow> ao_flag first a \<or> ab_length b = 0"
  "ao_flag (\<not> first) (ao_turn first n b v a) \<longleftrightarrow> ao_flag (\<not> first) a"
  by (cases first; simp add: ao_turn_def ao_emptied_def ao_store_def ao_buff_def ao_number_def ao_flag_def status_flags)+

lemma ao_turn_ok:
  assumes "ao_current a = ao_number first" "ab_ok b" "ab_ok (ao_buff (\<not> first) a)"
  shows "ao_ok (ao_turn first n b v a)"
proof (cases "ab_length b = 0")
  case True
  then show ?thesis
    using assms ao_ok_current [of "ao_turn first n b v a" "\<not> first"] ao_ok_idle [of "ao_turn first n b v a" first]
    by (cases "ab_length (ao_buff (\<not> first) a) = 0") (simp_all add: ao_turn_sel)
next
  case False
  then show ?thesis
    using assms ao_ok_current [of "ao_turn first n b v a" first] by (simp add: ao_turn_sel)
qed

lemma ao_turn_todo:
  assumes "ao_current a = ao_number first" "ab_ok b" "ab_ok (ao_buff (\<not> first) a)"
  shows "ao_todo (ao_turn first n b v a) = ab_rem b @ ab_rem (ao_buff (\<not> first) a)"
proof (cases "ab_length b = 0")
  case True
  then have nil: "ab_rem b = []" using ab_rem_nil_iff assms(2) by blast
  show ?thesis
  proof (cases "ab_length (ao_buff (\<not> first) a) = 0")
    case True
    then have "ab_rem (ao_buff (\<not> first) a) = []" using ab_rem_nil_iff assms(3) by blast
    then show ?thesis
      using nil ao_turn_sel(1,2) [of first n b v a] by (cases first) (auto simp: ao_todo_def ao_buff_def)
  next
    case False
    then show ?thesis
      using True nil ao_todo_current [of "ao_turn first n b v a" "\<not> first"] by (simp add: ao_turn_sel)
  qed
next
  case False
  then show ?thesis
    using assms ao_todo_current [of "ao_turn first n b v a" first] by (simp add: ao_turn_sel)
qed

lemma ao_turn_progress:
  assumes "ao_current a = ao_number first" "ao_ok a" "n \<le> ao_free a" "n \<le> length (ab_rem (ao_buff first a))" "ab_ok b"
    "ab_rem b = drop n (ab_rem (ao_buff first a))" "sent v = sent (ao_voice a) @ take n (ab_rem (ao_buff first a))"
  shows "ao_progress sent n a (ao_turn first n b v a)"
proof -
  have ok: "ab_ok (ao_buff (\<not> first) a)" "ab_length (ao_buff first a) \<noteq> 0"
    using assms(1,2) ao_ok_current by blast+
  show ?thesis
    unfolding ao_progress_def all_bool_iff [of _ first]
    using assms ok ao_turn_ok [OF assms(1,5) ok(1)] ao_turn_todo [OF assms(1,5) ok(1)] ao_todo_current [OF assms(1)]
    by (auto simp: ao_empty_def ao_turn_sel)
qed

lemma ao_turn_frames:
  assumes "ao_frames room a" "ab_ok (ao_buff first a)" "ab_ok b" "ab_rem b = drop n (ab_rem (ao_buff first a))"
    "n \<le> length (ab_rem (ao_buff first a))" "4 dvd n" "room v = room (ao_voice a) - n"
  shows "ao_frames room (ao_turn first n b v a)"
proof -
  have "unat (ab_length b) = unat (ab_length (ao_buff first a)) - n"
    using length_ab_rem [OF assms(3)] length_ab_rem [OF assms(2)] assms(4) by simp
  then show ?thesis
    using assms unfolding ao_frames_buff [of _ _ first] by (simp add: ao_turn_sel dvd_diff_nat diff_le_mono)
qed

lemma audio_play_ok:
  assumes "AUD_write_ok room sent AUD_write" "ao_ok a" "ao_frames room a"
  shows "\<exists>k a'. audio_play AUD_write first a = Inr a' \<and> ao_progress sent k a a' \<and> ao_frames room a' \<and>
    (ao_current a = ao_number first \<and> ao_free a \<noteq> 0 \<longrightarrow> k \<noteq> 0)"
  using assms(2,3)
proof (induction "ao_free a" arbitrary: a rule: less_induct)
  case less
  show ?case
  proof (cases "ao_free a \<noteq> 0 \<and> ao_current a = ao_number first")
    case False
    then have "audio_play AUD_write first a = Inr a"
      by (subst audio_play.simps) (auto simp: ao_number_def)
    then show ?thesis using False ao_progress_refl [OF less.prems(1)] less.prems(2) by blast
  next
    case True
    let ?b = "ao_buff first a"
    have b: "ab_ok ?b" "ab_length ?b \<noteq> 0" using True less.prems(1) ao_ok_current by blast+
    have fr: "4 dvd unat (ab_length ?b)" "4 dvd ao_free a" "ao_free a \<le> room (ao_voice a)"
      using less.prems(2) unfolding ao_frames_buff [of _ _ first] by simp_all
    obtain n b' v' where send: "goldfish_audio_buff_send AUD_write ?b (ao_free a) (ao_voice a) = Inr (n, b', v')"
      and n: "0 < n" "n \<le> ao_free a" "n \<le> length (ab_rem ?b)" and b': "ab_ok b'" "ab_rem b' = drop n (ab_rem ?b)"
      and v': "sent v' = sent (ao_voice a) @ take n (ab_rem ?b)" "4 dvd n" "room v' = room (ao_voice a) - n"
      using buff_send_ok [OF assms(1) b _ fr] True by blast
    have prog: "ao_progress sent n a (ao_turn first n b' v' a)"
      using ao_turn_progress [OF _ less.prems(1) n(2,3) b' v'(1)] True by blast
    have frames: "ao_frames room (ao_turn first n b' v' a)"
      using ao_turn_frames [OF less.prems(2) b(1) b' n(3) v'(2,3)] .
    have "audio_play AUD_write first a = audio_play AUD_write first (ao_turn first n b' v' a)"
      using True n(1) send by (subst audio_play.simps) (simp add: ao_number_def ao_turn_def)
    moreover obtain k a' where rest: "audio_play AUD_write first (ao_turn first n b' v' a) = Inr a'"
      "ao_progress sent k (ao_turn first n b' v' a) a'" "ao_frames room a'"
      using less.hyps [of "ao_turn first n b' v' a"] prog frames n(1,2) by (auto simp: ao_progress_def ao_turn_sel)
    ultimately show ?thesis
      using ao_progress_trans [OF prog rest(2)] n(1) by (intro exI [of _ "n + k"] exI [of _ a']) simp
  qed
qed

lemma audio_play_skip: "ao_current a \<noteq> ao_number first \<Longrightarrow> audio_play AUD_write first a = Inr a"
  by (subst audio_play.simps) (simp add: ao_number_def)

lemma audio_out_loop_stop: "ao_free a = 0 \<or> ao_current a = 0 \<Longrightarrow> audio_out_loop AUD_write a = Some (Inr a)"
  by (subst audio_out_loop.simps) auto

lemma audio_out_loop_turn:
  assumes "ao_free a \<noteq> 0" "ao_current a \<noteq> 0" "audio_play AUD_write True a = Inr a1" "audio_play AUD_write False a1 = Inr a2"
  shows "audio_out_loop AUD_write a = audio_out_loop AUD_write a2"
  using assms by (subst audio_out_loop.simps) simp

lemma ao_ok_second: "ao_ok a \<Longrightarrow> ao_current a \<noteq> 0 \<Longrightarrow> ao_current a \<noteq> 1 \<Longrightarrow> ao_current a = 2"
  by (simp add: ao_ok_def split: if_splits)

lemma audio_out_loop_ok:
  assumes "AUD_write_ok room sent AUD_write" "ao_ok a" "ao_frames room a"
  shows "\<exists>k a'. audio_out_loop AUD_write a = Some (Inr a') \<and> ao_progress sent k a a' \<and> ao_frames room a' \<and>
    (ao_free a' = 0 \<or> ao_current a' = 0)"
  using assms(2,3)
proof (induction "ao_free a" arbitrary: a rule: less_induct)
  case less
  show ?case
  proof (cases "ao_free a \<noteq> 0 \<and> ao_current a \<noteq> 0")
    case False
    then have "audio_out_loop AUD_write a = Some (Inr a)" by (intro audio_out_loop_stop) simp
    moreover have "ao_free a = 0 \<or> ao_current a = 0" using False by simp
    ultimately show ?thesis using ao_progress_refl [OF less.prems(1), of sent] less.prems(2) by (intro exI [of _ 0] exI [of _ a] conjI)
  next
    case True
    obtain k1 a1 where p1: "audio_play AUD_write True a = Inr a1" "ao_progress sent k1 a a1"
      "ao_current a = ao_number True \<and> ao_free a \<noteq> 0 \<longrightarrow> k1 \<noteq> 0" "ao_frames room a1"
      using audio_play_ok [OF assms(1) less.prems, of True] by blast
    have "ao_ok a1" using p1(2) by (rule ao_progress_free)
    then obtain k2 a2 where p2: "audio_play AUD_write False a1 = Inr a2" "ao_progress sent k2 a1 a2"
      "ao_current a1 = ao_number False \<and> ao_free a1 \<noteq> 0 \<longrightarrow> k2 \<noteq> 0" "ao_frames room a2"
      using audio_play_ok [OF assms(1) _ p1(4), of False] by blast
    have "k1 + k2 \<noteq> 0"
    proof (cases "ao_current a = 1")
      case False
      then have two: "ao_current a = 2" using True less.prems(1) ao_ok_second by blast
      then have "a1 = a" using p1(1) audio_play_skip [of a True AUD_write] by (simp add: ao_number_def)
      then show ?thesis using p2(3) True two by (simp add: ao_number_def)
    qed (use p1(3) True in \<open>simp add: ao_number_def\<close>)
    moreover have prog: "ao_progress sent (k1 + k2) a a2" using p1(2) p2(2) by (rule ao_progress_trans)
    ultimately have "ao_free a2 < ao_free a" "ao_ok a2" using ao_progress_free [OF prog] by simp_all
    then obtain k a' where rest: "audio_out_loop AUD_write a2 = Some (Inr a')" "ao_progress sent k a2 a'" "ao_frames room a'" "ao_free a' = 0 \<or> ao_current a' = 0"
      using less.hyps [of a2] p2(4) by blast
    have "audio_out_loop AUD_write a = audio_out_loop AUD_write a2"
      using audio_out_loop_turn [OF _ _ p1(1) p2(1)] True by blast
    then have "audio_out_loop AUD_write a = Some (Inr a')" using rest(1) by (rule trans)
    then show ?thesis
      using rest(3,4) ao_progress_trans [OF prog rest(2)] by (intro exI [of _ "k1 + k2 + k"] exI [of _ a'] conjI)
  qed
qed

text \<open>The state of the device: what a callback relies on, and the bytes still to be played.\<close>

definition audio_ok :: "('v, 'w) goldfish_audio_state \<Rightarrow> bool" where
  "audio_ok s \<longleftrightarrow> ao_ok (audio_view 0 () s)"

definition audio_todo :: "('v, 'w) goldfish_audio_state \<Rightarrow> bytes" where
  "audio_todo s = ao_todo (audio_view 0 () s)"

definition audio_frames :: "('v, 'w) goldfish_audio_state \<Rightarrow> bool" where
  "audio_frames s \<longleftrightarrow> 4 dvd unat (ab_length (au_out_buff1 s)) \<and> 4 dvd unat (ab_length (au_out_buff2 s))"

lemma audio_view_ok: "ao_ok (audio_view free v s) \<longleftrightarrow> audio_ok s"
  by (simp add: audio_ok_def ao_ok_def audio_view_def)

lemma audio_view_todo: "ao_todo (audio_view free v s) = audio_todo s"
  by (simp add: audio_todo_def ao_todo_def audio_view_def)

lemma audio_new_status_sel:
  "au_out_buff1 (fst (audio_new_status st s)) = au_out_buff1 s" "au_out_buff2 (fst (audio_new_status st s)) = au_out_buff2 s"
  "au_current_buffer (fst (audio_new_status st s)) = au_current_buffer s" "au_in_buff (fst (audio_new_status st s)) = au_in_buff s"
  "au_int_status (fst (audio_new_status st s)) = au_int_status s OR st" "au_voice (fst (audio_new_status st s)) = au_voice s"
  "au_read_buffer_available (fst (audio_new_status st s)) = au_read_buffer_available s"
  by (simp_all add: audio_new_status_def Let_def)

lemma audio_idle_todo: "audio_ok s \<Longrightarrow> au_current_buffer s = 0 \<Longrightarrow> audio_todo s = []"
  by (simp add: audio_ok_def audio_todo_def audio_view_def ao_ok_def ao_todo_def ab_rem_nil_iff)

text \<open>
  The output callback returns when the buffers hold whole frames and the voice has the room that is announced to
  it: it hands over the next \<open>free\<close> bytes of the current buffer and then of the other one,
  exactly the rest stays to be played, and the status bit of a buffer is set when this empties it.
\<close>

lemma audio_callback_plays:
  fixes AUD_write :: "'v \<Rightarrow> bytes \<Rightarrow> nat \<times> 'v" and s :: "('v, 'w) goldfish_audio_state"
  assumes "AUD_write_ok room sent AUD_write" "audio_ok s" "audio_frames s" "4 dvd free" "free \<le> room v"
  shows "\<exists>v' s' ls. goldfish_audio_callback AUD_write free v s = Some (Inr (v', s', ls)) \<and>
    sent v' = sent v @ take free (audio_todo s) \<and> audio_todo s' = drop free (audio_todo s) \<and> audio_ok s' \<and> audio_frames s' \<and>
    (bit (au_int_status s') 0 \<longleftrightarrow> bit (au_int_status s) 0 \<or> ab_length (au_out_buff1 s) \<noteq> 0 \<and> ab_length (au_out_buff1 s') = 0) \<and>
    (bit (au_int_status s') 1 \<longleftrightarrow> bit (au_int_status s) 1 \<or> ab_length (au_out_buff2 s) \<noteq> 0 \<and> ab_length (au_out_buff2 s') = 0)"
proof -
  have "ao_frames room (audio_view free v s)"
    using assms(3-5) by (simp add: ao_frames_def audio_frames_def audio_view_def)
  then obtain k a where loop: "audio_out_loop AUD_write (audio_view free v s) = Some (Inr a)"
    and prog: "ao_progress sent k (audio_view free v s) a" and fr: "ao_frames room a" and stop: "ao_free a = 0 \<or> ao_current a = 0"
    using audio_out_loop_ok [OF assms(1) iffD2 [OF audio_view_ok assms(2)]] by blast
  define s0 where "s0 = s\<lparr>au_current_buffer := ao_current a, au_out_buff1 := ao_buff1 a, au_out_buff2 := ao_buff2 a, au_voice := Some (ao_voice a)\<rparr>"
  define s' where "s' = fst (audio_new_status (ao_status a) s0)"
  have sel: "au_current_buffer s' = ao_current a" "au_out_buff1 s' = ao_buff1 a" "au_out_buff2 s' = ao_buff2 a"
    "au_int_status s' = au_int_status s OR ao_status a"
    by (simp_all add: s'_def s0_def audio_new_status_sel)
  have call: "goldfish_audio_callback AUD_write free v s = Some (Inr (ao_voice a, s', snd (audio_new_status (ao_status a) s0)))"
    by (simp add: goldfish_audio_callback_def loop s'_def s0_def case_prod_unfold)
  have view_a: "audio_ok s' = ao_ok a" "audio_todo s' = ao_todo a"
    by (simp_all add: audio_ok_def audio_todo_def audio_view_def ao_ok_def ao_todo_def sel)
  have frames: "audio_frames s'" using fr by (simp add: audio_frames_def ao_frames_def sel)
  have ok: "audio_ok s'" "audio_todo s' = drop k (audio_todo s)" "k \<le> length (audio_todo s)" "free = k + ao_free a"
    "sent (ao_voice a) = sent v @ take k (audio_todo s)"
    using prog unfolding ao_progress_def audio_view_todo
    by (simp_all add: view_a(1) view_a(2) [symmetric] audio_view_def)
  have k: "take k (audio_todo s) = take free (audio_todo s)" "drop k (audio_todo s) = drop free (audio_todo s)"
  proof -
    have "ao_free a = 0 \<or> drop k (audio_todo s) = []"
      using stop audio_idle_todo [OF ok(1)] ok(2) sel(1) by metis
    then show "take k (audio_todo s) = take free (audio_todo s)" "drop k (audio_todo s) = drop free (audio_todo s)"
      using ok(3,4) by auto
  qed
  have flags: "\<And>i. ao_flag i a \<longleftrightarrow> \<not> ao_empty i (audio_view free v s) \<and> ao_empty i a"
    using prog by (auto simp: ao_progress_def ao_flag_def audio_view_def)
  have bits: "bit (au_int_status s') 0 \<longleftrightarrow> bit (au_int_status s) 0 \<or> ab_length (au_out_buff1 s) \<noteq> 0 \<and> ab_length (au_out_buff1 s') = 0"
    "bit (au_int_status s') 1 \<longleftrightarrow> bit (au_int_status s) 1 \<or> ab_length (au_out_buff2 s) \<noteq> 0 \<and> ab_length (au_out_buff2 s') = 0"
    unfolding sel bit_or_iff using flags [of True] flags [of False] by (simp_all add: ao_flag_def ao_empty_def ao_buff_def audio_view_def)
  have out: "sent (ao_voice a) = sent v @ take free (audio_todo s)" "audio_todo s' = drop free (audio_todo s)"
    using ok(2,5) k by simp_all
  show ?thesis
    by (intro exI [of _ "ao_voice a"] exI [of _ s'] exI [of _ "snd (audio_new_status (ao_status a) s0)"] conjI call out ok(1) frames bits)
qed

text \<open>A buffer the guest has just filled.\<close>

lemma audio_fill_ok:
  assumes "ab_ok b" "unat len < 2 ^ 31"
  shows "ab_ok (audio_fill junk m b len)" "ab_rem (audio_fill junk m b len) = cpu_physical_memory_read m (ab_address b) (unat len)"
    "ab_length (audio_fill junk m b len) = len"
  using assms
  by (auto simp: ab_ok_def ab_rem_def audio_fill_def goldfish_audio_buff_read_def goldfish_audio_buff_set_length_def
      goldfish_audio_buff_ensure_def seg_read_def seg_write_def)

lemma ab_ok_address [simp]: "ab_ok (b\<lparr>ab_address := x\<rparr>) = ab_ok b" "ab_rem (b\<lparr>ab_address := x\<rparr>) = ab_rem b"
  by (simp_all add: ab_ok_def ab_rem_def)

lemma audio_view_cong:
  assumes "au_current_buffer s' = au_current_buffer s" "\<exists>x. au_out_buff1 s' = (au_out_buff1 s)\<lparr>ab_address := x\<rparr>"
    "\<exists>x. au_out_buff2 s' = (au_out_buff2 s)\<lparr>ab_address := x\<rparr>"
  shows "audio_ok s' = audio_ok s" "audio_todo s' = audio_todo s" "audio_frames s' = audio_frames s"
proof -
  obtain x y where "au_out_buff1 s' = (au_out_buff1 s)\<lparr>ab_address := x\<rparr>" "au_out_buff2 s' = (au_out_buff2 s)\<lparr>ab_address := y\<rparr>"
    using assms(2,3) by blast
  then show "audio_ok s' = audio_ok s" "audio_todo s' = audio_todo s" "audio_frames s' = audio_frames s"
    using assms(1) by (simp_all add: audio_ok_def audio_todo_def audio_view_def ao_ok_def ao_todo_def audio_frames_def)
qed

lemma ab_address_self: "\<exists>x. b = b\<lparr>ab_address := x\<rparr>"
  by (intro exI [of _ "ab_address b"]) simp

lemma audio_register_keeps:
  assumes "offset \<in> {0x08, 0x28, 0x0C, 0x30, 0x1C, 0x20, 0x34}" "goldfish_audio_write junk offset val s m = Inr (s', ls)"
  shows "audio_ok s' = audio_ok s" "audio_todo s' = audio_todo s" "audio_frames s' = audio_frames s"
proof -
  have "au_current_buffer s' = au_current_buffer s \<and> (\<exists>x. au_out_buff1 s' = (au_out_buff1 s)\<lparr>ab_address := x\<rparr>) \<and>
      (\<exists>x. au_out_buff2 s' = (au_out_buff2 s)\<lparr>ab_address := x\<rparr>)"
    using assms(1)
  proof (elim insertE emptyE)
  qed (use assms(2) ab_address_self in \<open>force simp: goldfish_audio_write_def goldfish_audio_buff_set_address_def goldfish_audio_buff_set_address_high_def start_read_def Let_def\<close>)+
  then show "audio_ok s' = audio_ok s" "audio_todo s' = audio_todo s" "audio_frames s' = audio_frames s"
    using audio_view_cong by blast+
qed

lemma audio_fill1_step:
  assumes "audio_ok s" "ab_length (au_out_buff1 s) = 0" "len \<noteq> 0" "unat len < 2 ^ 31"
    "goldfish_audio_write junk 0x10 len s m = Inr (s', ls)"
  shows "audio_ok s'" "audio_todo s' = audio_todo s @ cpu_physical_memory_read m (ab_address (au_out_buff1 s)) (unat len)"
    "audio_frames s \<Longrightarrow> 4 dvd unat len \<Longrightarrow> audio_frames s'"
proof -
  have b: "ab_ok (au_out_buff1 s)" "ab_ok (au_out_buff2 s)"
    using assms(1) by (simp_all add: audio_ok_def ao_ok_def audio_view_def)
  have nil: "ab_rem (au_out_buff1 s) = []" using ab_rem_nil_iff b(1) assms(2) by blast
  have s': "au_out_buff1 s' = audio_fill junk m (au_out_buff1 s) len" "au_out_buff2 s' = au_out_buff2 s"
    "au_current_buffer s' = (if au_current_buffer s = 0 then 1 else au_current_buffer s)"
    using assms(5) by (auto simp: goldfish_audio_write_def)
  have cur: "au_current_buffer s = 0 \<and> ab_rem (au_out_buff2 s) = [] \<or> au_current_buffer s = 2 \<and> ab_length (au_out_buff2 s) \<noteq> 0"
    using assms(1,2) b by (auto simp: audio_ok_def ao_ok_def audio_view_def ab_rem_nil_iff split: if_splits)
  then show "audio_ok s'"
    using b audio_fill_ok [OF b(1) assms(4)] assms(3) s' by (auto simp: audio_ok_def ao_ok_def audio_view_def)
  show "audio_frames s \<Longrightarrow> 4 dvd unat len \<Longrightarrow> audio_frames s'"
    using audio_fill_ok [OF b(1) assms(4)] s' by (simp add: audio_frames_def)
  show "audio_todo s' = audio_todo s @ cpu_physical_memory_read m (ab_address (au_out_buff1 s)) (unat len)"
    using cur nil audio_fill_ok [OF b(1) assms(4)] s' by (auto simp: audio_todo_def ao_todo_def audio_view_def)
qed

lemma audio_fill2_step:
  assumes "audio_ok s" "ab_length (au_out_buff2 s) = 0" "len \<noteq> 0" "unat len < 2 ^ 31"
    "goldfish_audio_write junk 0x14 len s m = Inr (s', ls)"
  shows "audio_ok s'" "audio_todo s' = audio_todo s @ cpu_physical_memory_read m (ab_address (au_out_buff2 s)) (unat len)"
    "audio_frames s \<Longrightarrow> 4 dvd unat len \<Longrightarrow> audio_frames s'"
proof -
  have b: "ab_ok (au_out_buff2 s)" "ab_ok (au_out_buff1 s)"
    using assms(1) by (simp_all add: audio_ok_def ao_ok_def audio_view_def)
  have nil: "ab_rem (au_out_buff2 s) = []" using ab_rem_nil_iff b(1) assms(2) by blast
  have s': "au_out_buff2 s' = audio_fill junk m (au_out_buff2 s) len" "au_out_buff1 s' = au_out_buff1 s"
    "au_current_buffer s' = (if au_current_buffer s = 0 then 2 else au_current_buffer s)"
    using assms(5) by (auto simp: goldfish_audio_write_def)
  have cur: "au_current_buffer s = 0 \<and> ab_rem (au_out_buff1 s) = [] \<or> au_current_buffer s = 1 \<and> ab_length (au_out_buff1 s) \<noteq> 0"
    using assms(1,2) b by (auto simp: audio_ok_def ao_ok_def audio_view_def ab_rem_nil_iff split: if_splits)
  then show "audio_ok s'"
    using b audio_fill_ok [OF b(1) assms(4)] assms(3) s' by (auto simp: audio_ok_def ao_ok_def audio_view_def)
  show "audio_frames s \<Longrightarrow> 4 dvd unat len \<Longrightarrow> audio_frames s'"
    using audio_fill_ok [OF b(1) assms(4)] s' by (simp add: audio_frames_def)
  show "audio_todo s' = audio_todo s @ cpu_physical_memory_read m (ab_address (au_out_buff2 s)) (unat len)"
    using cur nil audio_fill_ok [OF b(1) assms(4)] s' by (auto simp: audio_todo_def ao_todo_def audio_view_def)
qed

definition list_voice :: "bytes \<Rightarrow> bytes \<Rightarrow> nat \<times> bytes" where
  "list_voice v bs = (min 2 (length bs), v @ take 2 bs)"

definition audio_idle :: "(bytes, unit) goldfish_audio_state" where
  "audio_idle = the (goldfish_audio_init True False (Some []) None)"

lemma audio_idle_ok: "audio_ok audio_idle" "audio_todo audio_idle = []"
  by (simp_all add: audio_idle_def goldfish_audio_init_def goldfish_audio_buff_init_def audio_ok_def audio_todo_def audio_view_def
      ao_ok_def ao_todo_def ab_ok_def ab_rem_def seg_read_def)

section \<open>A buffer without data\<close>

text \<open>The outer loop does not return from a state that a turn leaves as it is.\<close>

definition ao_stuck :: "('v \<Rightarrow> bytes \<Rightarrow> nat \<times> 'v) \<Rightarrow> 'v audio_out \<Rightarrow> bool" where
  "ao_stuck AUD_write a \<longleftrightarrow> ao_free a \<noteq> 0 \<and> ao_current a \<noteq> 0 \<and> obind (audio_play AUD_write True a) (audio_play AUD_write False) = Inr a"

lemma audio_out_loop_stuck:
  assumes "audio_out_loop AUD_write a = Some r"
  shows "\<not> ao_stuck AUD_write a"
proof (rule audio_out_loop.raw_induct [where P = "\<lambda>w a r. \<not> ao_stuck w a", OF _ assms], rule notI)
  fix f w a y
  assume ih: "\<And>w a y. f w a = Some y \<Longrightarrow> \<not> ao_stuck w a" and stuck: "ao_stuck w a"
    and eq: "(if ao_free a \<noteq> 0 \<and> ao_current a \<noteq> 0
      then case obind (audio_play w True a) (audio_play w False) of Inl e \<Rightarrow> Some (Inl e) | Inr x \<Rightarrow> f w x
      else Some (Inr a)) = Some y"
  have "f w a = Some y" using eq stuck by (simp add: ao_stuck_def del: obind_eq_Inr)
  then show False using ih stuck by blast
qed

lemma audio_play_empty:
  assumes "\<And>v. AUD_write v [] = (0, v)" "ao_current a = ao_number first" "ao_free a \<noteq> 0" "ab_length (ao_buff first a) = 0"
    "unat (ab_offset (ao_buff first a)) \<le> length (ab_data (ao_buff first a))"
  shows "audio_play AUD_write first a = Inr a"
proof -
  have "goldfish_audio_buff_send AUD_write (ao_buff first a) (ao_free a) (ao_voice a) = Inr (0, ao_buff first a, ao_voice a)"
    using assms(1,4,5) by (simp add: goldfish_audio_buff_send_def seg_read_def Let_def)
  then show ?thesis
    using assms(2,3) by (subst audio_play.simps) (simp add: ao_number_def ao_store_def ao_buff_def)
qed

lemma audio_callback_stuck:
  assumes "audio_play AUD_write True (audio_view free v s) = Inr (audio_view free v s)" "au_current_buffer s = 1" "free \<noteq> 0"
  shows "goldfish_audio_callback AUD_write free v s = None"
proof -
  let ?a = "audio_view free v s"
  have b: "ao_current ?a = 1" "ao_free ?a = free" using assms(2) by (simp_all add: audio_view_def)
  have "audio_play AUD_write False ?a = Inr ?a"
    using b(1) by (intro audio_play_skip) (simp add: ao_number_def)
  then have "obind (audio_play AUD_write True ?a) (audio_play AUD_write False) = Inr ?a"
    using assms(1) by (simp del: obind_eq_Inr)
  then have "ao_stuck AUD_write ?a" unfolding ao_stuck_def using assms(3) b by simp
  then have "audio_out_loop AUD_write ?a = None"
    using audio_out_loop_stuck [of AUD_write ?a] by (cases "audio_out_loop AUD_write ?a") blast+
  then show ?thesis by (simp add: goldfish_audio_callback_def)
qed

lemma audio_play_refused:
  assumes "\<And>v bs. length bs \<le> unat (ab_length (ao_buff first a)) \<Longrightarrow> AUD_write v bs = (0, v)"
    "ao_current a = ao_number first" "ao_free a \<noteq> 0" "ab_ok (ao_buff first a)"
  shows "audio_play AUD_write first a = Inr a"
proof -
  have "goldfish_audio_buff_send AUD_write (ao_buff first a) (ao_free a) (ao_voice a) = Inr (0, ao_buff first a, ao_voice a)"
    using assms(1,4) by (auto simp: goldfish_audio_buff_send_def seg_read_def ab_ok_def Let_def min_def)
  then show ?thesis
    using assms(2,3) by (subst audio_play.simps) (simp add: ao_number_def ao_store_def ao_buff_def)
qed

text \<open>
  C32: A guest can stop the emulator for good: when no output buffer is in use and it hands over buffer 1
  with the length zero, the next output callback with free space does not return.
\<close>

theorem audio_empty_buffer_hangs:
  assumes "\<forall>v. AUD_write v [] = (0, v)" "au_current_buffer s = 0" "free \<noteq> 0"
  shows "\<exists>s'. goldfish_audio_write junk 0x10 0 s m = Inr (s', []) \<and> goldfish_audio_callback AUD_write free v s' = None"
proof -
  define s' where "s' = s\<lparr>au_current_buffer := 1, au_out_buff1 := audio_fill junk m (au_out_buff1 s) 0,
    au_int_status := au_int_status s AND NOT AUDIO_INT_WRITE_BUFFER_1_EMPTY\<rparr>"
  have w: "goldfish_audio_write junk 0x10 0 s m = Inr (s', [])"
    using assms(2) by (simp add: goldfish_audio_write_def s'_def)
  have "audio_play AUD_write True (audio_view free v s') = Inr (audio_view free v s')"
    using assms(1,3)
    by (intro audio_play_empty) (simp_all add: ao_number_def ao_buff_def audio_view_def s'_def audio_fill_def goldfish_audio_buff_read_def
        goldfish_audio_buff_set_length_def goldfish_audio_buff_ensure_def)
  then have "goldfish_audio_callback AUD_write free v s' = None"
    by (rule audio_callback_stuck) (simp_all add: s'_def assms(3))
  then show ?thesis using w by blast
qed

theorem audio_empty_buffer_hangs_witness:
  "\<exists>s'. goldfish_audio_write (\<lambda>_. 0) 0x10 0 audio_idle (\<lambda>_. 0) = Inr (s', []) \<and> goldfish_audio_callback list_voice 8 [] s' = None"
  by (rule audio_empty_buffer_hangs) (simp_all add: list_voice_def audio_idle_def goldfish_audio_init_def)

end
