(* ===== verification/Audio_Voice.thy ===== *)
theory Audio_Voice
  imports Audio_Stream
begin

unbundle bit_operations_syntax

text \<open>
  The output voice of the host's sound system (\<open>audio/audio.c\<close>) and the sound device playing on it.

  The goldfish device opens its voice with 16-bit stereo samples, so that a frame has four bytes. The voice
  is modelled for a host that runs at the same rate (\<open>ratio\<close> is \<open>1 << 32\<close>, and \<open>st_rate_flow_mix\<close> mixes
  one frame for each frame it is given), with this one voice on it. \<open>voice_taken\<close> lists the bytes of the frames
  that have been mixed; their conversion and addition to the mixing buffer are not modelled. The \<open>write\<close>
  operation of every driver is \<open>audio_pcm_sw_write\<close>.
\<close>

section \<open>The voice\<close>

record SWVoiceOut =
  hw_samples :: nat
  hw_rpos :: nat
  hw_enabled :: bool
  total_hw_samples_mixed :: nat
  voice_taken :: bytes

text \<open>The loop over the segments of the mixing buffer: the frames read and the frames mixed.\<close>

function sw_write_loop :: "nat \<Rightarrow> nat \<Rightarrow> nat \<Rightarrow> nat \<Rightarrow> nat \<Rightarrow> nat \<Rightarrow> nat \<times> nat" where
  "sw_write_loop hwsamples swlim live wpos ret total_out =
     (if swlim = 0 then (ret, total_out)
      else
        (let dead = hwsamples - live; left = hwsamples - wpos; blck = min dead left
         in if blck = 0 then (ret, total_out)
            else
              (let n = min swlim blck
               in sw_write_loop hwsamples (swlim - n) (live + n) ((wpos + n) mod hwsamples) (ret + n) (total_out + n))))"
  by pat_completeness auto
termination
proof (relation "measure (\<lambda>(hwsamples, swlim, live, wpos, ret, total_out). swlim)")
  fix hwsamples swlim live wpos ret total_out dead left blck n :: nat
  assume "swlim \<noteq> 0" "blck \<noteq> 0" "n = min swlim blck"
  then have "swlim - n < swlim" by simp
  then show "((hwsamples, swlim - n, live + n, (wpos + n) mod hwsamples, ret + n, total_out + n),
      (hwsamples, swlim, live, wpos, ret, total_out)) \<in> measure (\<lambda>(hwsamples, swlim, live, wpos, ret, total_out). swlim)"
    by simp
qed simp

declare sw_write_loop.simps [simp del]

definition audio_pcm_sw_write :: "SWVoiceOut \<Rightarrow> bytes \<Rightarrow> nat \<times> SWVoiceOut" where
  "audio_pcm_sw_write sw buf =
     (let hwsamples = hw_samples sw; live = total_hw_samples_mixed sw in
      if live > hwsamples then (0, sw)
      else if live = hwsamples then (0, sw)
      else
        (let wpos = (hw_rpos sw + live) mod hwsamples; samples = length buf div 4; swlim = min (hwsamples - live) samples;
             (ret, total_out) = sw_write_loop hwsamples swlim live wpos 0 0
         in (ret * 4, sw\<lparr>total_hw_samples_mixed := live + total_out, voice_taken := voice_taken sw @ take (ret * 4) buf\<rparr>)))"

definition AUD_write :: "SWVoiceOut \<Rightarrow> bytes \<Rightarrow> nat \<times> SWVoiceOut" where
  "AUD_write sw buf = (if \<not> hw_enabled sw then (0, sw) else audio_pcm_sw_write sw buf)"

definition audio_get_free :: "SWVoiceOut \<Rightarrow> nat" where
  "audio_get_free sw =
     (if total_hw_samples_mixed sw > hw_samples sw then 0 else (hw_samples sw - total_hw_samples_mixed sw) * 4)"

text \<open>The driver has played \<open>played\<close> frames, from \<open>audio_run_out\<close>.\<close>

definition voice_played :: "nat \<Rightarrow> SWVoiceOut \<Rightarrow> SWVoiceOut" where
  "voice_played played sw =
     sw\<lparr>hw_rpos := (hw_rpos sw + played) mod hw_samples sw, total_hw_samples_mixed := total_hw_samples_mixed sw - played\<rparr>"

section \<open>It takes what it has room for\<close>

lemma sw_write_loop_all:
  "swlim \<le> hwsamples - live \<Longrightarrow> wpos < hwsamples \<Longrightarrow>
   sw_write_loop hwsamples swlim live wpos ret total_out = (ret + swlim, total_out + swlim)"
proof (induction hwsamples swlim live wpos ret total_out rule: sw_write_loop.induct)
  case (1 hwsamples swlim live wpos ret total_out)
  show ?case
  proof (cases "swlim = 0")
    case True
    then show ?thesis by (simp add: sw_write_loop.simps)
  next
    case False
    define blck where "blck = min (hwsamples - live) (hwsamples - wpos)"
    define n where "n = min swlim blck"
    have b: "blck \<noteq> 0" "n \<le> swlim" using False "1.prems" by (auto simp: blck_def n_def)
    have "sw_write_loop hwsamples (swlim - n) (live + n) ((wpos + n) mod hwsamples) (ret + n) (total_out + n) =
        (ret + n + (swlim - n), total_out + n + (swlim - n))"
      using "1.IH" [OF False refl refl blck_def b(1) n_def] "1.prems" by simp
    with False b show ?thesis
      by (subst sw_write_loop.simps) (simp add: blck_def [symmetric] n_def [symmetric])
  qed
qed

definition voice_room :: "SWVoiceOut \<Rightarrow> nat" where
  "voice_room sw = (if hw_enabled sw then audio_get_free sw else 0)"

lemma min_frames: "min a (k * 4) div 4 = min k (a div 4 :: nat)"
proof (cases "a \<le> k * 4")
  case True
  then have "a div 4 \<le> k * 4 div 4" by (rule div_le_mono)
  with True show ?thesis by simp
next
  case False
  then have "k * 4 div 4 \<le> a div 4" by (intro div_le_mono) simp
  with False show ?thesis by simp
qed

lemma AUD_write_eq:
  "AUD_write sw buf =
     (let n = 4 * (min (length buf) (voice_room sw) div 4)
      in (n, sw\<lparr>total_hw_samples_mixed := total_hw_samples_mixed sw + n div 4, voice_taken := voice_taken sw @ take n buf\<rparr>))"
proof (cases "hw_enabled sw \<and> total_hw_samples_mixed sw < hw_samples sw")
  case False
  then have "voice_room sw = 0" by (auto simp: voice_room_def audio_get_free_def)
  moreover have "AUD_write sw buf = (0, sw)"
    using False by (cases "hw_enabled sw") (simp_all add: AUD_write_def audio_pcm_sw_write_def Let_def)
  ultimately show ?thesis by simp
next
  case True
  let ?h = "hw_samples sw" and ?l = "total_hw_samples_mixed sw"
  define k where "k = min (?h - ?l) (length buf div 4)"
  have r: "voice_room sw = (?h - ?l) * 4" using True by (simp add: voice_room_def audio_get_free_def)
  have "min (length buf) (voice_room sw) div 4 = k" unfolding r k_def by (rule min_frames)
  moreover have "sw_write_loop ?h k ?l ((hw_rpos sw + ?l) mod ?h) 0 0 = (k, k)"
    using sw_write_loop_all [of k ?h ?l "(hw_rpos sw + ?l) mod ?h" 0 0] True by (simp add: k_def)
  ultimately show ?thesis
    using True by (simp add: AUD_write_def audio_pcm_sw_write_def k_def [symmetric] Let_def mult.commute)
qed

lemma voice_room_eq: "voice_room sw = (if hw_enabled sw then 4 * (hw_samples sw - total_hw_samples_mixed sw) else 0)"
  by (simp add: voice_room_def audio_get_free_def)

lemma voice_ok: "AUD_write_ok voice_room voice_taken AUD_write"
  unfolding AUD_write_ok_def
proof (intro allI conjI)
  fix sw and bs :: bytes
  define k where "k = min (length bs) (voice_room sw) div 4"
  have "voice_room (sw\<lparr>total_hw_samples_mixed := total_hw_samples_mixed sw + k, voice_taken := x\<rparr>) = voice_room sw - 4 * k" for x
    by (simp add: voice_room_eq diff_mult_distrib2)
  then show "voice_room (snd (AUD_write sw bs)) = voice_room sw - fst (AUD_write sw bs)"
    by (simp add: AUD_write_eq Let_def k_def)
qed (simp_all add: AUD_write_eq Let_def)

lemma audio_get_free_frames: "4 dvd audio_get_free sw"
  by (simp add: audio_get_free_def)

section \<open>Driver and host at work\<close>

text \<open>
  The guest's driver fills a buffer only when it is empty (its status bit says so), with whole frames, less
  than 2 GB of them; \<open>given\<close> is what it has handed over. The addresses of the buffers are set at any time,
  and so are the registers of the input side. The host plays frames it has mixed, enables and disables the voice, and calls
  the device while the voice is enabled, with the free space of the voice.
\<close>

inductive audio_run ::
    "(nat \<Rightarrow> u8) \<Rightarrow> SWVoiceOut \<Rightarrow> (SWVoiceOut, 'w) goldfish_audio_state \<Rightarrow> bytes \<Rightarrow> SWVoiceOut \<Rightarrow> (SWVoiceOut, 'w) goldfish_audio_state \<Rightarrow> bool"
  for junk v0 s0 where
  start: "audio_run junk v0 s0 [] v0 s0"
| fill1: "audio_run junk v0 s0 given v s \<Longrightarrow> ab_length (au_out_buff1 s) = 0 \<Longrightarrow> len \<noteq> 0 \<Longrightarrow> unat len < 2 ^ 31 \<Longrightarrow> 4 dvd unat len \<Longrightarrow>
    goldfish_audio_write junk 0x10 len s m = Inr (s', ls) \<Longrightarrow>
    audio_run junk v0 s0 (given @ cpu_physical_memory_read m (ab_address (au_out_buff1 s)) (unat len)) v s'"
| fill2: "audio_run junk v0 s0 given v s \<Longrightarrow> ab_length (au_out_buff2 s) = 0 \<Longrightarrow> len \<noteq> 0 \<Longrightarrow> unat len < 2 ^ 31 \<Longrightarrow> 4 dvd unat len \<Longrightarrow>
    goldfish_audio_write junk 0x14 len s m = Inr (s', ls) \<Longrightarrow>
    audio_run junk v0 s0 (given @ cpu_physical_memory_read m (ab_address (au_out_buff2 s)) (unat len)) v s'"
| register: "audio_run junk v0 s0 given v s \<Longrightarrow> offset \<in> {0x08, 0x28, 0x0C, 0x30, 0x1C, 0x20, 0x34} \<Longrightarrow>
    goldfish_audio_write junk offset val s m = Inr (s', ls) \<Longrightarrow> audio_run junk v0 s0 given v s'"
| play: "audio_run junk v0 s0 given v s \<Longrightarrow> hw_enabled v \<Longrightarrow>
    goldfish_audio_callback AUD_write (audio_get_free v) v s = Some (Inr (v', s', ls)) \<Longrightarrow> audio_run junk v0 s0 given v' s'"
| played: "audio_run junk v0 s0 given v s \<Longrightarrow> n \<le> total_hw_samples_mixed v \<Longrightarrow> audio_run junk v0 s0 given (voice_played n v) s"
| switch: "audio_run junk v0 s0 given v s \<Longrightarrow> audio_run junk v0 s0 given (v\<lparr>hw_enabled := on\<rparr>) s"

lemma audio_callback_returns:
  assumes "audio_ok s" "audio_frames s" "hw_enabled v"
  shows "\<exists>v' s' ls. goldfish_audio_callback AUD_write (audio_get_free v) v s = Some (Inr (v', s', ls)) \<and>
    voice_taken v' = voice_taken v @ take (audio_get_free v) (audio_todo s) \<and>
    audio_todo s' = drop (audio_get_free v) (audio_todo s) \<and> audio_ok s' \<and> audio_frames s'"
proof -
  have "audio_get_free v \<le> voice_room v" using assms(3) by (simp add: voice_room_def)
  from audio_callback_plays [OF voice_ok assms(1,2) audio_get_free_frames this] show ?thesis by blast
qed

lemma audio_run_inv:
  assumes "audio_ok s0" "audio_frames s0" "audio_todo s0 = []" "audio_run junk v0 s0 given v s"
  shows "audio_ok s \<and> audio_frames s \<and> voice_taken v @ audio_todo s = voice_taken v0 @ given"
  using assms(4)
proof induction
  case (play given v s v' s' ls)
  then have inv: "audio_ok s" "audio_frames s" "voice_taken v @ audio_todo s = voice_taken v0 @ given" by simp_all
  from audio_callback_returns [OF inv(1,2) play.hyps(2)] play.hyps(3)
  have r: "voice_taken v' = voice_taken v @ take (audio_get_free v) (audio_todo s)"
    "audio_todo s' = drop (audio_get_free v) (audio_todo s)" "audio_ok s'" "audio_frames s'" by auto
  then have "voice_taken v' @ audio_todo s' = voice_taken v @ audio_todo s" by simp
  with r(3,4) inv(3) show ?case by simp
next
  case (fill1 given v s len m s' ls)
  then show ?case using audio_fill1_step [of s len junk m s' ls] by (simp flip: append_assoc)
next
  case (fill2 given v s len m s' ls)
  then show ?case using audio_fill2_step [of s len junk m s' ls] by (simp flip: append_assoc)
next
  case (register given v s offset val m s' ls)
  then show ?case using audio_register_keeps [OF register.hyps(2,3)] by simp
qed (simp_all add: assms(1,2,3) voice_played_def)


definition voice_example :: SWVoiceOut where
  "voice_example = \<lparr>hw_samples = 2, hw_rpos = 1, hw_enabled = True, total_hw_samples_mixed = 1, voice_taken = []\<rparr>"

definition audio_started :: "(SWVoiceOut, unit) goldfish_audio_state" where
  "audio_started = the (goldfish_audio_init True False (Some voice_example) None)"

lemma audio_started_ok: "audio_ok audio_started" "audio_frames audio_started" "audio_todo audio_started = []"
  by (simp_all add: audio_started_def goldfish_audio_init_def goldfish_audio_buff_init_def audio_ok_def audio_todo_def audio_view_def
      audio_frames_def ao_ok_def ao_todo_def ab_ok_def ab_rem_def seg_read_def)


text \<open>
  A buffer of fewer than four bytes is never taken: the callback with free space does not return. The same
  holds for the last bytes of a buffer that is not a whole number of frames.
\<close>

lemma audio_part_frame_hangs:
  assumes "au_current_buffer s = 1" "ab_ok (au_out_buff1 s)" "unat (ab_length (au_out_buff1 s)) < 4" "free \<noteq> 0"
  shows "goldfish_audio_callback AUD_write free v s = None"
proof (rule audio_callback_stuck [OF _ assms(1,4)])
  have "AUD_write v bs = (0, v)" if "length bs < 4" for v bs
  proof -
    have "4 * (min (length bs) (voice_room v) div 4) = 0" using that by simp
    then show ?thesis by (simp add: AUD_write_eq)
  qed
  then show "audio_play AUD_write True (audio_view free v s) = Inr (audio_view free v s)"
    using assms by (intro audio_play_refused) (auto simp: ao_buff_def audio_view_def ao_number_def)
qed

end
