(* ===== verification/Audio_Record.thy ===== *)
theory Audio_Record
  imports Audio_Stream
begin

unbundle bit_operations_syntax

text \<open>
  Recording on the sound device, and its snapshots: the input callback stores what the host gave, a full
  buffer reaches the guest whole, and an output buffer that is partly played is not restored.
\<close>

section \<open>What is recorded\<close>

text \<open>What is relied on of \<open>AUD_read\<close>: it gives at most what it is asked for. \<open>rec\<close> is what a voice has given so far.\<close>

definition AUD_read_ok :: "('w \<Rightarrow> bytes) \<Rightarrow> ('w \<Rightarrow> nat \<Rightarrow> bytes \<times> 'w) \<Rightarrow> bool" where
  "AUD_read_ok rec AUD_read \<longleftrightarrow>
     (\<forall>w n. length (fst (AUD_read w n)) \<le> n \<and> rec (snd (AUD_read w n)) = rec w @ fst (AUD_read w n))"

definition in_ok :: "goldfish_audio_buff \<Rightarrow> bool" where
  "in_ok b \<longleftrightarrow> unat (ab_length b) < 2 ^ 31 \<and> unat (ab_offset b) \<le> unat (ab_length b) \<and> unat (ab_length b) \<le> length (ab_data b)"

definition in_got :: "goldfish_audio_buff \<Rightarrow> bytes" where
  "in_got b = take (unat (ab_offset b)) (ab_data b)"

text \<open>The buffer has moved on by the bytes the voice gave.\<close>

definition in_progress :: "('w \<Rightarrow> bytes) \<Rightarrow> goldfish_audio_buff \<Rightarrow> 'w \<Rightarrow> goldfish_audio_buff \<Rightarrow> 'w \<Rightarrow> bool" where
  "in_progress rec b w b' w' \<longleftrightarrow> in_ok b' \<and> ab_length b' = ab_length b \<and> ab_address b' = ab_address b \<and>
     (\<exists>got. in_got b' = in_got b @ got \<and> rec w' = rec w @ got)"

lemma in_progress_trans: "in_progress rec b w b1 w1 \<Longrightarrow> in_progress rec b1 w1 b2 w2 \<Longrightarrow> in_progress rec b w b2 w2"
  by (auto simp: in_progress_def)

lemma in_available:
  assumes "in_ok b"
  shows "unat (goldfish_audio_buff_available b) = unat (ab_length b) - unat (ab_offset b)"
  using assms by (simp add: in_ok_def goldfish_audio_buff_available_def unat_sub_if')

lemma in_ok_length: "in_ok b \<Longrightarrow> length (in_got b) = unat (ab_offset b)"
  by (simp add: in_ok_def in_got_def)

lemma buff_recv_ok:
  fixes AUD_read :: "'w \<Rightarrow> nat \<Rightarrow> bytes \<times> 'w"
  assumes "AUD_read_ok rec AUD_read" "in_ok b"
  shows "\<exists>n b' w' m'. goldfish_audio_buff_recv AUD_read b avail w m = Inr (n, b', w', m') \<and> in_progress rec b w b' w'"
proof -
  define n where "n = min avail (unat (goldfish_audio_buff_available b))"
  define got where "got = fst (AUD_read w n)"
  have rec: "rec (snd (AUD_read w n)) = rec w @ got" and "length got \<le> n"
    using assms(1) by (simp_all add: AUD_read_ok_def got_def)
  then have room: "unat (ab_offset b) + length got \<le> unat (ab_length b)"
    using assms(2) in_available [OF assms(2)] by (auto simp: n_def in_ok_def)
  then have off: "unat (ab_offset b + of_nat (length got)) = unat (ab_offset b) + length got"
    using assms(2) by (auto simp: in_ok_def unat_plus_if' unat_of_nat)
  define b' where "b' = b\<lparr>ab_data := seg_write (ab_data b) (unat (ab_offset b)) got, ab_offset := ab_offset b + of_nat (length got)\<rparr>"
  have got: "in_ok b'" "in_got b' = in_got b @ got"
    using assms(2) room off by (simp_all add: b'_def in_ok_def in_got_def seg_write_def)
  have "in_progress rec b w b' (snd (AUD_read w n))"
    using got rec by (simp add: in_progress_def) (simp add: b'_def)
  moreover have "got = [] \<Longrightarrow> b' = b" by (simp add: b'_def)
  moreover have "\<not> 2 ^ 31 \<le> unat (goldfish_audio_buff_available b)" "\<not> unat (ab_offset b) + length got > length (ab_data b)"
    using assms(2) room in_available [OF assms(2)] by (auto simp: in_ok_def)
  ultimately show ?thesis
    by (cases "got = []")
      (simp_all add: goldfish_audio_buff_recv_def Let_def case_prod_unfold n_def [symmetric] got_def [symmetric] b'_def [symmetric])
qed

lemma audio_in_loop_ok:
  assumes "AUD_read_ok rec AUD_read" "in_ok b" "goldfish_audio_buff_available b \<noteq> 0"
  shows "\<exists>full b' w' m'. audio_in_loop AUD_read avail b w m = Inr (full, b', w', m') \<and> in_progress rec b w b' w' \<and>
    (full \<longleftrightarrow> goldfish_audio_buff_available b' = 0)"
  using assms(2,3)
proof (induction avail arbitrary: b w m rule: less_induct)
  case (less avail)
  obtain n b1 w1 m1 where recv: "goldfish_audio_buff_recv AUD_read b avail w m = Inr (n, b1, w1, m1)" and p: "in_progress rec b w b1 w1"
    using buff_recv_ok [OF assms(1) less.prems(1), of avail w m] by blast
  have zero: "b1 = b" if "n = 0"
    using recv that by (auto simp: goldfish_audio_buff_recv_def Let_def case_prod_unfold split: if_splits)
  have refl: "in_progress rec b w b w" using less.prems(1) by (simp add: in_progress_def)
  consider "avail = 0" | "avail > 0" "n = 0" | "avail > 0" "n \<noteq> 0" "goldfish_audio_buff_available b1 = 0"
    | "avail > 0" "n \<noteq> 0" "goldfish_audio_buff_available b1 \<noteq> 0" by blast
  then show ?case
  proof cases
    case 4
    then have eq: "audio_in_loop AUD_read avail b w m = audio_in_loop AUD_read (avail - n) b1 w1 m1"
      using recv by (subst audio_in_loop.simps) simp
    have "in_ok b1" using p by (simp add: in_progress_def)
    then show ?thesis
      unfolding eq using less.IH [of "avail - n" b1 w1 m1] 4 in_progress_trans [OF p] by fastforce
  qed (subst audio_in_loop.simps, use recv p refl zero less.prems in auto)+
qed

lemma bit_4_2: "bit (4::u32) 2"
  by (simp add: bit_iff_odd)

lemma in_write_full:
  assumes "in_ok b" "goldfish_audio_buff_available b = 0"
  shows "cpu_physical_memory_read (goldfish_audio_buff_write b m) (ab_address b) (unat (ab_length b)) = in_got b"
proof -
  have "ab_offset b = ab_length b" using assms(2) by (simp add: goldfish_audio_buff_available_def)
  moreover have "length (take (unat (ab_length b)) (ab_data b)) = unat (ab_length b)" using assms(1) by (simp add: in_ok_def)
  moreover have "unat (ab_length b) < 2 ^ 64" using assms(1) by (simp add: in_ok_def)
  ultimately show ?thesis
    using phys_read_write [of "take (unat (ab_length b)) (ab_data b)" m "ab_address b"]
    by (simp add: goldfish_audio_buff_write_def in_got_def)
qed

text \<open>
  C30: The input callback returns, and what it adds to the input buffer is exactly what the host's voice
  gave, in order. It reports a full buffer when it fills it; and once the buffer is full, reading the
  available-bytes register leaves the whole recording in the guest's memory at the buffer's address.
\<close>

theorem audio_recording:
  fixes AUD_read :: "'w \<Rightarrow> nat \<Rightarrow> bytes \<times> 'w" and s :: "('v, 'w) goldfish_audio_state"
  assumes "AUD_read_ok rec AUD_read" "in_ok (au_in_buff s)" "au_voicein s = Some w"
  shows "\<exists>s' ls m' w' got. goldfish_audio_in_callback AUD_read avail w s m = Inr (s', ls, m') \<and> in_ok (au_in_buff s') \<and>
    au_voicein s' = Some w' \<and> rec w' = rec w @ got \<and> in_got (au_in_buff s') = in_got (au_in_buff s) @ got \<and>
    (goldfish_audio_buff_available (au_in_buff s') = 0 \<longrightarrow>
      (goldfish_audio_buff_available (au_in_buff s) = 0 \<or> bit (au_int_status s') 2) \<and>
      (\<forall>m2. \<exists>m3. goldfish_audio_read 0x24 s' m2 = Inr (au_read_buffer_available s, [], m3) \<and>
        cpu_physical_memory_read m3 (ab_address (au_in_buff s)) (unat (ab_length (au_in_buff s))) = in_got (au_in_buff s')))"
proof (cases "goldfish_audio_buff_available (au_in_buff s) = 0")
  case True
  then show ?thesis
    using assms(2,3) in_write_full [OF assms(2) True]
    by (simp add: goldfish_audio_in_callback_def goldfish_audio_read_def)
next
  case False
  obtain full b w' m' where loop: "audio_in_loop AUD_read avail (au_in_buff s) w m = Inr (full, b, w', m')"
    and p: "in_progress rec (au_in_buff s) w b w'" and full: "full \<longleftrightarrow> goldfish_audio_buff_available b = 0"
    using audio_in_loop_ok [OF assms(1,2) False, of avail w m] by blast
  define st where "st = (if full then AUDIO_INT_READ_BUFFER_FULL else 0)"
  define s1 where "s1 = s\<lparr>au_in_buff := b, au_voicein := Some w'\<rparr>"
  define s' where "s' = fst (audio_new_status st s1)"
  have call: "goldfish_audio_in_callback AUD_read avail w s m = Inr (s', snd (audio_new_status st s1), m')"
    using False by (simp add: goldfish_audio_in_callback_def loop s'_def s1_def st_def case_prod_unfold Let_def)
  have sel: "au_in_buff s' = b" "au_voicein s' = Some w'" "au_int_status s' = au_int_status s OR st"
    "au_read_buffer_available s' = au_read_buffer_available s"
    by (simp_all add: s'_def s1_def audio_new_status_def Let_def)
  have bit: "full \<Longrightarrow> bit (au_int_status s') 2"
    by (simp add: sel(3) st_def dev_defs bit_or_iff bit_4_2)
  obtain got where got: "in_ok b" "ab_length b = ab_length (au_in_buff s)" "ab_address b = ab_address (au_in_buff s)"
    "in_got b = in_got (au_in_buff s) @ got" "rec w' = rec w @ got"
    using p by (auto simp: in_progress_def)
  show ?thesis
    using call sel bit full got(1,4,5) in_write_full [OF got(1)] unfolding got(2,3)
    by (intro exI [of _ s'] exI [of _ "snd (audio_new_status st s1)"] exI [of _ m'] exI [of _ w'] exI [of _ got])
      (simp add: goldfish_audio_read_def)
qed

definition list_source :: "bytes \<times> bytes \<Rightarrow> nat \<Rightarrow> bytes \<times> bytes \<times> bytes" where
  "list_source w n = (take n (snd w), fst w @ take n (snd w), drop n (snd w))"

definition audio_mic :: "(unit, bytes \<times> bytes) goldfish_audio_state" where
  "audio_mic = start_read (\<lambda>_. 0) (the (goldfish_audio_init False True None (Some ([], [7, 8, 9])))) 2"

theorem audio_recording_witness:
  "\<exists>s' ls m' w' got. goldfish_audio_in_callback list_source 9 ([], [7, 8, 9]) audio_mic (\<lambda>_. 0) = Inr (s', ls, m') \<and>
    in_got (au_in_buff s') = in_got (au_in_buff audio_mic) @ got \<and> fst w' = got"
proof -
  have ok: "AUD_read_ok fst list_source" by (auto simp: AUD_read_ok_def list_source_def)
  have mic: "in_ok (au_in_buff audio_mic)" "au_voicein audio_mic = Some ([], [7, 8, 9])"
    by (simp_all add: audio_mic_def start_read_def goldfish_audio_init_def goldfish_audio_buff_set_length_def
        goldfish_audio_buff_ensure_def goldfish_audio_buff_init_def in_ok_def)
  show ?thesis using audio_recording [OF ok mic, of 9 "\<lambda>_. 0"] by fastforce
qed

section \<open>Restoring\<close>

definition ab_enc :: "goldfish_audio_buff \<Rightarrow> bytes" where
  "ab_enc b = be64_bytes (ab_address b) @ be32_bytes (ab_length b) @ be32_bytes (ab_offset b) @ take (unat (ab_length b)) (ab_data b)"

definition ab_saved :: "goldfish_audio_buff \<Rightarrow> bool" where
  "ab_saved b \<longleftrightarrow> unat (ab_length b) \<le> length (ab_data b)"

text \<open>What loading makes of the buffer \<open>b0\<close> of the running device.\<close>

definition ab_restore :: "(nat \<Rightarrow> u8) \<Rightarrow> goldfish_audio_buff \<Rightarrow> goldfish_audio_buff \<Rightarrow> goldfish_audio_buff" where
  "ab_restore junk b0 b =
     (let b1 = goldfish_audio_buff_ensure junk (b0\<lparr>ab_address := ab_address b, ab_length := ab_length b, ab_offset := ab_offset b\<rparr>) (ab_length b)
      in b1\<lparr>ab_data := seg_write (ab_data b1) 0 (take (unat (ab_length b)) (ab_data b))\<rparr>)"

lemma buff_put_enc: "\<not> last_error f \<Longrightarrow> goldfish_audio_buff_put f b = f\<lparr>fbuf := fbuf f @ ab_enc b\<rparr>"
  by (simp add: goldfish_audio_buff_put_def ab_enc_def codec_put put_buffer_enc)

lemma buff_get_enc:
  assumes "ab_saved b" "fbuf f = ab_enc b @ rest"
  shows "goldfish_audio_buff_get junk 3 f b0 = (ab_restore junk b0 b, f\<lparr>fbuf := rest\<rparr>)"
proof -
  let ?d = "take (unat (ab_length b)) (ab_data b)"
  have "qemu_get_be64 f = (ab_address b, f\<lparr>fbuf := be32_bytes (ab_length b) @ be32_bytes (ab_offset b) @ ?d @ rest\<rparr>)"
    by (rule be64.get_enc) (simp add: assms(2) ab_enc_def)
  moreover have "qemu_get_buffer (f\<lparr>fbuf := ?d @ rest\<rparr>) (unat (ab_length b)) = (?d, f\<lparr>fbuf := rest\<rparr>)"
    using get_buffer_enc [of "f\<lparr>fbuf := ?d @ rest\<rparr>" ?d rest] assms(1) by (simp add: ab_saved_def)
  ultimately show ?thesis
    by (simp add: goldfish_audio_buff_get_def ab_restore_def be32.get_upd Let_def)
qed

lemma buff_get_upd:
  "ab_saved b \<Longrightarrow> goldfish_audio_buff_get junk 3 (f\<lparr>fbuf := ab_enc b @ rest\<rparr>) b0 = (ab_restore junk b0 b, f\<lparr>fbuf := rest\<rparr>)"
  using buff_get_enc [of b "f\<lparr>fbuf := ab_enc b @ rest\<rparr>" rest junk b0] by simp

definition audio_restore :: "(nat \<Rightarrow> u8) \<Rightarrow> ('v, 'w) goldfish_audio_state \<Rightarrow> ('v, 'w) goldfish_audio_state \<Rightarrow> ('v, 'w) goldfish_audio_state" where
  "audio_restore junk s0 s = audio_reactivate
     (s0\<lparr>au_int_status := au_int_status s, au_int_enable := au_int_enable s, au_read_buffer_available := au_read_buffer_available s,
         au_current_buffer := au_current_buffer s, au_out_buff1 := ab_restore junk (au_out_buff1 s0) (au_out_buff1 s),
         au_out_buff2 := ab_restore junk (au_out_buff2 s0) (au_out_buff2 s), au_in_buff := ab_restore junk (au_in_buff s0) (au_in_buff s)\<rparr>)"

definition audio_values :: "('v, 'w) goldfish_audio_state \<Rightarrow> qvalue list" where
  "audio_values s = map QInt32 [au_int_status s, au_int_enable s, au_read_buffer_available s, au_current_buffer s]"

definition audio_enc :: "('v, 'w) goldfish_audio_state \<Rightarrow> bytes" where
  "audio_enc s = concat (map qvalue_bytes (audio_values s)) @ ab_enc (au_out_buff1 s) @ ab_enc (au_out_buff2 s) @ ab_enc (au_in_buff s)"

definition audio_saved :: "('v, 'w) goldfish_audio_state \<Rightarrow> bool" where
  "audio_saved s \<longleftrightarrow> ab_saved (au_out_buff1 s) \<and> ab_saved (au_out_buff2 s) \<and> ab_saved (au_in_buff s)"

definition audio_load :: "(nat \<Rightarrow> u8) \<Rightarrow> QEMUFile \<Rightarrow> ('v, 'w) goldfish_audio_state \<Rightarrow> int \<Rightarrow> (int \<times> ('v, 'w) goldfish_audio_state \<times> QEMUFile) outcome" where
  "audio_load junk f s v = (let (r, s', f', ls) = audio_state_load junk f s v in Inr (r, s', f'))"

interpretation audio_snap: snapshot_device audio_state_save "audio_load junk" 3 "\<lambda>v. v = 3 \<or> v = 2"
  audio_enc "audio_restore junk" audio_saved
proof
  fix s s0 :: "('a, 'b) goldfish_audio_state" and f :: QEMUFile and rest
  assume ok: "audio_saved s" and f: "fbuf f = audio_enc s @ rest"
  let ?r3 = "ab_enc (au_in_buff s) @ rest" let ?r2 = "ab_enc (au_out_buff2 s) @ ?r3" let ?r1 = "ab_enc (au_out_buff1 s) @ ?r2"
  have "map qvalue_field (audio_values s) = audio_state_fields"
    by (simp add: audio_values_def audio_state_fields_def numeral_eq_Suc)
  then have get: "qemu_get_struct f audio_state_fields = (Some (audio_values s), f\<lparr>fbuf := ?r1\<rparr>)"
    using get_struct_bytes [of f "audio_values s" ?r1] f by (simp add: audio_enc_def)
  have bufs: "goldfish_audio_buff_get junk 3 (f\<lparr>fbuf := ?r1\<rparr>) b = (ab_restore junk b (au_out_buff1 s), f\<lparr>fbuf := ?r2\<rparr>)"
    "goldfish_audio_buff_get junk 3 (f\<lparr>fbuf := ?r2\<rparr>) b = (ab_restore junk b (au_out_buff2 s), f\<lparr>fbuf := ?r3\<rparr>)"
    "goldfish_audio_buff_get junk 3 (f\<lparr>fbuf := ?r3\<rparr>) b = (ab_restore junk b (au_in_buff s), f\<lparr>fbuf := rest\<rparr>)" for b
    using ok by (simp_all add: audio_saved_def buff_get_upd)
  show "audio_load junk f s0 3 = Inr (0, audio_restore junk s0 s, f\<lparr>fbuf := rest\<rparr>)"
    unfolding audio_load_def audio_state_load_def get
    by (simp add: audio_values_def bufs audio_restore_def Let_def)
qed (simp_all add: audio_state_save_def audio_enc_def audio_values_def codec_put buff_put_enc audio_load_def audio_state_load_def)

text \<open>A buffer of which nothing has been played comes back with the bytes it had to play.\<close>

lemma ab_restore_unplayed:
  "ab_ok b \<Longrightarrow> ab_offset b = 0 \<Longrightarrow> ab_rem (ab_restore junk b0 b) = ab_rem b"
  by (auto simp: ab_restore_def goldfish_audio_buff_ensure_def ab_rem_def ab_ok_def seg_write_def seg_read_def)

text \<open>
  C40: The snapshot of a partly played output buffer is wrong: the bytes saved are the first ones, already
  played, not those that remain. Restored in a newly started emulator, the buffer's data end before the
  bytes it has to play, so that sending them reads outside the buffer.
\<close>

theorem audio_snapshot_partly_played:
  assumes "ab_ok b" "ab_offset b \<noteq> 0" "ab_length b \<noteq> 0" "unat (ab_length b) \<le> free" "\<not> last_error f" "fbuf f = []"
  shows "\<exists>b'. goldfish_audio_buff_get junk 3 (goldfish_audio_buff_put f b) goldfish_audio_buff_init = (b', f) \<and>
    goldfish_audio_buff_send AUD_write b' free v = Inl Undefined_behaviour"
proof -
  have "goldfish_audio_buff_get junk 3 (goldfish_audio_buff_put f b) goldfish_audio_buff_init
      = (ab_restore junk goldfish_audio_buff_init b, f)"
    using buff_get_enc [of b "goldfish_audio_buff_put f b" "[]" junk goldfish_audio_buff_init] assms(1,5,6)
    by (simp add: buff_put_enc ab_saved_def ab_ok_def)
  moreover have "0 < unat (ab_offset b)" "0 < unat (ab_length b)" using assms(2,3) by (simp_all add: unat_gt_0)
  then have "goldfish_audio_buff_send AUD_write (ab_restore junk goldfish_audio_buff_init b) free v = Inl Undefined_behaviour"
    using assms(1,4) by (auto simp: goldfish_audio_buff_send_def ab_restore_def goldfish_audio_buff_ensure_def
        goldfish_audio_buff_init_def ab_ok_def seg_write_def Let_def min_def)
  ultimately show ?thesis by blast
qed

theorem audio_snapshot_partly_played_witness:
  "\<exists>b'. goldfish_audio_buff_get (\<lambda>_. 0) 3 (goldfish_audio_buff_put \<lparr>fbuf = [], last_error = False\<rparr>
      \<lparr>ab_address = 0, ab_length = 2, ab_data = [1, 2, 3], ab_offset = 1\<rparr>) goldfish_audio_buff_init = (b', \<lparr>fbuf = [], last_error = False\<rparr>) \<and>
    goldfish_audio_buff_send list_voice b' 8 [] = Inl Undefined_behaviour"
  by (rule audio_snapshot_partly_played) (simp_all add: ab_ok_def)

end
