(* ===== verification/Goldfish_Fb.thy ===== *)
theory Goldfish_Fb
  imports Guest_Memory Qemu_File Irq
begin

unbundle bit_operations_syntax

text \<open>
  The frame buffer, \<open>hw/android/goldfish/fb.c\<close>, with the unrolled loops of \<open>android/utils/duff.h\<close> and the dirty
  bits of \<open>include/exec/ram_addr.h\<close>.

  The frame buffer is guest memory at \<open>fb_base\<close>; the display surface is a byte array of the host. Host
  and guest have the same byte order. The bitmap of dirty pages is a function from page numbers;
  \<open>dpy_update\<close> and \<open>dpy_resize\<close>, which tell the user interface, are output events. What the softmmu
  does to set dirty bits again is not modelled. Memory has a byte at every address; that
  \<open>qemu_get_ram_ptr\<close> aborts for a frame buffer outside RAM is not modelled.
\<close>

section \<open>Unrolled loops\<close>

text \<open>A statement gives the new state and whether it executed \<open>break\<close>.\<close>

primrec duff_stmts :: "('s \<Rightarrow> bool \<times> 's) \<Rightarrow> nat \<Rightarrow> 's \<Rightarrow> bool \<times> 's" where
  "duff_stmts f 0 s = (False, s)"
| "duff_stmts f (Suc n) s = (let (brk, s1) = f s in if brk then (True, s1) else duff_stmts f n s1)"

primrec duff_passes :: "('s \<Rightarrow> bool \<times> 's) \<Rightarrow> nat \<Rightarrow> 's \<Rightarrow> bool \<times> 's" where
  "duff_passes f 0 s = (False, s)"
| "duff_passes f (Suc n) s = (let (brk, s1) = duff_stmts f 4 s in if brk then (True, s1) else duff_passes f n s1)"

definition DUFF4 :: "nat \<Rightarrow> ('s \<Rightarrow> bool \<times> 's) \<Rightarrow> 's \<Rightarrow> 's" where
  "DUFF4 count f s =
     (let n = (count + 3) div 4; (brk, s1) = duff_stmts f (if count mod 4 = 0 then 4 else count mod 4) s
      in if brk then s1 else snd (duff_passes f (n - 1) s1))"

section \<open>Dirty pages\<close>

type_synonym dirty = "nat \<Rightarrow> bool"

abbreviation TARGET_PAGE_SIZE :: nat where
  "TARGET_PAGE_SIZE \<equiv> 1024"

definition dirty_end :: "nat \<Rightarrow> nat \<Rightarrow> nat" where
  "dirty_end start len = (start + len + TARGET_PAGE_SIZE - 1) div TARGET_PAGE_SIZE"

definition cpu_physical_memory_get_dirty :: "dirty \<Rightarrow> nat \<Rightarrow> nat \<Rightarrow> bool" where
  "cpu_physical_memory_get_dirty d start len = list_ex d [start div TARGET_PAGE_SIZE..<dirty_end start len]"

definition cpu_physical_memory_reset_dirty :: "dirty \<Rightarrow> nat \<Rightarrow> nat \<Rightarrow> dirty" where
  "cpu_physical_memory_reset_dirty d start len =
     (if len = 0 then d else (\<lambda>p. if start div TARGET_PAGE_SIZE \<le> p \<and> p < dirty_end start len then False else d p))"

section \<open>State\<close>

record PixelFormat =
  pf_bits_per_pixel :: u8
  pf_bytes_per_pixel :: u8
  pf_rmask :: u32
  pf_gmask :: u32
  pf_bmask :: u32
  pf_amask :: u32

record DisplaySurface =
  ds_width :: nat
  ds_height :: nat
  ds_linesize :: nat
  ds_data :: bytes
  ds_pf :: PixelFormat

record goldfish_fb_state =
  fb_ds :: DisplaySurface
  fb_pixel_format :: int
  fb_bytes_per_pixel :: nat
  fb_fb_base :: u32
  fb_base_valid :: bool
  fb_need_update :: bool
  fb_need_int :: bool
  fb_set_rotation :: "2 word"
  fb_blank :: bool
  fb_int_status :: u32
  fb_int_enable :: u32
  fb_rotation :: u32
  fb_dpi :: u32

definition FB_INT_VSYNC :: u32 where [dev_defs]: "FB_INT_VSYNC = 1"
definition FB_INT_BASE_UPDATE_DONE :: u32 where [dev_defs]: "FB_INT_BASE_UPDATE_DONE = 2"

datatype dpy = Dpy_update int int int int | Dpy_resize

section \<open>Snapshots\<close>

definition fb_bit :: "bool \<Rightarrow> u32" where
  "fb_bit b = (if b then 1 else 0)"

definition goldfish_fb_save :: "QEMUFile \<Rightarrow> goldfish_fb_state \<Rightarrow> QEMUFile" where
  "goldfish_fb_save f s =
     (let f = qemu_put_be32 f (of_nat (ds_width (fb_ds s)));
          f = qemu_put_be32 f (of_nat (ds_height (fb_ds s)));
          f = qemu_put_be32 f (of_nat (ds_linesize (fb_ds s)));
          f = qemu_put_byte f 0;
          f = qemu_put_be32 f (fb_fb_base s);
          f = qemu_put_byte f (fb_bit (fb_base_valid s));
          f = qemu_put_byte f (fb_bit (fb_need_update s));
          f = qemu_put_byte f (fb_bit (fb_need_int s));
          f = qemu_put_byte f (ucast (fb_set_rotation s));
          f = qemu_put_byte f (fb_bit (fb_blank s));
          f = qemu_put_be32 f (fb_int_status s);
          f = qemu_put_be32 f (fb_int_enable s);
          f = qemu_put_be32 f (fb_rotation s)
      in qemu_put_be32 f (fb_dpi s))"

text \<open>A value stored in a member of one bit keeps its lowest bit.\<close>

definition goldfish_fb_load :: "QEMUFile \<Rightarrow> goldfish_fb_state \<Rightarrow> int \<Rightarrow> int \<times> goldfish_fb_state \<times> QEMUFile" where
  "goldfish_fb_load f s version_id =
     (if version_id \<noteq> 2 then (-1, s, f)
      else
        let (w, f) = qemu_get_be32 f; (h, f) = qemu_get_be32 f; (pitch, f) = qemu_get_be32 f; (rot, f) = qemu_get_byte f in
        if w \<noteq> of_nat (ds_width (fb_ds s)) \<or> h \<noteq> of_nat (ds_height (fb_ds s)) \<or> pitch \<noteq> of_nat (ds_linesize (fb_ds s)) \<or> rot \<noteq> 0
        then (-1, s, f)
        else
          let (base, f) = qemu_get_be32 f; (bv, f) = qemu_get_byte f; (nu, f) = qemu_get_byte f; (ni, f) = qemu_get_byte f;
              (sr, f) = qemu_get_byte f; (bl, f) = qemu_get_byte f; (st, f) = qemu_get_be32 f; (en, f) = qemu_get_be32 f;
              (ro, f) = qemu_get_be32 f; (dpi, f) = qemu_get_be32 f
          in (0, s\<lparr>fb_fb_base := base, fb_base_valid := odd bv, fb_need_update := True, fb_need_int := odd ni,
                   fb_set_rotation := ucast sr, fb_blank := odd bl, fb_int_status := st, fb_int_enable := en,
                   fb_rotation := ro, fb_dpi := dpi\<rparr>, f))"

section \<open>Pixel formats\<close>

record FbConfig =
  fbc_pixel_format :: int
  fbc_bits :: u8
  fbc_bytes :: u8
  fbc_rmask :: u32
  fbc_gmask :: u32
  fbc_bmask :: u32
  fbc_amask :: u32

definition HAL_PIXEL_FORMAT_RGBA_8888 :: int where [dev_defs]: "HAL_PIXEL_FORMAT_RGBA_8888 = 1"
definition HAL_PIXEL_FORMAT_RGBX_8888 :: int where [dev_defs]: "HAL_PIXEL_FORMAT_RGBX_8888 = 2"
definition HAL_PIXEL_FORMAT_RGB_565 :: int where [dev_defs]: "HAL_PIXEL_FORMAT_RGB_565 = 4"

definition fb_configs :: "FbConfig list" where
  "fb_configs =
     [\<lparr>fbc_pixel_format = HAL_PIXEL_FORMAT_RGB_565, fbc_bits = 16, fbc_bytes = 2, fbc_rmask = 0xf800, fbc_gmask = 0x7e0, fbc_bmask = 0x1f, fbc_amask = 0\<rparr>,
      \<lparr>fbc_pixel_format = HAL_PIXEL_FORMAT_RGBX_8888, fbc_bits = 32, fbc_bytes = 4, fbc_rmask = 0xff0000, fbc_gmask = 0xff00, fbc_bmask = 0xff, fbc_amask = 0\<rparr>,
      \<lparr>fbc_pixel_format = HAL_PIXEL_FORMAT_RGBA_8888, fbc_bits = 32, fbc_bytes = 4, fbc_rmask = 0xff0000, fbc_gmask = 0xff00, fbc_bmask = 0xff, fbc_amask = 0xff000000\<rparr>]"

definition fb_config_matches :: "PixelFormat \<Rightarrow> FbConfig \<Rightarrow> bool" where
  "fb_config_matches pf c \<longleftrightarrow> pf_bits_per_pixel pf = fbc_bits c \<and> pf_bytes_per_pixel pf = fbc_bytes c \<and> pf_rmask pf = fbc_rmask c \<and>
     pf_gmask pf = fbc_gmask c \<and> pf_bmask pf = fbc_bmask c \<and> pf_amask pf = fbc_amask c"

definition goldfish_fb_get_pixel_format :: "goldfish_fb_state \<Rightarrow> (int \<times> goldfish_fb_state) outcome" where
  "goldfish_fb_get_pixel_format s =
     (if fb_pixel_format s \<ge> 0 then Inr (fb_pixel_format s, s)
      else
        let s1 = s\<lparr>fb_bytes_per_pixel := unat (pf_bytes_per_pixel (ds_pf (fb_ds s)))\<rparr> in
        case find (fb_config_matches (ds_pf (fb_ds s))) fb_configs of
          Some c \<Rightarrow> Inr (fbc_pixel_format c, s1\<lparr>fb_pixel_format := fbc_pixel_format c\<rparr>)
        | None \<Rightarrow> Inl Process_exit)"

definition goldfish_fb_get_bytes_per_pixel :: "goldfish_fb_state \<Rightarrow> (nat \<times> goldfish_fb_state) outcome" where
  "goldfish_fb_get_bytes_per_pixel s =
     obind (if fb_pixel_format s < 0 then obind (goldfish_fb_get_pixel_format s) (\<lambda>(_, s1). Inr s1) else Inr s)
       (\<lambda>s1. Inr (fb_bytes_per_pixel s1, s1))"

text \<open>
  \<open>(int)(0.5 + 25.4 * pixels / dpi)\<close> in exact arithmetic. For the density 165 that the device always has, the
  exact value is never within \<open>1/1650\<close> of the next integer, so that rounding in \<open>double\<close> does not matter.
\<close>

definition pixels_to_mm :: "nat \<Rightarrow> nat \<Rightarrow> nat" where
  "pixels_to_mm pixels dpi = (5 * dpi + 254 * pixels) div (10 * dpi)"

section \<open>The changed rectangle\<close>

record FbUpdateState =
  fbs_width :: nat
  fbs_height :: nat
  fbs_bytes_per_pixel :: nat
  fbs_src_pixels :: u64
  fbs_src_pitch :: nat
  fbs_dst_pitch :: nat

record FbUpdateRect =
  rect_xmin :: int
  rect_ymin :: int
  rect_xmax :: int
  rect_ymax :: int

definition fb_pixel :: "nat \<Rightarrow> bytes \<Rightarrow> nat \<Rightarrow> bytes" where
  "fb_pixel bpp line x = seg_read line (x * bpp) bpp"

text \<open>The first and the last pixel of a line that differ, copied with all between them; \<open>None\<close> when none does.\<close>

definition fb_line_copy :: "nat \<Rightarrow> nat \<Rightarrow> bytes \<Rightarrow> bytes \<Rightarrow> (nat \<times> nat \<times> bytes) option" where
  "fb_line_copy bpp width src dst =
     (let differ = (\<lambda>x. fb_pixel bpp src x \<noteq> fb_pixel bpp dst x);
          xx1 = DUFF4 width (\<lambda>x. if differ x then (True, x) else (False, x + 1)) 0
      in if xx1 = width then None
         else
           let xx2 = DUFF4 (width - 1 - xx1) (\<lambda>x. if differ x then (True, x) else (False, x - 1)) (width - 1)
           in Some (xx1, xx2, seg_write dst (xx1 * bpp) (seg_read src (xx1 * bpp) ((xx2 - xx1 + 1) * bpp))))"

definition fb_rect_add :: "nat \<Rightarrow> nat \<Rightarrow> nat \<Rightarrow> FbUpdateRect \<Rightarrow> FbUpdateRect" where
  "fb_rect_add xx1 xx2 yy r =
     r\<lparr>rect_xmin := min (int xx1) (rect_xmin r), rect_xmax := max (int xx2) (rect_xmax r),
       rect_ymin := min (int yy) (rect_ymin r), rect_ymax := max (int yy) (rect_ymax r)\<rparr>"

text \<open>One line of the loop; \<open>Inr None\<close> is the return for an unknown pixel size. A line outside the surface is a fault.\<close>

definition fb_update_line ::
    "FbUpdateState \<Rightarrow> u32 \<Rightarrow> dirty \<Rightarrow> ram \<Rightarrow> nat \<Rightarrow> bytes \<times> FbUpdateRect \<Rightarrow> (bytes \<times> FbUpdateRect) option outcome" where
  "fb_update_line fbs dirty_addr d m yy = (\<lambda>(dst, rect).
     let bpp = fbs_bytes_per_pixel fbs; width = fbs_width fbs; at = yy * fbs_dst_pitch fbs in
     if dirty_addr \<noteq> 0 \<and> \<not> cpu_physical_memory_get_dirty d (unat dirty_addr) (fbs_src_pitch fbs) then Inr (Some (dst, rect))
     else if bpp \<notin> {2, 3, 4} then Inr None
     else if width = 0 \<or> at + width * bpp > length dst then Inl Undefined_behaviour
     else
       let src_line = cpu_physical_memory_read m (fbs_src_pixels fbs + of_nat (yy * fbs_src_pitch fbs)) (width * bpp) in
       case fb_line_copy bpp width src_line (seg_read dst at (width * bpp)) of
         None \<Rightarrow> Inr (Some (dst, rect))
       | Some (xx1, xx2, line) \<Rightarrow> Inr (Some (seg_write dst at line, fb_rect_add xx1 xx2 yy rect)))"

fun fb_update_lines ::
    "FbUpdateState \<Rightarrow> u32 \<Rightarrow> dirty \<Rightarrow> ram \<Rightarrow> nat list \<Rightarrow> bytes \<times> FbUpdateRect \<Rightarrow> (bytes \<times> FbUpdateRect) option outcome" where
  "fb_update_lines fbs dirty_addr d m [] a = Inr (Some a)"
| "fb_update_lines fbs dirty_addr d m (yy # ys) a =
     (case fb_update_line fbs dirty_addr d m yy a of
        Inl e \<Rightarrow> Inl e
      | Inr None \<Rightarrow> Inr None
      | Inr (Some a1) \<Rightarrow> fb_update_lines fbs dirty_addr d m ys a1)"

definition fb_rect_empty :: FbUpdateRect where
  "fb_rect_empty = \<lparr>rect_xmin = 2147483647, rect_ymin = 2147483647, rect_xmax = -2147483648, rect_ymax = -2147483648\<rparr>"

text \<open>The new surface, the new dirty bits, and the rectangle when something changed.\<close>

definition compute_fb_update_rect_linear ::
    "FbUpdateState \<Rightarrow> u32 \<Rightarrow> dirty \<Rightarrow> ram \<Rightarrow> bytes \<Rightarrow> (bytes \<times> dirty \<times> FbUpdateRect option) outcome" where
  "compute_fb_update_rect_linear fbs dirty_base d m dst =
     (case fb_update_lines fbs dirty_base d m [0..<fbs_height fbs] (dst, fb_rect_empty) of
        Inl e \<Rightarrow> Inl e
      | Inr None \<Rightarrow> Inr (dst, d, None)
      | Inr (Some (dst', rect)) \<Rightarrow>
          if rect_ymin rect > rect_ymax rect then Inr (dst', d, None)
          else Inr (dst', cpu_physical_memory_reset_dirty d
                     (unat (dirty_base + of_int (rect_ymin rect * int (fbs_src_pitch fbs))))
                     (nat ((rect_ymax rect - rect_ymin rect + 1) * int (fbs_src_pitch fbs))), Some rect))"

section \<open>Handlers\<close>

definition fb_level :: "goldfish_fb_state \<Rightarrow> bool" where
  "fb_level s \<longleftrightarrow> fb_int_status s AND fb_int_enable s \<noteq> 0"

text \<open>The interrupts of a refresh, and whether the whole surface is to be compared.\<close>

definition fb_refresh_irq :: "goldfish_fb_state \<Rightarrow> goldfish_fb_state \<times> bool \<times> bool list" where
  "fb_refresh_irq s =
     (let (s1, l1) =
            (if fb_int_enable s AND FB_INT_VSYNC \<noteq> 0 \<and> fb_int_status s AND FB_INT_VSYNC = 0
             then (s\<lparr>fb_int_status := fb_int_status s OR FB_INT_VSYNC\<rparr>, [True]) else (s, []))
      in if fb_need_update s1 then
           let (s2, l2) =
                 (if fb_need_int s1 then
                    (s1\<lparr>fb_int_status := fb_int_status s1 OR FB_INT_BASE_UPDATE_DONE\<rparr>,
                     if fb_int_enable s1 AND FB_INT_BASE_UPDATE_DONE \<noteq> 0 then [True] else [])
                  else (s1, []))
           in (s2\<lparr>fb_need_int := False, fb_need_update := False\<rparr>, True, l1 @ l2)
         else (s1, False, l1))"

definition fb_update_state :: "nat \<Rightarrow> goldfish_fb_state \<Rightarrow> FbUpdateState" where
  "fb_update_state bpp s =
     \<lparr>fbs_width = ds_width (fb_ds s), fbs_height = ds_height (fb_ds s), fbs_bytes_per_pixel = bpp, fbs_src_pixels = ucast (fb_fb_base s),
      fbs_src_pitch = ds_width (fb_ds s) * unat (pf_bytes_per_pixel (ds_pf (fb_ds s))), fbs_dst_pitch = ds_linesize (fb_ds s)\<rparr>"

definition goldfish_fb_update_display ::
    "dirty \<Rightarrow> ram \<Rightarrow> goldfish_fb_state \<Rightarrow> (goldfish_fb_state \<times> bool list \<times> dirty \<times> dpy list) outcome" where
  "goldfish_fb_update_display d m s =
     (if fb_fb_base s = 0 then Inr (s, [], d, [])
      else
        let (s1, full_update, ls) = fb_refresh_irq s in
        obind (goldfish_fb_get_bytes_per_pixel s1) (\<lambda>(bpp, s2).
          let ds = fb_ds s2; n = ds_height ds * ds_linesize ds in
          if fb_blank s2 then
            if n > length (ds_data ds) then Inl Undefined_behaviour
            else Inr (s2\<lparr>fb_ds := ds\<lparr>ds_data := seg_write (ds_data ds) 0 (replicate n 0)\<rparr>\<rparr>, ls, d,
                      [Dpy_update 0 0 (int (ds_width ds)) (int (ds_height ds))])
          else
            obind (compute_fb_update_rect_linear (fb_update_state bpp s2) (if full_update then 0 else fb_fb_base s2) d m (ds_data ds))
              (\<lambda>(data, d', rect).
                Inr (s2\<lparr>fb_ds := ds\<lparr>ds_data := data\<rparr>\<rparr>, ls, d',
                     case rect of
                       None \<Rightarrow> []
                     | Some r \<Rightarrow> [Dpy_update (rect_xmin r) (rect_ymin r) (rect_xmax r + 1 - rect_xmin r) (rect_ymax r + 1 - rect_ymin r)]))))"

definition goldfish_fb_invalidate_display :: "goldfish_fb_state \<Rightarrow> goldfish_fb_state" where
  "goldfish_fb_invalidate_display s = s\<lparr>fb_need_update := True\<rparr>"

definition fb_phys :: "nat \<Rightarrow> goldfish_fb_state \<Rightarrow> u32 outcome" where
  "fb_phys pixels s = (if fb_dpi s = 0 then Inl Undefined_behaviour else Inr (of_nat (pixels_to_mm pixels (unat (fb_dpi s)))))"

definition goldfish_fb_read :: "u32 \<Rightarrow> goldfish_fb_state \<Rightarrow> (u32 \<times> goldfish_fb_state \<times> bool list) outcome" where
  "goldfish_fb_read offset s =
     (if offset = 0x00 then Inr (of_nat (ds_width (fb_ds s)), s, [])
      else if offset = 0x04 then Inr (of_nat (ds_height (fb_ds s)), s, [])
      else if offset = 0x08 then
        (let ret = fb_int_status s AND fb_int_enable s in
         if ret \<noteq> 0 then Inr (ret, s\<lparr>fb_int_status := fb_int_status s AND NOT ret\<rparr>, [False]) else Inr (ret, s, []))
      else if offset = 0x1c then obind (fb_phys (ds_width (fb_ds s)) s) (\<lambda>v. Inr (v, s, []))
      else if offset = 0x20 then obind (fb_phys (ds_height (fb_ds s)) s) (\<lambda>v. Inr (v, s, []))
      else if offset = 0x24 then obind (goldfish_fb_get_pixel_format s) (\<lambda>(v, s1). Inr (of_int v, s1, []))
      else Inl Cpu_abort)"

definition goldfish_fb_write :: "u32 \<Rightarrow> u32 \<Rightarrow> goldfish_fb_state \<Rightarrow> (goldfish_fb_state \<times> bool list \<times> dpy list) outcome" where
  "goldfish_fb_write offset val s =
     (if offset = 0x0c then (let s1 = s\<lparr>fb_int_enable := val\<rparr> in Inr (s1, [fb_level s1], []))
      else if offset = 0x10 then
        (let need_resize = (\<not> fb_base_valid s \<or> ucast (fb_set_rotation s) \<noteq> fb_rotation s);
             s1 = s\<lparr>fb_fb_base := val, fb_int_status := fb_int_status s AND NOT FB_INT_BASE_UPDATE_DONE, fb_need_update := True,
                    fb_need_int := True, fb_base_valid := True, fb_rotation := ucast (fb_set_rotation s)\<rparr>
         in Inr (s1, [fb_level s1], if need_resize then [Dpy_resize] else []))
      else if offset = 0x14 then Inr (s\<lparr>fb_set_rotation := ucast val\<rparr>, [], [])
      else if offset = 0x18 then Inr (s\<lparr>fb_blank := odd val, fb_need_update := True\<rparr>, [], [])
      else Inl Cpu_abort)"

definition goldfish_fb_init :: "DisplaySurface \<Rightarrow> goldfish_fb_state" where
  "goldfish_fb_init graphic_console_init =
     \<lparr>fb_ds = graphic_console_init, fb_pixel_format = -1, fb_bytes_per_pixel = 0, fb_fb_base = 0, fb_base_valid = False,
      fb_need_update = False, fb_need_int = False, fb_set_rotation = 0, fb_blank = False, fb_int_status = 0, fb_int_enable = 0,
      fb_rotation = 0, fb_dpi = 165\<rparr>"

end
