(* ===== verification/Fb_Update.thy ===== *)
theory Fb_Update
  imports Goldfish_Fb
begin

unbundle bit_operations_syntax

text \<open>
  What the frame buffer shows: the unrolled loops are plain loops, a line is copied as a whole, a full
  refresh makes the surface equal to the guest's frame buffer and reports the smallest rectangle of
  changed pixels, the interrupt line follows the registers, and snapshots are restored.
\<close>

section \<open>Unrolled loops are loops\<close>

lemma duff_stmts_add:
  "duff_stmts f (k + n) s = (let (brk, s1) = duff_stmts f k s in if brk then (True, s1) else duff_stmts f n s1)"
  by (induction k arbitrary: s) (auto simp: Let_def split: prod.splits)

lemma duff_passes_stmts: "duff_passes f n s = duff_stmts f (4 * n) s"
proof (induction n arbitrary: s)
  case (Suc n)
  have "duff_stmts f (4 * Suc n) s = duff_stmts f (4 + 4 * n) s" by simp
  then show ?case by (simp only: duff_stmts_add duff_passes.simps Suc.IH)
qed simp

lemma duff4_count: "0 < count \<Longrightarrow> (if count mod 4 = 0 then 4 else count mod 4) + 4 * ((count + 3) div 4 - 1) = (count::nat)"
proof -
  assume pos: "0 < count"
  define q r where "q = count div 4" and "r = count mod 4"
  have count: "count = 4 * q + r" "r < 4" by (simp_all add: q_def r_def)
  have "(count + 3) div 4 = (if r = 0 then q else q + 1)"
    using count(2) by (auto simp: count(1))
  then show ?thesis
    unfolding r_def [symmetric] using pos count by (cases q) auto
qed

text \<open>A count of zero runs the statement four times.\<close>

lemma DUFF4_loop: "DUFF4 count f s = snd (duff_stmts f (if count = 0 then 4 else count) s)"
proof -
  define k where "k = (if count mod 4 = 0 then 4 else count mod 4)"
  define n where "n = 4 * ((count + 3) div 4 - 1)"
  have kn: "(if count = 0 then 4 else count) = k + n"
    using duff4_count [of count] by (simp add: k_def n_def)
  have "DUFF4 count f s = (if fst (duff_stmts f k s) then snd (duff_stmts f k s) else snd (duff_stmts f n (snd (duff_stmts f k s))))"
    unfolding DUFF4_def duff_passes_stmts Let_def case_prod_unfold k_def [symmetric] n_def [symmetric] ..
  then show ?thesis unfolding kn duff_stmts_add Let_def case_prod_unfold by simp
qed

lemma scan_up:
  assumes "x = snd (duff_stmts (\<lambda>x. if P x then (True, x) else (False, x + 1)) n s)"
  shows "s \<le> x" "x \<le> s + n" "\<And>i. s \<le> i \<Longrightarrow> i < x \<Longrightarrow> \<not> P i" "x < s + n \<Longrightarrow> P (x::nat)"
proof -
  have "s \<le> x \<and> x \<le> s + n \<and> (\<forall>i. s \<le> i \<longrightarrow> i < x \<longrightarrow> \<not> P i) \<and> (x < s + n \<longrightarrow> P x)"
    using assms
  proof (induction n arbitrary: s)
    case (Suc n)
    show ?case
    proof (cases "P s")
      case True
      then have "x = s" using Suc.prems by simp
      then show ?thesis using True by simp
    next
      case False
      then have "x = snd (duff_stmts (\<lambda>x. if P x then (True, x) else (False, x + 1)) n (s + 1))" using Suc.prems by simp
      from Suc.IH [OF this] have ih: "s + 1 \<le> x" "x \<le> s + 1 + n" "\<And>i. s + 1 \<le> i \<Longrightarrow> i < x \<Longrightarrow> \<not> P i" "x < s + 1 + n \<longrightarrow> P x" by blast+
      have "\<not> P i" if "s \<le> i" "i < x" for i using that False ih(3) [of i] by (cases "i = s") simp_all
      then show ?thesis using ih(1,2,4) by simp
    qed
  qed simp
  then show "s \<le> x" "x \<le> s + n" "\<And>i. s \<le> i \<Longrightarrow> i < x \<Longrightarrow> \<not> P i" "x < s + n \<Longrightarrow> P x" by blast+
qed

lemma scan_down:
  assumes "x = snd (duff_stmts (\<lambda>x. if P x then (True, x) else (False, x - 1)) n (s::nat))" "P y" "y \<le> s" "s - y = n"
  shows "y \<le> x" "x \<le> s" "P x" "\<And>i. x < i \<Longrightarrow> i \<le> s \<Longrightarrow> \<not> P i"
proof -
  have "y \<le> x \<and> x \<le> s \<and> P x \<and> (\<forall>i. x < i \<longrightarrow> i \<le> s \<longrightarrow> \<not> P i)"
    using assms
  proof (induction n arbitrary: s)
    case (Suc n)
    show ?case
    proof (cases "P s")
      case True
      then have "x = s" using Suc.prems by simp
      then show ?thesis using True Suc.prems by simp
    next
      case False
      then have "x = snd (duff_stmts (\<lambda>x. if P x then (True, x) else (False, x - 1)) n (s - 1))" using Suc.prems by simp
      moreover have "y \<le> s - 1" "s - 1 - y = n" using Suc.prems by linarith+
      ultimately have ih: "y \<le> x" "x \<le> s - 1" "P x" "\<And>i. x < i \<Longrightarrow> i \<le> s - 1 \<Longrightarrow> \<not> P i"
        using Suc.IH [of "s - 1"] Suc.prems(2) by blast+
      have "\<not> P i" if "x < i" "i \<le> s" for i using that False ih(4) [of i] by (cases "i = s") simp_all
      then show ?thesis using ih(1-3) by simp
    qed
  qed simp
  then show "y \<le> x" "x \<le> s" "P x" "\<And>i. x < i \<Longrightarrow> i \<le> s \<Longrightarrow> \<not> P i" by blast+
qed

section \<open>A line\<close>

lemma fb_pixel_nth:
  assumes "length src = width * bpp" "length dst = width * bpp" "x < width" "fb_pixel bpp src x = fb_pixel bpp dst x" "j < bpp"
  shows "src ! (x * bpp + j) = dst ! (x * bpp + j)"
proof -
  have "x * bpp + bpp \<le> width * bpp" using assms(3) by (metis Suc_leI mult_Suc add.commute mult_le_mono1)
  then have "fb_pixel bpp src x ! j = src ! (x * bpp + j)" "fb_pixel bpp dst x ! j = dst ! (x * bpp + j)"
    unfolding fb_pixel_def using assms by (simp_all add: nth_seg_read)
  then show ?thesis using assms(4) by simp
qed

lemma fb_pixels_copied:
  assumes len: "length src = width * bpp" "length dst = width * bpp" and x: "xx1 \<le> xx2" "xx2 < width"
    and same: "\<And>x. x < width \<Longrightarrow> x < xx1 \<or> xx2 < x \<Longrightarrow> fb_pixel bpp src x = fb_pixel bpp dst x"
  shows "seg_write dst (xx1 * bpp) (seg_read src (xx1 * bpp) ((xx2 - xx1 + 1) * bpp)) = src"
proof -
  let ?n = "(xx2 - xx1 + 1) * bpp" and ?p = "xx1 * bpp"
  have "xx1 + (xx2 - xx1 + 1) \<le> width" using x by simp
  then have fit: "?p + ?n \<le> width * bpp" by (metis add_mult_distrib mult_le_mono1)
  have pn: "?p + ?n = (xx2 + 1) * bpp" using x by (metis add_mult_distrib add.assoc le_add_diff_inverse)
  show ?thesis
  proof (rule nth_equalityI)
    show "length (seg_write dst ?p (seg_read src ?p ?n)) = length src" using fit len by simp
    fix i
    assume "i < length (seg_write dst ?p (seg_read src ?p ?n))"
    then have i: "i < width * bpp" using fit len by simp
    then have b: "0 < bpp" by (cases bpp) auto
    have w: "i div bpp < width" using i by (simp add: less_mult_imp_div_less)
    have ij: "i = i div bpp * bpp + i mod bpp" by simp
    have inside: "?p \<le> i \<and> i < ?p + ?n \<longleftrightarrow> xx1 \<le> i div bpp \<and> i div bpp \<le> xx2"
      unfolding pn using b by (metis Suc_eq_plus1 div_less_iff_less_mult less_Suc_eq_le less_eq_div_iff_mult_less_eq)
    show "seg_write dst ?p (seg_read src ?p ?n) ! i = src ! i"
    proof (cases "?p \<le> i \<and> i < ?p + ?n")
      case True
      then have "seg_read src ?p ?n ! (i - ?p) = src ! (?p + (i - ?p))" using fit len by (intro nth_seg_read) auto
      then show ?thesis using True fit len i by (simp add: nth_seg_write)
    next
      case False
      then have "fb_pixel bpp src (i div bpp) = fb_pixel bpp dst (i div bpp)" using inside same [OF w] by linarith
      then have "src ! i = dst ! i" using fb_pixel_nth [OF len w] b ij by (metis mod_less_divisor)
      then show ?thesis using False fit len i by (auto simp: nth_seg_write)
    qed
  qed
qed

lemma fb_pixels_same:
  assumes len: "length src = width * bpp" "length dst = width * bpp"
    and same: "\<And>x. x < width \<Longrightarrow> fb_pixel bpp src x = fb_pixel bpp dst x"
  shows "src = dst"
proof (rule nth_equalityI)
  fix i
  assume "i < length src"
  then have "i < width * bpp" using len by simp
  then have "0 < bpp" "i div bpp < width" by (cases bpp; simp add: less_mult_imp_div_less)+
  then show "src ! i = dst ! i" using fb_pixel_nth [OF len, of "i div bpp" "i mod bpp"] same by simp
qed (simp add: len)

text \<open>What copying a line does.\<close>

lemma fb_line_copy_ok:
  assumes "0 < width" "length src = width * bpp" "length dst = width * bpp"
  shows "case fb_line_copy bpp width src dst of
      None \<Rightarrow> src = dst \<and> (\<forall>x < width. fb_pixel bpp src x = fb_pixel bpp dst x)
    | Some (xx1, xx2, line) \<Rightarrow> line = src \<and> xx1 \<le> xx2 \<and> xx2 < width \<and> fb_pixel bpp src xx1 \<noteq> fb_pixel bpp dst xx1 \<and>
        fb_pixel bpp src xx2 \<noteq> fb_pixel bpp dst xx2 \<and> (\<forall>x < width. fb_pixel bpp src x \<noteq> fb_pixel bpp dst x \<longrightarrow> xx1 \<le> x \<and> x \<le> xx2)"
proof -
  let ?P = "\<lambda>x. fb_pixel bpp src x \<noteq> fb_pixel bpp dst x"
  define xx1 where "xx1 = DUFF4 width (\<lambda>x. if ?P x then (True, x) else (False, x + 1)) 0"
  define xx2 where "xx2 = DUFF4 (width - 1 - xx1) (\<lambda>x. if ?P x then (True, x) else (False, x - 1)) (width - 1)"
  have x1: "xx1 = snd (duff_stmts (\<lambda>x. if ?P x then (True, x) else (False, x + 1)) width 0)"
    unfolding xx1_def DUFF4_loop using assms(1) by simp
  have up: "xx1 \<le> width" "\<And>i. i < xx1 \<Longrightarrow> \<not> ?P i" "xx1 < width \<Longrightarrow> ?P xx1"
    using scan_up [OF x1] by simp_all
  show ?thesis
  proof (cases "xx1 = width")
    case True
    then have "fb_line_copy bpp width src dst = None" by (simp add: fb_line_copy_def xx1_def)
    moreover have "\<forall>x < width. fb_pixel bpp src x = fb_pixel bpp dst x" using up(2) True by blast
    moreover from this have "src = dst" using fb_pixels_same [OF assms(2,3)] by blast
    ultimately show ?thesis by simp
  next
    case False
    have eq: "fb_line_copy bpp width src dst = Some (xx1, xx2, seg_write dst (xx1 * bpp) (seg_read src (xx1 * bpp) ((xx2 - xx1 + 1) * bpp)))"
      using False by (simp add: fb_line_copy_def xx1_def xx2_def Let_def)
    have P1: "?P xx1" "xx1 \<le> width - 1" using False up by auto
    have down: "xx1 \<le> xx2 \<and> xx2 \<le> width - 1 \<and> ?P xx2 \<and> (\<forall>i. xx2 < i \<longrightarrow> i \<le> width - 1 \<longrightarrow> \<not> ?P i)"
    proof (cases "width - 1 - xx1 = 0")
      case True
      then have "xx1 = width - 1" using P1(2) by simp
      then show ?thesis using P1(1) True by (simp add: xx2_def DUFF4_loop numeral_eq_Suc)
    next
      case False
      then have "xx2 = snd (duff_stmts (\<lambda>x. if ?P x then (True, x) else (False, x - 1)) (width - 1 - xx1) (width - 1))"
        by (simp add: xx2_def DUFF4_loop)
      from scan_down [OF this P1 refl] show ?thesis by blast
    qed
    have "xx2 < width" using down assms(1) by linarith
    moreover have "\<not> ?P i" if "xx2 < i" "i < width" for i using down that by (metis Suc_leI add_le_imp_le_diff Suc_eq_plus1)
    ultimately have down: "xx1 \<le> xx2" "xx2 < width" "?P xx2" "\<And>i. xx2 < i \<Longrightarrow> i < width \<Longrightarrow> \<not> ?P i" using down by blast+
    have "seg_write dst (xx1 * bpp) (seg_read src (xx1 * bpp) ((xx2 - xx1 + 1) * bpp)) = src"
      using fb_pixels_copied [OF assms(2,3) down(1,2)] up(2) down(4) by blast
    moreover have "xx1 \<le> x \<and> x \<le> xx2" if "x < width" "?P x" for x
      using that up(2) [of x] down(4) [of x] by (metis not_less)
    ultimately show ?thesis unfolding eq using P1(1) down(1-3) by simp
  qed
qed

section \<open>The surface\<close>

text \<open>
  The geometry of a refresh: lines do not overlap on the surface and lie inside it. \<open>fb_guest_line\<close> is a line of
  the frame buffer, \<open>fb_shown n\<close> the surface \<open>dst\<close> with the first \<open>n\<close> lines replaced by those of the guest.
\<close>

definition fbs_ok :: "FbUpdateState \<Rightarrow> bytes \<Rightarrow> bool" where
  "fbs_ok fbs dst \<longleftrightarrow> 0 < fbs_width fbs \<and> fbs_width fbs < 2 ^ 31 \<and> fbs_height fbs < 2 ^ 31 \<and> fbs_bytes_per_pixel fbs \<in> {2, 3, 4} \<and>
     fbs_width fbs * fbs_bytes_per_pixel fbs \<le> fbs_dst_pitch fbs \<and> fbs_height fbs * fbs_dst_pitch fbs \<le> length dst"

definition fb_row :: "FbUpdateState \<Rightarrow> nat" where
  "fb_row fbs = fbs_width fbs * fbs_bytes_per_pixel fbs"

definition fb_guest_line :: "FbUpdateState \<Rightarrow> ram \<Rightarrow> nat \<Rightarrow> bytes" where
  "fb_guest_line fbs m yy = cpu_physical_memory_read m (fbs_src_pixels fbs + of_nat (yy * fbs_src_pitch fbs)) (fb_row fbs)"

definition fb_surface_line :: "FbUpdateState \<Rightarrow> bytes \<Rightarrow> nat \<Rightarrow> bytes" where
  "fb_surface_line fbs dst yy = seg_read dst (yy * fbs_dst_pitch fbs) (fb_row fbs)"

definition fb_shown :: "FbUpdateState \<Rightarrow> ram \<Rightarrow> nat \<Rightarrow> bytes \<Rightarrow> bytes" where
  "fb_shown fbs m n dst =
     map (\<lambda>i. let yy = i div fbs_dst_pitch fbs; x = i mod fbs_dst_pitch fbs
              in if yy < n \<and> x < fb_row fbs then fb_guest_line fbs m yy ! x else dst ! i) [0..<length dst]"

lemma length_fb_lines [simp]:
  "length (fb_guest_line fbs m yy) = fb_row fbs" "length (fb_shown fbs m n dst) = length dst"
  by (simp_all add: fb_guest_line_def fb_shown_def)

lemma fb_line_fits:
  assumes "fbs_ok fbs dst" "yy < fbs_height fbs"
  shows "yy * fbs_dst_pitch fbs + fb_row fbs \<le> length dst" "fb_row fbs \<le> fbs_dst_pitch fbs" "0 < fb_row fbs"
    "length (fb_surface_line fbs dst yy) = fb_row fbs"
proof -
  have row: "fb_row fbs \<le> fbs_dst_pitch fbs" "fbs_height fbs * fbs_dst_pitch fbs \<le> length dst"
    using assms(1) by (simp_all add: fbs_ok_def fb_row_def)
  have "Suc yy * fbs_dst_pitch fbs \<le> fbs_height fbs * fbs_dst_pitch fbs" using assms(2) by (intro mult_le_mono1) simp
  then show fit: "yy * fbs_dst_pitch fbs + fb_row fbs \<le> length dst" using row by simp
  then show "length (fb_surface_line fbs dst yy) = fb_row fbs" by (simp add: fb_surface_line_def)
  show "fb_row fbs \<le> fbs_dst_pitch fbs" by (fact row(1))
  show "0 < fb_row fbs" using assms(1) by (auto simp: fbs_ok_def fb_row_def)
qed

lemma line_div:
  assumes "row \<le> pitch" "0 < (row::nat)"
  shows "n * pitch \<le> i \<and> i < n * pitch + row \<longleftrightarrow> i div pitch = n \<and> i mod pitch < row"
proof
  assume i: "n * pitch \<le> i \<and> i < n * pitch + row"
  then have "i = n * pitch + (i - n * pitch)" "i - n * pitch < pitch" using assms by auto
  then have "i div pitch = n" "i mod pitch = i - n * pitch"
    by (metis add.commute add.right_neutral div_less div_mult_self3 assms(1,2) le_zero_eq neq0_conv, metis mod_less mod_mult_self3)
  moreover have "i - n * pitch < row" using i assms(2) by linarith
  ultimately show "i div pitch = n \<and> i mod pitch < row" by simp
next
  assume "i div pitch = n \<and> i mod pitch < row"
  then show "n * pitch \<le> i \<and> i < n * pitch + row" by (metis div_mult_mod_eq le_add1 nat_add_left_cancel_less)
qed

lemma fb_shown_0 [simp]: "fb_shown fbs m 0 dst = dst"
  by (rule nth_equalityI) (simp_all add: fb_shown_def)

lemma fb_shown_line:
  assumes "fbs_ok fbs dst" "n < fbs_height fbs"
  shows "fb_surface_line fbs (fb_shown fbs m n dst) n = fb_surface_line fbs dst n"
proof (rule nth_equalityI)
  note fit = fb_line_fits [OF assms]
  have len: "length (fb_surface_line fbs (fb_shown fbs m n dst) n) = fb_row fbs" using fit(1) by (simp add: fb_surface_line_def)
  then show "length (fb_surface_line fbs (fb_shown fbs m n dst) n) = length (fb_surface_line fbs dst n)" using fit(4) by simp
  fix x
  assume "x < length (fb_surface_line fbs (fb_shown fbs m n dst) n)"
  then have x: "x < fb_row fbs" using len by simp
  then have "(n * fbs_dst_pitch fbs + x) div fbs_dst_pitch fbs = n"
    using line_div [OF fit(2,3), of n "n * fbs_dst_pitch fbs + x"] by simp
  then show "fb_surface_line fbs (fb_shown fbs m n dst) n ! x = fb_surface_line fbs dst n ! x"
    using x fit(1) by (simp add: fb_surface_line_def nth_seg_read fb_shown_def Let_def)
qed

lemma fb_shown_Suc:
  assumes "fbs_ok fbs dst" "n < fbs_height fbs"
  shows "seg_write (fb_shown fbs m n dst) (n * fbs_dst_pitch fbs) (fb_guest_line fbs m n) = fb_shown fbs m (Suc n) dst"
proof (rule nth_equalityI)
  note fit = fb_line_fits [OF assms]
  show "length (seg_write (fb_shown fbs m n dst) (n * fbs_dst_pitch fbs) (fb_guest_line fbs m n)) = length (fb_shown fbs m (Suc n) dst)"
    using fit(1) by simp
  fix i
  assume "i < length (seg_write (fb_shown fbs m n dst) (n * fbs_dst_pitch fbs) (fb_guest_line fbs m n))"
  then have i: "i < length dst" using fit(1) by simp
  note ld = line_div [OF fit(2,3), of n i]
  show "seg_write (fb_shown fbs m n dst) (n * fbs_dst_pitch fbs) (fb_guest_line fbs m n) ! i = fb_shown fbs m (Suc n) dst ! i"
  proof (cases "n * fbs_dst_pitch fbs \<le> i \<and> i < n * fbs_dst_pitch fbs + fb_row fbs")
    case True
    then have d: "i div fbs_dst_pitch fbs = n" "i mod fbs_dst_pitch fbs < fb_row fbs" using ld by blast+
    have "i mod fbs_dst_pitch fbs = i - n * fbs_dst_pitch fbs" using d(1) by (metis minus_div_mult_eq_mod)
    then show ?thesis using True d i fit(1) by (simp add: nth_seg_write fb_shown_def)
  next
    case False
    then have "\<not> (i div fbs_dst_pitch fbs = n \<and> i mod fbs_dst_pitch fbs < fb_row fbs)" using ld by blast
    then show ?thesis using False i fit(1) by (auto simp: nth_seg_write fb_shown_def Let_def less_Suc_eq)
  qed
qed

section \<open>The rectangle\<close>

text \<open>The pixels of the first \<open>n\<close> lines that differ, and the smallest rectangle around a set of pixels.\<close>

definition fb_changed :: "FbUpdateState \<Rightarrow> ram \<Rightarrow> bytes \<Rightarrow> nat \<Rightarrow> (nat \<times> nat) set" where
  "fb_changed fbs m dst n = {(x, y). y < n \<and> x < fbs_width fbs \<and>
     fb_pixel (fbs_bytes_per_pixel fbs) (fb_guest_line fbs m y) x \<noteq> fb_pixel (fbs_bytes_per_pixel fbs) (fb_surface_line fbs dst y) x}"

definition is_min :: "int \<Rightarrow> int set \<Rightarrow> bool" where
  "is_min a A \<longleftrightarrow> a \<in> A \<and> (\<forall>x \<in> A. a \<le> x)"

definition is_max :: "int \<Rightarrow> int set \<Rightarrow> bool" where
  "is_max a A \<longleftrightarrow> a \<in> A \<and> (\<forall>x \<in> A. x \<le> a)"

lemma is_min_Un: "is_min a A \<Longrightarrow> is_min b B \<Longrightarrow> is_min (min b a) (A \<union> B)"
  by (auto simp: is_min_def min_def)

lemma is_max_Un: "is_max a A \<Longrightarrow> is_max b B \<Longrightarrow> is_max (max b a) (A \<union> B)"
  by (auto simp: is_max_def max_def)

definition rect_around :: "FbUpdateRect \<Rightarrow> (nat \<times> nat) set \<Rightarrow> bool" where
  "rect_around r C \<longleftrightarrow> is_min (rect_xmin r) ((int \<circ> fst) ` C) \<and> is_max (rect_xmax r) ((int \<circ> fst) ` C) \<and>
     is_min (rect_ymin r) ((int \<circ> snd) ` C) \<and> is_max (rect_ymax r) ((int \<circ> snd) ` C)"

definition rect_of :: "FbUpdateRect \<Rightarrow> (nat \<times> nat) set \<Rightarrow> bool" where
  "rect_of r C \<longleftrightarrow> (if C = {} then r = fb_rect_empty else rect_around r C)"

lemma rect_of_nonempty:
  assumes "rect_of r C"
  shows "rect_ymin r \<le> rect_ymax r \<longleftrightarrow> C \<noteq> {}"
proof (cases "C = {}")
  case False
  then have "rect_around r C" using assms by (simp add: rect_of_def)
  then have "rect_ymin r \<le> rect_ymax r" by (auto simp: rect_around_def is_min_def is_max_def)
  then show ?thesis using False by simp
qed (use assms in \<open>simp add: rect_of_def fb_rect_empty_def\<close>)

lemma rect_line_around:
  assumes "(xx1, yy) \<in> L" "(xx2, yy) \<in> L" "\<And>x y. (x, y) \<in> L \<Longrightarrow> y = yy \<and> xx1 \<le> x \<and> x \<le> xx2"
  shows "rect_around \<lparr>rect_xmin = int xx1, rect_ymin = int yy, rect_xmax = int xx2, rect_ymax = int yy\<rparr> L"
proof -
  have "int xx1 \<in> (int \<circ> fst) ` L" "int xx2 \<in> (int \<circ> fst) ` L" "int yy \<in> (int \<circ> snd) ` L"
    using imageI [OF assms(1), of "int \<circ> fst"] imageI [OF assms(2), of "int \<circ> fst"] imageI [OF assms(1), of "int \<circ> snd"] by simp_all
  moreover have "\<forall>x \<in> (int \<circ> fst) ` L. int xx1 \<le> x \<and> x \<le> int xx2" "\<forall>y \<in> (int \<circ> snd) ` L. y = int yy"
    using assms(3) by (force, force)
  ultimately show ?thesis by (simp add: rect_around_def is_min_def is_max_def)
qed

lemma rect_add_around:
  assumes "rect_of r C" "(xx1, yy) \<in> L" "(xx2, yy) \<in> L" "\<And>x y. (x, y) \<in> L \<Longrightarrow> y = yy \<and> xx1 \<le> x \<and> x \<le> xx2" "xx2 < 2 ^ 31" "yy < 2 ^ 31"
  shows "rect_of (fb_rect_add xx1 xx2 yy r) (C \<union> L)"
proof -
  note L = rect_line_around [OF assms(2-4)]
  have x: "xx1 \<le> xx2" using assms(4) [OF assms(3)] by simp
  have "rect_around (fb_rect_add xx1 xx2 yy r) (C \<union> L)"
  proof (cases "C = {}")
    case True
    then have "r = fb_rect_empty" using assms(1) by (simp add: rect_of_def)
    then have "fb_rect_add xx1 xx2 yy r = \<lparr>rect_xmin = int xx1, rect_ymin = int yy, rect_xmax = int xx2, rect_ymax = int yy\<rparr>"
      using assms(5,6) x by (simp add: fb_rect_add_def fb_rect_empty_def)
    then show ?thesis using True L by simp
  next
    case False
    then have "rect_around r C" using assms(1) by (simp add: rect_of_def)
    then show ?thesis
      using L unfolding rect_around_def image_Un fb_rect_add_def by (simp add: is_min_Un is_max_Un)
  qed
  then show ?thesis using assms(2) by (auto simp: rect_of_def)
qed

section \<open>All lines\<close>

lemma fb_update_lines_append:
  "fb_update_lines fbs da d m (xs @ ys) a =
     (case fb_update_lines fbs da d m xs a of Inl e \<Rightarrow> Inl e | Inr None \<Rightarrow> Inr None | Inr (Some a1) \<Rightarrow> fb_update_lines fbs da d m ys a1)"
  by (induction xs arbitrary: a) (auto split: sum.splits option.splits)

lemma seg_write_read_self: "p + n \<le> length xs \<Longrightarrow> seg_write xs p (seg_read xs p n) = xs"
  by (rule nth_equalityI) (auto simp: nth_seg_write nth_seg_read)

lemma fb_changed_Suc:
  "fb_changed fbs m dst (Suc n) = fb_changed fbs m dst n \<union> fb_changed fbs m dst (Suc n) \<inter> {(x, y). y = n}"
  by (auto simp: fb_changed_def less_Suc_eq)

text \<open>One line, compared in any case.\<close>

lemma fb_update_line_full:
  assumes ok: "fbs_ok fbs dst" and n: "n < fbs_height fbs" and rect: "rect_of rect (fb_changed fbs m dst n)"
  shows "\<exists>rect'. fb_update_line fbs 0 d m n (fb_shown fbs m n dst, rect) = Inr (Some (fb_shown fbs m (Suc n) dst, rect')) \<and>
    rect_of rect' (fb_changed fbs m dst (Suc n))"
proof -
  note fit = fb_line_fits [OF ok n]
  let ?w = "fbs_width fbs" and ?b = "fbs_bytes_per_pixel fbs" and ?g = "fb_guest_line fbs m n" and ?l = "fb_surface_line fbs dst n"
  let ?cur = "fb_shown fbs m n dst" and ?at = "n * fbs_dst_pitch fbs"
  have w: "0 < ?w" "?w < 2 ^ 31" "n < 2 ^ 31" "?b \<in> {2, 3, 4}" using ok n by (simp_all add: fbs_ok_def)
  have line: "seg_read ?cur ?at (fb_row fbs) = ?l" using fb_shown_line [OF ok n, of m] by (simp add: fb_surface_line_def)
  have eq: "fb_update_line fbs 0 d m n (?cur, rect) =
      (case fb_line_copy ?b ?w ?g ?l of None \<Rightarrow> Inr (Some (?cur, rect))
       | Some (xx1, xx2, line) \<Rightarrow> Inr (Some (seg_write ?cur ?at line, fb_rect_add xx1 xx2 n rect)))"
    using w fit(1) line by (simp add: fb_update_line_def fb_guest_line_def fb_row_def Let_def) blast
  have len: "length ?g = ?w * ?b" "length ?l = ?w * ?b" using fit(4) by (simp_all add: fb_row_def)
  note copy = fb_line_copy_ok [OF w(1) len]
  let ?L = "fb_changed fbs m dst (Suc n) \<inter> {(x, y). y = n}"
  have Ldef: "(x, y) \<in> ?L \<longleftrightarrow> y = n \<and> x < ?w \<and> fb_pixel ?b ?g x \<noteq> fb_pixel ?b ?l x" for x y
    by (auto simp: fb_changed_def)
  show ?thesis
  proof (cases "fb_line_copy ?b ?w ?g ?l")
    case None
    then have same: "?g = ?l" "?L = {}" using copy Ldef by auto
    have "seg_write ?cur ?at ?g = ?cur"
      unfolding same(1) line [symmetric] using fit(1) by (intro seg_write_read_self) simp
    then have "fb_shown fbs m (Suc n) dst = ?cur" using fb_shown_Suc [OF ok n, of m] by simp
    moreover have "fb_changed fbs m dst (Suc n) = fb_changed fbs m dst n" using fb_changed_Suc [of fbs m dst n] same(2) by simp
    ultimately show ?thesis using None rect unfolding eq by simp
  next
    case (Some t)
    then obtain xx1 xx2 line where t: "fb_line_copy ?b ?w ?g ?l = Some (xx1, xx2, line)" by (cases t) auto
    then have c: "line = ?g" "xx1 \<le> xx2" "xx2 < ?w" "fb_pixel ?b ?g xx1 \<noteq> fb_pixel ?b ?l xx1" "fb_pixel ?b ?g xx2 \<noteq> fb_pixel ?b ?l xx2"
      "\<And>x. x < ?w \<Longrightarrow> fb_pixel ?b ?g x \<noteq> fb_pixel ?b ?l x \<Longrightarrow> xx1 \<le> x \<and> x \<le> xx2"
      using copy by auto
    have "rect_of (fb_rect_add xx1 xx2 n rect) (fb_changed fbs m dst n \<union> ?L)"
    proof (rule rect_add_around [OF rect])
      show "(xx1, n) \<in> ?L" "(xx2, n) \<in> ?L" unfolding Ldef using c(2-5) by auto
      show "xx2 < 2 ^ 31" "n < 2 ^ 31" using c(3) w(2,3) by simp_all
      show "y = n \<and> xx1 \<le> x \<and> x \<le> xx2" if "(x, y) \<in> ?L" for x y using that c(6) unfolding Ldef by blast
    qed
    then show ?thesis
      unfolding eq t fb_changed_Suc [of fbs m dst n, symmetric] using fb_shown_Suc [OF ok n, of m] c(1) by simp
  qed
qed

lemma fb_update_lines_full:
  assumes "fbs_ok fbs dst" "n \<le> fbs_height fbs"
  shows "\<exists>rect. fb_update_lines fbs 0 d m [0..<n] (dst, fb_rect_empty) = Inr (Some (fb_shown fbs m n dst, rect)) \<and>
    rect_of rect (fb_changed fbs m dst n)"
  using assms(2)
proof (induction n)
  case 0
  have "fb_changed fbs m dst 0 = {}" by (simp add: fb_changed_def)
  then show ?case by (simp add: rect_of_def)
next
  case (Suc n)
  then obtain rect where r: "fb_update_lines fbs 0 d m [0..<n] (dst, fb_rect_empty) = Inr (Some (fb_shown fbs m n dst, rect))"
    "rect_of rect (fb_changed fbs m dst n)" by auto
  obtain rect' where "fb_update_line fbs 0 d m n (fb_shown fbs m n dst, rect) = Inr (Some (fb_shown fbs m (Suc n) dst, rect'))"
    "rect_of rect' (fb_changed fbs m dst (Suc n))"
    using fb_update_line_full [OF assms(1) _ r(2), of d] Suc.prems by auto
  then show ?case using r(1) by (simp add: fb_update_lines_append)
qed

lemma compute_full:
  assumes "fbs_ok fbs dst"
  shows "\<exists>d' rect. compute_fb_update_rect_linear fbs 0 d m dst = Inr (fb_shown fbs m (fbs_height fbs) dst, d', rect) \<and>
    (case rect of None \<Rightarrow> fb_changed fbs m dst (fbs_height fbs) = {} | Some r \<Rightarrow> rect_around r (fb_changed fbs m dst (fbs_height fbs)))"
proof -
  let ?C = "fb_changed fbs m dst (fbs_height fbs)"
  obtain rect where r: "fb_update_lines fbs 0 d m [0..<fbs_height fbs] (dst, fb_rect_empty) = Inr (Some (fb_shown fbs m (fbs_height fbs) dst, rect))"
    "rect_of rect ?C" using fb_update_lines_full [OF assms order_refl] by blast
  show ?thesis
  proof (cases "?C = {}")
    case True
    then show ?thesis using r rect_of_nonempty [OF r(2)] by (simp add: compute_fb_update_rect_linear_def)
  next
    case False
    moreover have "rect_around rect ?C" using r(2) False by (simp add: rect_of_def)
    ultimately show ?thesis using r rect_of_nonempty [OF r(2)] by (simp add: compute_fb_update_rect_linear_def)
  qed
qed

section \<open>A full refresh\<close>

text \<open>The surface has one of the pixel formats of the table, and its lines lie inside its data.\<close>

definition fb_bpp :: "goldfish_fb_state \<Rightarrow> nat" where
  "fb_bpp s = unat (pf_bytes_per_pixel (ds_pf (fb_ds s)))"

definition fb_display_ok :: "goldfish_fb_state \<Rightarrow> bool" where
  "fb_display_ok s \<longleftrightarrow> list_ex (fb_config_matches (ds_pf (fb_ds s))) fb_configs \<and>
     (0 \<le> fb_pixel_format s \<longrightarrow> fb_bytes_per_pixel s = fb_bpp s) \<and> fbs_ok (fb_update_state (fb_bpp s) s) (ds_data (fb_ds s))"

lemma fb_get_bpp_ok:
  assumes "list_ex (fb_config_matches (ds_pf (fb_ds s))) fb_configs" "0 \<le> fb_pixel_format s \<longrightarrow> fb_bytes_per_pixel s = fb_bpp s"
  shows "\<exists>pfmt. goldfish_fb_get_bytes_per_pixel s = Inr (fb_bpp s, s\<lparr>fb_pixel_format := pfmt, fb_bytes_per_pixel := fb_bpp s\<rparr>)"
proof (cases "0 \<le> fb_pixel_format s")
  case True
  then have "s\<lparr>fb_pixel_format := fb_pixel_format s, fb_bytes_per_pixel := fb_bpp s\<rparr> = s" using assms(2) by simp
  then show ?thesis using True assms(2) by (intro exI [of _ "fb_pixel_format s"]) (simp add: goldfish_fb_get_bytes_per_pixel_def)
next
  case False
  obtain c where "find (fb_config_matches (ds_pf (fb_ds s))) fb_configs = Some c"
    using assms(1) by (metis find_None_iff list_ex_iff not_Some_eq)
  then show ?thesis
    using False by (intro exI [of _ "fbc_pixel_format c"])
      (simp add: goldfish_fb_get_bytes_per_pixel_def goldfish_fb_get_pixel_format_def fb_bpp_def Let_def)
qed

lemma fb_refresh_irq_sel:
  assumes "fb_refresh_irq s = (s1, full, ls)"
  shows "fb_ds s1 = fb_ds s" "fb_fb_base s1 = fb_fb_base s" "fb_blank s1 = fb_blank s" "fb_pixel_format s1 = fb_pixel_format s"
    "fb_bytes_per_pixel s1 = fb_bytes_per_pixel s" "full = fb_need_update s" "\<not> fb_need_update s1"
  using assms by (auto simp: fb_refresh_irq_def Let_def split: if_splits)

text \<open>A refresh that is not blank, after its interrupts and the look-up of the format.\<close>

lemma fb_update_display_eq:
  assumes "fb_fb_base s \<noteq> 0" "\<not> fb_blank s" "fb_display_ok s"
  shows "\<exists>s2 ls. fb_ds s2 = fb_ds s \<and> \<not> fb_need_update s2 \<and>
    goldfish_fb_update_display d m s =
      obind (compute_fb_update_rect_linear (fb_update_state (fb_bpp s) s) (if fb_need_update s then 0 else fb_fb_base s) d m (ds_data (fb_ds s)))
        (\<lambda>(data, d', rect). Inr (s2\<lparr>fb_ds := (fb_ds s)\<lparr>ds_data := data\<rparr>\<rparr>, ls, d',
           case rect of None \<Rightarrow> []
           | Some r \<Rightarrow> [Dpy_update (rect_xmin r) (rect_ymin r) (rect_xmax r + 1 - rect_xmin r) (rect_ymax r + 1 - rect_ymin r)]))"
proof -
  obtain s1 full ls where irq: "fb_refresh_irq s = (s1, full, ls)" by (cases "fb_refresh_irq s") auto
  note sel = fb_refresh_irq_sel [OF irq]
  have bpp1: "fb_bpp s1 = fb_bpp s" by (simp add: fb_bpp_def sel(1))
  have "list_ex (fb_config_matches (ds_pf (fb_ds s1))) fb_configs" "0 \<le> fb_pixel_format s1 \<longrightarrow> fb_bytes_per_pixel s1 = fb_bpp s1"
    using assms(3) by (simp_all add: fb_display_ok_def sel bpp1)
  from fb_get_bpp_ok [OF this] obtain pfmt where
    bpp: "goldfish_fb_get_bytes_per_pixel s1 = Inr (fb_bpp s1, s1\<lparr>fb_pixel_format := pfmt, fb_bytes_per_pixel := fb_bpp s1\<rparr>)" by blast
  define s2 where "s2 = s1\<lparr>fb_pixel_format := pfmt, fb_bytes_per_pixel := fb_bpp s1\<rparr>"
  have bpp2: "goldfish_fb_get_bytes_per_pixel s1 = Inr (fb_bpp s, s2)" using bpp by (simp add: s2_def bpp1)
  have s2: "fb_ds s2 = fb_ds s" "fb_fb_base s2 = fb_fb_base s" "\<not> fb_blank s2" "\<not> fb_need_update s2"
    using sel assms(2) by (simp_all add: s2_def)
  have ust: "fb_update_state (fb_bpp s) s2 = fb_update_state (fb_bpp s) s" by (simp add: fb_update_state_def s2)
  have "goldfish_fb_update_display d m s =
      obind (compute_fb_update_rect_linear (fb_update_state (fb_bpp s) s) (if fb_need_update s then 0 else fb_fb_base s) d m (ds_data (fb_ds s)))
        (\<lambda>(data, d', rect). Inr (s2\<lparr>fb_ds := (fb_ds s)\<lparr>ds_data := data\<rparr>\<rparr>, ls, d',
           case rect of None \<Rightarrow> []
           | Some r \<Rightarrow> [Dpy_update (rect_xmin r) (rect_ymin r) (rect_xmax r + 1 - rect_xmin r) (rect_ymax r + 1 - rect_ymin r)]))"
    unfolding goldfish_fb_update_display_def irq using assms(1)
    by (simp add: Let_def bpp2 s2 ust sel(6))
  then show ?thesis using s2(1,4) by (intro exI [of _ s2] exI [of _ ls] conjI)
qed

text \<open>
  C6: A full refresh (after a new base address, a change of blanking or an invalidation) makes every visible
  pixel of the display surface equal to the guest's frame buffer and changes no other byte. The user
  interface is told nothing when no pixel differed, and otherwise of the smallest rectangle that contains
  the pixels that did.
\<close>

theorem fb_full_refresh:
  fixes m :: ram and d :: dirty
  assumes "fb_fb_base s \<noteq> 0" "\<not> fb_blank s" "fb_display_ok s" "fb_need_update s"
  defines "fbs \<equiv> fb_update_state (fb_bpp s) s"
  defines "changed \<equiv> fb_changed fbs m (ds_data (fb_ds s)) (fbs_height fbs)"
  shows "\<exists>s' ls d' ev. goldfish_fb_update_display d m s = Inr (s', ls, d', ev) \<and> \<not> fb_need_update s' \<and>
    fb_ds s' = (fb_ds s)\<lparr>ds_data := fb_shown fbs m (fbs_height fbs) (ds_data (fb_ds s))\<rparr> \<and>
    (if changed = {} then ev = []
     else \<exists>r. rect_around r changed \<and>
       ev = [Dpy_update (rect_xmin r) (rect_ymin r) (rect_xmax r + 1 - rect_xmin r) (rect_ymax r + 1 - rect_ymin r)])"
proof -
  obtain s2 ls where s2: "fb_ds s2 = fb_ds s" "\<not> fb_need_update s2" and eq: "goldfish_fb_update_display d m s =
      obind (compute_fb_update_rect_linear fbs 0 d m (ds_data (fb_ds s)))
        (\<lambda>(data, d', rect). Inr (s2\<lparr>fb_ds := (fb_ds s)\<lparr>ds_data := data\<rparr>\<rparr>, ls, d',
           case rect of None \<Rightarrow> []
           | Some r \<Rightarrow> [Dpy_update (rect_xmin r) (rect_ymin r) (rect_xmax r + 1 - rect_xmin r) (rect_ymax r + 1 - rect_ymin r)]))"
    using fb_update_display_eq [OF assms(1-3), of d m] assms(4) unfolding fbs_def by auto
  have ok: "fbs_ok fbs (ds_data (fb_ds s))" using assms(3) by (simp add: fb_display_ok_def fbs_def)
  obtain d' rect where comp: "compute_fb_update_rect_linear fbs 0 d m (ds_data (fb_ds s)) =
      Inr (fb_shown fbs m (fbs_height fbs) (ds_data (fb_ds s)), d', rect)"
    and rect: "case rect of None \<Rightarrow> changed = {} | Some r \<Rightarrow> rect_around r changed"
    using compute_full [OF ok, of d m] unfolding changed_def by blast
  have "changed \<noteq> {}" if "rect = Some r" for r using rect that by (auto simp: rect_around_def is_min_def)
  then show ?thesis
    unfolding eq comp using rect s2(2) by (cases rect) auto
qed

definition fb_sample :: goldfish_fb_state where
  "fb_sample = (goldfish_fb_init
     \<lparr>ds_width = 2, ds_height = 2, ds_linesize = 4, ds_data = [0, 0, 0, 0, 0, 0, 0, 0],
      ds_pf = \<lparr>pf_bits_per_pixel = 16, pf_bytes_per_pixel = 2, pf_rmask = 0xf800, pf_gmask = 0x7e0, pf_bmask = 0x1f, pf_amask = 0\<rparr>\<rparr>)
     \<lparr>fb_fb_base := 0x400, fb_need_update := True\<rparr>"

lemma fb_sample_ok: "fb_fb_base fb_sample \<noteq> 0" "\<not> fb_blank fb_sample" "fb_display_ok fb_sample" "fb_need_update fb_sample"
  by (simp_all add: fb_sample_def goldfish_fb_init_def fb_display_ok_def fb_configs_def fb_config_matches_def fb_bpp_def fbs_ok_def
      fb_update_state_def dev_defs)

theorem fb_full_refresh_witness:
  "\<exists>s' ls d' ev. goldfish_fb_update_display (\<lambda>_. False) (\<lambda>a. 7) fb_sample = Inr (s', ls, d', ev) \<and>
    ds_data (fb_ds s') = [7, 7, 7, 7, 7, 7, 7, 7]"
proof -
  let ?fbs = "fb_update_state (fb_bpp fb_sample) fb_sample"
  have fbs: "fbs_height ?fbs = 2" "fbs_dst_pitch ?fbs = 4" "fb_row ?fbs = 4" "ds_data (fb_ds fb_sample) = [0, 0, 0, 0, 0, 0, 0, 0]"
    by (simp_all add: fb_update_state_def fb_bpp_def fb_row_def fb_sample_def goldfish_fb_init_def)
  have shown: "fb_shown ?fbs (\<lambda>a. 7) 2 [0, 0, 0, 0, 0, 0, 0, 0] = [7, 7, 7, 7, 7, 7, 7, 7]"
    by (simp add: fb_shown_def fbs fb_guest_line_def cpu_physical_memory_read_def upt_rec)
  obtain s' ls d' ev where "goldfish_fb_update_display (\<lambda>_. False) (\<lambda>a. 7) fb_sample = Inr (s', ls, d', ev)"
    "fb_ds s' = (fb_ds fb_sample)\<lparr>ds_data := fb_shown ?fbs (\<lambda>a. 7) (fbs_height ?fbs) (ds_data (fb_ds fb_sample))\<rparr>"
    using fb_full_refresh [OF fb_sample_ok, where d = "\<lambda>_. False" and m = "\<lambda>a. 7"] by blast
  then show ?thesis unfolding fbs shown by simp
qed

section \<open>A partial refresh\<close>

lemma fb_update_lines_clean:
  assumes "base \<noteq> 0" "\<not> cpu_physical_memory_get_dirty d (unat base) (fbs_src_pitch fbs)"
  shows "fb_update_lines fbs base d m ys a = Inr (Some a)"
  using assms by (induction ys arbitrary: a) (simp_all add: fb_update_line_def case_prod_unfold Let_def)

text \<open>
  C31: An ordinary refresh tests the dirty bits of the first line only, for every line: when the pages of the
  first line are clean the surface stays as it is and nothing is reported, whatever the guest has drawn on
  the other lines and whichever of their pages are dirty.
\<close>

theorem fb_stale_lines:
  assumes "fb_fb_base s \<noteq> 0" "\<not> fb_blank s" "fb_display_ok s" "\<not> fb_need_update s"
    "\<not> cpu_physical_memory_get_dirty d (unat (fb_fb_base s)) (ds_width (fb_ds s) * fb_bpp s)"
  shows "\<exists>s' ls. goldfish_fb_update_display d m s = Inr (s', ls, d, []) \<and> fb_ds s' = fb_ds s"
proof -
  let ?fbs = "fb_update_state (fb_bpp s) s"
  obtain s2 ls where s2: "fb_ds s2 = fb_ds s" and eq: "goldfish_fb_update_display d m s =
      obind (compute_fb_update_rect_linear ?fbs (fb_fb_base s) d m (ds_data (fb_ds s)))
        (\<lambda>(data, d', rect). Inr (s2\<lparr>fb_ds := (fb_ds s)\<lparr>ds_data := data\<rparr>\<rparr>, ls, d',
           case rect of None \<Rightarrow> []
           | Some r \<Rightarrow> [Dpy_update (rect_xmin r) (rect_ymin r) (rect_xmax r + 1 - rect_xmin r) (rect_ymax r + 1 - rect_ymin r)]))"
    using fb_update_display_eq [OF assms(1-3), of d m] assms(4) by auto
  have "fbs_src_pitch ?fbs = ds_width (fb_ds s) * fb_bpp s" by (simp add: fb_update_state_def fb_bpp_def)
  then have "fb_update_lines ?fbs (fb_fb_base s) d m ys a = Inr (Some a)" for ys a
    using assms(1,5) by (intro fb_update_lines_clean) simp_all
  then have "compute_fb_update_rect_linear ?fbs (fb_fb_base s) d m (ds_data (fb_ds s)) = Inr (ds_data (fb_ds s), d, None)"
    by (simp add: compute_fb_update_rect_linear_def fb_rect_empty_def)
  then show ?thesis unfolding eq by simp
qed

theorem fb_stale_lines_witness:
  "\<exists>s' ls. goldfish_fb_update_display (\<lambda>p. p = 2) (\<lambda>a. 7) (fb_sample\<lparr>fb_need_update := False\<rparr>) = Inr (s', ls, \<lambda>p. p = 2, []) \<and>
    fb_ds s' = fb_ds fb_sample"
proof -
  have "fb_display_ok (fb_sample\<lparr>fb_need_update := False\<rparr>)"
    using fb_sample_ok(3) by (simp add: fb_display_ok_def fb_bpp_def fb_update_state_def)
  moreover have "\<not> cpu_physical_memory_get_dirty (\<lambda>p. p = 2) (unat (0x400 :: u32)) 4"
    by (simp add: cpu_physical_memory_get_dirty_def dirty_end_def list_ex_iff)
  ultimately show ?thesis
    using fb_stale_lines [of "fb_sample\<lparr>fb_need_update := False\<rparr>" "\<lambda>p. p = 2" "\<lambda>a. 7"] fb_sample_ok(1,2)
    by (simp add: fb_bpp_def fb_sample_def goldfish_fb_init_def)
qed

section \<open>The interrupt line\<close>

datatype fb_op = Fb_read u32 | Fb_write u32 u32 | Fb_refresh dirty ram | Fb_invalidate

fun fb_step :: "fb_op \<Rightarrow> goldfish_fb_state \<Rightarrow> (goldfish_fb_state \<times> bool list) outcome" where
  "fb_step (Fb_read off) s = obind (goldfish_fb_read off s) (\<lambda>(_, s1, ls). Inr (s1, ls))"
| "fb_step (Fb_write off v) s = obind (goldfish_fb_write off v s) (\<lambda>(s1, ls, _). Inr (s1, ls))"
| "fb_step (Fb_refresh d m) s = obind (goldfish_fb_update_display d m s) (\<lambda>(s1, ls, _). Inr (s1, ls))"
| "fb_step Fb_invalidate s = Inr (goldfish_fb_invalidate_display s, [])"

lemma fb_get_pixel_format_level:
  "goldfish_fb_get_pixel_format s = Inr (v, s1) \<Longrightarrow> fb_level s1 = fb_level s"
  by (auto simp: goldfish_fb_get_pixel_format_def fb_level_def Let_def split: if_splits option.splits)

lemma fb_get_bpp_level: "goldfish_fb_get_bytes_per_pixel s = Inr (v, s1) \<Longrightarrow> fb_level s1 = fb_level s"
  by (auto simp: goldfish_fb_get_bytes_per_pixel_def dest!: fb_get_pixel_format_level split: if_splits)

lemma and_or_zero: "c AND (a OR b) = (0::u32) \<longleftrightarrow> c AND a = 0 \<and> c AND b = 0"
  by (simp add: bit.conj_disj_distrib or_eq_0_iff)

lemma fb_refresh_irq_drive:
  "fb_refresh_irq s = (s1, full, ls) \<Longrightarrow> drive (fb_level s) ls = fb_level s1"
  by (auto simp: fb_refresh_irq_def Let_def fb_level_def and_or_zero and.commute split: if_splits)

lemma fb_update_display_drive:
  assumes "goldfish_fb_update_display d m s = Inr (s', ls, d', ev)"
  shows "drive (fb_level s) ls = fb_level s'"
proof (cases "fb_fb_base s = 0")
  case False
  obtain s1 full ls1 where irq: "fb_refresh_irq s = (s1, full, ls1)" by (cases "fb_refresh_irq s") auto
  obtain bpp s2 where bpp: "goldfish_fb_get_bytes_per_pixel s1 = Inr (bpp, s2)"
    using assms False irq by (auto simp: goldfish_fb_update_display_def)
  have "fb_level s' = fb_level s2 \<and> ls = ls1"
    using assms False irq bpp
    by (auto simp: goldfish_fb_update_display_def Let_def fb_level_def split: if_splits)
  then show ?thesis using fb_refresh_irq_drive [OF irq] fb_get_bpp_level [OF bpp] by simp
qed (use assms in \<open>simp add: goldfish_fb_update_display_def\<close>)

lemma fb_read_drive:
  assumes "goldfish_fb_read off s = Inr (v, s', ls)"
  shows "drive (fb_level s) ls = fb_level s'"
proof (cases "off = 0x08")
  case True
  have "(x AND NOT (x AND y)) AND y = (0::u32)" for x y by (rule bit_word_eqI) (auto simp: bit_simps)
  then show ?thesis using assms True by (auto simp: goldfish_fb_read_def fb_level_def Let_def split: if_splits)
next
  case False
  then show ?thesis using assms by (auto simp: goldfish_fb_read_def dest: fb_get_pixel_format_level split: if_splits)
qed

lemma fb_write_drive:
  "goldfish_fb_write off v s = Inr (s', ls, ev) \<Longrightarrow> drive (fb_level s) ls = fb_level s'"
  by (auto simp: goldfish_fb_write_def fb_level_def Let_def split: if_splits)

text \<open>The line of the frame buffer is up exactly when an enabled interrupt is pending.\<close>

interpretation fb_irq: level_irq_device fb_step fb_level "\<lambda>_. True"
proof
  fix s op s' ls
  assume "fb_step op s = Inr (s', ls)"
  then show "drive (fb_level s) ls = fb_level s'"
    by (cases op) (auto simp: goldfish_fb_invalidate_display_def fb_level_def [abs_def] dest: fb_read_drive fb_write_drive fb_update_display_drive)
qed simp

section \<open>Restoring\<close>

definition fb_geometry :: "goldfish_fb_state \<Rightarrow> nat \<times> nat \<times> nat" where
  "fb_geometry s = (ds_width (fb_ds s), ds_height (fb_ds s), ds_linesize (fb_ds s))"

text \<open>
  A snapshot is restored in a device with a display of the same size, with a full refresh pending; the
  surface and the pixel format are those of the running emulator.
\<close>

definition fb_restore :: "goldfish_fb_state \<Rightarrow> goldfish_fb_state \<Rightarrow> goldfish_fb_state" where
  "fb_restore s0 s = s\<lparr>fb_ds := fb_ds s0, fb_pixel_format := fb_pixel_format s0, fb_bytes_per_pixel := fb_bytes_per_pixel s0, fb_need_update := True\<rparr>"

definition fb_enc :: "goldfish_fb_state \<Rightarrow> bytes" where
  "fb_enc s = be32_bytes (of_nat (ds_width (fb_ds s))) @ be32_bytes (of_nat (ds_height (fb_ds s))) @ be32_bytes (of_nat (ds_linesize (fb_ds s))) @
     [0] @ be32_bytes (fb_fb_base s) @ [ucast (fb_bit (fb_base_valid s))] @ [ucast (fb_bit (fb_need_update s))] @ [ucast (fb_bit (fb_need_int s))] @
     [ucast (ucast (fb_set_rotation s) :: u32)] @ [ucast (fb_bit (fb_blank s))] @
     be32_bytes (fb_int_status s) @ be32_bytes (fb_int_enable s) @ be32_bytes (fb_rotation s) @ be32_bytes (fb_dpi s)"

lemma fb_save_enc: "\<not> last_error f \<Longrightarrow> goldfish_fb_save f s = f\<lparr>fbuf := fbuf f @ fb_enc s\<rparr>"
  by (simp add: goldfish_fb_save_def fb_enc_def Let_def be32.put_enc put_byte_enc)

lemma get_byte_upd [simp]: "qemu_get_byte (f\<lparr>fbuf := b # bs\<rparr>) = (ucast b, f\<lparr>fbuf := bs\<rparr>)"
  using get_byte_Cons [of "f\<lparr>fbuf := b # bs\<rparr>" b bs] by simp

lemma fb_bit_odd: "odd (ucast (ucast (fb_bit b) :: u8) :: u32) \<longleftrightarrow> b"
  by (cases b) (simp_all add: fb_bit_def)

lemma rotation_byte: "ucast (ucast (ucast (ucast (r :: 2 word) :: u32) :: u8) :: u32) = r"
  by (rule bit_word_eqI) (auto simp: bit_simps dest: bit_imp_le_length)

lemma fb_load_enc:
  assumes "fb_geometry s0 = fb_geometry s"
  shows "goldfish_fb_load (f\<lparr>fbuf := fb_enc s @ rest\<rparr>) s0 2 = (0, fb_restore s0 s, f\<lparr>fbuf := rest\<rparr>)"
  using assms
  by (cases s; cases s0)
    (simp add: goldfish_fb_load_def fb_enc_def fb_geometry_def be32.get_upd fb_bit_odd rotation_byte fb_restore_def)

end
