(* ===== verification/Goldfish_Pipe.thy ===== *)
theory Goldfish_Pipe
  imports Guest_Store Qemu_File Irq
begin

unbundle bit_operations_syntax

text \<open>
  Fast guest pipes, \<open>hw/android/goldfish/pipe.c\<close>: the table of services, the connector that reads
  the name of the service from a new pipe, the device with its registers and commands, the list of
  pipes waiting for the guest's attention, and snapshots.

  A pipe has an address (\<open>pipe_id\<close>), so that the list of all pipes and the list of signalled pipes
  can share it; \<open>pd_fresh\<close> is the next address the allocator gives. \<open>'o\<close> is the type of the state of
  the services; \<open>opaque\<close>, a \<open>void*\<close>, is either a connector or such a state, and passing one for the
  other is undefined behaviour. A callback of a service returns, besides its result and the new
  state, what it did with its pipe: waking it or closing it. \<open>ramsz\<close> is the size of the RAM: buffers
  are passed to the services as pointers into it, and a buffer that does not lie in it is a fault.
\<close>

section \<open>Services\<close>

definition PIPE_WAKE_CLOSED :: u32 where [dev_defs]: "PIPE_WAKE_CLOSED = 1"
definition PIPE_WAKE_READ :: u32 where [dev_defs]: "PIPE_WAKE_READ = 2"
definition PIPE_WAKE_WRITE :: u32 where [dev_defs]: "PIPE_WAKE_WRITE = 4"
definition PIPE_POLL_IN :: u32 where [dev_defs]: "PIPE_POLL_IN = 1"
definition PIPE_POLL_OUT :: u32 where [dev_defs]: "PIPE_POLL_OUT = 2"
definition PIPE_ERROR_INVAL :: u32 where [dev_defs]: "PIPE_ERROR_INVAL = -1"
definition PIPE_ERROR_AGAIN :: u32 where [dev_defs]: "PIPE_ERROR_AGAIN = -2"
definition PIPE_ERROR_IO :: u32 where [dev_defs]: "PIPE_ERROR_IO = -4"

datatype pipe_event = Pipe_wake u32 | Pipe_close

text \<open>
  The callbacks. A received buffer is given by its size, and the result has the bytes stored at its
  start. The opaque argument of the registration is part of the functions.
\<close>

record 'o PipeService =
  svc_name :: bytes
  svc_init :: "bytes option \<Rightarrow> 'o option \<times> pipe_event list"
  svc_sendBuffers :: "'o \<Rightarrow> bytes list \<Rightarrow> (u32 \<times> 'o \<times> pipe_event list) outcome"
  svc_recvBuffers :: "'o \<Rightarrow> nat list \<Rightarrow> (u32 \<times> bytes list \<times> 'o \<times> pipe_event list) outcome"
  svc_poll :: "'o \<Rightarrow> u32 outcome"
  svc_wakeOn :: "'o \<Rightarrow> u32 \<Rightarrow> ('o \<times> pipe_event list) outcome"
  svc_save :: "('o \<Rightarrow> QEMUFile \<Rightarrow> QEMUFile) option"
  svc_load :: "(bytes option \<Rightarrow> QEMUFile \<Rightarrow> 'o option \<times> QEMUFile) option"

definition MAX_PIPE_SERVICES :: nat where [dev_defs]: "MAX_PIPE_SERVICES = 8"
definition MAX_PIPE_SERVICE_NAME_SIZE :: nat where [dev_defs]: "MAX_PIPE_SERVICE_NAME_SIZE = 255"

definition goldfish_pipe_add_type :: "'o PipeService \<Rightarrow> 'o PipeService list \<Rightarrow> 'o PipeService list outcome" where
  "goldfish_pipe_add_type svc svcs =
     (if length svcs \<ge> MAX_PIPE_SERVICES then Inl Process_exit
      else if length (svc_name svc) > MAX_PIPE_SERVICE_NAME_SIZE then Inl Process_exit
      else Inr (svcs @ [svc]))"

text \<open>The position in the table, which stands for the pointer to the entry.\<close>

fun goldfish_pipe_find_type :: "'o PipeService list \<Rightarrow> bytes \<Rightarrow> nat option" where
  "goldfish_pipe_find_type [] name = None"
| "goldfish_pipe_find_type (svc # svcs) name =
     (if svc_name svc = name then Some 0 else map_option Suc (goldfish_pipe_find_type svcs name))"

section \<open>Pipes\<close>

record PipeConnector =
  pcon_buffer :: bytes
  pcon_buffpos :: nat

datatype 'o pipe_opaque = Connector PipeConnector | Peer 'o

text \<open>The member \<open>funcs\<close> is the table of the connector when \<open>service\<close> is null, that of the service otherwise.\<close>

record 'o Pipe =
  pipe_id :: nat
  pipe_channel :: u64
  pipe_opaque :: "'o pipe_opaque"
  pipe_service :: "nat option"
  pipe_args :: "bytes option"
  pipe_wanted :: u8
  pipe_closed :: u8

record 'o PipeDevice =
  pd_pipes :: "'o Pipe list"
  pd_signaled :: "nat list"
  pd_address :: u64
  pd_size :: u32
  pd_status :: u32
  pd_channel :: u64
  pd_wakes :: u32
  pd_params_addr :: u64
  pd_fresh :: nat

definition PCON_SIZE :: nat where [dev_defs]: "PCON_SIZE = 128"

definition pipeConnector_new :: PipeConnector where
  "pipeConnector_new = \<lparr>pcon_buffer = replicate PCON_SIZE 0, pcon_buffpos = 0\<rparr>"

definition pipe_new :: "nat \<Rightarrow> u64 \<Rightarrow> 'o Pipe" where
  "pipe_new i ch = \<lparr>pipe_id = i, pipe_channel = ch, pipe_opaque = Connector pipeConnector_new, pipe_service = None,
     pipe_args = None, pipe_wanted = 0, pipe_closed = 0\<rparr>"

definition pipe_list_findp_channel :: "'o Pipe list \<Rightarrow> u64 \<Rightarrow> 'o Pipe option" where
  "pipe_list_findp_channel ps ch = find (\<lambda>p. pipe_channel p = ch) ps"

definition find_pipe :: "nat \<Rightarrow> 'o Pipe list \<Rightarrow> 'o Pipe option" where
  "find_pipe i ps = find (\<lambda>p. pipe_id p = i) ps"

text \<open>Assigning to members of a pipe, through its address.\<close>

definition update_pipe :: "nat \<Rightarrow> ('o Pipe \<Rightarrow> 'o Pipe) \<Rightarrow> 'o PipeDevice \<Rightarrow> 'o PipeDevice" where
  "update_pipe i f dev = dev\<lparr>pd_pipes := map (\<lambda>p. if pipe_id p = i then f p else p) (pd_pipes dev)\<rparr>"

definition pipe_list_remove_waked :: "nat list \<Rightarrow> nat \<Rightarrow> nat list" where
  "pipe_list_remove_waked xs i = remove1 i xs"

definition goldfish_pipe_wake :: "nat \<Rightarrow> u32 \<Rightarrow> 'o PipeDevice \<Rightarrow> 'o PipeDevice \<times> bool list" where
  "goldfish_pipe_wake i flags dev =
     (update_pipe i (\<lambda>p. p\<lparr>pipe_wanted := pipe_wanted p OR ucast flags\<rparr>)
        (dev\<lparr>pd_signaled := (if i \<in> set (pd_signaled dev) then pd_signaled dev else i # pd_signaled dev)\<rparr>), [True])"

definition goldfish_pipe_close :: "nat \<Rightarrow> 'o PipeDevice \<Rightarrow> 'o PipeDevice \<times> bool list" where
  "goldfish_pipe_close i dev =
     (case find_pipe i (pd_pipes dev) of
        None \<Rightarrow> (dev, [])
      | Some p \<Rightarrow> if pipe_closed p \<noteq> 0 then (dev, [])
                  else goldfish_pipe_wake i PIPE_WAKE_CLOSED (update_pipe i (\<lambda>p. p\<lparr>pipe_closed := 1\<rparr>) dev))"

fun pipe_events :: "nat \<Rightarrow> pipe_event list \<Rightarrow> 'o PipeDevice \<Rightarrow> 'o PipeDevice \<times> bool list" where
  "pipe_events i [] dev = (dev, [])"
| "pipe_events i (Pipe_wake flags # es) dev =
     (let (dev1, l1) = goldfish_pipe_wake i flags dev; (dev2, l2) = pipe_events i es dev1 in (dev2, l1 @ l2))"
| "pipe_events i (Pipe_close # es) dev =
     (let (dev1, l1) = goldfish_pipe_close i dev; (dev2, l2) = pipe_events i es dev1 in (dev2, l1 @ l2))"

section \<open>The connector\<close>

text \<open>Copying the buffers: the number of bytes taken.\<close>

fun pcon_fill :: "PipeConnector \<Rightarrow> bytes list \<Rightarrow> nat \<times> PipeConnector" where
  "pcon_fill pc [] = (0, pc)"
| "pcon_fill pc (b # bs) =
     (let avail = min (PCON_SIZE - pcon_buffpos pc) (length b);
          pc1 = \<lparr>pcon_buffer = seg_write (pcon_buffer pc) (pcon_buffpos pc) (take avail b), pcon_buffpos = pcon_buffpos pc + avail\<rparr>;
          (n, pc2) = pcon_fill pc1 bs
      in (avail + n, pc2))"

text \<open>
  The connection string \<open>pipe:name\<close> or \<open>pipe:name:args\<close>: the name, the arguments, and the buffer,
  in which the second colon becomes a zero byte.
\<close>

definition pcon_parse :: "bytes \<Rightarrow> (bytes \<times> bytes option \<times> bytes) option" where
  "pcon_parse buf =
     (if take 5 buf \<noteq> string_bytes ''pipe:'' then None
      else
        let str = c_string (drop 5 buf); colon = strchr 0x3a str in
        if colon < length str then
          Some (take colon str, if drop (colon + 1) str = [] then None else Some (drop (colon + 1) str), buf[5 + colon := 0])
        else Some (str, None, buf))"

definition pipeConnector_sendBuffers ::
    "'o PipeService list \<Rightarrow> PipeConnector \<Rightarrow> 'o Pipe \<Rightarrow> bytes list \<Rightarrow> u32 \<times> 'o Pipe \<times> pipe_event list" where
  "pipeConnector_sendBuffers svcs pc pipe buffers =
     (let (n, pc1) = pcon_fill pc buffers; kept = (\<lambda>pc. pipe\<lparr>pipe_opaque := Connector pc\<rparr>) in
      if 0 \<notin> set (take (pcon_buffpos pc1) (pcon_buffer pc1)) then (of_nat n, kept pc1, [])
      else case pcon_parse (pcon_buffer pc1) of
          None \<Rightarrow> (PIPE_ERROR_INVAL, kept pc1, [])
        | Some (name, args, buf) \<Rightarrow>
            (let pc2 = pc1\<lparr>pcon_buffer := buf\<rparr> in
             case goldfish_pipe_find_type svcs name of
               None \<Rightarrow> (PIPE_ERROR_INVAL, kept pc2, [])
             | Some i \<Rightarrow>
                 (case svc_init (svcs ! i) args of
                    (None, es) \<Rightarrow> (PIPE_ERROR_INVAL, kept pc2, es)
                  | (Some peer, es) \<Rightarrow>
                      (of_nat n, pipe\<lparr>pipe_opaque := Peer peer, pipe_service := Some i, pipe_args := args\<rparr>, es))))"

section \<open>Calling the functions of a pipe\<close>

definition pipe_sendBuffers ::
    "'o PipeService list \<Rightarrow> 'o Pipe \<Rightarrow> bytes list \<Rightarrow> (u32 \<times> 'o Pipe \<times> pipe_event list) outcome" where
  "pipe_sendBuffers svcs pipe buffers =
     (case (pipe_service pipe, pipe_opaque pipe) of
        (None, Connector pc) \<Rightarrow> Inr (pipeConnector_sendBuffers svcs pc pipe buffers)
      | (Some i, Peer x) \<Rightarrow> obind (svc_sendBuffers (svcs ! i) x buffers) (\<lambda>(ret, x', es). Inr (ret, pipe\<lparr>pipe_opaque := Peer x'\<rparr>, es))
      | _ \<Rightarrow> Inl Undefined_behaviour)"

definition pipe_recvBuffers ::
    "'o PipeService list \<Rightarrow> 'o Pipe \<Rightarrow> nat list \<Rightarrow> (u32 \<times> bytes list \<times> 'o Pipe \<times> pipe_event list) outcome" where
  "pipe_recvBuffers svcs pipe sizes =
     (case (pipe_service pipe, pipe_opaque pipe) of
        (None, Connector pc) \<Rightarrow> Inr (PIPE_ERROR_IO, map (\<lambda>_. []) sizes, pipe, [])
      | (Some i, Peer x) \<Rightarrow>
          obind (svc_recvBuffers (svcs ! i) x sizes) (\<lambda>(ret, bs, x', es). Inr (ret, bs, pipe\<lparr>pipe_opaque := Peer x'\<rparr>, es))
      | _ \<Rightarrow> Inl Undefined_behaviour)"

definition pipe_poll :: "'o PipeService list \<Rightarrow> 'o Pipe \<Rightarrow> u32 outcome" where
  "pipe_poll svcs pipe =
     (case (pipe_service pipe, pipe_opaque pipe) of
        (None, Connector pc) \<Rightarrow> Inr PIPE_POLL_OUT
      | (Some i, Peer x) \<Rightarrow> svc_poll (svcs ! i) x
      | _ \<Rightarrow> Inl Undefined_behaviour)"

definition pipe_wakeOn :: "'o PipeService list \<Rightarrow> 'o Pipe \<Rightarrow> ('o Pipe \<times> pipe_event list) outcome" where
  "pipe_wakeOn svcs pipe =
     (case (pipe_service pipe, pipe_opaque pipe) of
        (None, Connector pc) \<Rightarrow> Inr (pipe, [])
      | (Some i, Peer x) \<Rightarrow> obind (svc_wakeOn (svcs ! i) x (ucast (pipe_wanted pipe))) (\<lambda>(x', es). Inr (pipe\<lparr>pipe_opaque := Peer x'\<rparr>, es))
      | _ \<Rightarrow> Inl Undefined_behaviour)"

text \<open>The close callback gets the opaque pointer of the pipe, which must be one of its own.\<close>

definition pipe_free :: "'o Pipe \<Rightarrow> unit outcome" where
  "pipe_free pipe =
     (case (pipe_service pipe, pipe_opaque pipe) of
        (None, Connector pc) \<Rightarrow> Inr ()
      | (Some i, Peer x) \<Rightarrow> Inr ()
      | _ \<Rightarrow> Inl Undefined_behaviour)"

section \<open>Commands\<close>

definition PIPE_CMD_OPEN :: u32 where [dev_defs]: "PIPE_CMD_OPEN = 1"
definition PIPE_CMD_CLOSE :: u32 where [dev_defs]: "PIPE_CMD_CLOSE = 2"
definition PIPE_CMD_POLL :: u32 where [dev_defs]: "PIPE_CMD_POLL = 3"
definition PIPE_CMD_WRITE_BUFFER :: u32 where [dev_defs]: "PIPE_CMD_WRITE_BUFFER = 4"
definition PIPE_CMD_WAKE_ON_WRITE :: u32 where [dev_defs]: "PIPE_CMD_WAKE_ON_WRITE = 5"
definition PIPE_CMD_READ_BUFFER :: u32 where [dev_defs]: "PIPE_CMD_READ_BUFFER = 6"
definition PIPE_CMD_WAKE_ON_READ :: u32 where [dev_defs]: "PIPE_CMD_WAKE_ON_READ = 7"

text \<open>
  The guest buffer as a piece of RAM: its first physical address. \<open>qemu_get_ram_ptr\<close> aborts for a
  page that is not in RAM, which includes the value -1 for an unmapped one.
\<close>

definition pipe_buffer :: "vtop \<Rightarrow> nat \<Rightarrow> u64 \<Rightarrow> u32 \<Rightarrow> u64 outcome" where
  "pipe_buffer tr ramsz address sz =
     (let a = (ucast address :: u32) in
      case tr (page_of a) of
        None \<Rightarrow> Inl Process_exit
      | Some phys \<Rightarrow>
          if unat phys \<ge> ramsz then Inl Process_exit
          else if unat phys + unat (page_offset a) + unat sz > ramsz then Inl Undefined_behaviour
          else Inr (phys + ucast (page_offset a)))"

text \<open>A callback has been run on a pipe: its new members and what it did to the device.\<close>

definition pipe_done ::
    "'o Pipe \<Rightarrow> pipe_event list \<Rightarrow> u32 \<Rightarrow> 'o PipeDevice \<Rightarrow> 'o PipeDevice \<times> bool list" where
  "pipe_done pipe es status dev =
     (let (dev1, ls) = pipe_events (pipe_id pipe) es (update_pipe (pipe_id pipe) (\<lambda>_. pipe) dev)
      in (dev1\<lparr>pd_status := status\<rparr>, ls))"

definition pipe_wake_on ::
    "'o PipeService list \<Rightarrow> u32 \<Rightarrow> 'o Pipe \<Rightarrow> 'o PipeDevice \<Rightarrow> ('o PipeDevice \<times> bool list) outcome" where
  "pipe_wake_on svcs flag pipe dev =
     (if pipe_wanted pipe AND ucast flag = 0 then
        obind (pipe_wakeOn svcs (pipe\<lparr>pipe_wanted := pipe_wanted pipe OR ucast flag\<rparr>)) (\<lambda>(pipe', es). Inr (pipe_done pipe' es 0 dev))
      else Inr (dev\<lparr>pd_status := 0\<rparr>, []))"

definition pipeDevice_doCommand ::
    "'o PipeService list \<Rightarrow> vtop \<Rightarrow> nat \<Rightarrow> u32 \<Rightarrow> 'o PipeDevice \<Rightarrow> ram \<Rightarrow> ('o PipeDevice \<times> bool list \<times> ram) outcome" where
  "pipeDevice_doCommand svcs tr ramsz command dev m =
     (case pipe_list_findp_channel (pd_pipes dev) (pd_channel dev) of
        None \<Rightarrow>
          if command \<noteq> PIPE_CMD_OPEN then Inr (dev\<lparr>pd_status := PIPE_ERROR_INVAL\<rparr>, [], m)
          else Inr (dev\<lparr>pd_pipes := pipe_new (pd_fresh dev) (pd_channel dev) # pd_pipes dev, pd_fresh := pd_fresh dev + 1,
                        pd_status := 0\<rparr>, [], m)
      | Some pipe \<Rightarrow>
          if pipe_closed pipe \<noteq> 0 \<and> command \<noteq> PIPE_CMD_CLOSE then Inr (dev\<lparr>pd_status := PIPE_ERROR_IO\<rparr>, [], m)
          else if command = PIPE_CMD_OPEN then Inr (dev\<lparr>pd_status := PIPE_ERROR_INVAL\<rparr>, [], m)
          else if command = PIPE_CMD_CLOSE then
            obind (pipe_free pipe) (\<lambda>_.
              Inr (dev\<lparr>pd_pipes := filter (\<lambda>p. pipe_id p \<noteq> pipe_id pipe) (pd_pipes dev),
                       pd_signaled := pipe_list_remove_waked (pd_signaled dev) (pipe_id pipe)\<rparr>, [], m))
          else if command = PIPE_CMD_POLL then
            obind (pipe_poll svcs pipe) (\<lambda>r. Inr (dev\<lparr>pd_status := r\<rparr>, [], m))
          else if command = PIPE_CMD_READ_BUFFER then
            obind (pipe_buffer tr ramsz (pd_address dev) (pd_size dev)) (\<lambda>p.
            obind (pipe_recvBuffers svcs pipe [unat (pd_size dev)]) (\<lambda>(ret, bs, pipe', es).
              let (dev', ls) = pipe_done pipe' es ret dev
              in Inr (dev', ls, cpu_physical_memory_write m p (concat bs))))
          else if command = PIPE_CMD_WRITE_BUFFER then
            obind (pipe_buffer tr ramsz (pd_address dev) (pd_size dev)) (\<lambda>p.
            obind (pipe_sendBuffers svcs pipe [cpu_physical_memory_read m p (unat (pd_size dev))]) (\<lambda>(ret, pipe', es).
              let (dev', ls) = pipe_done pipe' es ret dev in Inr (dev', ls, m)))
          else if command = PIPE_CMD_WAKE_ON_READ then
            obind (pipe_wake_on svcs PIPE_WAKE_READ pipe dev) (\<lambda>(dev', ls). Inr (dev', ls, m))
          else if command = PIPE_CMD_WAKE_ON_WRITE then
            obind (pipe_wake_on svcs PIPE_WAKE_WRITE pipe dev) (\<lambda>(dev', ls). Inr (dev', ls, m))
          else Inr (dev, [], m))"

section \<open>Registers\<close>

text \<open>\<open>wide\<close> is \<open>goldfish_guest_is_64bit\<close>; the two layouts of the parameter block have 24 and 40 bytes.\<close>

definition pipe_access_params :: "bool \<Rightarrow> bytes \<Rightarrow> u64 \<times> u32 \<times> u64 \<times> u32" where
  "pipe_access_params wide b =
     (if wide then (push_bit 32 (ucast (le32 b 4)) OR ucast (le32 b 0), le32 b 8,
                    push_bit 32 (ucast (le32 b 20)) OR ucast (le32 b 16), le32 b 24)
      else (ucast (le32 b 0), le32 b 4, ucast (le32 b 8), le32 b 12))"

definition pipe_dev_write ::
    "'o PipeService list \<Rightarrow> vtop \<Rightarrow> nat \<Rightarrow> bool \<Rightarrow> u32 \<Rightarrow> u32 \<Rightarrow> 'o PipeDevice \<Rightarrow> ram \<Rightarrow> ('o PipeDevice \<times> bool list \<times> ram) outcome" where
  "pipe_dev_write svcs tr ramsz wide offset value s m =
     (if offset = 0x00 then pipeDevice_doCommand svcs tr ramsz value s m
      else if offset = 0x0c then Inr (s\<lparr>pd_size := value\<rparr>, [], m)
      else if offset = 0x10 then Inr (s\<lparr>pd_address := uint64_set_low (pd_address s) value\<rparr>, [], m)
      else if offset = 0x34 then Inr (s\<lparr>pd_address := uint64_set_high (pd_address s) value\<rparr>, [], m)
      else if offset = 0x08 then Inr (s\<lparr>pd_channel := uint64_set_low (pd_channel s) value\<rparr>, [], m)
      else if offset = 0x30 then Inr (s\<lparr>pd_channel := uint64_set_high (pd_channel s) value\<rparr>, [], m)
      else if offset = 0x1c then
        Inr (s\<lparr>pd_params_addr := (pd_params_addr s AND NOT (push_bit 32 0xFFFFFFFF)) OR push_bit 32 (ucast value)\<rparr>, [], m)
      else if offset = 0x18 then
        Inr (s\<lparr>pd_params_addr := (pd_params_addr s AND NOT 0xFFFFFFFF) OR ucast value\<rparr>, [], m)
      else if offset = 0x20 then
        (if pd_params_addr s = 0 then Inr (s, [], m)
         else
           let aps = cpu_physical_memory_read m (pd_params_addr s) (if wide then 40 else 24);
               (ch, sz, addr, cmd) = pipe_access_params wide aps;
               s1 = s\<lparr>pd_channel := ch, pd_size := sz, pd_address := addr\<rparr>
           in if cmd \<noteq> PIPE_CMD_READ_BUFFER \<and> cmd \<noteq> PIPE_CMD_WRITE_BUFFER then Inr (s1, [], m)
              else obind (pipeDevice_doCommand svcs tr ramsz cmd s1 m) (\<lambda>(s2, ls, m2).
                Inr (s2, ls, cpu_physical_memory_write m2 (pd_params_addr s2)
                  (seg_write aps (if wide then 28 else 16) (le32_bytes (pd_status s2))))))
      else Inr (s, [], m))"

text \<open>Reading the channel takes the first signalled pipe off the list; the line falls with the last one.\<close>

definition pipe_read_channel :: "'o PipeDevice \<Rightarrow> u32 \<times> 'o PipeDevice \<times> bool list" where
  "pipe_read_channel dev =
     (case pd_signaled dev of
        [] \<Rightarrow> (0, dev, [])
      | i # rest \<Rightarrow>
          (case find_pipe i (pd_pipes dev) of
             None \<Rightarrow> (0, dev, [])
           | Some p \<Rightarrow>
               (ucast (pipe_channel p),
                (update_pipe i (\<lambda>p. p\<lparr>pipe_wanted := 0\<rparr>) dev)\<lparr>pd_wakes := ucast (pipe_wanted p), pd_signaled := rest\<rparr>,
                if rest = [] then [False] else [])))"

definition pipe_dev_read :: "u32 \<Rightarrow> 'o PipeDevice \<Rightarrow> u32 \<times> 'o PipeDevice \<times> bool list" where
  "pipe_dev_read offset dev =
     (if offset = 0x04 then (pd_status dev, dev, [])
      else if offset = 0x08 then pipe_read_channel dev
      else if offset = 0x30 then
        ((case pd_signaled dev of
            [] \<Rightarrow> 0
          | i # _ \<Rightarrow> (case find_pipe i (pd_pipes dev) of None \<Rightarrow> 0 | Some p \<Rightarrow> ucast (drop_bit 32 (pipe_channel p)))), dev, [])
      else if offset = 0x14 then (pd_wakes dev, dev, [])
      else if offset = 0x1c then (ucast (drop_bit 32 (pd_params_addr dev)), dev, [])
      else if offset = 0x18 then (ucast (pd_params_addr dev), dev, [])
      else (0, dev, []))"

definition pipe_dev_init :: "'o PipeDevice" where
  "pipe_dev_init = \<lparr>pd_pipes = [], pd_signaled = [], pd_address = 0, pd_size = 0, pd_status = 0, pd_channel = 0,
     pd_wakes = 0, pd_params_addr = 0, pd_fresh = 0\<rparr>"

section \<open>Snapshots\<close>

text \<open>A service's save function would get a connector if the pipe had been closed by loading it.\<close>

definition pipe_save :: "'o PipeService list \<Rightarrow> QEMUFile \<Rightarrow> 'o Pipe \<Rightarrow> QEMUFile outcome" where
  "pipe_save svcs f pipe =
     (let f1 = (case pipe_service pipe of
                  None \<Rightarrow> qemu_put_byte f 0
                | Some i \<Rightarrow> qemu_put_string (qemu_put_byte f 1) (Some (svc_name (svcs ! i))));
          f2 = qemu_put_byte (qemu_put_byte (qemu_put_be64 f1 (pipe_channel pipe)) (ucast (pipe_wanted pipe))) (ucast (pipe_closed pipe));
          f3 = (case pipe_args pipe of
                  None \<Rightarrow> qemu_put_byte f2 0
                | Some a \<Rightarrow> qemu_put_string (qemu_put_byte f2 1) (Some a))
      in case (pipe_service pipe, pipe_opaque pipe) of
           (None, Connector pc) \<Rightarrow>
             Inr (qemu_put_buffer (qemu_put_be32 f3 (of_nat (pcon_buffpos pc))) (take (pcon_buffpos pc) (pcon_buffer pc)))
         | (None, Peer x) \<Rightarrow> Inl Undefined_behaviour
         | (Some i, x) \<Rightarrow>
             (case svc_save (svcs ! i) of
                None \<Rightarrow> Inr f3
              | Some save \<Rightarrow> (case x of Peer y \<Rightarrow> Inr (save y f3) | Connector _ \<Rightarrow> Inl Undefined_behaviour)))"

definition pipeConnector_load :: "QEMUFile \<Rightarrow> PipeConnector option \<times> QEMUFile" where
  "pipeConnector_load f =
     (let (len, f1) = qemu_get_be32 f in
      if sint len < 0 \<or> unat len > PCON_SIZE then (None, f1)
      else
        let (got, f2) = qemu_get_buffer f1 (unat len) in
        if length got \<noteq> unat len then (None, f2)
        else (Some \<lparr>pcon_buffer = seg_write (replicate PCON_SIZE 0) 0 got, pcon_buffpos = unat len\<rparr>, f2))"

text \<open>\<open>None\<close> in the middle is a null pipe. \<open>i\<close> is the address the new pipe gets.\<close>

definition pipe_load_service :: "'o PipeService list \<Rightarrow> QEMUFile \<Rightarrow> (nat option option \<times> QEMUFile) outcome" where
  "pipe_load_service svcs f =
     (let (state, f1) = qemu_get_byte f in
      if state = 0 then Inr (Some None, f1)
      else obind (qemu_get_string f1) (\<lambda>(name, f2).
        case name of
          None \<Rightarrow> Inr (None, f2)
        | Some n \<Rightarrow>
            (case goldfish_pipe_find_type svcs (c_string n) of None \<Rightarrow> Inr (None, f2) | Some i \<Rightarrow> Inr (Some (Some i), f2))))"

definition pipe_get_addr :: "int \<Rightarrow> QEMUFile \<Rightarrow> u64 \<times> QEMUFile" where
  "pipe_get_addr version_id f = (if version_id = 2 then (let (c, g) = qemu_get_be32 f in (ucast c, g)) else qemu_get_be64 f)"

definition pipe_load :: "'o PipeService list \<Rightarrow> nat \<Rightarrow> int \<Rightarrow> QEMUFile \<Rightarrow> ('o Pipe option \<times> QEMUFile) outcome" where
  "pipe_load svcs i version_id f =
     obind (pipe_load_service svcs f) (\<lambda>(svc, f1).
     case svc of
       None \<Rightarrow> Inr (None, f1)
     | Some service \<Rightarrow>
         let (ch, f2) = pipe_get_addr version_id f1;
             (w, f3) = qemu_get_byte f2; (c, f4) = qemu_get_byte f3; (has_args, f5) = qemu_get_byte f4
         in obind (if has_args \<noteq> 0 then qemu_get_string f5 else Inr (None, f5)) (\<lambda>(args, f6).
              let pipe = (pipe_new i ch)\<lparr>pipe_wanted := ucast w, pipe_closed := ucast c, pipe_args := map_option c_string args,
                                         pipe_service := service\<rparr>
              in case service of
                   None \<Rightarrow>
                     (case pipeConnector_load f6 of
                        (None, f7) \<Rightarrow> Inr (None, f7)
                      | (Some pc, f7) \<Rightarrow> Inr (Some (pipe\<lparr>pipe_opaque := Connector pc\<rparr>), f7))
                 | Some k \<Rightarrow>
                     (case svc_load (svcs ! k) of
                        None \<Rightarrow> Inr (Some (pipe\<lparr>pipe_closed := 1\<rparr>), f6)
                      | Some load \<Rightarrow>
                          (case load (pipe_args pipe) f6 of
                             (None, f7) \<Rightarrow> Inr (None, f7)
                           | (Some x, f7) \<Rightarrow> Inr (Some (pipe\<lparr>pipe_opaque := Peer x\<rparr>), f7)))))"

fun pipe_save_list :: "'o PipeService list \<Rightarrow> QEMUFile \<Rightarrow> 'o Pipe list \<Rightarrow> QEMUFile outcome" where
  "pipe_save_list svcs f [] = Inr f"
| "pipe_save_list svcs f (p # ps) = obind (pipe_save svcs f p) (\<lambda>f1. pipe_save_list svcs f1 ps)"

definition goldfish_pipe_save :: "'o PipeService list \<Rightarrow> QEMUFile \<Rightarrow> 'o PipeDevice \<Rightarrow> QEMUFile outcome" where
  "goldfish_pipe_save svcs f dev =
     (let f1 = qemu_put_be64 f (pd_address dev); f2 = qemu_put_be32 f1 (pd_size dev);
          f3 = qemu_put_be32 f2 (pd_status dev); f4 = qemu_put_be64 f3 (pd_channel dev);
          f5 = qemu_put_be32 f4 (pd_wakes dev); f6 = qemu_put_be64 f5 (pd_params_addr dev);
          f7 = qemu_put_be32 f6 (of_nat (length (pd_pipes dev)))
      in pipe_save_list svcs f7 (pd_pipes dev))"

text \<open>The loaded pipes are put in front of the list. The first result says whether all could be loaded.\<close>

fun pipe_load_list ::
    "'o PipeService list \<Rightarrow> int \<Rightarrow> nat \<Rightarrow> 'o PipeDevice \<Rightarrow> QEMUFile \<Rightarrow> (bool \<times> 'o PipeDevice \<times> QEMUFile) outcome" where
  "pipe_load_list svcs version_id 0 dev f = Inr (True, dev, f)"
| "pipe_load_list svcs version_id (Suc count) dev f =
     obind (pipe_load svcs (pd_fresh dev) version_id f) (\<lambda>(p, f1).
       case p of
         None \<Rightarrow> Inr (False, dev\<lparr>pd_fresh := pd_fresh dev + 1\<rparr>, f1)
       | Some pipe \<Rightarrow>
           pipe_load_list svcs version_id count (dev\<lparr>pd_pipes := pipe # pd_pipes dev, pd_fresh := pd_fresh dev + 1\<rparr>) f1)"

fun pipe_rewake :: "nat list \<Rightarrow> 'o PipeDevice \<Rightarrow> 'o PipeDevice \<times> bool list" where
  "pipe_rewake [] dev = (dev, [])"
| "pipe_rewake (i # is) dev =
     (case find_pipe i (pd_pipes dev) of
        None \<Rightarrow> pipe_rewake is dev
      | Some p \<Rightarrow>
          (let (dev1, l1) = (if pipe_wanted p \<noteq> 0 then goldfish_pipe_wake i (ucast (pipe_wanted p)) dev else (dev, []));
               (dev2, l2) = (if pipe_closed p \<noteq> 0 then goldfish_pipe_close i dev1 else (dev1, []));
               (dev3, l3) = pipe_rewake is dev2
           in (dev3, l1 @ l2 @ l3)))"

definition goldfish_pipe_load ::
    "'o PipeService list \<Rightarrow> QEMUFile \<Rightarrow> 'o PipeDevice \<Rightarrow> int \<Rightarrow> (int \<times> 'o PipeDevice \<times> QEMUFile \<times> bool list) outcome" where
  "goldfish_pipe_load svcs f dev version_id =
     (if version_id \<noteq> 3 \<and> version_id \<noteq> 2 then Inr (-22, dev, f, [])
      else
        let (a, f1) = pipe_get_addr version_id f; (sz, f2) = qemu_get_be32 f1; (st, f3) = qemu_get_be32 f2;
            (ch, f4) = pipe_get_addr version_id f3; (w, f5) = qemu_get_be32 f4; (pa, f6) = qemu_get_be64 f5;
            (count, f7) = qemu_get_be32 f6;
            dev1 = dev\<lparr>pd_address := a, pd_size := sz, pd_status := st, pd_channel := ch, pd_wakes := w, pd_params_addr := pa\<rparr>
        in obind (pipe_load_list svcs version_id (nat (sint count)) dev1 f7) (\<lambda>(ok, dev2, f8).
             if \<not> ok then Inr (-5, dev2, f8, [])
             else let (dev3, ls) = pipe_rewake (map pipe_id (pd_pipes dev2)) dev2 in Inr (0, dev3, f8, ls)))"

end
