(* ===== verification/Pipe_Wake.thy ===== *)
theory Pipe_Wake
  imports Goldfish_Pipe
begin

unbundle bit_operations_syntax

text \<open>
  The lists of the pipe device and its interrupt line: every pipe has its own address and channel,
  a signalled pipe is a pipe of the device, the line is raised while pipes are signalled, and the
  guest's interrupt handler is told of each of them with its wake flags.
\<close>

section \<open>Well-formed lists\<close>

abbreviation pipe_ids :: "'o PipeDevice \<Rightarrow> nat list" where
  "pipe_ids dev \<equiv> map pipe_id (pd_pipes dev)"

definition pipes_ok :: "'o PipeDevice \<Rightarrow> bool" where
  "pipes_ok dev \<longleftrightarrow>
     distinct (pipe_ids dev) \<and> (\<forall>i\<in>set (pipe_ids dev). i < pd_fresh dev) \<and>
     distinct (pd_signaled dev) \<and> set (pd_signaled dev) \<subseteq> set (pipe_ids dev)"

definition channels_ok :: "'o PipeDevice \<Rightarrow> bool" where
  "channels_ok dev \<longleftrightarrow> distinct (map pipe_channel (pd_pipes dev))"

text \<open>What an operation on existing pipes leaves alone: their addresses and channels.\<close>

definition same_pipes :: "'o PipeDevice \<Rightarrow> 'o PipeDevice \<Rightarrow> bool" where
  "same_pipes dev dev' \<longleftrightarrow>
     pipe_ids dev' = pipe_ids dev \<and>
     map pipe_channel (pd_pipes dev') = map pipe_channel (pd_pipes dev) \<and> pd_fresh dev' = pd_fresh dev"

lemma same_pipes_refl [simp]: "same_pipes dev dev"
  by (simp add: same_pipes_def)

lemma same_pipes_trans: "same_pipes a b \<Longrightarrow> same_pipes b c \<Longrightarrow> same_pipes a c"
  by (simp add: same_pipes_def)

lemma same_pipes_ids: "same_pipes dev dev' \<Longrightarrow> pipe_ids dev' = pipe_ids dev"
  by (simp add: same_pipes_def)

lemma pipes_okI:
  "pipes_ok dev \<Longrightarrow> same_pipes dev dev' \<Longrightarrow> distinct (pd_signaled dev') \<Longrightarrow>
   set (pd_signaled dev') \<subseteq> set (pipe_ids dev) \<Longrightarrow> pipes_ok dev'"
  unfolding pipes_ok_def same_pipes_def by (elim conjE, intro conjI) (simp_all only:)

lemma pipes_ok_same: "pipes_ok dev \<Longrightarrow> same_pipes dev dev' \<Longrightarrow> pd_signaled dev' = pd_signaled dev \<Longrightarrow> pipes_ok dev'"
  unfolding pipes_ok_def same_pipes_def by (elim conjE, intro conjI) (simp_all only:)

lemma channels_okI: "channels_ok dev \<Longrightarrow> same_pipes dev dev' \<Longrightarrow> channels_ok dev'"
  by (simp add: channels_ok_def same_pipes_def)

lemma update_pipe_same:
  assumes "\<And>p. p \<in> set (pd_pipes dev) \<Longrightarrow> pipe_id p = i \<Longrightarrow> pipe_id (f p) = i \<and> pipe_channel (f p) = pipe_channel p"
  shows "same_pipes dev (update_pipe i f dev)" "pd_signaled (update_pipe i f dev) = pd_signaled dev"
  using assms by (auto simp: same_pipes_def update_pipe_def)

lemma wake_same:
  assumes "goldfish_pipe_wake i flags dev = (dev', ls)"
  shows "same_pipes dev dev'" "ls = [True]"
    "pd_signaled dev' = (if i \<in> set (pd_signaled dev) then pd_signaled dev else i # pd_signaled dev)"
  using assms by (auto simp: goldfish_pipe_wake_def update_pipe_def same_pipes_def)

lemma wake_ok:
  assumes "goldfish_pipe_wake i flags dev = (dev', ls)" "pipes_ok dev" "i \<in> set (pipe_ids dev)"
  shows "pipes_ok dev'"
  using assms(3) by (intro pipes_okI [OF assms(2) wake_same(1) [OF assms(1)]])
    (use assms(2) in \<open>auto simp: wake_same(3) [OF assms(1)] pipes_ok_def\<close>)

text \<open>Levels are only raised, and nothing is signalled without raising the line.\<close>

definition raises :: "'o PipeDevice \<Rightarrow> 'o PipeDevice \<Rightarrow> bool list \<Rightarrow> bool" where
  "raises dev dev' ls \<longleftrightarrow> False \<notin> set ls \<and> (ls = [] \<longrightarrow> pd_signaled dev' = pd_signaled dev)"

lemma raises_drive:
  assumes "raises dev dev' ls" "pd_signaled dev \<noteq> [] \<longrightarrow> line" "pd_signaled dev' \<noteq> []"
  shows "drive line ls"
proof (cases "ls = []")
  case True
  with assms show ?thesis by (simp add: raises_def)
next
  case False
  have "last ls" using assms(1) last_in_set [OF False] by (cases "last ls") (simp_all add: raises_def)
  then show ?thesis by (simp add: drive_last [OF False])
qed

lemma raises_trans: "raises a b l1 \<Longrightarrow> raises b c l2 \<Longrightarrow> raises a c (l1 @ l2)"
  unfolding raises_def by simp

lemma close_same:
  assumes "goldfish_pipe_close i dev = (dev', ls)" "pipes_ok dev"
  shows "same_pipes dev dev' \<and> raises dev dev' ls \<and> pipes_ok dev'"
proof (cases "find_pipe i (pd_pipes dev)")
  case None
  with assms show ?thesis by (simp add: goldfish_pipe_close_def raises_def)
next
  case (Some p)
  then have i: "i \<in> set (pipe_ids dev)" by (auto simp: find_pipe_def find_Some_iff)
  define dev1 where "dev1 = update_pipe i (\<lambda>p. p\<lparr>pipe_closed := 1\<rparr>) dev"
  have d1: "same_pipes dev dev1" "pd_signaled dev1 = pd_signaled dev"
    unfolding dev1_def by (rule update_pipe_same; simp)+
  then have "pipes_ok dev1" by (rule pipes_ok_same [OF assms(2)])
  moreover have "i \<in> set (pipe_ids dev1)" using i same_pipes_ids [OF d1(1)] by (simp only:)
  ultimately show ?thesis
    using Some assms wake_ok [of i PIPE_WAKE_CLOSED dev1 dev' ls] wake_same [of i PIPE_WAKE_CLOSED dev1 dev' ls] same_pipes_trans [OF d1(1)]
    by (auto simp: goldfish_pipe_close_def dev1_def [symmetric] raises_def split: if_splits)
qed

lemma events_same:
  "pipe_events i es dev = (dev', ls) \<Longrightarrow> pipes_ok dev \<Longrightarrow> i \<in> set (pipe_ids dev) \<Longrightarrow>
   same_pipes dev dev' \<and> raises dev dev' ls \<and> pipes_ok dev'"
proof (induction i es dev arbitrary: dev' ls rule: pipe_events.induct)
  case (1 i dev)
  then show ?case by (simp add: raises_def)
next
  case (2 i flags es dev)
  obtain dev1 l1 where w: "goldfish_pipe_wake i flags dev = (dev1, l1)" by fastforce
  obtain dev2 l2 where e: "pipe_events i es dev1 = (dev2, l2)" by fastforce
  note s = wake_same [OF w] wake_ok [OF w "2.prems"(2,3)]
  have "i \<in> set (pipe_ids dev1)" using "2.prems"(3) same_pipes_ids [OF s(1)] by (simp only:)
  from "2.IH" [OF w [symmetric] refl e s(4) this] s same_pipes_trans [OF s(1)] "2.prems"(1) w e show ?case
    by (auto simp: raises_def)
next
  case (3 i es dev)
  obtain dev1 l1 where w: "goldfish_pipe_close i dev = (dev1, l1)" by fastforce
  obtain dev2 l2 where e: "pipe_events i es dev1 = (dev2, l2)" by fastforce
  from close_same [OF w "3.prems"(2)] have s: "same_pipes dev dev1" "raises dev dev1 l1" "pipes_ok dev1" by auto
  have "i \<in> set (pipe_ids dev1)" using "3.prems"(3) same_pipes_ids [OF s(1)] by (simp only:)
  from "3.IH" [OF w [symmetric] refl e s(3) this] s same_pipes_trans [OF s(1)] raises_trans [OF s(2)] "3.prems"(1) w e show ?case
    by auto
qed

text \<open>Callbacks do not move a pipe.\<close>

definition same_pipe :: "'o Pipe \<Rightarrow> 'o Pipe \<Rightarrow> bool" where
  "same_pipe p q \<longleftrightarrow> pipe_id q = pipe_id p \<and> pipe_channel q = pipe_channel p"

lemma sendBuffers_same: "pipe_sendBuffers svcs p bs = Inr (r, p', es) \<Longrightarrow> same_pipe p p'"
  by (auto simp: same_pipe_def pipe_sendBuffers_def pipeConnector_sendBuffers_def Let_def
      split: option.splits pipe_opaque.splits prod.splits if_splits)

lemma recvBuffers_same: "pipe_recvBuffers svcs p ns = Inr (r, bs, p', es) \<Longrightarrow> same_pipe p p'"
  by (auto simp: same_pipe_def pipe_recvBuffers_def split: option.splits pipe_opaque.splits)

lemma wakeOn_same: "pipe_wakeOn svcs p = Inr (p', es) \<Longrightarrow> same_pipe p p'"
  by (auto simp: same_pipe_def pipe_wakeOn_def split: option.splits pipe_opaque.splits prod.splits)

lemma find_channel_in: "pipe_list_findp_channel ps ch = Some p \<Longrightarrow> p \<in> set ps \<and> pipe_channel p = ch"
  by (auto simp: pipe_list_findp_channel_def find_Some_iff)

lemma pipes_ok_fields [simp]:
  "pipes_ok (dev\<lparr>pd_status := v\<rparr>) = pipes_ok dev" "pipes_ok (dev\<lparr>pd_address := a\<rparr>) = pipes_ok dev"
  "pipes_ok (dev\<lparr>pd_size := v\<rparr>) = pipes_ok dev" "pipes_ok (dev\<lparr>pd_channel := a\<rparr>) = pipes_ok dev"
  "pipes_ok (dev\<lparr>pd_params_addr := a\<rparr>) = pipes_ok dev" "pipes_ok (dev\<lparr>pd_wakes := v\<rparr>) = pipes_ok dev"
  by (simp_all add: pipes_ok_def)

lemma channels_ok_fields [simp]:
  "channels_ok (dev\<lparr>pd_status := v\<rparr>) = channels_ok dev" "channels_ok (dev\<lparr>pd_address := a\<rparr>) = channels_ok dev"
  "channels_ok (dev\<lparr>pd_size := v\<rparr>) = channels_ok dev" "channels_ok (dev\<lparr>pd_channel := a\<rparr>) = channels_ok dev"
  "channels_ok (dev\<lparr>pd_params_addr := a\<rparr>) = channels_ok dev" "channels_ok (dev\<lparr>pd_wakes := v\<rparr>) = channels_ok dev"
  by (simp_all add: channels_ok_def)

lemma done_same:
  assumes d: "pipe_done q es status dev = (dev', ls)" and "pipes_ok dev" "p \<in> set (pd_pipes dev)" "same_pipe p q"
  shows "same_pipes dev dev' \<and> raises dev dev' ls \<and> pipes_ok dev'"
proof -
  let ?u = "update_pipe (pipe_id q) (\<lambda>_. q) dev"
  obtain dev1 where e: "pipe_events (pipe_id q) es ?u = (dev1, ls)" "dev' = dev1\<lparr>pd_status := status\<rparr>"
    using d by (auto simp: pipe_done_def Let_def split: prod.splits)
  have "x = p" if "x \<in> set (pd_pipes dev)" "pipe_id x = pipe_id q" for x
    using assms(2-4) that by (auto simp: pipes_ok_def same_pipe_def distinct_map inj_on_def)
  then have u: "same_pipes dev ?u" "pd_signaled ?u = pd_signaled dev"
    using assms(4) by (intro update_pipe_same; auto simp: same_pipe_def)+
  have "pipes_ok ?u" using u by (rule pipes_ok_same [OF assms(2)])
  moreover have "pipe_id q \<in> set (pipe_ids ?u)"
    using assms(3,4) unfolding same_pipes_ids [OF u(1)] by (auto simp: same_pipe_def)
  ultimately have "same_pipes ?u dev1 \<and> raises ?u dev1 ls \<and> pipes_ok dev1" by (rule events_same [OF e(1)])
  with u e(2) show ?thesis by (auto simp: same_pipes_def raises_def)
qed

section \<open>Every operation keeps the lists and the line\<close>

definition pipe_good :: "'o PipeDevice \<Rightarrow> bool" where
  "pipe_good dev \<longleftrightarrow> pipes_ok dev \<and> channels_ok dev"

definition keeps :: "'o PipeDevice \<Rightarrow> 'o PipeDevice \<Rightarrow> bool list \<Rightarrow> bool" where
  "keeps dev dev' ls \<longleftrightarrow>
     pipe_good dev' \<and> (pd_signaled dev' \<noteq> [] \<longrightarrow> (if ls = [] then pd_signaled dev \<noteq> [] else last ls))"

lemma keeps_raises:
  "pipe_good dev \<Longrightarrow> same_pipes dev dev' \<and> raises dev dev' ls \<and> pipes_ok dev' \<Longrightarrow> keeps dev dev' ls"
  unfolding keeps_def pipe_good_def raises_def
  by (metis channels_okI last_in_set)

lemma keeps_quiet: "pipe_good dev' \<Longrightarrow> pd_signaled dev' = pd_signaled dev \<Longrightarrow> keeps dev dev' []"
  by (simp add: keeps_def)

lemma pipe_good_fields [simp]:
  "pipe_good (dev\<lparr>pd_status := v\<rparr>) = pipe_good dev" "pipe_good (dev\<lparr>pd_address := a\<rparr>) = pipe_good dev"
  "pipe_good (dev\<lparr>pd_size := v\<rparr>) = pipe_good dev" "pipe_good (dev\<lparr>pd_channel := a\<rparr>) = pipe_good dev"
  "pipe_good (dev\<lparr>pd_params_addr := a\<rparr>) = pipe_good dev" "pipe_good (dev\<lparr>pd_wakes := v\<rparr>) = pipe_good dev"
  by (simp_all add: pipe_good_def)

lemma done_keeps:
  "pipe_done q es status dev = (dev', ls) \<Longrightarrow> pipe_good dev \<Longrightarrow> p \<in> set (pd_pipes dev) \<Longrightarrow> same_pipe p q \<Longrightarrow> keeps dev dev' ls"
  by (rule keeps_raises) (simp_all add: done_same pipe_good_def)

lemma open_good:
  assumes "pipe_good dev" "pipe_list_findp_channel (pd_pipes dev) (pd_channel dev) = None"
  shows "pipe_good (dev\<lparr>pd_pipes := pipe_new (pd_fresh dev) (pd_channel dev) # pd_pipes dev, pd_fresh := pd_fresh dev + 1, pd_status := 0\<rparr>)"
proof -
  have "pd_channel dev \<notin> pipe_channel ` set (pd_pipes dev)"
    using assms(2) by (auto simp: pipe_list_findp_channel_def find_None_iff)
  moreover have "pd_fresh dev \<notin> pipe_id ` set (pd_pipes dev)"
    using assms(1) by (auto simp: pipe_good_def pipes_ok_def)
  ultimately show ?thesis
    using assms(1) by (auto simp: pipe_good_def pipes_ok_def channels_ok_def pipe_new_def less_Suc_eq)
qed

lemma close_good:
  assumes "pipe_good dev"
  shows "pipe_good (dev\<lparr>pd_pipes := filter (\<lambda>p. pipe_id p \<noteq> i) (pd_pipes dev), pd_signaled := pipe_list_remove_waked (pd_signaled dev) i\<rparr>)"
  using assms by (auto simp: pipe_good_def pipes_ok_def channels_ok_def pipe_list_remove_waked_def distinct_map_filter set_remove1_eq)

lemma wake_on_keeps:
  assumes "pipe_wake_on svcs flag p dev = Inr (dev', ls)" "pipe_good dev" "p \<in> set (pd_pipes dev)"
  shows "keeps dev dev' ls"
proof (cases "pipe_wanted p AND ucast flag = 0")
  case True
  let ?p = "p\<lparr>pipe_wanted := pipe_wanted p OR ucast flag\<rparr>"
  from True assms(1) obtain q es where q: "pipe_wakeOn svcs ?p = Inr (q, es)" "pipe_done q es 0 dev = (dev', ls)"
    by (auto simp: pipe_wake_on_def)
  have "same_pipe p q" using wakeOn_same [OF q(1)] by (simp add: same_pipe_def)
  with q(2) assms(2,3) show ?thesis by (rule done_keeps)
qed (use assms in \<open>auto simp: pipe_wake_on_def intro: keeps_quiet\<close>)

lemma doCommand_keeps:
  assumes c: "pipeDevice_doCommand svcs tr ramsz cmd dev m = Inr (dev', ls, m')" and g: "pipe_good dev"
  shows "keeps dev dev' ls"
proof (cases "pipe_list_findp_channel (pd_pipes dev) (pd_channel dev)")
  case None
  then show ?thesis using c g open_good [OF g None]
    by (auto simp: pipeDevice_doCommand_def intro: keeps_quiet split: if_splits)
next
  case (Some p)
  then have p: "p \<in> set (pd_pipes dev)" using find_channel_in by blast
  consider (same) "ls = []" "\<exists>st. dev' = dev\<lparr>pd_status := st\<rparr> \<or> dev' = dev"
    | (close) "ls = []" "dev' = dev\<lparr>pd_pipes := filter (\<lambda>q. pipe_id q \<noteq> pipe_id p) (pd_pipes dev),
         pd_signaled := pipe_list_remove_waked (pd_signaled dev) (pipe_id p)\<rparr>"
    | (called) q es st where "same_pipe p q" "fst (pipe_done q es st dev) = dev'" "snd (pipe_done q es st dev) = ls"
    | (wake) flag where "pipe_wake_on svcs flag p dev = Inr (dev', ls)"
    using c Some
    by (auto simp: pipeDevice_doCommand_def Let_def case_prod_unfold split: if_split_asm dest: sendBuffers_same recvBuffers_same)
  then show ?thesis
  proof cases
    case same
    then show ?thesis using g by (auto intro: keeps_quiet)
  next
    case close
    have "pipe_list_remove_waked (pd_signaled dev) (pipe_id p) \<noteq> [] \<Longrightarrow> pd_signaled dev \<noteq> []"
      by (auto simp: pipe_list_remove_waked_def)
    with close close_good [OF g] show ?thesis by (simp add: keeps_def)
  next
    case called
    from called(2,3) have "pipe_done q es st dev = (dev', ls)" by (simp add: prod_eq_iff)
    then show ?thesis using g p called(1) by (rule done_keeps)
  next
    case wake
    from wake g p show ?thesis by (rule wake_on_keeps)
  qed
qed

lemma dev_write_keeps:
  assumes w: "pipe_dev_write svcs tr ramsz wide offset value dev m = Inr (dev', ls, m')" and g: "pipe_good dev"
  shows "keeps dev dev' ls"
proof -
  consider (quiet) "ls = []" "pipe_good dev'" "pd_signaled dev' = pd_signaled dev"
    | (cmd) c d m2 where "pipeDevice_doCommand svcs tr ramsz c d m = Inr (dev', ls, m2)" "pipe_good d" "pd_signaled d = pd_signaled dev"
    using w g unfolding pipe_dev_write_def
    by (simp only: Let_def case_prod_unfold split: if_split_asm) (auto simp: Let_def)
  then show ?thesis
  proof cases
    case quiet
    then show ?thesis by (simp add: keeps_def)
  next
    case cmd
    from doCommand_keeps [OF cmd(1,2)] show ?thesis unfolding keeps_def cmd(3) .
  qed
qed

lemma read_channel_keeps:
  assumes "pipe_read_channel dev = (v, dev', ls)" "pipe_good dev"
  shows "keeps dev dev' ls"
proof (cases "pd_signaled dev")
  case Nil
  with assms show ?thesis by (auto simp: pipe_read_channel_def intro: keeps_quiet)
next
  case (Cons i rest)
  let ?u = "update_pipe i (\<lambda>p. p\<lparr>pipe_wanted := 0\<rparr>) dev"
  have u: "same_pipes dev ?u" "pd_signaled ?u = pd_signaled dev" by (rule update_pipe_same; simp)+
  have "pipe_good (?u\<lparr>pd_wakes := w, pd_signaled := rest\<rparr>)" for w
  proof -
    have "same_pipes dev (?u\<lparr>pd_wakes := w, pd_signaled := rest\<rparr>)" using u(1) by (simp add: same_pipes_def)
    then show ?thesis
      using assms(2) Cons pipes_okI [of dev "?u\<lparr>pd_wakes := w, pd_signaled := rest\<rparr>"] channels_okI
      by (auto simp: pipe_good_def pipes_ok_def)
  qed
  with Cons assms show ?thesis
    by (cases "find_pipe i (pd_pipes dev)") (auto simp: pipe_read_channel_def keeps_def split: if_splits)
qed

lemma dev_read_keeps:
  assumes "pipe_dev_read offset dev = (v, dev', ls)" "pipe_good dev"
  shows "keeps dev dev' ls"
  using assms read_channel_keeps [of dev v dev' ls] by (auto simp: pipe_dev_read_def intro: keeps_quiet split: if_split_asm)

section \<open>Sequences of operations\<close>

text \<open>
  What happens to the device: the guest accesses a register, a service wakes or closes one of its
  pipes, or changes its own state. A pipe that has been freed must not be used.
\<close>

datatype 'o pipe_op = Pipe_reg_write u32 u32 | Pipe_reg_read u32 | Pipe_host nat pipe_event | Pipe_state nat 'o

fun pipe_step ::
    "'o PipeService list \<Rightarrow> vtop \<Rightarrow> nat \<Rightarrow> bool \<Rightarrow> 'o pipe_op \<Rightarrow> 'o PipeDevice \<times> ram \<Rightarrow> (('o PipeDevice \<times> ram) \<times> bool list) outcome" where
  "pipe_step svcs tr ramsz wide (Pipe_reg_write offset value) (dev, m) =
     obind (pipe_dev_write svcs tr ramsz wide offset value dev m) (\<lambda>(dev', ls, m'). Inr ((dev', m'), ls))"
| "pipe_step svcs tr ramsz wide (Pipe_reg_read offset) (dev, m) =
     (let (v, dev', ls) = pipe_dev_read offset dev in Inr ((dev', m), ls))"
| "pipe_step svcs tr ramsz wide (Pipe_host i ev) (dev, m) =
     (if i \<in> set (pipe_ids dev) then let (dev', ls) = pipe_events i [ev] dev in Inr ((dev', m), ls) else Inl Undefined_behaviour)"
| "pipe_step svcs tr ramsz wide (Pipe_state i x) (dev, m) =
     (if i \<in> set (pipe_ids dev) then Inr ((update_pipe i (\<lambda>p. p\<lparr>pipe_opaque := Peer x\<rparr>) dev, m), []) else Inl Undefined_behaviour)"

lemma step_keeps:
  assumes "pipe_step svcs tr ramsz wide a (dev, m) = Inr ((dev', m'), ls)" "pipe_good dev"
  shows "keeps dev dev' ls"
proof (cases a)
  case (Pipe_reg_write offset val)
  with assms show ?thesis by (auto intro: dev_write_keeps)
next
  case (Pipe_reg_read offset)
  with assms show ?thesis by (auto simp: Let_def intro: dev_read_keeps split: prod.split_asm)
next
  case (Pipe_host i ev)
  then have i: "i \<in> set (pipe_ids dev)" and "pipe_events i [ev] dev = (dev', ls)"
    using assms(1) by (auto simp: Let_def simp del: pipe_events.simps split: if_split_asm prod.split_asm)
  from events_same [OF this(2) _ i] assms(2) show ?thesis by (intro keeps_raises) (simp_all add: pipe_good_def)
next
  case (Pipe_state i x)
  then have d: "dev' = update_pipe i (\<lambda>p. p\<lparr>pipe_opaque := Peer x\<rparr>) dev" "ls = []"
    using assms(1) by (auto split: if_split_asm)
  have u: "same_pipes dev dev'" "pd_signaled dev' = pd_signaled dev" unfolding d(1) by (rule update_pipe_same; simp)+
  have "pipe_good dev'"
    using assms(2) pipes_ok_same [OF _ u] channels_okI [OF _ u(1)] by (auto simp: pipe_good_def)
  with u(2) d(2) show ?thesis by (simp add: keeps_def)
qed

interpretation pipe_irq: pending_irq_device "pipe_step svcs tr ramsz wide" "\<lambda>s. pd_signaled (fst s) \<noteq> []" "\<lambda>s. pipe_good (fst s)"
proof
  fix s s' :: "'a PipeDevice \<times> ram" and a ls line
  assume g: "pipe_good (fst s)" and st: "pipe_step svcs tr ramsz wide a s = Inr (s', ls)"
  have k: "keeps (fst s) (fst s') ls" by (rule step_keeps [of svcs tr ramsz wide a _ "snd s" _ "snd s'"]) (simp_all add: g st)
  then show "pipe_good (fst s')" by (simp add: keeps_def)
  assume "pd_signaled (fst s) \<noteq> [] \<longrightarrow> line" "pd_signaled (fst s') \<noteq> []"
  with k show "drive line ls" by (cases "ls = []") (simp_all add: keeps_def drive_last)
qed

lemma init_good: "pipe_good pipe_dev_init"
  by (simp add: pipe_good_def pipes_ok_def channels_ok_def pipe_dev_init_def)

section \<open>What the guest is told\<close>

text \<open>The registers an interrupt handler reads for one pipe, \<open>n\<close> times: the channel and its flags.\<close>

fun pipe_drain :: "nat \<Rightarrow> 'o PipeDevice \<Rightarrow> (u64 \<times> u32) list \<times> 'o PipeDevice \<times> bool list" where
  "pipe_drain 0 dev = ([], dev, [])"
| "pipe_drain (Suc n) dev =
     (let (hi, dev1, l1) = pipe_dev_read 0x30 dev; (lo, dev2, l2) = pipe_dev_read 0x08 dev1; (w, dev3, l3) = pipe_dev_read 0x14 dev2;
          (rs, dev4, l4) = pipe_drain n dev3
      in ((push_bit 32 (ucast hi) OR ucast lo, w) # rs, dev4, l1 @ l2 @ l3 @ l4))"

definition pipe_report :: "'o PipeDevice \<Rightarrow> nat \<Rightarrow> u64 \<times> u32" where
  "pipe_report dev i = (case find_pipe i (pd_pipes dev) of None \<Rightarrow> (0, 0) | Some p \<Rightarrow> (pipe_channel p, ucast (pipe_wanted p)))"

lemma u64_halves: "push_bit 32 (ucast (ucast (drop_bit 32 v) :: u32)) OR ucast (ucast v :: u32) = (v :: u64)"
  by (rule bit_word_eqI) (auto simp: bit_simps dest: bit_imp_le_length)

lemma find_update_pipe:
  assumes "\<And>p. pipe_id (f p) = pipe_id p"
  shows "find_pipe j (pd_pipes (update_pipe i f dev)) = (if j = i then map_option f else id) (find_pipe j (pd_pipes dev))"
proof -
  have "find_pipe j (map (\<lambda>p. if pipe_id p = i then f p else p) ps) = (if j = i then map_option f else id) (find_pipe j ps)" for ps
    using assms by (induction ps) (auto simp: find_pipe_def)
  then show ?thesis by (simp add: update_pipe_def)
qed

lemma find_pipe_ids: "i \<in> set (pipe_ids dev) \<Longrightarrow> \<exists>p. find_pipe i (pd_pipes dev) = Some p \<and> pipe_id p = i"
  by (cases "find_pipe i (pd_pipes dev)") (auto simp: find_pipe_def find_None_iff find_Some_iff)

text \<open>One turn of the handler.\<close>

lemma drain_step:
  assumes "pipes_ok dev" "pd_signaled dev = i # rest"
  obtains dev2 where "pipe_drain (Suc n) dev =
      (let (rs, dev4, l4) = pipe_drain n dev2 in (pipe_report dev i # rs, dev4, (if rest = [] then [False] else []) @ l4))"
    "pd_signaled dev2 = rest" "pipes_ok dev2" "same_pipes dev dev2"
    "\<And>j. find_pipe j (pd_pipes dev2) = (if j = i then map_option (\<lambda>p. p\<lparr>pipe_wanted := 0\<rparr>) else id) (find_pipe j (pd_pipes dev))"
proof -
  obtain p where p: "find_pipe i (pd_pipes dev) = Some p" using find_pipe_ids [of i dev] assms by (auto simp: pipes_ok_def)
  let ?u = "update_pipe i (\<lambda>p. p\<lparr>pipe_wanted := 0\<rparr>) dev"
  define dev2 where "dev2 = ?u\<lparr>pd_wakes := ucast (pipe_wanted p), pd_signaled := rest\<rparr>"
  have "same_pipes dev ?u" by (rule update_pipe_same) simp
  then have s: "same_pipes dev dev2" by (simp add: same_pipes_def dev2_def)
  have sg: "pd_signaled dev2 = rest" by (simp add: dev2_def)
  have ok: "pipes_ok dev2" by (rule pipes_okI [OF assms(1) s]) (use assms in \<open>auto simp: pipes_ok_def sg\<close>)
  have f: "find_pipe j (pd_pipes dev2) = (if j = i then map_option (\<lambda>p. p\<lparr>pipe_wanted := 0\<rparr>) else id) (find_pipe j (pd_pipes dev))" for j
    using find_update_pipe [of "\<lambda>p. p\<lparr>pipe_wanted := 0\<rparr>" j i dev] by (simp add: dev2_def)
  have "pipe_drain (Suc n) dev = (let (rs, dev4, l4) = pipe_drain n dev2 in (pipe_report dev i # rs, dev4, (if rest = [] then [False] else []) @ l4))"
    using assms(2) p by (simp add: pipe_dev_read_def pipe_read_channel_def pipe_report_def u64_halves dev2_def Let_def split: prod.split)
  from that [OF this sg ok s f] show thesis .
qed

lemma drain_correct:
  "pipes_ok dev \<Longrightarrow> pd_signaled dev = sig \<Longrightarrow> pipe_drain (length sig) dev = (rs, dev', ls) \<Longrightarrow>
   rs = map (pipe_report dev) sig \<and> pd_signaled dev' = [] \<and> ls = (if sig = [] then [] else [False]) \<and> same_pipes dev dev' \<and>
   (\<forall>j. find_pipe j (pd_pipes dev') = (if j \<in> set sig then map_option (\<lambda>p. p\<lparr>pipe_wanted := 0\<rparr>) else id) (find_pipe j (pd_pipes dev)))"
proof (induction sig arbitrary: dev rs ls)
  case (Cons i rest)
  obtain dev2 where d: "pipe_drain (Suc (length rest)) dev =
      (let (rs, dev4, l4) = pipe_drain (length rest) dev2 in (pipe_report dev i # rs, dev4, (if rest = [] then [False] else []) @ l4))"
    "pd_signaled dev2 = rest" "pipes_ok dev2" "same_pipes dev dev2"
    "\<And>j. find_pipe j (pd_pipes dev2) = (if j = i then map_option (\<lambda>p. p\<lparr>pipe_wanted := 0\<rparr>) else id) (find_pipe j (pd_pipes dev))"
    using drain_step [OF Cons.prems(1,2), of "length rest"] by blast
  obtain rs2 l2 where r: "pipe_drain (length rest) dev2 = (rs2, dev', l2)" "rs = pipe_report dev i # rs2"
    "ls = (if rest = [] then [False] else []) @ l2"
    using Cons.prems(3) unfolding list.size add_Suc_right add_0_right d(1) by (auto split: prod.split_asm)
  note IH = Cons.IH [OF d(3,2) r(1)]
  have ni: "i \<notin> set rest" using Cons.prems(1,2) by (simp add: pipes_ok_def)
  then have "pipe_report dev2 j = pipe_report dev j" if "j \<in> set rest" for j
    using that d(5) [of j] by (auto simp: pipe_report_def)
  then have "map (pipe_report dev2) rest = map (pipe_report dev) rest" by simp
  moreover have "find_pipe j (pd_pipes dev') = (if j \<in> set (i # rest) then map_option (\<lambda>p. p\<lparr>pipe_wanted := 0\<rparr>) else id) (find_pipe j (pd_pipes dev))" for j
    using IH d(5) [of j] ni by (cases "j = i") auto
  ultimately show ?case using IH r(2,3) same_pipes_trans [OF d(4)] by auto
qed auto

text \<open>
  C12: No wake-up of a pipe is lost. After any sequence of register accesses and of actions of the
  services, starting with the new device, the interrupt line is raised if a pipe is signalled; pipes
  have different addresses and different channels, and only live pipes are signalled, each once.
\<close>

theorem pipe_wake_not_lost:
  assumes "run_device (pipe_step svcs tr ramsz wide) ops (pipe_dev_init, m) False = Inr ((dev, m'), line)"
  shows "distinct (pipe_ids dev) \<and> distinct (map pipe_channel (pd_pipes dev)) \<and>
    distinct (pd_signaled dev) \<and> set (pd_signaled dev) \<subseteq> set (pipe_ids dev) \<and>
    (pd_signaled dev = [] \<or> line)"
  using pipe_irq.run_pending [OF _ _ assms] init_good
  by (auto simp: pipe_dev_init_def pipe_good_def pipes_ok_def channels_ok_def)

theorem pipe_wake_not_lost_witness:
  "\<exists>dev m' line. run_device (pipe_step ([] :: nat PipeService list) (\<lambda>_. None) 0 False)
       [Pipe_reg_write 0x08 5, Pipe_reg_write 0 1, Pipe_host 0 (Pipe_wake 2)] (pipe_dev_init, \<lambda>_. 0) False = Inr ((dev, m'), line) \<and>
     pd_signaled dev = [0] \<and> line"
proof -
  obtain dev m' line where r: "run_device (pipe_step ([] :: nat PipeService list) (\<lambda>_. None) 0 False)
       [Pipe_reg_write 0x08 5, Pipe_reg_write 0 1, Pipe_host 0 (Pipe_wake 2)] (pipe_dev_init, \<lambda>_. 0) False = Inr ((dev, m'), line)"
    "pd_signaled dev = [0]"
    by (simp add: pipe_dev_write_def pipeDevice_doCommand_def pipe_list_findp_channel_def dev_defs pipe_dev_init_def
        goldfish_pipe_wake_def update_pipe_def pipe_new_def)
  with pipe_wake_not_lost [OF r(1)] show ?thesis by (intro exI conjI) (rule r, auto)
qed

text \<open>
  C29: The guest's interrupt handler learns of every signalled pipe, once, with the channel and
  the wake flags of the pipe; then no pipe is signalled, their flags are reset and no others, and the
  line has been lowered.
\<close>

theorem pipe_drain_reports:
  assumes "pipes_ok dev" "pipe_drain (length (pd_signaled dev)) dev = (rs, dev', ls)"
  shows "rs = map (pipe_report dev) (pd_signaled dev) \<and> pd_signaled dev' = [] \<and> ls = (if pd_signaled dev = [] then [] else [False]) \<and>
    pipe_ids dev' = pipe_ids dev \<and>
    (\<forall>j. find_pipe j (pd_pipes dev') =
       (if j \<in> set (pd_signaled dev) then map_option (\<lambda>p. p\<lparr>pipe_wanted := 0\<rparr>) else id) (find_pipe j (pd_pipes dev)))"
  using drain_correct [OF assms(1) refl assms(2)] by (simp add: same_pipes_def)

theorem pipe_drain_reports_witness:
  "\<exists>dev :: nat PipeDevice. pipes_ok dev \<and> fst (pipe_drain (length (pd_signaled dev)) dev) = [(7, 2)] \<and> pd_signaled dev = [0]"
proof -
  define dev :: "nat PipeDevice" where
    "dev = pipe_dev_init\<lparr>pd_pipes := [(pipe_new 0 7)\<lparr>pipe_wanted := 2\<rparr>], pd_signaled := [0], pd_fresh := 1\<rparr>"
  have ok: "pipes_ok dev" by (simp add: dev_def pipes_ok_def pipe_new_def)
  obtain rs dev' ls where d: "pipe_drain (length (pd_signaled dev)) dev = (rs, dev', ls)" by (metis prod_cases3)
  have "map (pipe_report dev) (pd_signaled dev) = [(7, 2)]"
    by (simp add: dev_def pipe_report_def find_pipe_def pipe_new_def)
  with pipe_drain_reports [OF ok d] d ok show ?thesis by (intro exI [of _ dev]) (simp add: dev_def)
qed

text \<open>
  Closing the last signalled pipe does not lower the line, and reading the channel register does
  not either: the interrupt stays raised with nothing to report.
\<close>

lemma pipe_close_leaves_line:
  assumes "pipe_list_findp_channel (pd_pipes dev) (pd_channel dev) = Some p" "pipe_free p = Inr ()"
    "pd_signaled dev = [pipe_id p]"
  shows "\<exists>dev'. pipeDevice_doCommand svcs tr ramsz PIPE_CMD_CLOSE dev m = Inr (dev', [], m) \<and>
    pd_signaled dev' = [] \<and> pipe_dev_read 0x08 dev' = (0, dev', [])"
  using assms by (simp add: pipeDevice_doCommand_def dev_defs pipe_list_remove_waked_def pipe_dev_read_def pipe_read_channel_def)

end
