(* ===== verification/Pipe_Services.thy ===== *)
theory Pipe_Services
  imports Pipe_Wake Fifo
begin

unbundle bit_operations_syntax

text \<open>
  The services of \<open>hw/android/goldfish/pipe.c\<close> itself: \<open>zero\<close>, \<open>pingpong\<close> and \<open>throttle\<close>.

  The pingpong buffer is a ring that grows by doubling. \<open>lim\<close> is the largest size \<open>realloc\<close> can
  give, \<open>junk\<close> the contents of new memory by position. Positions are converted to \<open>int\<close>: one that
  does not fit is a fault.
\<close>

section \<open>Zero pipes\<close>

text \<open>The sizes are added in an \<open>int\<close>.\<close>

definition zeroPipe_sendBuffers :: "bytes list \<Rightarrow> u32" where
  "zeroPipe_sendBuffers buffers = sum_list (map (\<lambda>b. of_nat (length b)) buffers)"

definition zeroPipe_recvBuffers :: "nat list \<Rightarrow> u32 \<times> bytes list" where
  "zeroPipe_recvBuffers sizes = (sum_list (map of_nat sizes), map (\<lambda>n. replicate n 0) sizes)"

definition zeroPipe_poll :: u32 where
  "zeroPipe_poll = PIPE_POLL_IN OR PIPE_POLL_OUT"

section \<open>Ping pong pipes\<close>

definition PINGPONG_SIZE :: nat where [dev_defs]: "PINGPONG_SIZE = 1024"

text \<open>The member \<open>size\<close> is the length of the buffer.\<close>

record PingPongPipe =
  pp_buffer :: bytes
  pp_pos :: nat
  pp_count :: nat
  pp_flags :: u32

abbreviation pp_size :: "PingPongPipe \<Rightarrow> nat" where
  "pp_size pp \<equiv> length (pp_buffer pp)"

definition pingPongPipe_init0 :: "(nat \<Rightarrow> u8) \<Rightarrow> PingPongPipe" where
  "pingPongPipe_init0 junk = \<lparr>pp_buffer = map junk [0..<PINGPONG_SIZE], pp_pos = 0, pp_count = 0, pp_flags = 0\<rparr>"

text \<open>One enlargement: the part of the contents at the start of the ring moves behind its old end.\<close>

definition pingPong_double :: "(nat \<Rightarrow> u8) \<Rightarrow> PingPongPipe \<Rightarrow> PingPongPipe" where
  "pingPong_double junk pp =
     (let newbuff = pp_buffer pp @ map junk [pp_size pp..<2 * pp_size pp]; wpos = pp_pos pp + pp_count pp
      in pp\<lparr>pp_buffer := (if wpos > pp_size pp then seg_write newbuff (pp_size pp) (take (wpos - pp_size pp) newbuff) else newbuff)\<rparr>)"

lemma pp_size_double: "pp_size (pingPong_double junk pp) \<ge> 2 * pp_size pp"
  by (auto simp: pingPong_double_def Let_def seg_write_def)

function pingPong_grow :: "(nat \<Rightarrow> u8) \<Rightarrow> nat \<Rightarrow> nat \<Rightarrow> PingPongPipe \<Rightarrow> PingPongPipe outcome" where
  "pingPong_grow junk lim count pp =
     (if count > pp_size pp - pp_count pp then
        (if 2 * pp_size pp > lim \<or> pp_size pp = 0 then Inr pp
         else if pp_pos pp + pp_count pp \<ge> 2 ^ 31 then Inl Undefined_behaviour
         else pingPong_grow junk lim count (pingPong_double junk pp))
      else Inr pp)"
  by pat_completeness auto
termination
proof (relation "measure (\<lambda>(junk, lim, count, pp). Suc lim - pp_size pp)", goal_cases)
  case (2 junk lim count pp)
  then have "0 < pp_size pp" "2 * pp_size pp \<le> lim" by auto
  with pp_size_double [of pp junk] have "Suc lim - pp_size (pingPong_double junk pp) < Suc lim - pp_size pp" by linarith
  then show ?case by simp
qed simp

declare pingPong_grow.simps [simp del]

text \<open>Storing one piece, which may wrap around the end of the ring.\<close>

definition pingPong_put :: "PingPongPipe \<Rightarrow> bytes \<Rightarrow> PingPongPipe outcome" where
  "pingPong_put pp bs =
     (let wpos0 = pp_pos pp + pp_count pp; wpos = (if wpos0 \<ge> pp_size pp then wpos0 - pp_size pp else wpos0) in
      if wpos0 \<ge> 2 ^ 31 \<or> wpos + length bs \<ge> 2 ^ 31 then Inl Undefined_behaviour
      else
        let buf = (if wpos + length bs \<le> pp_size pp then seg_write (pp_buffer pp) wpos bs
                   else let avail2 = pp_size pp - wpos
                        in seg_write (seg_write (pp_buffer pp) wpos (take avail2 bs)) 0 (drop avail2 bs))
        in Inr (pp\<lparr>pp_buffer := buf, pp_count := pp_count pp + length bs\<rparr>))"

fun pingPong_send_loop :: "PingPongPipe \<Rightarrow> bytes list \<Rightarrow> nat \<Rightarrow> (u32 \<times> PingPongPipe) outcome" where
  "pingPong_send_loop pp [] ret = Inr (of_nat ret, pp)"
| "pingPong_send_loop pp (b # bs) ret =
     (let avail = c_int (pp_size pp - pp_count pp) in
      if avail \<le> 0 then Inr (if ret = 0 then PIPE_ERROR_AGAIN else of_nat ret, pp)
      else obind (pingPong_put pp (take (nat avail) b)) (\<lambda>pp1. pingPong_send_loop pp1 bs (ret + min (nat avail) (length b))))"

definition pingPongPipe_sendBuffers ::
    "(nat \<Rightarrow> u8) \<Rightarrow> nat \<Rightarrow> PingPongPipe \<Rightarrow> bytes list \<Rightarrow> (u32 \<times> PingPongPipe \<times> pipe_event list) outcome" where
  "pingPongPipe_sendBuffers junk lim pp buffers =
     (let count = sum_list (map (\<lambda>b. of_nat (length b)) buffers) :: u32 in
      obind (pingPong_grow junk lim (unat (scast count :: u64)) pp) (\<lambda>pp1.
      obind (pingPong_send_loop pp1 buffers 0) (\<lambda>(ret, pp2).
        Inr (ret, pp2, if pp_count pp2 > 0 \<and> pp_flags pp2 AND PIPE_WAKE_READ \<noteq> 0 then [Pipe_wake PIPE_WAKE_READ] else []))))"

definition pingPong_get :: "PingPongPipe \<Rightarrow> nat \<Rightarrow> (bytes \<times> PingPongPipe) outcome" where
  "pingPong_get pp n =
     (if pp_pos pp \<ge> 2 ^ 31 \<or> pp_pos pp + n \<ge> 2 ^ 31 then Inl Undefined_behaviour
      else
        let data = (if pp_pos pp + n \<le> pp_size pp then seg_read (pp_buffer pp) (pp_pos pp) n
                    else let avail2 = pp_size pp - pp_pos pp
                         in seg_read (pp_buffer pp) (pp_pos pp) avail2 @ seg_read (pp_buffer pp) 0 (n - avail2));
            pos = pp_pos pp + n
        in Inr (data, pp\<lparr>pp_count := pp_count pp - n, pp_pos := (if pos \<ge> pp_size pp then pos - pp_size pp else pos)\<rparr>))"

fun pingPong_recv_loop :: "PingPongPipe \<Rightarrow> nat list \<Rightarrow> nat \<Rightarrow> (u32 \<times> bytes list \<times> PingPongPipe) outcome" where
  "pingPong_recv_loop pp [] ret = Inr (of_nat ret, [], pp)"
| "pingPong_recv_loop pp (n # ns) ret =
     (let avail = c_int (pp_count pp) in
      if avail \<le> 0 then Inr (if ret = 0 then PIPE_ERROR_AGAIN else of_nat ret, map (\<lambda>_. []) (n # ns), pp)
      else
        let k = min (nat avail) n in
        obind (pingPong_get pp k) (\<lambda>(data, pp1).
        obind (pingPong_recv_loop pp1 ns (ret + k)) (\<lambda>(r, ds, pp2). Inr (r, data # ds, pp2))))"

definition pingPongPipe_recvBuffers ::
    "PingPongPipe \<Rightarrow> nat list \<Rightarrow> (u32 \<times> bytes list \<times> PingPongPipe \<times> pipe_event list) outcome" where
  "pingPongPipe_recvBuffers pp sizes =
     obind (pingPong_recv_loop pp sizes 0) (\<lambda>(ret, bs, pp1).
       Inr (ret, bs, pp1, if pp_count pp1 < PINGPONG_SIZE \<and> pp_flags pp1 AND PIPE_WAKE_WRITE \<noteq> 0 then [Pipe_wake PIPE_WAKE_WRITE] else []))"

definition pingPongPipe_poll :: "PingPongPipe \<Rightarrow> u32" where
  "pingPongPipe_poll pp =
     (if pp_count pp < pp_size pp then PIPE_POLL_OUT else 0) OR (if pp_count pp > 0 then PIPE_POLL_IN else 0)"

definition pingPongPipe_wakeOn :: "PingPongPipe \<Rightarrow> u32 \<Rightarrow> PingPongPipe" where
  "pingPongPipe_wakeOn pp flags = pp\<lparr>pp_flags := pp_flags pp OR flags\<rparr>"

section \<open>Throttle pipes\<close>

text \<open>
  Time is in nanoseconds; zero means that no deadline is set. The rate is a \<open>double\<close> with the exact
  value 15625/64. \<open>tp_timer\<close> is the time the timer is armed for.
\<close>

record ThrottlePipe =
  tp_pingpong :: PingPongPipe
  tp_sendExpiration :: int
  tp_recvExpiration :: int
  tp_timer :: "int option"

definition throttlePipe_init :: "(nat \<Rightarrow> u8) \<Rightarrow> ThrottlePipe" where
  "throttlePipe_init junk = \<lparr>tp_pingpong = pingPongPipe_init0 junk, tp_sendExpiration = 0, tp_recvExpiration = 0, tp_timer = None\<rparr>"

text \<open>Rounding to the 53 bits of a double, to nearest and to even in the middle.\<close>

fun excess_bits :: "nat \<Rightarrow> nat" where
  "excess_bits n = (if n < 2 ^ 53 then 0 else Suc (excess_bits (n div 2)))"

declare excess_bits.simps [simp del]

definition double_round :: "nat \<Rightarrow> nat" where
  "double_round n =
     (let k = excess_bits n; q = n div 2 ^ k; r = n mod 2 ^ k
      in (if 2 * r > 2 ^ k \<or> (2 * r = 2 ^ k \<and> odd q) then q + 1 else q) * 2 ^ k)"

text \<open>\<open>now + ret * rate\<close> in units of 1/64 ns: conversion of \<open>now\<close>, exact product, rounded sum, truncation.\<close>

definition throttle_expiration :: "int \<Rightarrow> u32 \<Rightarrow> int" where
  "throttle_expiration now ret = int (double_round (64 * double_round (nat now) + 15625 * unat ret) div 64)"

definition throttlePipe_rearm :: "ThrottlePipe \<Rightarrow> ThrottlePipe" where
  "throttlePipe_rearm tp =
     (let m0 = 0;
          m1 = (if tp_sendExpiration tp \<noteq> 0 then tp_sendExpiration tp else m0);
          m2 = (if tp_recvExpiration tp \<noteq> 0 \<and> (m1 = 0 \<or> tp_recvExpiration tp < m1) then tp_recvExpiration tp else m1)
      in if m2 \<noteq> 0 then tp\<lparr>tp_timer := Some m2\<rparr> else tp)"

definition throttlePipe_timerFunc :: "int \<Rightarrow> ThrottlePipe \<Rightarrow> ThrottlePipe \<times> pipe_event list" where
  "throttlePipe_timerFunc now tp =
     (let snd = (tp_sendExpiration tp \<noteq> 0 \<and> now > tp_sendExpiration tp); rcv = (tp_recvExpiration tp \<noteq> 0 \<and> now > tp_recvExpiration tp);
          flags = ((if snd then PIPE_WAKE_WRITE else 0) OR (if rcv then PIPE_WAKE_READ else 0)) AND pp_flags (tp_pingpong tp);
          tp1 = tp\<lparr>tp_sendExpiration := (if snd then 0 else tp_sendExpiration tp),
                   tp_recvExpiration := (if rcv then 0 else tp_recvExpiration tp)\<rparr>
      in (throttlePipe_rearm tp1, if flags \<noteq> 0 then [Pipe_wake flags] else []))"

definition throttlePipe_sendBuffers ::
    "(nat \<Rightarrow> u8) \<Rightarrow> nat \<Rightarrow> int \<Rightarrow> ThrottlePipe \<Rightarrow> bytes list \<Rightarrow> (u32 \<times> ThrottlePipe \<times> pipe_event list) outcome" where
  "throttlePipe_sendBuffers junk lim now tp buffers =
     (if tp_sendExpiration tp > 0 then Inr (PIPE_ERROR_AGAIN, tp, [])
      else obind (pingPongPipe_sendBuffers junk lim (tp_pingpong tp) buffers) (\<lambda>(ret, pp, es).
        let tp1 = tp\<lparr>tp_pingpong := pp\<rparr>
        in Inr (ret, if sint ret > 0 then throttlePipe_rearm (tp1\<lparr>tp_sendExpiration := throttle_expiration now ret\<rparr>) else tp1, es)))"

definition throttlePipe_recvBuffers ::
    "int \<Rightarrow> ThrottlePipe \<Rightarrow> nat list \<Rightarrow> (u32 \<times> bytes list \<times> ThrottlePipe \<times> pipe_event list) outcome" where
  "throttlePipe_recvBuffers now tp sizes =
     (if tp_recvExpiration tp > 0 then Inr (PIPE_ERROR_AGAIN, map (\<lambda>_. []) sizes, tp, [])
      else obind (pingPongPipe_recvBuffers (tp_pingpong tp) sizes) (\<lambda>(ret, bs, pp, es).
        let tp1 = tp\<lparr>tp_pingpong := pp\<rparr>
        in Inr (ret, bs, if sint ret > 0 then throttlePipe_rearm (tp1\<lparr>tp_recvExpiration := throttle_expiration now ret\<rparr>) else tp1, es)))"

definition throttlePipe_poll :: "ThrottlePipe \<Rightarrow> u32" where
  "throttlePipe_poll tp =
     (let ret = pingPongPipe_poll (tp_pingpong tp);
          ret1 = (if tp_sendExpiration tp > 0 then ret AND NOT PIPE_POLL_OUT else ret)
      in if tp_recvExpiration tp > 0 then ret1 AND NOT PIPE_POLL_IN else ret1)"

definition throttlePipe_wakeOn :: "ThrottlePipe \<Rightarrow> u32 \<Rightarrow> ThrottlePipe" where
  "throttlePipe_wakeOn tp flags = tp\<lparr>tp_pingpong := pingPongPipe_wakeOn (tp_pingpong tp) flags\<rparr>"

section \<open>The table\<close>

datatype debug_pipe = ZeroPipe | PingPong PingPongPipe | Throttle ThrottlePipe

definition zeroPipe_funcs :: "debug_pipe PipeService" where
  "zeroPipe_funcs = \<lparr>svc_name = string_bytes ''zero'', svc_init = (\<lambda>args. (Some ZeroPipe, [])),
     svc_sendBuffers = (\<lambda>x bs. Inr (zeroPipe_sendBuffers bs, x, [])),
     svc_recvBuffers = (\<lambda>x ns. Inr (fst (zeroPipe_recvBuffers ns), snd (zeroPipe_recvBuffers ns), x, [])),
     svc_poll = (\<lambda>x. Inr zeroPipe_poll), svc_wakeOn = (\<lambda>x flags. Inr (x, [])), svc_save = None, svc_load = None\<rparr>"

definition pingPongPipe_funcs :: "(nat \<Rightarrow> u8) \<Rightarrow> nat \<Rightarrow> debug_pipe PipeService" where
  "pingPongPipe_funcs junk lim = \<lparr>svc_name = string_bytes ''pingpong'', svc_init = (\<lambda>args. (Some (PingPong (pingPongPipe_init0 junk)), [])),
     svc_sendBuffers = (\<lambda>x bs. case x of
         PingPong pp \<Rightarrow> obind (pingPongPipe_sendBuffers junk lim pp bs) (\<lambda>(r, pp', es). Inr (r, PingPong pp', es))
       | _ \<Rightarrow> Inl Undefined_behaviour),
     svc_recvBuffers = (\<lambda>x ns. case x of
         PingPong pp \<Rightarrow> obind (pingPongPipe_recvBuffers pp ns) (\<lambda>(r, bs, pp', es). Inr (r, bs, PingPong pp', es))
       | _ \<Rightarrow> Inl Undefined_behaviour),
     svc_poll = (\<lambda>x. case x of PingPong pp \<Rightarrow> Inr (pingPongPipe_poll pp) | _ \<Rightarrow> Inl Undefined_behaviour),
     svc_wakeOn = (\<lambda>x flags. case x of PingPong pp \<Rightarrow> Inr (PingPong (pingPongPipe_wakeOn pp flags), []) | _ \<Rightarrow> Inl Undefined_behaviour),
     svc_save = None, svc_load = None\<rparr>"

definition throttlePipe_funcs :: "(nat \<Rightarrow> u8) \<Rightarrow> nat \<Rightarrow> int \<Rightarrow> debug_pipe PipeService" where
  "throttlePipe_funcs junk lim now = \<lparr>svc_name = string_bytes ''throttle'', svc_init = (\<lambda>args. (Some (Throttle (throttlePipe_init junk)), [])),
     svc_sendBuffers = (\<lambda>x bs. case x of
         Throttle tp \<Rightarrow> obind (throttlePipe_sendBuffers junk lim now tp bs) (\<lambda>(r, tp', es). Inr (r, Throttle tp', es))
       | _ \<Rightarrow> Inl Undefined_behaviour),
     svc_recvBuffers = (\<lambda>x ns. case x of
         Throttle tp \<Rightarrow> obind (throttlePipe_recvBuffers now tp ns) (\<lambda>(r, bs, tp', es). Inr (r, bs, Throttle tp', es))
       | _ \<Rightarrow> Inl Undefined_behaviour),
     svc_poll = (\<lambda>x. case x of Throttle tp \<Rightarrow> Inr (throttlePipe_poll tp) | _ \<Rightarrow> Inl Undefined_behaviour),
     svc_wakeOn = (\<lambda>x flags. case x of Throttle tp \<Rightarrow> Inr (Throttle (throttlePipe_wakeOn tp flags), []) | _ \<Rightarrow> Inl Undefined_behaviour),
     svc_save = None, svc_load = None\<rparr>"

text \<open>What \<open>pipe_dev_init\<close> registers.\<close>

definition pipe_services :: "(nat \<Rightarrow> u8) \<Rightarrow> nat \<Rightarrow> int \<Rightarrow> debug_pipe PipeService list outcome" where
  "pipe_services junk lim now =
     obind (goldfish_pipe_add_type zeroPipe_funcs []) (\<lambda>s1.
     obind (goldfish_pipe_add_type (pingPongPipe_funcs junk lim) s1) (\<lambda>s2.
     goldfish_pipe_add_type (throttlePipe_funcs junk lim now) s2))"

end
