(* ===== verification/Pipe_Echo.thy ===== *)
theory Pipe_Echo
  imports Pipe_Services
begin

unbundle bit_operations_syntax

text \<open>
  What the services do: the pingpong pipe is a queue that loses, duplicates and reorders nothing,
  and a guest that connects to it reads back through the device what it has written; a throttled
  pipe opens again.
\<close>

section \<open>The ring\<close>

definition pp_ok :: "nat \<Rightarrow> PingPongPipe \<Rightarrow> bool" where
  "pp_ok lim pp \<longleftrightarrow> pp_pos pp < pp_size pp \<and> pp_count pp \<le> pp_size pp \<and> pp_size pp \<le> lim \<and> lim \<le> 2 ^ 29"

definition pp_contents :: "PingPongPipe \<Rightarrow> bytes" where
  "pp_contents pp = ring_list (pp_buffer pp) (pp_pos pp) (pp_count pp)"

lemma length_pp_contents [simp]: "length (pp_contents pp) = pp_count pp"
  by (simp add: pp_contents_def)

lemma double_ring:
  assumes "pos < length buf" "count \<le> length buf" "length new = length buf"
  shows "ring_list (let nb = buf @ new in if pos + count > length buf then seg_write nb (length buf) (take (pos + count - length buf) nb) else nb) pos count
    = ring_list buf pos count"
proof (rule nth_equalityI)
  fix i
  assume "i < length (ring_list (let nb = buf @ new in if pos + count > length buf then seg_write nb (length buf) (take (pos + count - length buf) nb) else nb) pos count)"
  then have i: "i < count" by simp
  let ?nb = "buf @ new" and ?n = "length buf"
  let ?w = "seg_write ?nb ?n (take (pos + count - ?n) ?nb)"
  have len: "length ?w = 2 * ?n" if "pos + count > ?n" using that assms by (simp add: seg_write_def)
  have mod: "(pos + i) mod ?n = (if pos + i < ?n then pos + i else pos + i - ?n)"
    using assms i by (auto simp: mod_if)
  have mod2: "(pos + i) mod (2 * ?n) = pos + i" using assms i by simp
  have "?w ! (pos + i) = buf ! ((pos + i) mod ?n)" if c: "pos + count > ?n"
  proof -
    have b: "?n + length (take (pos + count - ?n) ?nb) \<le> length ?nb" "pos + i < length ?nb" using c assms i by auto
    have "pos + i - ?n < ?n" using assms i by auto
    then show ?thesis
      using c i assms unfolding nth_seg_write [OF b] mod by (auto simp: nth_append)
  qed
  moreover have "?nb ! (pos + i) = buf ! ((pos + i) mod ?n)" if "\<not> pos + count > ?n"
    using that i by (simp add: nth_append)
  ultimately show "ring_list (let nb = ?nb in if pos + count > ?n then seg_write nb ?n (take (pos + count - ?n) nb) else nb) pos count ! i
    = ring_list buf pos count ! i"
    using i mod2 len assms(3) by (simp add: nth_ring_list Let_def mult_2)
qed simp

lemma double_ok:
  assumes "pp_ok lim pp" "2 * pp_size pp \<le> lim"
  shows "pp_ok lim (pingPong_double junk pp)" "pp_contents (pingPong_double junk pp) = pp_contents pp"
    "pp_count (pingPong_double junk pp) = pp_count pp" "pp_flags (pingPong_double junk pp) = pp_flags pp"
    "pp_size (pingPong_double junk pp) = 2 * pp_size pp"
proof -
  have "length (map junk [pp_size pp..<2 * pp_size pp]) = pp_size pp" by simp
  from double_ring [OF _ _ this, of "pp_pos pp" "pp_count pp"] assms(1)
  show "pp_contents (pingPong_double junk pp) = pp_contents pp"
    by (simp add: pp_ok_def pp_contents_def pingPong_double_def Let_def)
  show s: "pp_size (pingPong_double junk pp) = 2 * pp_size pp"
    using assms(1) by (simp add: pp_ok_def pingPong_double_def Let_def seg_write_def)
  show "pp_count (pingPong_double junk pp) = pp_count pp" "pp_flags (pingPong_double junk pp) = pp_flags pp"
    by (simp_all add: pingPong_double_def Let_def)
  have "pp_pos (pingPong_double junk pp) = pp_pos pp" by (simp add: pingPong_double_def Let_def)
  then show "pp_ok lim (pingPong_double junk pp)"
    using assms s by (simp add: pp_ok_def) (simp add: pingPong_double_def Let_def)
qed

text \<open>Growing keeps the contents and makes room, unless the memory is used up.\<close>

lemma grow_ok:
  "pp_ok lim pp \<Longrightarrow> \<exists>pp'. pingPong_grow junk lim n pp = Inr pp' \<and> pp_ok lim pp' \<and> pp_contents pp' = pp_contents pp \<and>
     pp_flags pp' = pp_flags pp \<and> (n \<le> pp_size pp' - pp_count pp \<or> lim < 2 * pp_size pp')"
proof (induction junk lim n pp rule: pingPong_grow.induct)
  case (1 junk lim n pp)
  have sz: "0 < pp_size pp" "pp_pos pp + pp_count pp < 2 ^ 31" using "1.prems" by (auto simp: pp_ok_def)
  show ?case
  proof (cases "n > pp_size pp - pp_count pp \<and> 2 * pp_size pp \<le> lim")
    case True
    note d = double_ok [OF "1.prems", of junk]
    have "pingPong_grow junk lim n pp = pingPong_grow junk lim n (pingPong_double junk pp)"
      using True sz by (subst pingPong_grow.simps) auto
    moreover from "1.IH" True sz d(1) have "\<exists>pp'. pingPong_grow junk lim n (pingPong_double junk pp) = Inr pp' \<and> pp_ok lim pp' \<and>
        pp_contents pp' = pp_contents (pingPong_double junk pp) \<and> pp_flags pp' = pp_flags (pingPong_double junk pp) \<and>
        (n \<le> pp_size pp' - pp_count (pingPong_double junk pp) \<or> lim < 2 * pp_size pp')" by auto
    ultimately show ?thesis using True d by simp
  next
    case False
    then have "pingPong_grow junk lim n pp = Inr pp" using sz by (subst pingPong_grow.simps) auto
    with False "1.prems" show ?thesis by auto
  qed
qed

text \<open>Storing and fetching a piece.\<close>

lemma put_ok:
  assumes ok: "pp_ok lim pp" and l: "length bs \<le> pp_size pp - pp_count pp"
  shows "\<exists>pp'. pingPong_put pp bs = Inr pp' \<and> pp_ok lim pp' \<and> pp_contents pp' = pp_contents pp @ bs \<and>
    pp_flags pp' = pp_flags pp \<and> pp_size pp' = pp_size pp \<and> pp_count pp' = pp_count pp + length bs"
proof -
  define wpos where "wpos = (if pp_pos pp + pp_count pp \<ge> pp_size pp then pp_pos pp + pp_count pp - pp_size pp else pp_pos pp + pp_count pp)"
  let ?n = "pp_size pp" and ?buf = "pp_buffer pp"
  have w: "wpos = (pp_pos pp + pp_count pp) mod ?n" "wpos < ?n"
    using ok by (auto simp: wpos_def pp_ok_def mod_if)
  have small: "\<not> (pp_pos pp + pp_count pp \<ge> 2 ^ 31 \<or> wpos + length bs \<ge> 2 ^ 31)" using ok l w(2) by (auto simp: pp_ok_def)
  define buf where "buf = (if wpos + length bs \<le> ?n then seg_write ?buf wpos bs
      else seg_write (seg_write ?buf wpos (take (?n - wpos) bs)) 0 (drop (?n - wpos) bs))"
  have put: "pingPong_put pp bs = Inr (pp\<lparr>pp_buffer := buf, pp_count := pp_count pp + length bs\<rparr>)"
    using small by (simp add: pingPong_put_def Let_def wpos_def [symmetric] buf_def)
  have cl: "pp_count pp + length bs \<le> ?n" using ok l by (auto simp: pp_ok_def)
  have "length buf = ?n \<and> ring_list buf (pp_pos pp) (pp_count pp + length bs) = ring_list ?buf (pp_pos pp) (pp_count pp) @ bs"
  proof (cases "wpos + length bs \<le> ?n")
    case True
    with ring_list_write [OF cl w(1) True] show ?thesis by (simp add: buf_def)
  next
    case False
    let ?b1 = "seg_write ?buf wpos (take (?n - wpos) bs)" and ?x = "take (?n - wpos) bs" and ?y = "drop (?n - wpos) bs"
    have lx: "length ?x = ?n - wpos" using False by simp
    have l1: "length ?b1 = ?n" using w(2) lx by (simp add: seg_write_def)
    have r1: "ring_list ?b1 (pp_pos pp) (pp_count pp + length ?x) = ring_list ?buf (pp_pos pp) (pp_count pp) @ ?x"
      using cl w lx False by (intro ring_list_write) auto
    have "(0 :: nat) = (pp_pos pp + (pp_count pp + length ?x)) mod ?n"
    proof -
      have "(pp_pos pp + (pp_count pp + length ?x)) mod ?n = (wpos + length ?x) mod ?n"
        unfolding w(1) mod_add_left_eq by (simp only: add.assoc)
      also have "\<dots> = (wpos + (?n - wpos)) mod ?n" by (simp only: lx)
      also have "\<dots> = 0" using w(2) by simp
      finally show ?thesis ..
    qed
    then have "ring_list (seg_write ?b1 0 ?y) (pp_pos pp) (pp_count pp + length ?x + length ?y) = ring_list ?b1 (pp_pos pp) (pp_count pp + length ?x) @ ?y"
      using cl w(2) l1 lx by (intro ring_list_write) (auto simp: add.assoc)
    moreover have "length ?x + length ?y = length bs" using False by simp
    ultimately show ?thesis using False r1 l1 cl lx by (simp add: buf_def add.assoc)
  qed
  with put cl ok show ?thesis by (simp add: pp_ok_def pp_contents_def)
qed

lemma get_ok:
  assumes ok: "pp_ok lim pp" and n: "n \<le> pp_count pp"
  shows "\<exists>pp'. pingPong_get pp n = Inr (take n (pp_contents pp), pp') \<and> pp_ok lim pp' \<and> pp_contents pp' = drop n (pp_contents pp) \<and>
    pp_flags pp' = pp_flags pp \<and> pp_count pp' = pp_count pp - n"
proof -
  let ?n = "pp_size pp" and ?buf = "pp_buffer pp" and ?pos = "pp_pos pp"
  have small: "\<not> (?pos \<ge> 2 ^ 31 \<or> ?pos + n \<ge> 2 ^ 31)" using ok n by (auto simp: pp_ok_def)
  define pos where "pos = (if ?pos + n \<ge> ?n then ?pos + n - ?n else ?pos + n)"
  have pos: "pos = (?pos + n) mod ?n" "pos < ?n" using ok n by (auto simp: pos_def pp_ok_def mod_if)
  define data where "data = (if ?pos + n \<le> ?n then seg_read ?buf ?pos n else seg_read ?buf ?pos (?n - ?pos) @ seg_read ?buf 0 (n - (?n - ?pos)))"
  have get: "pingPong_get pp n = Inr (data, pp\<lparr>pp_count := pp_count pp - n, pp_pos := pos\<rparr>)"
    using small by (simp add: pingPong_get_def Let_def data_def pos_def)
  have "data = take n (pp_contents pp)"
  proof (rule nth_equalityI)
    show l: "length data = length (take n (pp_contents pp))" using ok n by (auto simp: data_def pp_ok_def min_def)
    fix i
    assume "i < length data"
    with l n have i: "i < n" by simp
    have "(?pos + i) mod ?n = (if ?pos + i < ?n then ?pos + i else ?pos + i - ?n)"
      using ok n i by (auto simp: pp_ok_def mod_if)
    then show "data ! i = take n (pp_contents pp) ! i"
      using i n ok by (auto simp: data_def pp_contents_def nth_ring_list nth_seg_read nth_append pp_ok_def seg_read_def min_def add.commute)
  qed
  moreover have "ring_list ?buf pos (pp_count pp - n) = drop n (pp_contents pp)"
    using ring_list_drop [OF n, of ?buf ?pos] by (simp add: pos(1) pp_contents_def)
  ultimately show ?thesis using get ok pos(2) by (auto simp: pp_ok_def pp_contents_def)
qed

section \<open>Whole transfers\<close>

lemma pp_ok_int: "pp_ok lim pp \<Longrightarrow> n \<le> pp_size pp \<Longrightarrow> c_int n = int n"
  by (rule c_int_small) (simp add: pp_ok_def)

text \<open>A loop accepts as much of the buffers as fits: the bytes and their number.\<close>

lemma send_loop_ok:
  "pp_ok lim pp \<Longrightarrow>
   \<exists>k pp' r. pingPong_send_loop pp bs ret = Inr (r, pp') \<and> pp_ok lim pp' \<and> pp_contents pp' = pp_contents pp @ take k (concat bs) \<and>
     pp_flags pp' = pp_flags pp \<and> k = min (length (concat bs)) (pp_size pp - pp_count pp) \<and>
     (r = of_nat (ret + k) \<or> ret + k = 0 \<and> r = PIPE_ERROR_AGAIN)"
proof (induction bs arbitrary: pp ret)
  case (Cons b bs)
  let ?a = "pp_size pp - pp_count pp"
  have av: "c_int ?a = int ?a" using Cons.prems by (intro pp_ok_int) auto
  show ?case
  proof (cases "?a = 0")
    case True
    then show ?thesis using Cons.prems av
      by (intro exI [of _ 0] exI [of _ pp] exI [of _ "if ret = 0 then PIPE_ERROR_AGAIN else of_nat ret"]) auto
  next
    case False
    define k1 where "k1 = min ?a (length b)"
    have "length (take ?a b) \<le> ?a" by simp
    from put_ok [OF Cons.prems this] obtain pp1 where p: "pingPong_put pp (take ?a b) = Inr pp1" "pp_ok lim pp1"
      "pp_contents pp1 = pp_contents pp @ take ?a b" "pp_flags pp1 = pp_flags pp" "pp_size pp1 = pp_size pp" "pp_count pp1 = pp_count pp + k1"
      by (auto simp: k1_def min.commute)
    from Cons.IH [OF p(2), of "ret + k1"] obtain k pp' r where IH: "pingPong_send_loop pp1 bs (ret + k1) = Inr (r, pp')" "pp_ok lim pp'"
      "pp_contents pp' = pp_contents pp1 @ take k (concat bs)" "pp_flags pp' = pp_flags pp1"
      "k = min (length (concat bs)) (pp_size pp1 - pp_count pp1)" "r = of_nat (ret + k1 + k) \<or> ret + k1 + k = 0 \<and> r = PIPE_ERROR_AGAIN" by blast
    have loop: "pingPong_send_loop pp (b # bs) ret = Inr (r, pp')" 
    proof -
      have "nat (c_int ?a) = ?a" "\<not> c_int ?a \<le> 0" unfolding av using False by simp_all
      then show ?thesis using p(1) IH(1) by (simp only: pingPong_send_loop.simps Let_def obind.simps k1_def if_False)
    qed
    have k: "k = min (length (concat bs)) (?a - k1)" using IH(5) p(5,6) by simp
    have sum: "k1 + k = min (length (concat (b # bs))) ?a" unfolding k by (auto simp: k1_def)
    have "pp_contents pp' = pp_contents pp @ take (k1 + k) (concat (b # bs))"
      using IH(3) p(3) k by (cases "length b \<le> ?a") (auto simp: k1_def)
    with loop IH(2,4,6) p(4) sum show ?thesis by (intro exI [of _ "k1 + k"]) (auto simp: add.assoc)
  qed
qed auto

text \<open>The number of bytes offered as an \<open>int\<close> is right below 2 GB.\<close>

lemma offered: "length (concat bs) < 2 ^ 31 \<Longrightarrow> unat (scast (sum_list (map (\<lambda>b. of_nat (length b)) bs) :: u32) :: u64) = length (concat bs)"
proof -
  assume l: "length (concat bs) < 2 ^ 31"
  have e: "sum_list (map (\<lambda>b. of_nat (length b)) bs) = (of_nat (length (concat bs)) :: u32)"
    by (induction bs) auto
  have s: "sint (of_nat (length (concat bs)) :: u32) = int (length (concat bs))"
    using l c_int_small [of "length (concat bs)"] by (simp add: c_int_def)
  have "(scast (of_nat (length (concat bs)) :: u32) :: u64) = of_int (int (length (concat bs)))" by (simp only: s scast_eq)
  then have "(scast (of_nat (length (concat bs)) :: u32) :: u64) = of_nat (length (concat bs))" by simp
  then show ?thesis using l unfolding e by (simp only:) (simp add: unat_of_nat)
qed

lemma pingPong_send_ok:
  assumes ok: "pp_ok lim pp"
  shows "\<exists>k pp' r es. pingPongPipe_sendBuffers junk lim pp bs = Inr (r, pp', es) \<and> pp_ok lim pp' \<and>
    pp_contents pp' = pp_contents pp @ take k (concat bs) \<and> pp_flags pp' = pp_flags pp \<and> k \<le> length (concat bs) \<and>
    (r = of_nat k \<or> k = 0 \<and> r = PIPE_ERROR_AGAIN) \<and> (2 * (pp_count pp + length (concat bs)) \<le> lim \<longrightarrow> k = length (concat bs)) \<and>
    es = (if pp_count pp + k > 0 \<and> pp_flags pp AND PIPE_WAKE_READ \<noteq> 0 then [Pipe_wake PIPE_WAKE_READ] else [])"
proof -
  define n where "n = unat (scast (sum_list (map (\<lambda>b. of_nat (length b)) bs) :: u32) :: u64)"
  from grow_ok [OF ok, of junk n] obtain pp1 where g: "pingPong_grow junk lim n pp = Inr pp1" "pp_ok lim pp1"
    "pp_contents pp1 = pp_contents pp" "pp_flags pp1 = pp_flags pp" "n \<le> pp_size pp1 - pp_count pp \<or> lim < 2 * pp_size pp1" by blast
  from g(3) have c: "pp_count pp1 = pp_count pp" by (metis length_pp_contents)
  from send_loop_ok [OF g(2), of bs 0] obtain k pp' r where s: "pingPong_send_loop pp1 bs 0 = Inr (r, pp')" "pp_ok lim pp'"
    "pp_contents pp' = pp_contents pp1 @ take k (concat bs)" "pp_flags pp' = pp_flags pp1" "k = min (length (concat bs)) (pp_size pp1 - pp_count pp1)"
    "r = of_nat (0 + k) \<or> 0 + k = 0 \<and> r = PIPE_ERROR_AGAIN" by blast
  have c': "pp_count pp' = pp_count pp + k" using arg_cong [OF s(3), of length] s(5) c by simp
  have "k = length (concat bs)" if fit: "2 * (pp_count pp + length (concat bs)) \<le> lim"
  proof -
    have "lim \<le> 2 ^ 29" using ok by (simp add: pp_ok_def)
    with fit have "2 * (pp_count pp + length (concat bs)) \<le> 2 ^ 29" by (rule le_trans)
    then have "length (concat bs) < 2 ^ 31" by simp
    then have n: "n = length (concat bs)" unfolding n_def by (rule offered)
    have "lim < 2 * pp_size pp1 \<Longrightarrow> length (concat bs) \<le> pp_size pp1 - pp_count pp"
    proof (rule add_le_imp_le_diff)
      assume "lim < 2 * pp_size pp1"
      with fit have "2 * (pp_count pp + length (concat bs)) < 2 * pp_size pp1" by (rule le_less_trans)
      then show "length (concat bs) + pp_count pp \<le> pp_size pp1" by (simp only: mult_less_cancel1 add.commute) simp
    qed
    with g(5) n have "length (concat bs) \<le> pp_size pp1 - pp_count pp" by blast
    then show ?thesis unfolding s(5) c by (rule min_absorb1)
  qed
  moreover have "pingPongPipe_sendBuffers junk lim pp bs = Inr (r, pp', if pp_count pp + k > 0 \<and> pp_flags pp AND PIPE_WAKE_READ \<noteq> 0 then [Pipe_wake PIPE_WAKE_READ] else [])"
    unfolding pingPongPipe_sendBuffers_def Let_def n_def [symmetric] g(1) obind.simps s(1) prod.case c' s(4) g(4) ..
  moreover have "k \<le> length (concat bs)" unfolding s(5) by (rule min.cobounded1)
  moreover have "pp_contents pp' = pp_contents pp @ take k (concat bs)" "pp_flags pp' = pp_flags pp" using s(3,4) g(3,4) by simp_all
  ultimately show ?thesis using s(2,6) unfolding add_0 by blast
qed

lemma recv_loop_ok:
  "pp_ok lim pp \<Longrightarrow>
   \<exists>k ds pp' r. pingPong_recv_loop pp ns ret = Inr (r, ds, pp') \<and> pp_ok lim pp' \<and> concat ds = take k (pp_contents pp) \<and>
     pp_contents pp' = drop k (pp_contents pp) \<and> pp_flags pp' = pp_flags pp \<and> k = min (sum_list ns) (pp_count pp) \<and>
     (r = of_nat (ret + k) \<or> ret + k = 0 \<and> r = PIPE_ERROR_AGAIN)"
proof (induction ns arbitrary: pp ret)
  case (Cons n ns)
  have av: "c_int (pp_count pp) = int (pp_count pp)" using Cons.prems by (intro pp_ok_int) (auto simp: pp_ok_def)
  show ?case
  proof (cases "pp_count pp = 0")
    case True
    then show ?thesis using Cons.prems av 
      by (intro exI [of _ 0] exI [of _ "map (\<lambda>_. []) (n # ns)"] exI [of _ pp] exI [of _ "if ret = 0 then PIPE_ERROR_AGAIN else of_nat ret"])
        (auto simp: concat_eq_Nil_conv)
  next
    case False
    define k1 where "k1 = min (pp_count pp) n"
    have "k1 \<le> pp_count pp" by (simp add: k1_def)
    from get_ok [OF Cons.prems this] obtain pp1 where p: "pingPong_get pp k1 = Inr (take k1 (pp_contents pp), pp1)" "pp_ok lim pp1"
      "pp_contents pp1 = drop k1 (pp_contents pp)" "pp_flags pp1 = pp_flags pp" "pp_count pp1 = pp_count pp - k1" by blast
    from Cons.IH [OF p(2), of "ret + k1"] obtain k ds pp' r where IH: "pingPong_recv_loop pp1 ns (ret + k1) = Inr (r, ds, pp')" "pp_ok lim pp'"
      "concat ds = take k (pp_contents pp1)" "pp_contents pp' = drop k (pp_contents pp1)" "pp_flags pp' = pp_flags pp1"
      "k = min (sum_list ns) (pp_count pp1)" "r = of_nat (ret + k1 + k) \<or> ret + k1 + k = 0 \<and> r = PIPE_ERROR_AGAIN" by blast
    have loop: "pingPong_recv_loop pp (n # ns) ret = Inr (r, take k1 (pp_contents pp) # ds, pp')"
      using False av p(1) IH(1) by (simp add: k1_def Let_def)
    have sum: "k1 + k = min (sum_list (n # ns)) (pp_count pp)" unfolding IH(6) p(5) by (auto simp: k1_def)
    have "concat (take k1 (pp_contents pp) # ds) = take (k1 + k) (pp_contents pp)"
      "pp_contents pp' = drop (k1 + k) (pp_contents pp)" "pp_flags pp' = pp_flags pp"
      "r = of_nat (ret + (k1 + k)) \<or> ret + (k1 + k) = 0 \<and> r = PIPE_ERROR_AGAIN"
      using IH(3-5,7) p(3,4) by (simp_all add: take_add add.assoc add.commute [of k k1])
    with loop IH(2) sum show ?thesis by blast
  qed
qed auto

lemma pingPong_recv_ok:
  assumes "pp_ok lim pp"
  shows "\<exists>k ds pp' r es. pingPongPipe_recvBuffers pp ns = Inr (r, ds, pp', es) \<and> pp_ok lim pp' \<and> concat ds = take k (pp_contents pp) \<and>
    pp_contents pp' = drop k (pp_contents pp) \<and> k = min (sum_list ns) (pp_count pp) \<and> (r = of_nat k \<or> k = 0 \<and> r = PIPE_ERROR_AGAIN)"
  using recv_loop_ok [OF assms, of ns 0] by (fastforce simp: pingPongPipe_recvBuffers_def)

section \<open>The queue contract\<close>

definition pp_put :: "(nat \<Rightarrow> u8) \<Rightarrow> nat \<Rightarrow> PingPongPipe \<Rightarrow> bytes \<Rightarrow> nat \<times> PingPongPipe" where
  "pp_put junk lim pp xs =
     (case pingPongPipe_sendBuffers junk lim pp [xs] of
        Inr (r, pp', es) \<Rightarrow> (if r = PIPE_ERROR_AGAIN then 0 else unat r, pp')
      | Inl e \<Rightarrow> (0, pp))"

definition pp_get :: "PingPongPipe \<Rightarrow> nat \<Rightarrow> bytes \<times> PingPongPipe" where
  "pp_get pp n = (case pingPongPipe_recvBuffers pp [n] of Inr (r, ds, pp', es) \<Rightarrow> (concat ds, pp') | Inl e \<Rightarrow> ([], pp))"

lemma ret_count:
  assumes "r = of_nat k \<or> k = 0 \<and> r = PIPE_ERROR_AGAIN" "k \<le> 2 ^ 29"
  shows "(if r = PIPE_ERROR_AGAIN then 0 else unat (r :: u32)) = k"
proof -
  have u: "unat (of_nat k :: u32) = k" using assms(2) by (simp add: unat_of_nat)
  have "unat PIPE_ERROR_AGAIN = 4294967294" by (simp add: PIPE_ERROR_AGAIN_def)
  with u assms have "(of_nat k :: u32) \<noteq> PIPE_ERROR_AGAIN" by auto
  with assms u show ?thesis by auto
qed

interpretation pingpong_fifo: bounded_fifo "pp_put junk lim" pp_get pp_contents "\<lambda>_. lim" "pp_ok lim"
proof
  fix s xs n s'
  assume ok: "pp_ok lim s" and p: "pp_put junk lim s xs = (n, s')"
  from pingPong_send_ok [OF ok, of junk "[xs]"] obtain k pp' r es where
    h: "pingPongPipe_sendBuffers junk lim s [xs] = Inr (r, pp', es)" "pp_ok lim pp'" "pp_contents pp' = pp_contents s @ take k xs" "k \<le> length xs"
      "r = of_nat k \<or> k = 0 \<and> r = PIPE_ERROR_AGAIN" by auto
  have "pp_count pp' = pp_count s + k" using arg_cong [OF h(3), of length] h(4) by simp
  then have "k \<le> 2 ^ 29" using h(2) by (simp add: pp_ok_def)
  from ret_count [OF h(5) this] p h(1) have "n = k" "s' = pp'" by (auto simp: pp_put_def)
  with h show "pp_ok lim s' \<and> n \<le> length xs \<and> pp_contents s' = pp_contents s @ take n xs \<and> lim = lim" by simp
next
  fix s n ys s'
  assume ok: "pp_ok lim s" and g: "pp_get s n = (ys, s')"
  from pingPong_recv_ok [OF ok, of "[n]"] obtain k ds pp' r es where
    h: "pingPongPipe_recvBuffers s [n] = Inr (r, ds, pp', es)" "pp_ok lim pp'" "concat ds = take k (pp_contents s)"
      "pp_contents pp' = drop k (pp_contents s)" "k = min n (pp_count s)" by auto
  with g have "ys = take k (pp_contents s)" "s' = pp'" by (auto simp: pp_get_def)
  with h show "pp_ok lim s' \<and> length ys \<le> n \<and> pp_contents s = ys @ pp_contents s' \<and> lim = lim" by simp
next
  fix s
  assume "pp_ok lim s"
  then show "length (pp_contents s) \<le> lim" by (simp add: pp_ok_def)
qed

lemma init0_ok: "1024 \<le> lim \<Longrightarrow> lim \<le> 2 ^ 29 \<Longrightarrow> pp_ok lim (pingPongPipe_init0 junk)"
  by (simp add: pp_ok_def pingPongPipe_init0_def dev_defs)

lemma init0_contents [simp]: "pp_contents (pingPongPipe_init0 junk) = []"
  by (simp add: pp_contents_def pingPongPipe_init0_def)

text \<open>
  C38: The pingpong service loses, duplicates and reorders nothing: whatever sequence of sends and
  receives a new pipe sees, the bytes accepted are the bytes delivered followed by those still in its
  buffer. The buffer is enlarged on the way as long as memory lasts.
\<close>

theorem pingpong_stream_order:
  assumes "1024 \<le> lim" "lim \<le> 2 ^ 29"
    and "fifo_run (pp_put junk lim) pp_get ops (pingPongPipe_init0 junk) = (acc, del, pp)"
  shows "acc = del @ pp_contents pp \<and> pp_count pp \<le> lim"
  using pingpong_fifo.run_order [OF init0_ok [OF assms(1,2)] assms(3)]
    pingpong_fifo.bounded [of lim pp] by simp

theorem pingpong_stream_order_witness:
  "\<exists>acc del pp. fifo_run (pp_put (\<lambda>_. 0) 4096) pp_get [Put [1, 2, 3], Get 2, Put [4]] (pingPongPipe_init0 (\<lambda>_. 0)) = (acc, del, pp) \<and>
     acc = del @ pp_contents pp"
proof -
  obtain acc del pp where r: "fifo_run (pp_put (\<lambda>_. 0) 4096) pp_get [Put [1, 2, 3], Get 2, Put [4]] (pingPongPipe_init0 (\<lambda>_. 0)) = (acc, del, pp)"
    by (metis prod_cases3)
  with pingpong_stream_order [OF _ _ r] show ?thesis by simp
qed

end
