(* ===== verification/Pipe_Connect.thy ===== *)
theory Pipe_Connect
  imports Pipe_Echo
begin

unbundle bit_operations_syntax

text \<open>
  From the opening of a pipe to its service: the connection string may come in pieces, and through
  the registers of the device a guest reads back from \<open>pingpong\<close> what it wrote, at any place in its
  memory. Deadlines of throttled pipes.
\<close>

section \<open>Connecting\<close>

definition pcon_holds :: "bytes \<Rightarrow> PipeConnector" where
  "pcon_holds w = \<lparr>pcon_buffer = w @ replicate (PCON_SIZE - length w) 0, pcon_buffpos = length w\<rparr>"

lemma pcon_new_holds: "pipeConnector_new = pcon_holds []"
  by (simp add: pipeConnector_new_def pcon_holds_def)

lemma fill_holds: "length w + length c \<le> PCON_SIZE \<Longrightarrow> pcon_fill (pcon_holds w) [c] = (length c, pcon_holds (w @ c))"
  by (simp add: pcon_holds_def seg_write_def Let_def)

text \<open>The name and the arguments in a connection string.\<close>

definition conn_name :: "bytes \<Rightarrow> bytes" where
  "conn_name str = takeWhile (\<lambda>b. b \<noteq> 0x3a) str"

definition conn_args :: "bytes \<Rightarrow> bytes option" where
  "conn_args str = (let a = drop (Suc (length (conn_name str))) str in if a = [] then None else Some a)"

lemma parse_holds:
  assumes "w = string_bytes ''pipe:'' @ str @ [0]" "0 \<notin> set str"
  shows "\<exists>buf. pcon_parse (pcon_buffer (pcon_holds w)) = Some (conn_name str, conn_args str, buf)"
proof -
  have len: "length (string_bytes ''pipe:'') = 5" by (simp add: string_bytes_def)
  define buf where "buf = pcon_buffer (pcon_holds w)"
  have buf: "buf = string_bytes ''pipe:'' @ str @ 0 # replicate (PCON_SIZE - length w) 0" using assms(1) by (simp add: buf_def pcon_holds_def)
  have five: "take 5 buf = string_bytes ''pipe:''" unfolding buf using len by (metis append_eq_conv_conj)
  have "drop 5 buf = str @ 0 # replicate (PCON_SIZE - length w) 0" unfolding buf using len by (metis append_eq_conv_conj)
  then have str: "c_string (drop 5 buf) = str" using assms(2) by (simp add: c_string_def takeWhile_append takeWhile_eq_all_conv)
  show ?thesis
  proof (cases "strchr 0x3a str < length str")
    case True
    then show ?thesis
      unfolding buf_def [symmetric] pcon_parse_def five str Let_def
      by (simp add: conn_name_def conn_args_def strchr_def takeWhile_eq_take [symmetric] Let_def)
  next
    case False
    then have "conn_name str = str"
      using strchr_le [of "0x3a" str] unfolding conn_name_def by (metis le_antisym not_le strchr_def takeWhile_eq_take take_all_iff order_refl)
    with False show ?thesis
      unfolding buf_def [symmetric] pcon_parse_def five str Let_def by (simp add: conn_args_def)
  qed
qed

text \<open>A sequence of writes to a pipe, without the device: the results.\<close>

fun pipe_sends :: "'o PipeService list \<Rightarrow> 'o Pipe \<Rightarrow> bytes list \<Rightarrow> (u32 list \<times> 'o Pipe) outcome" where
  "pipe_sends svcs p [] = Inr ([], p)"
| "pipe_sends svcs p (c # cs) =
     obind (pipe_sendBuffers svcs p [c]) (\<lambda>(r, p1, es). obind (pipe_sends svcs p1 cs) (\<lambda>(rs, p2). Inr (r # rs, p2)))"

lemma send_more:
  assumes "pipe_service p = None" "pipe_opaque p = Connector (pcon_holds w)" "length w + length c \<le> PCON_SIZE" "0 \<notin> set (w @ c)"
  shows "pipe_sendBuffers svcs p [c] = Inr (of_nat (length c), p\<lparr>pipe_opaque := Connector (pcon_holds (w @ c))\<rparr>, [])"
proof -
  have "take (pcon_buffpos (pcon_holds (w @ c))) (pcon_buffer (pcon_holds (w @ c))) = w @ c" by (simp add: pcon_holds_def)
  with assms show ?thesis
    by (simp add: pipe_sendBuffers_def pipeConnector_sendBuffers_def fill_holds del: pcon_fill.simps)
qed

lemma send_last:
  assumes "pipe_service p = None" "pipe_opaque p = Connector (pcon_holds w)" "length w + length c \<le> PCON_SIZE"
    "w @ c = string_bytes ''pipe:'' @ str @ [0]" "0 \<notin> set str"
    "goldfish_pipe_find_type svcs (conn_name str) = Some i" "svc_init (svcs ! i) (conn_args str) = (Some x, es)"
  shows "pipe_sendBuffers svcs p [c] =
    Inr (of_nat (length c), p\<lparr>pipe_opaque := Peer x, pipe_service := Some i, pipe_args := conn_args str\<rparr>, es)"
proof -
  have "take (pcon_buffpos (pcon_holds (w @ c))) (pcon_buffer (pcon_holds (w @ c))) = w @ c" by (simp add: pcon_holds_def)
  then have z: "0 \<in> set (take (pcon_buffpos (pcon_holds (w @ c))) (pcon_buffer (pcon_holds (w @ c))))" using assms(4) by simp
  from parse_holds [OF assms(4,5)] obtain buf where "pcon_parse (pcon_buffer (pcon_holds (w @ c))) = Some (conn_name str, conn_args str, buf)" by blast
  with z assms(1-3,6,7) show ?thesis
    by (simp add: pipe_sendBuffers_def pipeConnector_sendBuffers_def fill_holds Let_def del: pcon_fill.simps)
qed

lemma sends_connect:
  assumes "pipe_service p = None" "pipe_opaque p = Connector (pcon_holds w)" "w @ concat cs @ c = string_bytes ''pipe:'' @ str @ [0]"
    "length str \<le> 122" "0 \<notin> set str" "c \<noteq> []"
    "goldfish_pipe_find_type svcs (conn_name str) = Some i" "svc_init (svcs ! i) (conn_args str) = (Some x, es)"
  shows "pipe_sends svcs p (cs @ [c]) =
    Inr (map (\<lambda>c. of_nat (length c)) (cs @ [c]), p\<lparr>pipe_opaque := Peer x, pipe_service := Some i, pipe_args := conn_args str\<rparr>)"
  using assms(1-3)
proof (induction cs arbitrary: p w)
  case Nil
  have "length (w @ c) \<le> PCON_SIZE" using Nil(3) assms(4) by (simp add: string_bytes_def dev_defs)
  then have "length w + length c \<le> PCON_SIZE" by simp
  from send_last [OF Nil(1,2) this _ assms(5,7,8)] Nil(3) show ?case by simp
next
  case (Cons d ds)
  have eq: "w @ d @ concat ds @ c = string_bytes ''pipe:'' @ str @ [0]" using Cons.prems(3) by simp
  have "length (w @ d @ concat ds @ c) \<le> PCON_SIZE" using eq assms(4) by (simp add: string_bytes_def dev_defs)
  then have l: "length w + length d \<le> PCON_SIZE" by simp
  have "butlast (w @ d @ concat ds @ c) = string_bytes ''pipe:'' @ str" unfolding eq by (simp add: butlast_append)
  moreover have "butlast (w @ d @ concat ds @ c) = w @ d @ concat ds @ butlast c" using assms(6) by (simp add: butlast_append)
  ultimately have "set (w @ d) \<subseteq> set (string_bytes ''pipe:'' @ str)" by (metis append_assoc set_append sup_ge1)
  then have z: "0 \<notin> set (w @ d)" using assms(5) by (auto simp: string_bytes_def)
  let ?p = "p\<lparr>pipe_opaque := Connector (pcon_holds (w @ d))\<rparr>"
  have "pipe_sends svcs ?p (ds @ [c]) =
    Inr (map (\<lambda>c. of_nat (length c)) (ds @ [c]), ?p\<lparr>pipe_opaque := Peer x, pipe_service := Some i, pipe_args := conn_args str\<rparr>)"
    by (rule Cons.IH [of ?p "w @ d"]) (use Cons.prems eq in simp_all)
  with send_more [OF Cons.prems(1,2) l z, of svcs] show ?case by simp
qed

lemma find_type_first:
  "i < length svcs \<Longrightarrow> svc_name (svcs ! i) = name \<Longrightarrow> \<forall>j < i. svc_name (svcs ! j) \<noteq> name \<Longrightarrow>
   goldfish_pipe_find_type svcs name = Some i"
proof (induction svcs arbitrary: i)
  case (Cons svc svcs)
  show ?case
  proof (cases i)
    case (Suc k)
    have "\<forall>j < k. svc_name (svcs ! j) \<noteq> name" using Cons.prems(3) Suc by force
    with Cons Suc show ?thesis by fastforce
  qed (use Cons.prems in simp)
qed simp

text \<open>
  C18: A new pipe connects to the service whose name the guest writes, in however many pieces the
  connection string \<open>pipe:name\<close> or \<open>pipe:name:arguments\<close> with its final zero byte comes, of at most
  128 bytes altogether: every write is accepted in full, and after the last one the pipe belongs to
  the first registered service with exactly that name, which got the arguments.
\<close>

theorem pipe_connects:
  assumes "concat cs @ c = string_bytes ''pipe:'' @ str @ [0]" "c \<noteq> []" "length str \<le> 122" "0 \<notin> set str"
    and "i < length svcs" "svc_name (svcs ! i) = conn_name str" "\<forall>j < i. svc_name (svcs ! j) \<noteq> conn_name str"
    and "svc_init (svcs ! i) (conn_args str) = (Some x, es)"
  shows "pipe_sends svcs (pipe_new n ch) (cs @ [c]) =
    Inr (map (\<lambda>c. of_nat (length c)) (cs @ [c]),
      (pipe_new n ch)\<lparr>pipe_opaque := Peer x, pipe_service := Some i, pipe_args := conn_args str\<rparr>)"
  by (rule sends_connect [where w = "[]"]) (use assms find_type_first [OF assms(5-7)] in \<open>simp_all add: pipe_new_def pcon_new_holds\<close>)

lemma debug_services:
  "pipe_services junk lim now = Inr [zeroPipe_funcs, pingPongPipe_funcs junk lim, throttlePipe_funcs junk lim now]"
  by (simp add: pipe_services_def goldfish_pipe_add_type_def zeroPipe_funcs_def pingPongPipe_funcs_def throttlePipe_funcs_def
      string_bytes_def dev_defs)

lemma find_pingpong:
  "pipe_services junk lim now = Inr svcs \<Longrightarrow> goldfish_pipe_find_type svcs (string_bytes ''pingpong'') = Some 1 \<and> svcs ! 1 = pingPongPipe_funcs junk lim"
  by (auto simp: debug_services zeroPipe_funcs_def pingPongPipe_funcs_def string_bytes_def)

theorem pipe_connects_witness:
  "\<exists>svcs x. pipe_services (\<lambda>_. 0) 4096 0 = Inr svcs \<and>
     pipe_sends svcs (pipe_new 0 7) [string_bytes ''pipe:ping'', string_bytes ''pong'' @ [0]] =
       Inr ([9, 5], (pipe_new 0 7)\<lparr>pipe_opaque := Peer x, pipe_service := Some 1\<rparr>)"
proof -
  obtain svcs where s: "pipe_services (\<lambda>_. 0) 4096 0 = Inr svcs" using debug_services by blast
  have n: "conn_name (string_bytes ''pingpong'') = string_bytes ''pingpong''" "conn_args (string_bytes ''pingpong'') = None"
    by (simp_all add: conn_args_def conn_name_def string_bytes_def)
  have "1 < length svcs" "svc_name (svcs ! 1) = conn_name (string_bytes ''pingpong'')"
    "\<forall>j < 1. svc_name (svcs ! j) \<noteq> conn_name (string_bytes ''pingpong'')"
    "svc_init (svcs ! 1) (conn_args (string_bytes ''pingpong'')) = (Some (PingPong (pingPongPipe_init0 (\<lambda>_. 0))), [])"
    using s n by (auto simp: debug_services pingPongPipe_funcs_def zeroPipe_funcs_def string_bytes_def)
  from pipe_connects [of "[string_bytes ''pipe:ping'']" "string_bytes ''pong'' @ [0]" "string_bytes ''pingpong''", OF _ _ _ _ this, of 0 7]
  show ?thesis using s n by (simp add: string_bytes_def pipe_new_def del: pipe_sends.simps)
qed

section \<open>Echo through the device\<close>

lemma find_channel_map:
  "(\<And>p. p \<in> set ps \<Longrightarrow> pipe_channel (f p) = pipe_channel p) \<Longrightarrow>
   pipe_list_findp_channel (map f ps) ch = map_option f (pipe_list_findp_channel ps ch)"
  by (induction ps) (auto simp: pipe_list_findp_channel_def)

lemma done_finds:
  assumes ok: "pipes_ok dev" and p: "pipe_list_findp_channel (pd_pipes dev) ch = Some p" and q: "same_pipe p q"
    and es: "es = [] \<or> es = [Pipe_wake fl]"
  obtains dev' ls w where "pipe_done q es st dev = (dev', ls)" "pipe_list_findp_channel (pd_pipes dev') ch = Some (q\<lparr>pipe_wanted := w\<rparr>)"
    "pd_channel dev' = pd_channel dev" "pd_size dev' = pd_size dev" "pd_status dev' = st"
proof -
  let ?u = "update_pipe (pipe_id q) (\<lambda>_. q) dev"
  have pin: "p \<in> set (pd_pipes dev)" using p find_channel_in by blast
  have "x = p" if "x \<in> set (pd_pipes dev)" "pipe_id x = pipe_id q" for x
    using ok pin q that by (auto simp: pipes_ok_def same_pipe_def distinct_map inj_on_def)
  then have f1: "pipe_list_findp_channel (pd_pipes ?u) ch = Some q"
    unfolding update_pipe_def using p q by (simp add: find_channel_map same_pipe_def) (subst find_channel_map, auto simp: same_pipe_def)
  show thesis
  proof (cases "es = []")
    case True
    show thesis
      by (rule that [of "?u\<lparr>pd_status := st\<rparr>" "[]" "pipe_wanted q"])
        (use f1 True in \<open>simp_all add: pipe_done_def, simp_all add: update_pipe_def\<close>)
  next
    case False
    with es have e: "es = [Pipe_wake fl]" by blast
    let ?g = "\<lambda>p. p\<lparr>pipe_wanted := pipe_wanted p OR ucast fl\<rparr>"
    have f2: "pipe_list_findp_channel (map (\<lambda>p. if pipe_id p = pipe_id q then ?g p else p) (pd_pipes ?u)) ch = Some (?g q)"
      using f1 by (subst find_channel_map) auto
    show thesis
      by (rule that [of "(fst (goldfish_pipe_wake (pipe_id q) fl ?u))\<lparr>pd_status := st\<rparr>" "[True]" "pipe_wanted q OR ucast fl"])
        (use f2 e in \<open>simp_all add: pipe_done_def goldfish_pipe_wake_def, simp_all add: update_pipe_def\<close>)
  qed
qed

text \<open>A buffer of the guest that lies in one mapped page, in RAM.\<close>

definition page_buffer :: "vtop \<Rightarrow> nat \<Rightarrow> u32 \<Rightarrow> nat \<Rightarrow> bool" where
  "page_buffer tr ramsz a n \<longleftrightarrow> n \<le> page_left a \<and>
     (case tr (page_of a) of None \<Rightarrow> False | Some phys \<Rightarrow> unat phys + unat (page_offset a) + n \<le> ramsz)"

lemma phys_read_page:
  "tr (page_of a) = Some p \<Longrightarrow> n \<le> page_left a \<Longrightarrow>
   cpu_physical_memory_read m (p + ucast (page_offset a)) n = virt_bytes tr m a n"
  by (rule nth_equalityI)
    (simp_all add: virt_bytes_def nth_phys_read virt_to_phys_page [where tr = tr and a = a and p = p])

lemma page_buffer_ok:
  assumes "page_buffer tr ramsz (ucast address) (unat sz)" "sz \<noteq> 0"
  obtains a where "pipe_buffer tr ramsz address sz = Inr a"
    "\<And>m. cpu_physical_memory_read m a (unat sz) = virt_bytes tr m (ucast address) (unat sz)"
    "\<And>m bs. length bs = unat sz \<Longrightarrow> cpu_physical_memory_write m a bs = virt_store tr m (ucast address) bs"
proof -
  let ?a = "ucast address :: u32"
  from assms obtain p where p: "tr (page_of ?a) = Some p" "unat sz \<le> page_left ?a" "unat p + unat (page_offset ?a) + unat sz \<le> ramsz"
    by (auto simp: page_buffer_def split: option.splits)
  have "0 < unat sz" using assms(2) by (simp add: unat_gt_0)
  with p(3) have "unat p < ramsz" by linarith
  with p(1,3) have "pipe_buffer tr ramsz address sz = Inr (p + ucast (page_offset ?a))"
    unfolding pipe_buffer_def Let_def by simp
  then show thesis
    by (rule that) (use phys_read_page [where tr = tr, OF p(1,2)] phys_write_page [where tr = tr, OF p(1)] p(2) in simp_all)
qed

text \<open>
  C2: What a guest writes to a connected pingpong pipe it reads back, through the registers of the
  device and its own memory: a write command with a buffer at one virtual address and a read command
  with a buffer at another, each within one page that is mapped to RAM, both transfer the whole
  buffer and report its size; the second buffer then holds, at the guest's own addresses, the
  contents of the first, and no other byte of memory has changed.
\<close>

theorem pipe_echo:
  assumes s1: "pipe_services junk lim now1 = Inr svcs1" and s2: "pipe_services junk lim now2 = Inr svcs2"
    and ok: "pipes_ok dev" and p: "pipe_list_findp_channel (pd_pipes dev) (pd_channel dev) = Some p"
    and pp: "pipe_closed p = 0" "pipe_service p = Some 1" "pipe_opaque p = Peer (PingPong pp)" "pp_ok lim pp" "pp_contents pp = []"
    and pa: "page_buffer tr ramsz (ucast (pd_address dev)) (unat (pd_size dev))"
    and pb: "page_buffer tr ramsz (ucast addr) (unat (pd_size dev))"
    and n: "2 * unat (pd_size dev) \<le> lim" "pd_size dev \<noteq> 0"
  shows "\<exists>dev1 l1 dev2 l2 m'.
    pipeDevice_doCommand svcs1 tr ramsz PIPE_CMD_WRITE_BUFFER dev m = Inr (dev1, l1, m) \<and> pd_status dev1 = pd_size dev \<and>
    pipeDevice_doCommand svcs2 tr ramsz PIPE_CMD_READ_BUFFER (dev1\<lparr>pd_address := addr\<rparr>) m =
      Inr (dev2, l2, m') \<and> pd_status dev2 = pd_size dev \<and>
    virt_bytes tr m' (ucast addr) (unat (pd_size dev)) = virt_bytes tr m (ucast (pd_address dev)) (unat (pd_size dev)) \<and>
    (\<forall>x. x \<notin> (\<lambda>i. the (virt_to_phys tr (ucast addr + of_nat i))) ` {0..<unat (pd_size dev)} \<longrightarrow> m' x = m x)"
proof -
  let ?n = "unat (pd_size dev)"
  obtain a where a: "pipe_buffer tr ramsz (pd_address dev) (pd_size dev) = Inr a"
    "\<And>m. cpu_physical_memory_read m a ?n = virt_bytes tr m (ucast (pd_address dev)) ?n"
    using page_buffer_ok [OF pa n(2)] by metis
  obtain b where b: "pipe_buffer tr ramsz addr (pd_size dev) = Inr b"
    "\<And>m. cpu_physical_memory_read m b ?n = virt_bytes tr m (ucast addr) ?n"
    "\<And>m bs. length bs = ?n \<Longrightarrow> cpu_physical_memory_write m b bs = virt_store tr m (ucast addr) bs"
    using page_buffer_ok [OF pb n(2)] by metis
  define bs where "bs = cpu_physical_memory_read m a ?n"
  have lb: "length bs = ?n" by (simp add: bs_def)
  have c0: "pp_count pp = 0" using pp(5) by (metis length_pp_contents list.size(3))
  from pingPong_send_ok [OF pp(4), of junk "[bs]"] obtain k pp1 r es where
    s0: "pingPongPipe_sendBuffers junk lim pp [bs] = Inr (r, pp1, es)" "pp_ok lim pp1" "pp_contents pp1 = pp_contents pp @ take k (concat [bs])"
      "r = of_nat k \<or> k = 0 \<and> r = PIPE_ERROR_AGAIN" "2 * (pp_count pp + length (concat [bs])) \<le> lim \<longrightarrow> k = length (concat [bs])"
      "es = (if pp_count pp + k > 0 \<and> pp_flags pp AND PIPE_WAKE_READ \<noteq> 0 then [Pipe_wake PIPE_WAKE_READ] else [])" by blast
  have k: "k = ?n" using s0(5) c0 lb n(1) by simp
  have nz: "?n \<noteq> 0" using n(2) by (simp add: unat_eq_0)
  have s: "pingPongPipe_sendBuffers junk lim pp [bs] = Inr (pd_size dev, pp1, es)" "pp_ok lim pp1" "pp_contents pp1 = bs"
      "es = [] \<or> es = [Pipe_wake PIPE_WAKE_READ]"
    using s0(1-4,6) pp(5) k nz lb by (simp_all split: if_splits)
  define q where "q = p\<lparr>pipe_opaque := Peer (PingPong pp1)\<rparr>"
  have send: "pipe_sendBuffers svcs1 p [bs] = Inr (pd_size dev, q, es)"
    using find_pingpong [OF s1] pp s by (simp add: pipe_sendBuffers_def pingPongPipe_funcs_def q_def)
  from done_finds [OF ok p, of q es PIPE_WAKE_READ "pd_size dev"] s(4) obtain dev1 l1 w where
    d1: "pipe_done q es (pd_size dev) dev = (dev1, l1)" "pipe_list_findp_channel (pd_pipes dev1) (pd_channel dev) = Some (q\<lparr>pipe_wanted := w\<rparr>)"
      "pd_channel dev1 = pd_channel dev" "pd_size dev1 = pd_size dev" "pd_status dev1 = pd_size dev"
    by (auto simp: q_def same_pipe_def)
  have w1: "pipeDevice_doCommand svcs1 tr ramsz PIPE_CMD_WRITE_BUFFER dev m = Inr (dev1, l1, m)"
    using p pp(1) a(1) send d1(1) by (simp add: pipeDevice_doCommand_def dev_defs bs_def)
  have c1: "pp_count pp1 = ?n" using s(3) lb by (metis length_pp_contents)
  from pingPong_recv_ok [OF s(2), of "[?n]"] obtain k2 ds pp2 r2 es2 where
    r0: "pingPongPipe_recvBuffers pp1 [?n] = Inr (r2, ds, pp2, es2)" "concat ds = take k2 (pp_contents pp1)" "k2 = min (sum_list [?n]) (pp_count pp1)"
      "r2 = of_nat k2 \<or> k2 = 0 \<and> r2 = PIPE_ERROR_AGAIN" by blast
  have r: "pingPongPipe_recvBuffers pp1 [?n] = Inr (pd_size dev, ds, pp2, es2)" "concat ds = bs"
    using r0 c1 nz s(3) lb by simp_all
  define q2 where "q2 = q\<lparr>pipe_wanted := w, pipe_opaque := Peer (PingPong pp2)\<rparr>"
  have recv: "pipe_recvBuffers svcs2 (q\<lparr>pipe_wanted := w\<rparr>) [?n] = Inr (pd_size dev, ds, q2, es2)"
    using find_pingpong [OF s2] pp(2) r by (simp add: pipe_recvBuffers_def pingPongPipe_funcs_def q_def q2_def)
  obtain dev2 l2 where d2: "pipe_done q2 es2 (pd_size dev) (dev1\<lparr>pd_address := addr\<rparr>) = (dev2, l2)" by fastforce
  have "pipeDevice_doCommand svcs2 tr ramsz PIPE_CMD_READ_BUFFER (dev1\<lparr>pd_address := addr\<rparr>) m =
      Inr (dev2, l2, cpu_physical_memory_write m b bs)"
    using d1 pp(1) b(1) recv d2 r(2) by (simp add: pipeDevice_doCommand_def dev_defs q_def)
  moreover have "pd_status dev2 = pd_size dev" using d2 by (auto simp: pipe_done_def Let_def split: prod.split_asm)
  moreover have "virt_bytes tr (cpu_physical_memory_write m b bs) (ucast addr) ?n = virt_bytes tr m (ucast (pd_address dev)) ?n"
  proof -
    have "?n < 2 ^ 32" using unsigned_less [of "pd_size dev", where 'a = nat] by simp
    then have "cpu_physical_memory_read (cpu_physical_memory_write m b bs) b ?n = bs"
      using phys_read_write [of bs m b] lb by simp
    then show ?thesis unfolding b(2) [symmetric] a(2) [symmetric] bs_def .
  qed
  moreover have "\<forall>x. x \<notin> (\<lambda>i. the (virt_to_phys tr (ucast addr + of_nat i))) ` {0..<?n} \<longrightarrow> cpu_physical_memory_write m b bs x = m x"
    using virt_store_outside [of _ tr "ucast addr" bs m] b(3) [OF lb] lb by simp
  ultimately show ?thesis using w1 d1(5) by blast
qed

theorem pipe_echo_witness:
  "\<exists>svcs dev dev1 l1 dev2 l2 m'.
    pipe_services (\<lambda>_. 0) 4096 0 = Inr svcs \<and> pd_size dev = 2 \<and> pd_address dev = 0x10 \<and>
    pipeDevice_doCommand svcs (\<lambda>_. Some 0) 0x10000 PIPE_CMD_WRITE_BUFFER dev (\<lambda>a. ucast a) = Inr (dev1, l1, \<lambda>a. ucast a) \<and>
    pipeDevice_doCommand svcs (\<lambda>_. Some 0) 0x10000 PIPE_CMD_READ_BUFFER (dev1\<lparr>pd_address := 0x100\<rparr>) (\<lambda>a. ucast a) = Inr (dev2, l2, m') \<and>
    m' 0x100 = 0x10 \<and> m' 0x101 = 0x11"
proof -
  obtain svcs where s: "pipe_services (\<lambda>_. 0) 4096 0 = Inr svcs" using debug_services by blast
  define p :: "debug_pipe Pipe" where "p = (pipe_new 0 7)\<lparr>pipe_service := Some 1, pipe_opaque := Peer (PingPong (pingPongPipe_init0 (\<lambda>_. 0)))\<rparr>"
  define dev where "dev = pipe_dev_init\<lparr>pd_pipes := [p], pd_fresh := 1, pd_channel := 7, pd_size := 2, pd_address := 0x10\<rparr>"
  have ok: "pipes_ok dev" and f: "pipe_list_findp_channel (pd_pipes dev) (pd_channel dev) = Some p"
    by (simp_all add: dev_def p_def pipes_ok_def pipe_new_def pipe_list_findp_channel_def pipe_dev_init_def)
  have pp: "pipe_closed p = 0" "pipe_service p = Some 1" "pipe_opaque p = Peer (PingPong (pingPongPipe_init0 (\<lambda>_. 0)))" "pp_ok 4096 (pingPongPipe_init0 (\<lambda>_. 0))"
    by (simp_all add: p_def pipe_new_def init0_ok)
  have b: "page_buffer (\<lambda>_. Some 0) 0x10000 (ucast (pd_address dev)) (unat (pd_size dev))"
    "page_buffer (\<lambda>_. Some 0) 0x10000 (ucast (0x100 :: u64)) (unat (pd_size dev))"
    by (simp_all add: page_buffer_def page_left_eq dev_def)
  have "2 * unat (pd_size dev) \<le> 4096" "pd_size dev \<noteq> 0" by (simp_all add: dev_def)
  from pipe_echo [OF s s ok f pp init0_contents b this, of "\<lambda>a. ucast a"] obtain dev1 l1 dev2 l2 m' where
    e: "pipeDevice_doCommand svcs (\<lambda>_. Some 0) 0x10000 PIPE_CMD_WRITE_BUFFER dev (\<lambda>a. ucast a) = Inr (dev1, l1, \<lambda>a. ucast a)"
      "pipeDevice_doCommand svcs (\<lambda>_. Some 0) 0x10000 PIPE_CMD_READ_BUFFER (dev1\<lparr>pd_address := 0x100\<rparr>) (\<lambda>a. ucast a) =
        Inr (dev2, l2, m')"
      "virt_bytes (\<lambda>_. Some 0) m' (ucast (0x100 :: u64)) (unat (pd_size dev)) =
        virt_bytes (\<lambda>_. Some 0) (\<lambda>a. ucast a) (ucast (pd_address dev)) (unat (pd_size dev))"
    by blast
  have "m' 0x100 = 0x10" "m' 0x101 = 0x11"
    using e(3) by (simp_all add: virt_bytes_def virt_to_phys_def dev_def upt_rec)
  moreover have "pd_size dev = 2" "pd_address dev = 0x10" by (simp_all add: dev_def)
  ultimately show ?thesis using s e by blast
qed

section \<open>Deadlines of throttled pipes\<close>

lemma excess_bits_lower: "2 ^ 53 \<le> n \<Longrightarrow> 2 ^ 52 \<le> n div 2 ^ excess_bits n"
proof (induction n rule: excess_bits.induct)
  case (1 n)
  have e: "n div 2 ^ excess_bits n = (n div 2) div 2 ^ excess_bits (n div 2)"
    using "1.prems" by (subst excess_bits.simps) (simp add: div_mult2_eq)
  show ?case
  proof (cases "2 ^ 53 \<le> n div 2")
    case True
    with "1.IH" "1.prems" e show ?thesis by simp
  next
    case False
    then have "excess_bits (n div 2) = 0" by (subst excess_bits.simps) simp
    then have "n div 2 ^ excess_bits n = n div 2" using e by simp
    moreover have "2 ^ 53 div 2 \<le> n div 2" using "1.prems" by (rule div_le_mono)
    ultimately show ?thesis by simp
  qed
qed

lemma double_round_small: "n < 2 ^ 53 \<Longrightarrow> double_round n = n"
proof -
  assume "n < 2 ^ 53"
  then have "excess_bits n = 0" by (subst excess_bits.simps) simp
  then show ?thesis by (simp add: double_round_def)
qed

lemma double_round_lower: "n \<ge> 64 \<Longrightarrow> double_round n \<ge> 64"
proof (cases "n < 2 ^ 53")
  case False
  then have "2 ^ 52 \<le> n div 2 ^ excess_bits n" by (intro excess_bits_lower) simp
  then have "64 \<le> n div 2 ^ excess_bits n" by simp
  moreover have "q \<le> (if P then q + 1 else q) * 2 ^ k" for q k :: nat and P by (auto intro: trans_le_add2)
  ultimately show ?thesis unfolding double_round_def Let_def by (rule le_trans)
qed (simp add: double_round_small)

lemma expiration_nonneg [simp]: "throttle_expiration now r \<ge> 0"
  by (simp add: throttle_expiration_def)

lemma expiration_pos: "r \<noteq> 0 \<Longrightarrow> throttle_expiration now r > 0"
proof -
  assume "r \<noteq> 0"
  then have "1 \<le> unat r" by (simp add: unat_gt_0 Suc_le_eq)
  then have "64 \<le> 64 * double_round (nat now) + 15625 * unat r" by simp
  from double_round_lower [OF this] have "64 div 64 \<le> double_round (64 * double_round (nat now) + 15625 * unat r) div 64" by (rule div_le_mono)
  then show ?thesis by (simp add: throttle_expiration_def)
qed

text \<open>For half a day of virtual time the deadline is exact: \<open>now\<close> plus the time the bytes take at 4096 per millisecond.\<close>

lemma expiration_exact:
  assumes "0 \<le> now" "now < 2 ^ 45" "unat r < 2 ^ 31"
  shows "throttle_expiration now r = now + int (15625 * unat r div 64)"
proof -
  have nw: "nat now < 2 ^ 45" using assms by (simp add: nat_less_iff)
  then have r: "double_round (nat now) = nat now" by (intro double_round_small) simp
  have "64 * nat now + 15625 * unat r < 2 ^ 53" using nw assms(3) by simp
  then have "double_round (64 * double_round (nat now) + 15625 * unat r) = 64 * nat now + 15625 * unat r"
    unfolding r by (rule double_round_small)
  then show ?thesis using assms(1) by (simp add: throttle_expiration_def)
qed

text \<open>The timer of a pipe is armed for its first deadline.\<close>

definition throttle_ok :: "ThrottlePipe \<Rightarrow> bool" where
  "throttle_ok tp \<longleftrightarrow> tp_sendExpiration tp \<ge> 0 \<and> tp_recvExpiration tp \<ge> 0 \<and>
     (tp_sendExpiration tp \<noteq> 0 \<longrightarrow> (\<exists>t. tp_timer tp = Some t \<and> t \<le> tp_sendExpiration tp)) \<and>
     (tp_recvExpiration tp \<noteq> 0 \<longrightarrow> (\<exists>t. tp_timer tp = Some t \<and> t \<le> tp_recvExpiration tp))"

text \<open>What a pipe goes through. When the timer fires it is no longer armed.\<close>

inductive throttle_reach :: "(nat \<Rightarrow> u8) \<Rightarrow> nat \<Rightarrow> ThrottlePipe \<Rightarrow> bool" for junk lim where
  start: "throttle_reach junk lim (throttlePipe_init junk)"
| send: "throttle_reach junk lim tp \<Longrightarrow> throttlePipe_sendBuffers junk lim now tp bs = Inr (r, tp', es) \<Longrightarrow> throttle_reach junk lim tp'"
| recv: "throttle_reach junk lim tp \<Longrightarrow> throttlePipe_recvBuffers now tp ns = Inr (r, ds, tp', es) \<Longrightarrow> throttle_reach junk lim tp'"
| wakeOn: "throttle_reach junk lim tp \<Longrightarrow> throttle_reach junk lim (throttlePipe_wakeOn tp flags)"
| timer: "throttle_reach junk lim tp \<Longrightarrow> tp_timer tp = Some t \<Longrightarrow> t \<le> now \<Longrightarrow>
    throttle_reach junk lim (fst (throttlePipe_timerFunc now (tp\<lparr>tp_timer := None\<rparr>)))"

lemma rearm_ok: "tp_sendExpiration tp \<ge> 0 \<Longrightarrow> tp_recvExpiration tp \<ge> 0 \<Longrightarrow> throttle_ok (throttlePipe_rearm tp)"
  by (auto simp: throttle_ok_def throttlePipe_rearm_def Let_def)

lemma throttle_reach_ok: "throttle_reach junk lim tp \<Longrightarrow> throttle_ok tp"
proof (induction rule: throttle_reach.induct)
  case start
  then show ?case by (simp add: throttle_ok_def throttlePipe_init_def)
next
  case (send tp now bs r tp' es)
  then show ?case
    by (auto simp: throttlePipe_sendBuffers_def Let_def throttle_ok_def [of tp] split: if_splits prod.splits intro!: rearm_ok)
      (auto simp: throttle_ok_def)
next
  case (recv tp now ns r ds tp' es)
  then show ?case
    by (auto simp: throttlePipe_recvBuffers_def Let_def throttle_ok_def [of tp] split: if_splits prod.splits intro!: rearm_ok)
      (auto simp: throttle_ok_def)
next
  case (wakeOn tp flags)
  then show ?case by (simp add: throttle_ok_def throttlePipe_wakeOn_def)
next
  case (timer tp t now)
  then show ?case
    by (auto simp: throttlePipe_timerFunc_def Let_def throttle_ok_def [of tp] intro!: rearm_ok)
qed

lemma wake_bit: "((c OR x) AND f) AND c = f AND (c :: u32)" "((x OR c) AND f) AND c = f AND c"
  by (rule bit_word_eqI; auto simp: bit_simps)+

lemma rearm_keeps [simp]:
  "tp_sendExpiration (throttlePipe_rearm tp) = tp_sendExpiration tp" "tp_recvExpiration (throttlePipe_rearm tp) = tp_recvExpiration tp"
  by (simp_all add: throttlePipe_rearm_def Let_def)

text \<open>A flag that is asked for and is among those of the expired deadlines is given to the guest.\<close>

lemma wake_given: "fl AND c \<noteq> 0 \<Longrightarrow> (if fl \<noteq> 0 then [Pipe_wake fl] else []) = [Pipe_wake (fl :: u32)] \<and> fl AND c \<noteq> 0"
  by auto

lemma timer_send:
  assumes "tp_sendExpiration tp > 0" "now > tp_sendExpiration tp" "throttlePipe_timerFunc now tp = (tp', es)"
  shows "tp_sendExpiration tp' = 0 \<and>
    (pp_flags (tp_pingpong tp) AND PIPE_WAKE_WRITE \<noteq> 0 \<longrightarrow> (\<exists>fl. es = [Pipe_wake fl] \<and> fl AND PIPE_WAKE_WRITE \<noteq> 0))"
proof -
  let ?r = "if tp_recvExpiration tp \<noteq> 0 \<and> now > tp_recvExpiration tp then PIPE_WAKE_READ else 0"
  let ?f = "(PIPE_WAKE_WRITE OR ?r) AND pp_flags (tp_pingpong tp)"
  have "tp_sendExpiration tp' = 0" "es = (if ?f \<noteq> 0 then [Pipe_wake ?f] else [])"
    using assms by (auto simp: throttlePipe_timerFunc_def Let_def)
  moreover have "?f AND PIPE_WAKE_WRITE = pp_flags (tp_pingpong tp) AND PIPE_WAKE_WRITE" by (rule wake_bit)
  ultimately show ?thesis using wake_given [of ?f PIPE_WAKE_WRITE] by metis
qed

lemma timer_recv:
  assumes "tp_recvExpiration tp > 0" "now > tp_recvExpiration tp" "throttlePipe_timerFunc now tp = (tp', es)"
  shows "tp_recvExpiration tp' = 0 \<and>
    (pp_flags (tp_pingpong tp) AND PIPE_WAKE_READ \<noteq> 0 \<longrightarrow> (\<exists>fl. es = [Pipe_wake fl] \<and> fl AND PIPE_WAKE_READ \<noteq> 0))"
proof -
  let ?s = "if tp_sendExpiration tp \<noteq> 0 \<and> now > tp_sendExpiration tp then PIPE_WAKE_WRITE else 0"
  let ?f = "(?s OR PIPE_WAKE_READ) AND pp_flags (tp_pingpong tp)"
  have "tp_recvExpiration tp' = 0" "es = (if ?f \<noteq> 0 then [Pipe_wake ?f] else [])"
    using assms by (auto simp: throttlePipe_timerFunc_def Let_def)
  moreover have "?f AND PIPE_WAKE_READ = pp_flags (tp_pingpong tp) AND PIPE_WAKE_READ" by (rule wake_bit)
  ultimately show ?thesis using wake_given [of ?f PIPE_WAKE_READ] by metis
qed

text \<open>
  C26: A throttled pipe opens again. In every state a pipe can get into, if it refuses writes
  because a deadline is set, its timer is armed for a time no later than the deadline; and when the
  timer fires after the deadline, the pipe accepts writes again and the guest is woken if it has asked
  to be. The same holds for reading.
\<close>

theorem throttle_reopens:
  assumes "throttle_reach junk lim tp"
  shows "(tp_sendExpiration tp > 0 \<longrightarrow> (\<exists>t. tp_timer tp = Some t \<and> t \<le> tp_sendExpiration tp)) \<and>
    (tp_recvExpiration tp > 0 \<longrightarrow> (\<exists>t. tp_timer tp = Some t \<and> t \<le> tp_recvExpiration tp)) \<and>
    (\<forall>now tp' es. throttlePipe_timerFunc now (tp\<lparr>tp_timer := None\<rparr>) = (tp', es) \<longrightarrow>
      (tp_sendExpiration tp > 0 \<and> now > tp_sendExpiration tp \<longrightarrow> tp_sendExpiration tp' = 0 \<and>
        (pp_flags (tp_pingpong tp) AND PIPE_WAKE_WRITE \<noteq> 0 \<longrightarrow> (\<exists>fl. es = [Pipe_wake fl] \<and> fl AND PIPE_WAKE_WRITE \<noteq> 0))) \<and>
      (tp_recvExpiration tp > 0 \<and> now > tp_recvExpiration tp \<longrightarrow> tp_recvExpiration tp' = 0 \<and>
        (pp_flags (tp_pingpong tp) AND PIPE_WAKE_READ \<noteq> 0 \<longrightarrow> (\<exists>fl. es = [Pipe_wake fl] \<and> fl AND PIPE_WAKE_READ \<noteq> 0))))"
proof (intro conjI allI impI)
  show "\<exists>t. tp_timer tp = Some t \<and> t \<le> tp_sendExpiration tp" if "tp_sendExpiration tp > 0"
    using throttle_reach_ok [OF assms] that by (simp add: throttle_ok_def)
  show "\<exists>t. tp_timer tp = Some t \<and> t \<le> tp_recvExpiration tp" if "tp_recvExpiration tp > 0"
    using throttle_reach_ok [OF assms] that by (simp add: throttle_ok_def)
  fix now tp' es
  let ?tp = "tp\<lparr>tp_timer := None\<rparr>"
  assume f: "throttlePipe_timerFunc now ?tp = (tp', es)"
  {
    assume "tp_sendExpiration tp > 0 \<and> now > tp_sendExpiration tp"
    then show "tp_sendExpiration tp' = 0"
      "pp_flags (tp_pingpong tp) AND PIPE_WAKE_WRITE \<noteq> 0 \<Longrightarrow> \<exists>fl. es = [Pipe_wake fl] \<and> fl AND PIPE_WAKE_WRITE \<noteq> 0"
      using timer_send [OF _ _ f] by simp_all
  }
  assume "tp_recvExpiration tp > 0 \<and> now > tp_recvExpiration tp"
  then show "tp_recvExpiration tp' = 0"
    "pp_flags (tp_pingpong tp) AND PIPE_WAKE_READ \<noteq> 0 \<Longrightarrow> \<exists>fl. es = [Pipe_wake fl] \<and> fl AND PIPE_WAKE_READ \<noteq> 0"
    using timer_recv [OF _ _ f] by simp_all
qed

theorem throttle_reopens_witness:
  "\<exists>tp. throttle_reach (\<lambda>_. 0) 4096 tp \<and> tp_sendExpiration tp > 0 \<and> (\<exists>t. tp_timer tp = Some t \<and> t \<le> tp_sendExpiration tp)"
proof -
  let ?j = "\<lambda>_. 0 :: u8"
  have ok: "pp_ok 4096 (pingPongPipe_init0 ?j)" by (rule init0_ok) simp_all
  have i: "pp_count (pingPongPipe_init0 ?j) = 0" by (simp add: pingPongPipe_init0_def)
  from pingPong_send_ok [OF ok, of ?j "[[1]]"] i obtain pp' r es where
    s: "pingPongPipe_sendBuffers ?j 4096 (pingPongPipe_init0 ?j) [[1]] = Inr (r, pp', es)" "r = 1" by auto
  let ?tp = "throttlePipe_rearm ((throttlePipe_init ?j)\<lparr>tp_pingpong := pp', tp_sendExpiration := throttle_expiration 0 1\<rparr>)"
  have "throttlePipe_sendBuffers ?j 4096 0 (throttlePipe_init ?j) [[1]] = Inr (1, ?tp, es)"
    using s by (simp add: throttlePipe_sendBuffers_def throttlePipe_init_def)
  then have r: "throttle_reach ?j 4096 ?tp" by (rule throttle_reach.send [OF throttle_reach.start])
  have "tp_sendExpiration ?tp > 0" using expiration_pos [of 1 0] by simp
  with throttle_reopens [OF r] r show ?thesis by blast
qed

end
