(* ===== verification/Pipe_Snapshot.thy ===== *)
theory Pipe_Snapshot
  imports Pipe_Connect
begin

unbundle bit_operations_syntax

text \<open>
  Snapshots of the pipe device: the registers come back, a pipe that is still connecting comes back
  as it was, and a pipe of a service that cannot save its state comes back closed. The pipes that
  had wake flags are signalled again.
\<close>

section \<open>Strings\<close>

definition string_ok :: "bytes \<Rightarrow> bool" where
  "string_ok str \<longleftrightarrow> str \<noteq> [] \<and> 0 \<notin> set str \<and> length str < 2 ^ 31"

definition string_enc :: "bytes \<Rightarrow> bytes" where
  "string_enc str = be32_bytes (of_nat (length str)) @ str"

lemma put_string_enc: "\<not> last_error f \<Longrightarrow> qemu_put_string f (Some str) = f\<lparr>fbuf := fbuf f @ string_enc str\<rparr>"
  by (simp add: qemu_put_string_def be32.put_enc put_buffer_enc string_enc_def)

lemma get_string_enc:
  assumes "fbuf f = string_enc str @ rest" "string_ok str"
  shows "qemu_get_string f = Inr (Some str, f\<lparr>fbuf := rest\<rparr>)"
proof -
  have u: "unat (of_nat (length str) :: u32) = length str" "of_nat (length str) \<noteq> (0 :: u32)"
    using assms(2) by (auto simp: string_ok_def unat_of_nat word_of_nat_eq_0_iff dest: dvd_imp_le nat_dvd_not_less)
  have "sint (of_nat (length str) :: u32) \<ge> 0" using assms(2) c_int_small [of "length str"] by (simp add: string_ok_def c_int_def)
  moreover have "qemu_get_be32 f = (of_nat (length str), f\<lparr>fbuf := str @ rest\<rparr>)"
    by (rule be32.get_enc) (simp add: assms(1) string_enc_def)
  moreover have "qemu_get_buffer (f\<lparr>fbuf := str @ rest\<rparr>) (length str) = (str, f\<lparr>fbuf := rest\<rparr>)"
    by (subst get_buffer_enc) auto
  ultimately show ?thesis using u by (simp add: qemu_get_string_def)
qed

lemma get_string_upd: "string_ok x \<Longrightarrow> qemu_get_string (f\<lparr>fbuf := string_enc x @ rest\<rparr>) = Inr (Some x, f\<lparr>fbuf := rest\<rparr>)"
  using get_string_enc [of "f\<lparr>fbuf := string_enc x @ rest\<rparr>" x rest] by simp

lemma c_string_ok: "string_ok str \<Longrightarrow> c_string str = str"
  by (auto simp: string_ok_def c_string_def takeWhile_eq_all_conv)

section \<open>One pipe\<close>

text \<open>A pipe as the device makes them, of a service without save and load functions.\<close>

definition pipe_plain :: "'o PipeService list \<Rightarrow> 'o Pipe \<Rightarrow> bool" where
  "pipe_plain svcs p \<longleftrightarrow>
     (case pipe_service p of
        None \<Rightarrow> (\<exists>w. length w \<le> PCON_SIZE \<and> pipe_opaque p = Connector (pcon_holds w))
      | Some i \<Rightarrow> i < length svcs \<and> string_ok (svc_name (svcs ! i)) \<and> goldfish_pipe_find_type svcs (svc_name (svcs ! i)) = Some i \<and>
          svc_save (svcs ! i) = None \<and> svc_load (svcs ! i) = None) \<and>
     (case pipe_args p of None \<Rightarrow> True | Some a \<Rightarrow> string_ok a)"

definition pipe_enc :: "'o PipeService list \<Rightarrow> 'o Pipe \<Rightarrow> bytes" where
  "pipe_enc svcs p =
     (case pipe_service p of None \<Rightarrow> [0] | Some i \<Rightarrow> 1 # string_enc (svc_name (svcs ! i))) @
     be64_bytes (pipe_channel p) @ [pipe_wanted p, pipe_closed p] @
     (case pipe_args p of None \<Rightarrow> [0] | Some a \<Rightarrow> 1 # string_enc a) @
     (case (pipe_service p, pipe_opaque p) of
        (None, Connector pc) \<Rightarrow> be32_bytes (of_nat (pcon_buffpos pc)) @ take (pcon_buffpos pc) (pcon_buffer pc)
      | _ \<Rightarrow> [])"

definition pipe_restored :: "nat \<Rightarrow> 'o Pipe \<Rightarrow> 'o Pipe" where
  "pipe_restored i p =
     (case pipe_service p of
        None \<Rightarrow> p\<lparr>pipe_id := i\<rparr>
      | Some _ \<Rightarrow> p\<lparr>pipe_id := i, pipe_opaque := Connector pipeConnector_new, pipe_closed := 1\<rparr>)"

lemma save_pipe_enc: "pipe_plain svcs p \<Longrightarrow> \<not> last_error f \<Longrightarrow> pipe_save svcs f p = Inr (f\<lparr>fbuf := fbuf f @ pipe_enc svcs p\<rparr>)"
  by (cases "pipe_args p"; cases "pipe_service p")
    (auto simp: pipe_save_def pipe_plain_def pipe_enc_def put_byte_enc put_string_enc be64.put_enc be32.put_enc put_buffer_enc Let_def)

lemma load_service_enc:
  assumes "pipe_plain svcs p" "fbuf f = (case pipe_service p of None \<Rightarrow> [0] | Some i \<Rightarrow> 1 # string_enc (svc_name (svcs ! i))) @ rest"
  shows "pipe_load_service svcs f = Inr (Some (pipe_service p), f\<lparr>fbuf := rest\<rparr>)"
proof (cases "pipe_service p")
  case None
  with assms(2) show ?thesis by (simp add: pipe_load_service_def)
next
  case (Some i)
  with assms have n: "string_ok (svc_name (svcs ! i))" "goldfish_pipe_find_type svcs (svc_name (svcs ! i)) = Some i"
    by (auto simp: pipe_plain_def)
  with Some assms(2) show ?thesis by (simp add: pipe_load_service_def c_string_ok get_string_upd)
qed

lemma load_connector_enc:
  assumes "length w \<le> PCON_SIZE" "fbuf f = be32_bytes (of_nat (length w)) @ w @ rest"
  shows "pipeConnector_load f = (Some (pcon_holds w), f\<lparr>fbuf := rest\<rparr>)"
proof -
  have w: "length w < 2 ^ 31" using assms(1) by (simp add: dev_defs)
  then have u: "unat (of_nat (length w) :: u32) = length w" by (simp add: unat_of_nat)
  have "sint (of_nat (length w) :: u32) \<ge> 0" using w c_int_small [of "length w"] by (simp add: c_int_def)
  moreover have "qemu_get_be32 f = (of_nat (length w), f\<lparr>fbuf := w @ rest\<rparr>)" by (rule be32.get_enc) (simp add: assms(2))
  moreover have "qemu_get_buffer (f\<lparr>fbuf := w @ rest\<rparr>) (length w) = (w, f\<lparr>fbuf := rest\<rparr>)" by (subst get_buffer_enc) auto
  ultimately show ?thesis using u assms(1) by (simp add: pipeConnector_load_def pcon_holds_def seg_write_def)
qed

lemma load_connector_upd:
  "length w \<le> PCON_SIZE \<Longrightarrow> pipeConnector_load (f\<lparr>fbuf := be32_bytes (of_nat (length w)) @ w @ rest\<rparr>) = (Some (pcon_holds w), f\<lparr>fbuf := rest\<rparr>)"
  by (subst load_connector_enc) auto

lemma holds_prefix [simp]: "take (length w) (pcon_buffer (pcon_holds w)) = w" "pcon_buffpos (pcon_holds w) = length w"
  by (simp_all add: pcon_holds_def)

lemma load_pipe_enc:
  assumes p: "pipe_plain svcs p" and f: "fbuf f = pipe_enc svcs p @ rest"
  shows "pipe_load svcs i 3 f = Inr (Some (pipe_restored i p), f\<lparr>fbuf := rest\<rparr>)"
proof -
  obtain tl where tl: "fbuf f = (case pipe_service p of None \<Rightarrow> [0] | Some i \<Rightarrow> 1 # string_enc (svc_name (svcs ! i))) @ tl"
    "tl = be64_bytes (pipe_channel p) @ [pipe_wanted p, pipe_closed p] @ (case pipe_args p of None \<Rightarrow> [0] | Some a \<Rightarrow> 1 # string_enc a) @
     (case (pipe_service p, pipe_opaque p) of
        (None, Connector pc) \<Rightarrow> be32_bytes (of_nat (pcon_buffpos pc)) @ take (pcon_buffpos pc) (pcon_buffer pc)
      | _ \<Rightarrow> []) @ rest"
    using f unfolding pipe_enc_def by simp
  note svc = load_service_enc [OF p tl(1)]
  have args: "case pipe_args p of None \<Rightarrow> True | Some a \<Rightarrow> string_ok a" using p by (simp add: pipe_plain_def)
  show ?thesis
  proof (cases "pipe_service p")
    case None
    then obtain w where w: "length w \<le> PCON_SIZE" "pipe_opaque p = Connector (pcon_holds w)" using p by (auto simp: pipe_plain_def)
    with None args svc show ?thesis
      unfolding pipe_load_def tl(2)
      by (cases p; cases "pipe_args p") (auto simp: pipe_get_addr_def get_string_upd load_connector_upd c_string_ok pipe_restored_def pipe_new_def)
  next
    case (Some k)
    then have "svc_load (svcs ! k) = None" using p by (auto simp: pipe_plain_def)
    with Some args svc show ?thesis
      unfolding pipe_load_def tl(2)
      by (cases p; cases "pipe_args p") (auto simp: pipe_get_addr_def get_string_upd c_string_ok pipe_restored_def pipe_new_def)
  qed
qed

section \<open>All pipes\<close>

fun pipes_restored :: "nat \<Rightarrow> 'o Pipe list \<Rightarrow> 'o Pipe list" where
  "pipes_restored n [] = []"
| "pipes_restored n (p # ps) = pipe_restored n p # pipes_restored (Suc n) ps"

lemma save_list_enc:
  "list_all (pipe_plain svcs) ps \<Longrightarrow> \<not> last_error f \<Longrightarrow>
   pipe_save_list svcs f ps = Inr (f\<lparr>fbuf := fbuf f @ concat (map (pipe_enc svcs) ps)\<rparr>)"
  by (induction ps arbitrary: f) (simp_all add: save_pipe_enc)

lemma load_list_enc:
  "list_all (pipe_plain svcs) ps \<Longrightarrow> fbuf f = concat (map (pipe_enc svcs) ps) @ rest \<Longrightarrow>
   pipe_load_list svcs 3 (length ps) dev f =
     Inr (True, dev\<lparr>pd_pipes := rev (pipes_restored (pd_fresh dev) ps) @ pd_pipes dev, pd_fresh := pd_fresh dev + length ps\<rparr>, f\<lparr>fbuf := rest\<rparr>)"
proof (induction ps arbitrary: dev f)
  case (Cons p ps)
  have "pipe_load svcs (pd_fresh dev) 3 f = Inr (Some (pipe_restored (pd_fresh dev) p), f\<lparr>fbuf := concat (map (pipe_enc svcs) ps) @ rest\<rparr>)"
    using Cons.prems by (intro load_pipe_enc) simp_all
  with Cons.prems Cons.IH [of "f\<lparr>fbuf := concat (map (pipe_enc svcs) ps) @ rest\<rparr>"] show ?case by simp
qed simp

lemma restored_id [simp]: "pipe_id (pipe_restored i p) = i" "pipe_wanted (pipe_restored i p) = pipe_wanted p"
  by (cases "pipe_service p"; simp add: pipe_restored_def)+

lemma restored_ids: "map pipe_id (pipes_restored n ps) = [n..<n + length ps]"
  by (induction ps arbitrary: n) (simp_all add: upt_rec)

text \<open>Waking the pipes with flags only adds to the list of signalled pipes; closed pipes are not signalled for it.\<close>

lemma wake_again:
  assumes "distinct (pipe_ids dev)" "find_pipe i (pd_pipes dev) = Some p"
  shows "goldfish_pipe_wake i (ucast (pipe_wanted p)) dev =
    (dev\<lparr>pd_signaled := (if i \<in> set (pd_signaled dev) then pd_signaled dev else i # pd_signaled dev)\<rparr>, [True])"
proof -
  have p: "p \<in> set (pd_pipes dev)" "pipe_id p = i" using assms(2) by (auto simp: find_pipe_def find_Some_iff)
  have "(if pipe_id x = i then x\<lparr>pipe_wanted := pipe_wanted x OR pipe_wanted p\<rparr> else x) = x" if "x \<in> set (pd_pipes dev)" for x
  proof (cases "pipe_id x = i")
    case True
    then have "x = p" using assms(1) p that by (auto simp: distinct_map inj_on_def)
    then show ?thesis by simp
  qed simp
  then have "map (\<lambda>x. if pipe_id x = i then x\<lparr>pipe_wanted := pipe_wanted x OR pipe_wanted p\<rparr> else x) (pd_pipes dev) = pd_pipes dev"
    by (simp add: map_idI)
  then show ?thesis by (cases dev) (simp add: goldfish_pipe_wake_def update_pipe_def)
qed

lemma rewake_ok:
  "distinct (pipe_ids dev) \<Longrightarrow>
   \<exists>sig. fst (pipe_rewake is dev) = dev\<lparr>pd_signaled := sig\<rparr> \<and>
     set sig = set (pd_signaled dev) \<union> {i \<in> set is. \<exists>p. find_pipe i (pd_pipes dev) = Some p \<and> pipe_wanted p \<noteq> 0}"
proof (induction "is" arbitrary: dev)
  case Nil
  then show ?case by (intro exI [of _ "pd_signaled dev"]) simp
next
  case (Cons i js)
  show ?case
  proof (cases "find_pipe i (pd_pipes dev)")
    case None
    from Cons.IH [OF Cons.prems] obtain sig where "fst (pipe_rewake js dev) = dev\<lparr>pd_signaled := sig\<rparr>"
      "set sig = set (pd_signaled dev) \<union> {i \<in> set js. \<exists>p. find_pipe i (pd_pipes dev) = Some p \<and> pipe_wanted p \<noteq> 0}" by blast
    with None show ?thesis by (intro exI [of _ sig]) auto
  next
    case (Some p)
    define dev1 where "dev1 = (if pipe_wanted p \<noteq> 0 then dev\<lparr>pd_signaled := (if i \<in> set (pd_signaled dev) then pd_signaled dev else i # pd_signaled dev)\<rparr> else dev)"
    have d1: "(if pipe_wanted p \<noteq> 0 then goldfish_pipe_wake i (ucast (pipe_wanted p)) dev else (dev, [])) = (dev1, if pipe_wanted p \<noteq> 0 then [True] else [])"
      using wake_again [OF Cons.prems Some] by (simp add: dev1_def)
    have same: "pd_pipes dev1 = pd_pipes dev" by (simp add: dev1_def)
    then have c1: "(if pipe_closed p \<noteq> 0 then goldfish_pipe_close i dev1 else (dev1, [])) = (dev1, [])"
      using Some by (simp add: goldfish_pipe_close_def)
    have step: "fst (pipe_rewake (i # js) dev) = fst (pipe_rewake js dev1)"
      by (simp only: pipe_rewake.simps Some option.case d1 c1 Let_def prod.case) (simp add: case_prod_unfold)
    from Cons.IH [of dev1] Cons.prems same obtain sig where "fst (pipe_rewake js dev1) = dev1\<lparr>pd_signaled := sig\<rparr>"
      "set sig = set (pd_signaled dev1) \<union> {i \<in> set js. \<exists>p. find_pipe i (pd_pipes dev) = Some p \<and> pipe_wanted p \<noteq> 0}" by auto
    then show ?thesis unfolding step using Some by (intro exI [of _ sig]) (auto simp: dev1_def split: if_splits)
  qed
qed

text \<open>
  C25: A snapshot of the pipe device, loaded into a device without pipes, restores the registers.
  The pipes come back in reverse order and with new addresses: one that is still reading the name of
  its service exactly as it was, and one of a service without save functions closed, with its channel,
  arguments and flags. Exactly the pipes that have wake flags are signalled.
\<close>

theorem pipe_snapshot:
  assumes "list_all (pipe_plain svcs) (pd_pipes dev)" "length (pd_pipes dev) < 2 ^ 31"
    and "\<not> last_error f" "fbuf f = []" "pd_pipes dev0 = []" "pd_signaled dev0 = []"
    and "goldfish_pipe_save svcs f dev = Inr f1"
  shows "\<exists>dev' ls. goldfish_pipe_load svcs f1 dev0 3 = Inr (0, dev', f, ls) \<and>
    (pd_address dev', pd_size dev', pd_status dev', pd_channel dev', pd_wakes dev', pd_params_addr dev') =
      (pd_address dev, pd_size dev, pd_status dev, pd_channel dev, pd_wakes dev, pd_params_addr dev) \<and>
    pd_pipes dev' = rev (pipes_restored (pd_fresh dev0) (pd_pipes dev)) \<and>
    set (pd_signaled dev') = pipe_id ` {p \<in> set (pd_pipes dev'). pipe_wanted p \<noteq> 0}"
proof -
  let ?ps = "pd_pipes dev" and ?n = "pd_fresh dev0"
  define dev1 where "dev1 = dev0\<lparr>pd_address := pd_address dev, pd_size := pd_size dev, pd_status := pd_status dev, pd_channel := pd_channel dev,
     pd_wakes := pd_wakes dev, pd_params_addr := pd_params_addr dev\<rparr>"
  define dev2 where "dev2 = dev1\<lparr>pd_pipes := rev (pipes_restored ?n ?ps), pd_fresh := ?n + length ?ps\<rparr>"
  have f1: "f1 = f\<lparr>fbuf := be64_bytes (pd_address dev) @ be32_bytes (pd_size dev) @ be32_bytes (pd_status dev) @ be64_bytes (pd_channel dev) @
     be32_bytes (pd_wakes dev) @ be64_bytes (pd_params_addr dev) @ be32_bytes (of_nat (length ?ps)) @ concat (map (pipe_enc svcs) ?ps)\<rparr>"
    using assms(1,3,4,7) by (simp add: goldfish_pipe_save_def Let_def codec_put save_list_enc)
  have cnt: "nat (sint (of_nat (length ?ps) :: u32)) = length ?ps" using assms(2) c_int_small [of "length ?ps"] by (simp add: c_int_def)
  have "pipe_load_list svcs 3 (length ?ps) dev1 (f\<lparr>fbuf := concat (map (pipe_enc svcs) ?ps)\<rparr>) = Inr (True, dev2, f)"
    using load_list_enc [OF assms(1), of "f\<lparr>fbuf := concat (map (pipe_enc svcs) ?ps)\<rparr>" "[]" dev1] assms(4,5)
    by (simp add: dev1_def dev2_def)
  then have load: "goldfish_pipe_load svcs f1 dev0 3 =
      Inr (0, fst (pipe_rewake (pipe_ids dev2) dev2), f, snd (pipe_rewake (pipe_ids dev2) dev2))"
    using cnt unfolding f1 goldfish_pipe_load_def by (simp add: pipe_get_addr_def codec_get dev1_def case_prod_unfold Let_def)
  have ids: "pipe_ids dev2 = rev [?n..<?n + length ?ps]" by (simp add: dev2_def rev_map [symmetric] restored_ids)
  then have dist: "distinct (pipe_ids dev2)" by simp
  from rewake_ok [OF this, of "pipe_ids dev2"] obtain sig where r: "fst (pipe_rewake (pipe_ids dev2) dev2) = dev2\<lparr>pd_signaled := sig\<rparr>"
    "set sig = set (pd_signaled dev2) \<union> {i \<in> set (pipe_ids dev2). \<exists>p. find_pipe i (pd_pipes dev2) = Some p \<and> pipe_wanted p \<noteq> 0}" by blast
  have "find_pipe (pipe_id p) (pd_pipes dev2) = Some p" if "p \<in> set (pd_pipes dev2)" for p
    using find_pipe_ids [of "pipe_id p" dev2] dist that
    by (auto simp: find_pipe_def find_Some_iff distinct_map inj_on_def)
  then have "set sig = pipe_id ` {p \<in> set (pd_pipes dev2). pipe_wanted p \<noteq> 0}"
    unfolding r(2) using assms(6) by (auto simp: dev2_def dev1_def)
  with load r(1) show ?thesis by (auto simp: dev2_def dev1_def)
qed

theorem pipe_snapshot_witness:
  "\<exists>dev f1 (dev' :: debug_pipe PipeDevice) ls. pd_pipes dev = [(pipe_new 0 7)\<lparr>pipe_wanted := 2\<rparr> :: debug_pipe Pipe] \<and>
     goldfish_pipe_save [] qemu_file_empty dev = Inr f1 \<and> goldfish_pipe_load [] f1 pipe_dev_init 3 = Inr (0, dev', qemu_file_empty, ls) \<and>
     pd_pipes dev' = [(pipe_new 0 7)\<lparr>pipe_wanted := 2\<rparr>] \<and> pd_signaled dev' \<noteq> []"
proof -
  define p :: "debug_pipe Pipe" where "p = (pipe_new 0 7)\<lparr>pipe_wanted := 2\<rparr>"
  define dev :: "debug_pipe PipeDevice" where "dev = pipe_dev_init\<lparr>pd_pipes := [p]\<rparr>"
  have pl: "list_all (pipe_plain []) (pd_pipes dev)"
    by (auto simp: dev_def p_def pipe_plain_def pipe_new_def pcon_new_holds intro: exI [of _ "[]"])
  obtain f1 where s: "goldfish_pipe_save [] qemu_file_empty dev = Inr f1"
    using save_list_enc [OF pl] by (simp add: goldfish_pipe_save_def Let_def codec_put qemu_file_empty_def)
  have "length (pd_pipes dev) < 2 ^ 31" "\<not> last_error qemu_file_empty" "fbuf qemu_file_empty = []"
    "pd_pipes (pipe_dev_init :: debug_pipe PipeDevice) = []" "pd_signaled (pipe_dev_init :: debug_pipe PipeDevice) = []"
    by (simp_all add: dev_def qemu_file_empty_def pipe_dev_init_def)
  from pipe_snapshot [OF pl this s] obtain dev' ls where
    l: "goldfish_pipe_load [] f1 pipe_dev_init 3 = Inr (0, dev', qemu_file_empty, ls)" "pd_pipes dev' = rev (pipes_restored 0 (pd_pipes dev))"
      "set (pd_signaled dev') = pipe_id ` {p \<in> set (pd_pipes dev'). pipe_wanted p \<noteq> 0}"
    by (auto simp: pipe_dev_init_def)
  have d: "pd_pipes dev' = [p]" using l(2) by (simp add: dev_def p_def pipe_restored_def pipe_new_def)
  then have n: "pd_signaled dev' \<noteq> []" using l(3) by (auto simp: p_def)
  have "pd_pipes dev = [p]" by (simp add: dev_def)
  then show ?thesis using l(1) s d n unfolding p_def
    by (intro exI [of _ dev] exI [of _ f1] exI [of _ dev'] exI [of _ ls] conjI)
qed

text \<open>
  A pipe closed by loading it has the functions of its service and a connector as their argument:
  when the guest closes it, the service gets a pointer that is not its own. The guest is not told either
  that the pipe is closed: it is not signalled if it had no flags.
\<close>

lemma loaded_pipe_free: "pipe_service p = Some i \<Longrightarrow> pipe_free (pipe_restored n p) = Inl Undefined_behaviour"
  by (simp add: pipe_restored_def pipe_free_def)

lemma loaded_pipe_not_closed_again:
  "find_pipe i (pd_pipes dev) = Some p \<Longrightarrow> pipe_closed p \<noteq> 0 \<Longrightarrow> goldfish_pipe_close i dev = (dev, [])"
  by (simp add: goldfish_pipe_close_def)

end
