(* ===== verification/Multitouch.thy ===== *)
theory Multitouch
  imports Goldfish_Events
begin

text \<open>
  The multi-touch screen (android/multitouch-screen.c): the pointers it tracks, the slot protocol
  it speaks to the guest's input driver, and the rectangle of frame-buffer updates it accumulates
  while one is being transmitted.

  An operation returns the input events it pushes (type, code, value), which go to
  \<open>events_put_generic\<close> of the input device. Sending a frame is a parameter: whether the port
  accepts it.
\<close>

section \<open>State\<close>

definition MTS_POINTERS_NUM :: nat where "MTS_POINTERS_NUM = 10"
definition MTS_POINTER_UP :: int where "MTS_POINTER_UP = -1"
definition MTS_POINTER_MOUSE :: int where "MTS_POINTER_MOUSE = -2"

definition ABS_MT_SLOT :: int where [dev_defs]: "ABS_MT_SLOT = 0x2f"
definition ABS_MT_TOUCH_MAJOR :: int where [dev_defs]: "ABS_MT_TOUCH_MAJOR = 0x30"
definition ABS_MT_POSITION_X :: int where [dev_defs]: "ABS_MT_POSITION_X = 0x35"
definition ABS_MT_POSITION_Y :: int where [dev_defs]: "ABS_MT_POSITION_Y = 0x36"
definition ABS_MT_TRACKING_ID :: int where [dev_defs]: "ABS_MT_TRACKING_ID = 0x39"
definition ABS_MT_PRESSURE :: int where [dev_defs]: "ABS_MT_PRESSURE = 0x3a"

record MTSPointerState =
  tracking_id :: int
  ptr_x :: int
  ptr_y :: int
  ptr_pressure :: int

record MTSState =
  tracked_ptr_num :: int
  current_slot :: int
  touch_major :: int
  tracked_pointers :: "MTSPointerState list"

type_synonym mt_event = "nat \<times> int \<times> int"

definition mts_pointer_none :: MTSPointerState where
  "mts_pointer_none = \<lparr>tracking_id = MTS_POINTER_UP, ptr_x = 0, ptr_y = 0, ptr_pressure = 0\<rparr>"

definition multitouch_init :: MTSState where
  "multitouch_init =
     \<lparr>tracked_ptr_num = 0, current_slot = -1, touch_major = 0,
      tracked_pointers = replicate MTS_POINTERS_NUM mts_pointer_none\<rparr>"

definition multitouch_get_max_slot :: int where
  "multitouch_get_max_slot = int MTS_POINTERS_NUM - 1"

section \<open>Pointers\<close>

text \<open>The index of a tracking id, \<open>None\<close> for -1.\<close>

definition mtsstate_get_pointer_index :: "MTSState \<Rightarrow> int \<Rightarrow> nat option" where
  "mtsstate_get_pointer_index m tid =
     find (\<lambda>i. tracking_id (tracked_pointers m ! i) = tid) [0..<MTS_POINTERS_NUM]"

definition mtsstate_get_available_pointer_index :: "MTSState \<Rightarrow> nat option" where
  "mtsstate_get_available_pointer_index m = mtsstate_get_pointer_index m MTS_POINTER_UP"

definition mts_select :: "MTSState \<Rightarrow> nat \<Rightarrow> mt_event list" where
  "mts_select m slot = (if int slot \<noteq> current_slot m then [(EV_ABS, ABS_MT_SLOT, int slot)] else [])"

definition mts_pointer_down ::
    "MTSState \<Rightarrow> int \<Rightarrow> int \<Rightarrow> int \<Rightarrow> int \<Rightarrow> MTSState \<times> mt_event list" where
  "mts_pointer_down m tid x y pressure =
     (case mtsstate_get_available_pointer_index m of
        Some slot \<Rightarrow>
          (m\<lparr>tracked_ptr_num := tracked_ptr_num m + 1,
             tracked_pointers := (tracked_pointers m)[slot :=
               \<lparr>tracking_id = tid, ptr_x = x, ptr_y = y, ptr_pressure = pressure\<rparr>],
             touch_major := touch_major m + 1,
             current_slot := int slot\<rparr>,
           mts_select m slot @
           [(EV_ABS, ABS_MT_TRACKING_ID, int slot), (EV_ABS, ABS_MT_TOUCH_MAJOR, touch_major m + 1),
            (EV_ABS, ABS_MT_PRESSURE, pressure), (EV_ABS, ABS_MT_POSITION_X, x),
            (EV_ABS, ABS_MT_POSITION_Y, y), (EV_SYN, 0, 0)])
      | None \<Rightarrow> (m, []))"

text \<open>The assertion that the number of pointers is not negative aborts the emulator.\<close>

definition mts_pointer_up :: "MTSState \<Rightarrow> nat \<Rightarrow> (MTSState \<times> mt_event list) outcome" where
  "mts_pointer_up m slot =
     (let m1 = m\<lparr>tracked_pointers := (tracked_pointers m)[slot := mts_pointer_none],
                 current_slot := -1, tracked_ptr_num := tracked_ptr_num m - 1\<rparr>
      in if tracked_ptr_num m1 < 0 then Inl Cpu_abort
         else Inr (m1, mts_select m slot @ [(EV_ABS, ABS_MT_TRACKING_ID, -1), (EV_SYN, 0, 0)]))"

definition mts_pointer_move ::
    "MTSState \<Rightarrow> nat \<Rightarrow> int \<Rightarrow> int \<Rightarrow> int \<Rightarrow> MTSState \<times> mt_event list" where
  "mts_pointer_move m slot x y pressure =
     (let p = tracked_pointers m ! slot in
      if ptr_x p = x \<and> ptr_y p = y then (m, [])
      else
        (let press = (ptr_pressure p \<noteq> pressure \<and> pressure \<noteq> 0);
             p' = p\<lparr>ptr_pressure := (if press then pressure else ptr_pressure p),
                    ptr_x := x, ptr_y := y\<rparr>
         in (m\<lparr>current_slot := int slot, tracked_pointers := (tracked_pointers m)[slot := p']\<rparr>,
             mts_select m slot @
             (if press then [(EV_ABS, ABS_MT_PRESSURE, pressure)] else []) @
             (if ptr_x p \<noteq> x then [(EV_ABS, ABS_MT_POSITION_X, x)] else []) @
             (if ptr_y p \<noteq> y then [(EV_ABS, ABS_MT_POSITION_Y, y)] else []) @
             [(EV_SYN, 0, 0)])))"

definition multitouch_update_pointer ::
    "bool \<Rightarrow> int \<Rightarrow> int \<Rightarrow> int \<Rightarrow> int \<Rightarrow> MTSState \<Rightarrow> (MTSState \<times> mt_event list) outcome" where
  "multitouch_update_pointer mouse tid0 x y pressure m =
     (let tid = (if mouse then MTS_POINTER_MOUSE else tid0) in
      case mtsstate_get_pointer_index m tid of
        None \<Rightarrow> if pressure = 0 then Inr (m, []) else Inr (mts_pointer_down m tid x y pressure)
      | Some slot \<Rightarrow>
          if pressure = 0 then mts_pointer_up m slot
          else Inr (mts_pointer_move m slot x y pressure))"

section \<open>Frame-buffer updates\<close>

record MTFrame =
  fb_x :: int
  fb_y :: int
  fb_w :: int
  fb_h :: int
  fb_transfer_in_progress :: bool

text \<open>
  \<open>ready\<close> says whether the port is connected; if it is, the rectangle is sent and cleared in the header.
\<close>

definition mts_port_send_frame :: "bool \<Rightarrow> MTFrame \<Rightarrow> int \<times> MTFrame \<times> (int \<times> int \<times> int \<times> int) list" where
  "mts_port_send_frame ready f =
     (if \<not> ready then (-1, f, [])
      else (0, f\<lparr>fb_x := 0, fb_y := 0, fb_w := 0, fb_h := 0\<rparr>, [(fb_x f, fb_y f, fb_w f, fb_h f)]))"

text \<open>What its three callers do with it.\<close>

definition mts_send :: "bool \<Rightarrow> MTFrame \<Rightarrow> MTFrame \<times> (int \<times> int \<times> int \<times> int) list" where
  "mts_send ready f =
     (let (ret, f1, sent) = mts_port_send_frame ready (f\<lparr>fb_transfer_in_progress := True\<rparr>)
      in (if ret \<noteq> 0 then f1\<lparr>fb_transfer_in_progress := False\<rparr> else f1, sent))"

definition mt_fb_common_update ::
    "bool \<Rightarrow> MTFrame \<Rightarrow> int \<Rightarrow> int \<Rightarrow> int \<Rightarrow> int \<Rightarrow> MTFrame \<times> (int \<times> int \<times> int \<times> int) list" where
  "mt_fb_common_update ready f x y w h =
     (let f1 =
        (if fb_w f = 0 \<and> fb_h f = 0 then f\<lparr>fb_x := x, fb_y := y, fb_w := w, fb_h := h\<rparr>
         else
           (let right = fb_x f + fb_w f; bottom = fb_y f + fb_h f;
                new_right = x + w; new_bottom = y + h;
                x' = (if fb_x f > x then x else fb_x f);
                y' = (if fb_y f > y then y else fb_y f);
                right' = (if right < new_right then new_right else right);
                bottom' = (if bottom < new_bottom then new_bottom else bottom)
            in f\<lparr>fb_x := x', fb_y := y', fb_w := right' - x', fb_h := bottom' - y'\<rparr>))
      in if \<not> fb_transfer_in_progress f1 then mts_send ready f1 else (f1, []))"

definition multitouch_fb_updated :: "bool \<Rightarrow> MTFrame \<Rightarrow> MTFrame \<times> (int \<times> int \<times> int \<times> int) list" where
  "multitouch_fb_updated ready f =
     (let f1 = f\<lparr>fb_transfer_in_progress := False\<rparr>
      in if fb_w f1 \<noteq> 0 \<and> fb_h f1 \<noteq> 0 then mts_send ready f1 else (f1, []))"

definition mt_on_fb_sent :: "bool \<Rightarrow> bool \<Rightarrow> MTFrame \<Rightarrow> MTFrame \<times> (int \<times> int \<times> int \<times> int) list" where
  "mt_on_fb_sent succeeded ready f =
     (if succeeded \<and> fb_w f \<noteq> 0 \<and> fb_h f \<noteq> 0 \<and> \<not> fb_transfer_in_progress f
      then mts_send ready f else (f, []))"

section \<open>The slot protocol\<close>

text \<open>
  The guest's input driver: the selected slot, and for every slot whether a contact is active and
  its last reported position and pressure.
\<close>

record mt_driver =
  drv_slot :: int
  drv_active :: "nat \<Rightarrow> bool"
  drv_x :: "nat \<Rightarrow> int"
  drv_y :: "nat \<Rightarrow> int"
  drv_pressure :: "nat \<Rightarrow> int"

definition drv_event :: "mt_event \<Rightarrow> mt_driver \<Rightarrow> mt_driver" where
  "drv_event ev d =
     (case ev of (type, code, value) \<Rightarrow>
        (let i = nat (drv_slot d) in
         if type \<noteq> EV_ABS then d
         else if code = ABS_MT_SLOT then d\<lparr>drv_slot := value\<rparr>
         else if code = ABS_MT_TRACKING_ID then
           d\<lparr>drv_active := (drv_active d)(i := value \<noteq> -1)\<rparr>
         else if code = ABS_MT_POSITION_X then d\<lparr>drv_x := (drv_x d)(i := value)\<rparr>
         else if code = ABS_MT_POSITION_Y then d\<lparr>drv_y := (drv_y d)(i := value)\<rparr>
         else if code = ABS_MT_PRESSURE then d\<lparr>drv_pressure := (drv_pressure d)(i := value)\<rparr>
         else d))"

definition mt_tracked :: "MTSState \<Rightarrow> nat set" where
  "mt_tracked m = {i. i < MTS_POINTERS_NUM \<and> tracking_id (tracked_pointers m ! i) \<noteq> MTS_POINTER_UP}"

definition mt_inv :: "MTSState \<Rightarrow> bool" where
  "mt_inv m \<longleftrightarrow> length (tracked_pointers m) = MTS_POINTERS_NUM \<and>
     tracked_ptr_num m = int (card (mt_tracked m)) \<and>
     inj_on (\<lambda>i. tracking_id (tracked_pointers m ! i)) (mt_tracked m)"

definition mt_view :: "MTSState \<Rightarrow> mt_driver \<Rightarrow> bool" where
  "mt_view m d \<longleftrightarrow> (current_slot m \<noteq> -1 \<longrightarrow> drv_slot d = current_slot m) \<and>
     (\<forall>i<MTS_POINTERS_NUM. drv_active d i = (i \<in> mt_tracked m) \<and>
        (i \<in> mt_tracked m \<longrightarrow> drv_x d i = ptr_x (tracked_pointers m ! i) \<and>
           drv_y d i = ptr_y (tracked_pointers m ! i) \<and>
           drv_pressure d i = ptr_pressure (tracked_pointers m ! i)))"

lemma finite_mt_tracked [simp]: "finite (mt_tracked m)"
  by (rule finite_subset [of _ "{..<MTS_POINTERS_NUM}"]) (auto simp: mt_tracked_def)

lemma index_Some:
  "mtsstate_get_pointer_index m tid = Some i \<Longrightarrow>
   i < MTS_POINTERS_NUM \<and> tracking_id (tracked_pointers m ! i) = tid"
  by (auto simp: mtsstate_get_pointer_index_def find_Some_iff)

lemma index_None:
  "mtsstate_get_pointer_index m tid = None \<Longrightarrow> i < MTS_POINTERS_NUM \<Longrightarrow>
   tracking_id (tracked_pointers m ! i) \<noteq> tid"
  by (auto simp: mtsstate_get_pointer_index_def find_None_iff)

lemma select_view:
  "mt_view m d \<Longrightarrow> fold drv_event (mts_select m slot) d = d\<lparr>drv_slot := int slot\<rparr>"
  by (auto simp: mts_select_def drv_event_def dev_defs mt_view_def)

lemma mt_tracked_update:
  assumes "length (tracked_pointers m) = MTS_POINTERS_NUM" "slot < MTS_POINTERS_NUM"
  shows "mt_tracked (m\<lparr>tracked_pointers := (tracked_pointers m)[slot := p]\<rparr>) =
    (if tracking_id p = MTS_POINTER_UP then mt_tracked m - {slot} else insert slot (mt_tracked m))"
  using assms by (auto simp: mt_tracked_def nth_list_update split: if_splits)

lemma mt_tracked_frame [simp]:
  "mt_tracked (m\<lparr>current_slot := c\<rparr>) = mt_tracked m" "mt_tracked (m\<lparr>touch_major := t\<rparr>) = mt_tracked m"
  "mt_tracked (m\<lparr>tracked_ptr_num := n\<rparr>) = mt_tracked m"
  by (simp_all add: mt_tracked_def)

lemma mt_down:
  assumes "mt_inv m" "mt_view m d" "tid \<noteq> MTS_POINTER_UP"
    and "\<And>i. i < MTS_POINTERS_NUM \<Longrightarrow> tracking_id (tracked_pointers m ! i) \<noteq> tid"
    and "mts_pointer_down m tid x y pressure = (m', evs)"
  shows "mt_inv m' \<and> mt_view m' (fold drv_event evs d)"
proof (cases "mtsstate_get_available_pointer_index m")
  case None
  with assms show ?thesis by (simp add: mts_pointer_down_def)
next
  case (Some slot)
  then have s: "slot < MTS_POINTERS_NUM" "tracking_id (tracked_pointers m ! slot) = MTS_POINTER_UP"
    using index_Some by (auto simp: mtsstate_get_available_pointer_index_def)
  let ?p = "\<lparr>tracking_id = tid, ptr_x = x, ptr_y = y, ptr_pressure = pressure\<rparr>"
  have len: "length (tracked_pointers m) = MTS_POINTERS_NUM" using assms(1) by (simp add: mt_inv_def)
  have m': "tracked_pointers m' = (tracked_pointers m)[slot := ?p]" "current_slot m' = int slot"
    "tracked_ptr_num m' = tracked_ptr_num m + 1"
    and evs: "evs = mts_select m slot @
       [(EV_ABS, ABS_MT_TRACKING_ID, int slot), (EV_ABS, ABS_MT_TOUCH_MAJOR, touch_major m + 1),
        (EV_ABS, ABS_MT_PRESSURE, pressure), (EV_ABS, ABS_MT_POSITION_X, x),
        (EV_ABS, ABS_MT_POSITION_Y, y), (EV_SYN, 0, 0)]"
    using assms(5) Some by (auto simp: mts_pointer_down_def)
  have notin: "slot \<notin> mt_tracked m" using s(2) by (simp add: mt_tracked_def)
  have tr: "mt_tracked m' = insert slot (mt_tracked m)"
    using mt_tracked_update [OF len s(1), of ?p] assms(3) m'(1) by (simp add: mt_tracked_def)
  have "inj_on (\<lambda>i. tracking_id (tracked_pointers m' ! i)) (insert slot (mt_tracked m))"
    using assms(1,4) s len notin unfolding m'(1)
    by (auto simp: mt_inv_def inj_on_def nth_list_update mt_tracked_def)
  then have "mt_inv m'"
    using assms(1) m' tr notin by (simp add: mt_inv_def)
  moreover have "mt_view m' (fold drv_event evs d)"
    unfolding evs fold_append comp_apply select_view [OF assms(2)]
    using assms(2) s len tr m' notin
    by (auto simp: mt_view_def drv_event_def dev_defs EV_ABS_def EV_SYN_def nth_list_update)
  ultimately show ?thesis ..
qed

lemma mt_up:
  assumes "mt_inv m" "mt_view m d" "slot \<in> mt_tracked m"
  shows "\<exists>m' evs. mts_pointer_up m slot = Inr (m', evs) \<and> mt_inv m' \<and> mt_view m' (fold drv_event evs d)"
proof -
  have s: "slot < MTS_POINTERS_NUM" using assms(3) by (simp add: mt_tracked_def)
  have len: "length (tracked_pointers m) = MTS_POINTERS_NUM" using assms(1) by (simp add: mt_inv_def)
  let ?m' = "m\<lparr>tracked_pointers := (tracked_pointers m)[slot := mts_pointer_none],
     current_slot := -1, tracked_ptr_num := tracked_ptr_num m - 1\<rparr>"
  let ?evs = "mts_select m slot @ [(EV_ABS, ABS_MT_TRACKING_ID, -1), (EV_SYN, 0, 0)]"
  have tr: "mt_tracked ?m' = mt_tracked m - {slot}"
    using mt_tracked_update [OF len s, of mts_pointer_none]
    by (simp add: mts_pointer_none_def mt_tracked_def)
  have c: "0 < card (mt_tracked m)" using assms(3) by (auto simp: card_gt_0_iff)
  have "mt_inv ?m'"
    using assms(1,3) c s len unfolding mt_inv_def tr
    by (auto simp: inj_on_def nth_list_update of_nat_diff)
  moreover have "mt_view ?m' (fold drv_event ?evs d)"
    unfolding fold_append comp_apply select_view [OF assms(2)]
    using assms(2) s len unfolding mt_view_def tr
    by (auto simp: drv_event_def dev_defs EV_ABS_def EV_SYN_def nth_list_update)
  moreover have "mts_pointer_up m slot = Inr (?m', ?evs)"
    using assms(1,3) c by (auto simp: mts_pointer_up_def mt_inv_def Let_def)
  ultimately show ?thesis by blast
qed

lemma mt_move:
  assumes "mt_inv m" "mt_view m d" "slot \<in> mt_tracked m"
    and "mts_pointer_move m slot x y pressure = (m', evs)"
  shows "mt_inv m' \<and> mt_view m' (fold drv_event evs d)"
proof -
  have s: "slot < MTS_POINTERS_NUM" "tracking_id (tracked_pointers m ! slot) \<noteq> MTS_POINTER_UP"
    using assms(3) by (auto simp: mt_tracked_def)
  have len: "length (tracked_pointers m) = MTS_POINTERS_NUM" using assms(1) by (simp add: mt_inv_def)
  let ?p = "tracked_pointers m ! slot"
  show ?thesis
  proof (cases "ptr_x ?p = x \<and> ptr_y ?p = y")
    case True
    with assms show ?thesis by (simp add: mts_pointer_move_def)
  next
    case False
    define press where "press = (ptr_pressure ?p \<noteq> pressure \<and> pressure \<noteq> 0)"
    let ?p' = "?p\<lparr>ptr_pressure := (if press then pressure else ptr_pressure ?p), ptr_x := x, ptr_y := y\<rparr>"
    have m': "m' = m\<lparr>current_slot := int slot, tracked_pointers := (tracked_pointers m)[slot := ?p']\<rparr>"
      and evs: "evs = mts_select m slot @ (if press then [(EV_ABS, ABS_MT_PRESSURE, pressure)] else []) @
        (if ptr_x ?p \<noteq> x then [(EV_ABS, ABS_MT_POSITION_X, x)] else []) @
        (if ptr_y ?p \<noteq> y then [(EV_ABS, ABS_MT_POSITION_Y, y)] else []) @ [(EV_SYN, 0, 0)]"
      using assms(4) False unfolding mts_pointer_move_def Let_def press_def [symmetric]
      by (auto split: if_splits)
    have nth: "tracked_pointers m' ! i = (if i = slot then ?p' else tracked_pointers m ! i)"
      if "i < MTS_POINTERS_NUM" for i using that len by (simp add: m' nth_list_update)
    then have id: "tracking_id (tracked_pointers m' ! i) = tracking_id (tracked_pointers m ! i)"
      if "i < MTS_POINTERS_NUM" for i using that by simp
    then have tr: "mt_tracked m' = mt_tracked m" by (auto simp: mt_tracked_def)
    have "inj_on (\<lambda>i. tracking_id (tracked_pointers m' ! i)) (mt_tracked m)
        = inj_on (\<lambda>i. tracking_id (tracked_pointers m ! i)) (mt_tracked m)"
      by (rule inj_on_cong) (auto simp: mt_tracked_def id)
    then have inv: "mt_inv m'" using assms(1) by (simp add: mt_inv_def tr) (simp add: m')
    define d' where "d' = d\<lparr>drv_slot := int slot,
      drv_pressure := (drv_pressure d)(slot := ptr_pressure ?p'),
      drv_x := (drv_x d)(slot := x), drv_y := (drv_y d)(slot := y)\<rparr>"
    have v: "drv_x d slot = ptr_x ?p" "drv_y d slot = ptr_y ?p" "drv_pressure d slot = ptr_pressure ?p"
      using assms(2,3) s(1) by (auto simp: mt_view_def)
    have "fold drv_event evs d = d'"
      unfolding evs fold_append comp_apply select_view [OF assms(2)] d'_def
      by (cases d) (auto simp: drv_event_def dev_defs EV_ABS_def EV_SYN_def v [symmetric])
    moreover have "mt_view m' d'"
      using assms(2) unfolding mt_view_def tr by (auto simp: d'_def nth) (auto simp: m')
    ultimately show ?thesis using inv by simp
  qed
qed

lemma mt_update_step:
  assumes "mt_inv m" "mt_view m d" "mouse \<or> tid \<noteq> MTS_POINTER_UP"
  shows "\<exists>m' evs. multitouch_update_pointer mouse tid x y pressure m = Inr (m', evs) \<and>
    mt_inv m' \<and> mt_view m' (fold drv_event evs d)"
proof -
  define tid' where "tid' = (if mouse then MTS_POINTER_MOUSE else tid)"
  have up: "tid' \<noteq> MTS_POINTER_UP"
    using assms(3) by (auto simp: tid'_def MTS_POINTER_MOUSE_def MTS_POINTER_UP_def)
  show ?thesis
  proof (cases "mtsstate_get_pointer_index m tid'")
    case None
    obtain m' evs where "mts_pointer_down m tid' x y pressure = (m', evs)" by fastforce
    with mt_down [OF assms(1,2) up index_None [OF None]] None assms show ?thesis
      by (auto simp: multitouch_update_pointer_def tid'_def [symmetric])
  next
    case (Some slot)
    then have "slot \<in> mt_tracked m" using index_Some [OF Some] up by (simp add: mt_tracked_def)
    moreover obtain m' evs where "mts_pointer_move m slot x y pressure = (m', evs)" by fastforce
    ultimately show ?thesis
      using mt_up [OF assms(1,2), of slot] mt_move [OF assms(1,2), of slot x y pressure m' evs] Some
      by (auto simp: multitouch_update_pointer_def tid'_def [symmetric])
  qed
qed

fun mt_run ::
    "(bool \<times> int \<times> int \<times> int \<times> int) list \<Rightarrow> MTSState \<Rightarrow> (MTSState \<times> mt_event list) outcome" where
  "mt_run [] m = Inr (m, [])"
| "mt_run ((mouse, tid, x, y, p) # us) m =
     (case multitouch_update_pointer mouse tid x y p m of
        Inl e \<Rightarrow> Inl e
      | Inr (m1, evs1) \<Rightarrow>
          (case mt_run us m1 of Inl e \<Rightarrow> Inl e | Inr (m2, evs2) \<Rightarrow> Inr (m2, evs1 @ evs2)))"

definition mt_driver_init :: mt_driver where
  "mt_driver_init = \<lparr>drv_slot = 0, drv_active = (\<lambda>_. False), drv_x = (\<lambda>_. 0), drv_y = (\<lambda>_. 0),
     drv_pressure = (\<lambda>_. 0)\<rparr>"

lemma mt_init: "mt_inv multitouch_init" "mt_view multitouch_init mt_driver_init"
proof -
  have "mt_tracked multitouch_init = {}"
    by (auto simp: mt_tracked_def multitouch_init_def mts_pointer_none_def)
  then show "mt_inv multitouch_init" "mt_view multitouch_init mt_driver_init"
    by (auto simp: mt_inv_def mt_view_def mt_driver_init_def multitouch_init_def)
qed

lemma mt_run_view:
  "mt_inv m \<Longrightarrow> mt_view m d \<Longrightarrow> list_all (\<lambda>(mouse, tid, _). mouse \<or> tid \<noteq> MTS_POINTER_UP) us \<Longrightarrow>
   \<exists>m' evs. mt_run us m = Inr (m', evs) \<and> mt_inv m' \<and> mt_view m' (fold drv_event evs d)"
proof (induction us arbitrary: m d)
  case (Cons u us)
  obtain mouse tid x y p where u: "u = (mouse, tid, x, y, p)" by (cases u) auto
  with Cons.prems mt_update_step [of m d mouse tid x y p] obtain m1 evs1 where
    "multitouch_update_pointer mouse tid x y p m = Inr (m1, evs1)" "mt_inv m1"
    "mt_view m1 (fold drv_event evs1 d)" by auto
  with Cons.IH [of m1 "fold drv_event evs1 d"] Cons.prems(3) u show ?case by fastforce
qed auto

text \<open>
  C7: The multi-touch screen keeps the guest's view of the contacts exact. For any sequence of
  pointer updates (mouse, or a tracking id other than -1) from the initial state, no update
  aborts, and a driver that interprets the pushed events by the slot protocol has, for each of the
  ten slots, an active contact exactly when the screen tracks a pointer there, at the same
  position and pressure.
\<close>

theorem multitouch_view_exact:
  assumes "list_all (\<lambda>(mouse, tid, _). mouse \<or> tid \<noteq> MTS_POINTER_UP) us"
  shows "\<exists>m evs. mt_run us multitouch_init = Inr (m, evs) \<and>
    (\<forall>i<10. let p = tracked_pointers m ! i; d = fold drv_event evs mt_driver_init in
       drv_active d i = (tracking_id p \<noteq> -1) \<and>
       (tracking_id p \<noteq> -1 \<longrightarrow>
          drv_x d i = ptr_x p \<and> drv_y d i = ptr_y p \<and> drv_pressure d i = ptr_pressure p))"
  using mt_run_view [OF mt_init assms]
  by (fastforce simp: mt_view_def mt_tracked_def MTS_POINTERS_NUM_def MTS_POINTER_UP_def Let_def)

theorem multitouch_view_exact_witness:
  "\<exists>m evs. mt_run [(True, 0, 10, 20, 1), (False, 4, 7, 8, 2), (True, 0, 0, 0, 0)] multitouch_init = Inr (m, evs) \<and>
     drv_active (fold drv_event evs mt_driver_init) 0 = (tracking_id (tracked_pointers m ! 0) \<noteq> -1)"
proof -
  have "list_all (\<lambda>(mouse, tid, _). mouse \<or> tid \<noteq> MTS_POINTER_UP)
      [(True, 0, 10, 20, 1), (False, 4, 7, 8, 2), (True, 0, 0, 0, 0)]"
    by (simp add: MTS_POINTER_UP_def)
  from multitouch_view_exact [OF this] show ?thesis by (fastforce simp: Let_def)
qed

text \<open>
  The tracking id -1 is not rejected although it marks free slots: the first update with this
  id and no pressure, on a screen without contacts, is taken for the release of a free slot and
  fails the assertion on the number of pointers.
\<close>

lemma multitouch_id_aborts:
  "multitouch_update_pointer False (-1) x y 0 multitouch_init = Inl Cpu_abort"
  by (simp add: multitouch_update_pointer_def mtsstate_get_pointer_index_def multitouch_init_def
      mts_pointer_up_def mts_pointer_none_def MTS_POINTERS_NUM_def MTS_POINTER_UP_def upt_rec)

section \<open>The update rectangle\<close>

definition in_rect :: "int \<Rightarrow> int \<Rightarrow> MTFrame \<Rightarrow> bool" where
  "in_rect px py f \<longleftrightarrow> fb_x f \<le> px \<and> px < fb_x f + fb_w f \<and> fb_y f \<le> py \<and> py < fb_y f + fb_h f"

text \<open>
  While a frame is being transmitted, the accumulated update rectangle covers every pixel of
  the updates that arrived: adding an update keeps all pixels covered before and covers all of
  its own, and nothing is sent meanwhile; when the transmission ends, the whole rectangle is sent.
\<close>

lemma mt_fb_update_covers:
  assumes "fb_transfer_in_progress f" "0 \<le> fb_w f" "0 \<le> fb_h f" "0 < w" "0 < h"
    and "mt_fb_common_update ready f x y w h = (f', sent)"
  shows "sent = [] \<and> fb_transfer_in_progress f' \<and> 0 < fb_w f' \<and> 0 < fb_h f' \<and>
    (\<forall>px py. in_rect px py f \<or> x \<le> px \<and> px < x + w \<and> y \<le> py \<and> py < y + h \<longrightarrow> in_rect px py f') \<and>
    snd (multitouch_fb_updated True f') = [(fb_x f', fb_y f', fb_w f', fb_h f')]"
  using assms
  by (auto simp: mt_fb_common_update_def in_rect_def multitouch_fb_updated_def mts_send_def mts_port_send_frame_def Let_def
      split: if_splits)

definition mt_frame_example :: MTFrame where
  "mt_frame_example = \<lparr>fb_x = 10, fb_y = 10, fb_w = 5, fb_h = 5, fb_transfer_in_progress = True\<rparr>"

end
