(* ===== verification/CBuffer.thy ===== *)
theory CBuffer
  imports Fifo
begin

text \<open>
  The circular byte buffer of \<open>android/cbuffer.c\<close> and \<open>include/android/cbuffer.h\<close>.

  The read and write loops copy the contents in at most two segments. An iteration that copies
  nothing would repeat for ever; the model returns \<open>None\<close> there, and the lemmas show that this
  never happens to a well-formed buffer. The interpretation \<open>cbuffer_fifo\<close> shows that the buffer
  is a bounded byte queue.
\<close>

record CBuffer =
  cb_buff :: bytes
  cb_size :: nat
  cb_rpos :: nat
  cb_count :: nat

definition cbuffer_reset :: "bytes \<Rightarrow> nat \<Rightarrow> CBuffer" where
  "cbuffer_reset buff sz = \<lparr>cb_buff = buff, cb_size = sz, cb_rpos = 0, cb_count = 0\<rparr>"

definition cbuffer_write_avail :: "CBuffer \<Rightarrow> nat" where
  "cbuffer_write_avail cb = cb_size cb - cb_count cb"

definition cbuffer_read_avail :: "CBuffer \<Rightarrow> nat" where
  "cbuffer_read_avail cb = cb_count cb"

text \<open>The write position; the offset and the length of the free segment there.\<close>

definition cbuffer_wpos :: "CBuffer \<Rightarrow> nat" where
  "cbuffer_wpos cb =
     (let wpos = cb_rpos cb + cb_count cb
      in if cb_size cb \<le> wpos then wpos - cb_size cb else wpos)"

definition cbuffer_write_peek :: "CBuffer \<Rightarrow> nat \<times> nat" where
  "cbuffer_write_peek cb =
     (let wpos = cbuffer_wpos cb; avail = cb_size cb - cb_count cb
      in (wpos, if cb_size cb < wpos + avail then cb_size cb - wpos else avail))"

definition cbuffer_write_step :: "nat \<Rightarrow> CBuffer \<Rightarrow> CBuffer" where
  "cbuffer_write_step len cb = cb\<lparr>cb_count := min (cb_count cb + len) (cb_size cb)\<rparr>"

definition cbuffer_read_peek :: "CBuffer \<Rightarrow> bytes" where
  "cbuffer_read_peek cb =
     (let avail = cb_count cb;
          avail1 = (if cb_size cb < cb_rpos cb + avail then cb_size cb - cb_rpos cb else avail)
      in seg_read (cb_buff cb) (cb_rpos cb) avail1)"

definition cbuffer_advance :: "nat \<Rightarrow> CBuffer \<Rightarrow> CBuffer" where
  "cbuffer_advance len cb =
     (let rpos = cb_rpos cb + len
      in cb\<lparr>cb_rpos := if cb_size cb \<le> rpos then rpos - cb_size cb else rpos,
            cb_count := cb_count cb - len\<rparr>)"

definition cbuffer_read_step :: "nat \<Rightarrow> CBuffer \<Rightarrow> CBuffer" where
  "cbuffer_read_step len cb = cbuffer_advance (min len (cb_count cb)) cb"

function cbuffer_write :: "CBuffer \<Rightarrow> bytes \<Rightarrow> (nat \<times> CBuffer) option" where
  "cbuffer_write cb from =
     (if from = [] then Some (0, cb)
      else if cb_size cb - cb_count cb = 0 then Some (0, cb)
      else let (wpos, seg) = cbuffer_write_peek cb; avail = min seg (length from) in
        if avail = 0 then None
        else case cbuffer_write
               (cb\<lparr>cb_buff := seg_write (cb_buff cb) wpos (take avail from), cb_count := cb_count cb + avail\<rparr>)
               (drop avail from) of
            None \<Rightarrow> None
          | Some (n, cb') \<Rightarrow> Some (avail + n, cb'))"
  by pat_completeness auto
termination
  by (relation "measure (\<lambda>(cb, from). length from)") auto

function cbuffer_read :: "CBuffer \<Rightarrow> nat \<Rightarrow> (bytes \<times> CBuffer) option" where
  "cbuffer_read cb len =
     (if len = 0 then Some ([], cb)
      else if cb_count cb = 0 then Some ([], cb)
      else let chunk = take len (cbuffer_read_peek cb) in
        if chunk = [] then None
        else case cbuffer_read (cbuffer_advance (length chunk) cb) (len - length chunk) of
            None \<Rightarrow> None
          | Some (rest, cb') \<Rightarrow> Some (chunk @ rest, cb'))"
  by pat_completeness auto
termination
  by (relation "measure (\<lambda>(cb, len). len)") (auto simp: Let_def)

declare cbuffer_write.simps [simp del] cbuffer_read.simps [simp del]

section \<open>Well-formed buffers\<close>

definition cbuffer_inv :: "CBuffer \<Rightarrow> bool" where
  "cbuffer_inv cb \<longleftrightarrow>
     length (cb_buff cb) = cb_size cb \<and> cb_rpos cb < cb_size cb \<and> cb_count cb \<le> cb_size cb"

definition cbuffer_contents :: "CBuffer \<Rightarrow> bytes" where
  "cbuffer_contents cb = ring_list (cb_buff cb) (cb_rpos cb) (cb_count cb)"

lemma length_cbuffer_contents [simp]: "length (cbuffer_contents cb) = cb_count cb"
  by (simp add: cbuffer_contents_def)

lemma cbuffer_reset_inv [simp]:
  "0 < n \<Longrightarrow> length b = n \<Longrightarrow> cbuffer_inv (cbuffer_reset b n)"
  "cbuffer_contents (cbuffer_reset b n) = []"
  "cb_size (cbuffer_reset b n) = n"
  "cb_count (cbuffer_reset b n) = 0"
  by (simp_all add: cbuffer_reset_def cbuffer_inv_def cbuffer_contents_def)

lemma cbuffer_wpos_mod:
  assumes "cbuffer_inv cb"
  shows "cbuffer_wpos cb = (cb_rpos cb + cb_count cb) mod cb_size cb"
proof -
  have "cb_rpos cb + cb_count cb - cb_size cb < cb_size cb" "cb_rpos cb < cb_size cb"
    using assms by (auto simp: cbuffer_inv_def)
  then show ?thesis by (auto simp: cbuffer_wpos_def Let_def le_mod_geq)
qed

text \<open>A segment within the free space at the write position is appended to the contents.\<close>

lemma cbuffer_write_seg:
  assumes inv: "cbuffer_inv cb" and p: "cbuffer_write_peek cb = (wpos, seg)"
    and l: "length xs \<le> seg"
  defines "cb' \<equiv> cb\<lparr>cb_buff := seg_write (cb_buff cb) wpos xs, cb_count := cb_count cb + length xs\<rparr>"
  shows "cbuffer_inv cb' \<and> cbuffer_contents cb' = cbuffer_contents cb @ xs \<and> cb_size cb' = cb_size cb"
proof -
  from p have w: "wpos = cbuffer_wpos cb" and s: "seg \<le> cb_size cb - cb_count cb"
    and e: "wpos + seg \<le> cb_size cb \<or> seg = 0"
    by (auto simp: cbuffer_write_peek_def Let_def split: if_splits)
  have "wpos < cb_size cb" using inv w by (simp add: cbuffer_wpos_mod) (simp add: cbuffer_inv_def)
  with e l have le: "wpos + length xs \<le> length (cb_buff cb)" using inv by (auto simp: cbuffer_inv_def)
  have "cb_count cb + length xs \<le> length (cb_buff cb)" using inv s l by (auto simp: cbuffer_inv_def)
  moreover have "wpos = (cb_rpos cb + cb_count cb) mod length (cb_buff cb)"
    using inv w by (simp add: cbuffer_wpos_mod) (simp add: cbuffer_inv_def)
  ultimately show ?thesis
    using inv le ring_list_write [of "cb_count cb" xs "cb_buff cb" wpos "cb_rpos cb"]
    by (simp add: cb'_def cbuffer_inv_def cbuffer_contents_def)
qed

lemma cbuffer_write_peek_pos:
  assumes "cbuffer_inv cb" "cb_count cb < cb_size cb" "cbuffer_write_peek cb = (wpos, seg)"
  shows "0 < seg"
proof -
  have "cbuffer_wpos cb < cb_size cb"
    using assms by (simp add: cbuffer_wpos_mod)
  with assms(2,3) show ?thesis
    by (auto simp: cbuffer_write_peek_def Let_def split: if_splits)
qed

text \<open>Writing always returns; it stores as much as there is room for.\<close>

lemma cbuffer_write_ok:
  "cbuffer_inv cb \<Longrightarrow>
   \<exists>cb'. cbuffer_write cb xs = Some (min (length xs) (cb_size cb - cb_count cb), cb') \<and>
     cbuffer_inv cb' \<and> cb_size cb' = cb_size cb \<and>
     cbuffer_contents cb' = cbuffer_contents cb @ take (cb_size cb - cb_count cb) xs"
proof (induction cb xs rule: cbuffer_write.induct)
  case (1 cb xs)
  show ?case
  proof (cases "xs = [] \<or> cb_size cb - cb_count cb = 0")
    case True
    then show ?thesis using 1(2) by (auto simp: cbuffer_write.simps [of cb xs])
  next
    case False
    obtain wpos seg where p: "cbuffer_write_peek cb = (wpos, seg)" by fastforce
    define a where "a = min seg (length xs)"
    define cb1 where "cb1 = cb\<lparr>cb_buff := seg_write (cb_buff cb) wpos (take a xs), cb_count := cb_count cb + a\<rparr>"
    have seg: "0 < seg" using False 1(2) p by (intro cbuffer_write_peek_pos [of cb wpos]) auto
    with False have a0: "a \<noteq> 0" by (simp add: a_def)
    have la: "length (take a xs) = a" by (simp add: a_def)
    have sa: "seg \<le> cb_size cb - cb_count cb"
      using p by (auto simp: cbuffer_write_peek_def Let_def split: if_splits)
    have w: "cbuffer_inv cb1" "cbuffer_contents cb1 = cbuffer_contents cb @ take a xs" "cb_size cb1 = cb_size cb"
      using cbuffer_write_seg [OF 1(2) p, of "take a xs"] la unfolding cb1_def by (auto simp: a_def)
    from False a0 p 1(1) [OF _ _ p [symmetric] refl a_def] w
    obtain cb' where r: "cbuffer_write cb1 (drop a xs) = Some (min (length xs - a) (cb_size cb - cb_count cb1), cb')"
      "cbuffer_inv cb'" "cb_size cb' = cb_size cb"
      "cbuffer_contents cb' = cbuffer_contents cb1 @ take (cb_size cb - cb_count cb1) (drop a xs)"
      unfolding a_def [symmetric] cb1_def [symmetric] by auto
    have c1: "cb_count cb1 = cb_count cb + a" by (simp add: cb1_def)
    have "cbuffer_write cb xs = Some (a + min (length xs - a) (cb_size cb - cb_count cb1), cb')"
      using False a0 r(1) by (subst cbuffer_write.simps) (simp add: p a_def [symmetric] cb1_def [symmetric])
    moreover have ale: "a \<le> length xs" "a \<le> cb_size cb - cb_count cb" using sa by (auto simp: a_def)
    then have "a + min (length xs - a) (cb_size cb - cb_count cb1) = min (length xs) (cb_size cb - cb_count cb)"
      unfolding c1 by arith
    moreover have "cb_size cb - cb_count cb = a + (cb_size cb - cb_count cb1)" using ale c1 by arith
    then have "take (cb_size cb - cb_count cb) xs = take a xs @ take (cb_size cb - cb_count cb1) (drop a xs)"
      by (simp add: take_add)
    ultimately show ?thesis using r(2-4) w by auto
  qed
qed

text \<open>Reading: the segment at the read position is a prefix of the contents.\<close>

lemma cbuffer_read_peek_prefix:
  assumes "cbuffer_inv cb"
  shows "cbuffer_read_peek cb = take (length (cbuffer_read_peek cb)) (cbuffer_contents cb)"
    and "length (cbuffer_read_peek cb) \<le> cb_count cb"
    and "cb_count cb \<noteq> 0 \<Longrightarrow> cbuffer_read_peek cb \<noteq> []"
proof -
  define a where "a = (if cb_size cb < cb_rpos cb + cb_count cb then cb_size cb - cb_rpos cb else cb_count cb)"
  have a: "cb_rpos cb + a \<le> length (cb_buff cb)" "a \<le> cb_count cb"
    using assms by (auto simp: a_def cbuffer_inv_def)
  have p: "cbuffer_read_peek cb = seg_read (cb_buff cb) (cb_rpos cb) a"
    by (simp add: cbuffer_read_peek_def a_def)
  then have l: "length (cbuffer_read_peek cb) = a" using a(1) by simp
  show "cbuffer_read_peek cb = take (length (cbuffer_read_peek cb)) (cbuffer_contents cb)"
    unfolding l cbuffer_contents_def ring_list_take_seg [OF a] by (rule p)
  show "length (cbuffer_read_peek cb) \<le> cb_count cb" using l a(2) by simp
  show "cb_count cb \<noteq> 0 \<Longrightarrow> cbuffer_read_peek cb \<noteq> []"
    using l assms by (auto simp: a_def cbuffer_inv_def split: if_splits)
qed

lemma cbuffer_advance_ok:
  assumes inv: "cbuffer_inv cb" and n: "n \<le> cb_count cb"
  shows "cbuffer_inv (cbuffer_advance n cb)"
    and "cbuffer_contents (cbuffer_advance n cb) = drop n (cbuffer_contents cb)"
    and "cb_size (cbuffer_advance n cb) = cb_size cb"
    and "cb_count (cbuffer_advance n cb) = cb_count cb - n"
proof -
  have m: "(if cb_size cb \<le> cb_rpos cb + n then cb_rpos cb + n - cb_size cb else cb_rpos cb + n)
      = (cb_rpos cb + n) mod length (cb_buff cb)"
    using inv n by (auto simp: cbuffer_inv_def le_mod_geq)
  have "0 < length (cb_buff cb)" using inv by (auto simp: cbuffer_inv_def)
  then have lt: "(cb_rpos cb + n) mod length (cb_buff cb) < length (cb_buff cb)" by simp
  have a: "cbuffer_advance n cb = cb\<lparr>cb_rpos := (cb_rpos cb + n) mod length (cb_buff cb), cb_count := cb_count cb - n\<rparr>"
    unfolding cbuffer_advance_def Let_def m ..
  show "cbuffer_inv (cbuffer_advance n cb)" using inv lt by (auto simp: a cbuffer_inv_def)
  show "cbuffer_contents (cbuffer_advance n cb) = drop n (cbuffer_contents cb)"
    using n by (simp add: a cbuffer_contents_def ring_list_drop)
  show "cb_size (cbuffer_advance n cb) = cb_size cb" "cb_count (cbuffer_advance n cb) = cb_count cb - n"
    by (simp_all add: a)
qed

text \<open>Reading always returns; it removes as much as it is asked for, or everything.\<close>

lemma cbuffer_read_ok:
  "cbuffer_inv cb \<Longrightarrow>
   \<exists>cb'. cbuffer_read cb n = Some (take n (cbuffer_contents cb), cb') \<and>
     cbuffer_inv cb' \<and> cb_size cb' = cb_size cb \<and> cbuffer_contents cb' = drop n (cbuffer_contents cb)"
proof (induction cb n rule: cbuffer_read.induct)
  case (1 cb n)
  show ?case
  proof (cases "n = 0 \<or> cb_count cb = 0")
    case True
    then have "take n (cbuffer_contents cb) = []" "drop n (cbuffer_contents cb) = cbuffer_contents cb"
      using length_cbuffer_contents [of cb] by (auto simp del: length_cbuffer_contents)
    with True 1(2) show ?thesis by (auto simp: cbuffer_read.simps [of cb n])
  next
    case False
    define chunk where "chunk = take n (cbuffer_read_peek cb)"
    define k where "k = length chunk"
    note pre = cbuffer_read_peek_prefix [OF 1(2)]
    from False pre(3) have ne: "chunk \<noteq> []" by (simp add: chunk_def)
    have k: "k \<le> cb_count cb" "k \<le> n" using pre(2) by (auto simp: k_def chunk_def)
    have c: "chunk = take k (cbuffer_contents cb)"
      unfolding k_def chunk_def length_take by (subst pre(1)) (simp add: min.commute)
    from False ne 1(1) [OF _ _ chunk_def] cbuffer_advance_ok(1) [OF 1(2) k(1)]
    obtain cb' where r: "cbuffer_read (cbuffer_advance k cb) (n - k)
        = Some (take (n - k) (cbuffer_contents (cbuffer_advance k cb)), cb')"
      "cbuffer_inv cb'" "cb_size cb' = cb_size (cbuffer_advance k cb)"
      "cbuffer_contents cb' = drop (n - k) (cbuffer_contents (cbuffer_advance k cb))"
      unfolding k_def by auto
    note adv = cbuffer_advance_ok(2,3) [OF 1(2) k(1)]
    have "cbuffer_read cb n = Some (chunk @ take (n - k) (drop k (cbuffer_contents cb)), cb')"
      using False ne r(1) by (subst cbuffer_read.simps) (simp add: chunk_def [symmetric] k_def [symmetric] adv)
    moreover have "take n (cbuffer_contents cb) = chunk @ take (n - k) (drop k (cbuffer_contents cb))"
      using take_add [of k "n - k" "cbuffer_contents cb"] k(2) c by simp
    ultimately show ?thesis using r(2-4) k(2) by (simp add: adv)
  qed
qed

section \<open>The buffer is a bounded queue\<close>

definition cbuffer_put :: "CBuffer \<Rightarrow> bytes \<Rightarrow> nat \<times> CBuffer" where
  "cbuffer_put cb xs = (case cbuffer_write cb xs of None \<Rightarrow> (0, cb) | Some r \<Rightarrow> r)"

definition cbuffer_get :: "CBuffer \<Rightarrow> nat \<Rightarrow> bytes \<times> CBuffer" where
  "cbuffer_get cb n = (case cbuffer_read cb n of None \<Rightarrow> ([], cb) | Some r \<Rightarrow> r)"

interpretation cbuffer_fifo: bounded_fifo cbuffer_put cbuffer_get cbuffer_contents cb_size cbuffer_inv
proof
  fix s s' :: CBuffer and xs n
  assume "cbuffer_inv s" "cbuffer_put s xs = (n, s')"
  with cbuffer_write_ok [of s xs] show
    "cbuffer_inv s' \<and> n \<le> length xs \<and> cbuffer_contents s' = cbuffer_contents s @ take n xs \<and> cb_size s' = cb_size s"
    by (auto simp: cbuffer_put_def min_def)
next
  fix s s' :: CBuffer and ys n
  assume "cbuffer_inv s" "cbuffer_get s n = (ys, s')"
  with cbuffer_read_ok [of s n] show
    "cbuffer_inv s' \<and> length ys \<le> n \<and> cbuffer_contents s = ys @ cbuffer_contents s' \<and> cb_size s' = cb_size s"
    by (auto simp: cbuffer_get_def)
next
  fix s :: CBuffer
  assume "cbuffer_inv s"
  then show "length (cbuffer_contents s) \<le> cb_size s" by (simp add: cbuffer_inv_def)
qed

text \<open>
  C27: A circular buffer is a first-in first-out byte queue, and its loops always end. On a
  well-formed buffer, writing returns after storing as much as there is room for, reading returns
  after removing as much as is asked for and available, and over any sequence of writes and reads
  from a reset buffer the bytes stored are the bytes read followed by the bytes still held.
\<close>

theorem cbuffer_queue_correct:
  assumes "cbuffer_inv cb"
  shows "(\<exists>cb'. cbuffer_write cb xs = Some (min (length xs) (cbuffer_write_avail cb), cb') \<and> cbuffer_inv cb') \<and>
    (\<exists>cb'. cbuffer_read cb n = Some (take n (cbuffer_contents cb), cb') \<and> cbuffer_inv cb') \<and>
    (fifo_run cbuffer_put cbuffer_get ops cb = (acc, del, cb2) \<longrightarrow>
       cbuffer_contents cb @ acc = del @ cbuffer_contents cb2 \<and> length (cbuffer_contents cb2) \<le> cb_size cb)"
proof (intro conjI impI)
  from cbuffer_write_ok [OF assms, of xs]
  show "\<exists>cb'. cbuffer_write cb xs = Some (min (length xs) (cbuffer_write_avail cb), cb') \<and> cbuffer_inv cb'"
    by (auto simp: cbuffer_write_avail_def)
  from cbuffer_read_ok [OF assms, of n]
  show "\<exists>cb'. cbuffer_read cb n = Some (take n (cbuffer_contents cb), cb') \<and> cbuffer_inv cb'"
    by auto
  assume "fifo_run cbuffer_put cbuffer_get ops cb = (acc, del, cb2)"
  from cbuffer_fifo.run_order [OF assms this] cbuffer_fifo.bounded [of cb2]
  show "cbuffer_contents cb @ acc = del @ cbuffer_contents cb2" "length (cbuffer_contents cb2) \<le> cb_size cb"
    by auto
qed

theorem cbuffer_queue_correct_witness:
  "cbuffer_inv (cbuffer_reset (replicate 4 0) 4) \<and>
   (\<exists>cb'. cbuffer_write (cbuffer_reset (replicate 4 0) 4) [1, 2, 3, 4, 5] = Some (4, cb'))"
proof -
  have i: "cbuffer_inv (cbuffer_reset (replicate 4 0) 4)" by simp
  from cbuffer_queue_correct [OF i, of "[1, 2, 3, 4, 5]" 0 "[]" "[]" "[]" "cbuffer_reset (replicate 4 0) 4"] i
  show ?thesis by (auto simp: cbuffer_write_avail_def)
qed

end
