(* ===== verification/CharPipe.thy ===== *)
theory CharPipe
  imports CBuffer
begin

text \<open>
  The character pipes and character buffers of \<open>android/charpipe.c\<close>: byte streams between two
  character drivers, buffered in a chain of 512 byte circular buffers, which connect an emulated
  serial port to the modem and to the control channels.

  The handlers of a driver are function pointers and stay parameters: \<open>can_read\<close> says how much
  the driver accepts now, \<open>read\<close> gives it bytes; the state they work on is of type \<open>'w\<close>. Every
  operation returns the chunks it passed to a handler. The free list of buffers is part of the
  state; the bytes of a buffer that \<open>malloc\<close> returns are a parameter.
\<close>

definition BIP_BUFFER_SIZE :: nat where
  "BIP_BUFFER_SIZE = 512"

record 'w CharDriverState =
  chr_can_read :: "('w \<Rightarrow> nat) option"
  chr_read :: "(bytes \<Rightarrow> 'w \<Rightarrow> 'w) option"

definition qemu_chr_can_read :: "'w CharDriverState \<Rightarrow> 'w \<Rightarrow> nat" where
  "qemu_chr_can_read cs w = (case chr_can_read cs of None \<Rightarrow> 0 | Some f \<Rightarrow> f w)"

section \<open>Chains of buffers\<close>

definition bip_buffer_alloc :: "bytes \<Rightarrow> CBuffer list \<Rightarrow> CBuffer \<times> CBuffer list" where
  "bip_buffer_alloc fresh fr =
     (case fr of
        [] \<Rightarrow> (cbuffer_reset fresh BIP_BUFFER_SIZE, [])
      | bip # rest \<Rightarrow> (cbuffer_reset (cb_buff bip) BIP_BUFFER_SIZE, rest))"

definition bip_buffer_free :: "CBuffer \<Rightarrow> CBuffer list \<Rightarrow> CBuffer list" where
  "bip_buffer_free bip fr = bip # fr"

text \<open>A new buffer takes a part of every write; so the loop below ends.\<close>

lemma cbuffer_write_new:
  assumes "cbuffer_write (cbuffer_reset b BIP_BUFFER_SIZE) buf = Some (n, cb)" "buf \<noteq> []"
  shows "n \<noteq> 0"
  using assms
  by (subst (asm) cbuffer_write.simps)
    (auto simp: cbuffer_write_peek_def cbuffer_wpos_def cbuffer_reset_def BIP_BUFFER_SIZE_def Let_def
      split: option.splits prod.splits if_splits)

definition bip_is_new :: "CBuffer \<Rightarrow> bool" where
  "bip_is_new bip \<longleftrightarrow> bip = cbuffer_reset (cb_buff bip) BIP_BUFFER_SIZE"

lemma bip_buffer_alloc_new: "bip_buffer_alloc fresh fr = (bip, fr') \<Longrightarrow> bip_is_new bip"
  by (auto simp: bip_buffer_alloc_def bip_is_new_def cbuffer_reset_def split: list.splits)

text \<open>
  The loop that buffers the rest of a write: the chain before the last buffer, the last buffer,
  the free list. A full buffer is followed by a new one.
\<close>

function bip_write :: "bytes \<Rightarrow> CBuffer list \<Rightarrow> CBuffer \<Rightarrow> CBuffer list \<Rightarrow> bytes \<Rightarrow> (CBuffer list \<times> CBuffer list) option" where
  "bip_write fresh pre bip fr buf =
     (if buf = [] then Some (pre @ [bip], fr)
      else case cbuffer_write bip buf of
          None \<Rightarrow> None
        | Some (len2, bip1) \<Rightarrow>
            if length buf - len2 = 0 then Some (pre @ [bip1], fr)
            else let (bip2, fr2) = bip_buffer_alloc fresh fr
              in bip_write fresh (pre @ [bip1]) bip2 fr2 (drop len2 buf))"
  by pat_completeness auto
termination
proof (relation "measures [\<lambda>(fresh, pre, bip, fr, buf). length buf,
    \<lambda>(fresh, pre, bip, fr, buf). if bip_is_new bip then 0 else 1]", goal_cases)
  case (2 fresh pre bip fr buf x len2 bip1 y bip2 fr2)
  then have "bip_is_new bip2" by (metis bip_buffer_alloc_new)
  moreover have "\<not> bip_is_new bip" if "len2 = 0"
    using 2 that cbuffer_write_new [of "cb_buff bip" buf len2 bip1] by (auto simp: bip_is_new_def)
  ultimately show ?case using 2 by (cases "len2 = 0") auto
qed simp

declare bip_write.simps [simp del]

section \<open>Pipes\<close>

record 'w CharPipeHalf =
  ph_cs :: "'w CharDriverState"
  ph_bips :: "CBuffer list"
  ph_peer :: bool

text \<open>
  The chain is the list from \<open>bip_first\<close> to \<open>bip_last\<close>; \<open>ph_peer\<close> says whether \<open>peer\<close> is not
  \<open>NULL\<close>, in which case it is the other half of the same pipe, whose driver is the argument
  \<open>peer\<close> below.
\<close>

definition charpipehalf_close :: "'w CharPipeHalf \<Rightarrow> CBuffer list \<Rightarrow> 'w CharPipeHalf \<times> CBuffer list" where
  "charpipehalf_close ph fr =
     (ph\<lparr>ph_bips := [], ph_peer := False\<rparr>, fold bip_buffer_free (ph_bips ph) fr)"

text \<open>
  The direct transfer to the peer's \<open>read\<close> handler: the chunks passed, the bytes left, the state.
\<close>

function charpipe_direct ::
    "'w CharDriverState \<Rightarrow> (bytes \<Rightarrow> 'w \<Rightarrow> 'w) \<Rightarrow> bytes \<Rightarrow> 'w \<Rightarrow> bytes list \<times> bytes \<times> 'w" where
  "charpipe_direct peer rd buf w =
     (if buf = [] then ([], buf, w)
      else let sz = (if chr_can_read peer \<noteq> None then qemu_chr_can_read peer w else length buf) in
        if sz = 0 then ([], buf, w)
        else let (cs, rest, w') = charpipe_direct peer rd (drop sz buf) (rd (take sz buf) w)
             in (take sz buf # cs, rest, w'))"
  by pat_completeness auto
termination
  by (relation "measure (\<lambda>(peer, rd, buf, w). length buf)") auto

declare charpipe_direct.simps [simp del]

text \<open>The loop that buffers what is left, from an empty chain or after its last buffer.\<close>

definition bip_append :: "bytes \<Rightarrow> CBuffer list \<Rightarrow> CBuffer list \<Rightarrow> bytes \<Rightarrow> (CBuffer list \<times> CBuffer list) option" where
  "bip_append fresh bips fr buf =
     (if bips = [] then (let (bip, fr1) = bip_buffer_alloc fresh fr in bip_write fresh [] bip fr1 buf)
      else bip_write fresh (butlast bips) (last bips) fr buf)"

definition charpipehalf_write ::
    "bytes \<Rightarrow> 'w CharDriverState \<Rightarrow> bytes \<Rightarrow> 'w CharPipeHalf \<Rightarrow> CBuffer list \<Rightarrow> 'w \<Rightarrow>
     (nat \<times> bytes list \<times> 'w CharPipeHalf \<times> CBuffer list \<times> 'w) option" where
  "charpipehalf_write fresh peer buf ph fr w =
     (let (cs, rest, w1) =
        (case chr_read peer of
           None \<Rightarrow> ([], buf, w)
         | Some rd \<Rightarrow>
             if ph_bips ph = [] \<and> ph_peer ph then charpipe_direct peer rd buf w else ([], buf, w))
      in if rest = [] then Some (length buf, cs, ph, fr, w1)
         else case bip_append fresh (ph_bips ph) fr rest of
             None \<Rightarrow> None
           | Some (bips', fr') \<Rightarrow> Some (length buf, cs, ph\<lparr>ph_bips := bips'\<rparr>, fr', w1))"

text \<open>
  The loop of \<open>charpipehalf_poll\<close>. The limit of the peer is asked only when the half's own driver
  has a \<open>can_read\<close> handler (\<open>limited\<close>). A chunk of no bytes would repeat for ever (\<open>None\<close>).
\<close>

function charpipe_drain ::
    "bool \<Rightarrow> 'w CharDriverState \<Rightarrow> (bytes \<Rightarrow> 'w \<Rightarrow> 'w) \<Rightarrow> CBuffer list \<Rightarrow> CBuffer list \<Rightarrow> 'w \<Rightarrow>
     (bytes list \<times> CBuffer list \<times> CBuffer list \<times> 'w) option" where
  "charpipe_drain limited peer rd [] fr w = Some ([], [], fr, w)"
| "charpipe_drain limited peer rd (bip # bips) fr w =
     (let sz = cbuffer_read_avail bip in
      if sz = 0 then charpipe_drain limited peer rd bips (bip_buffer_free bip fr) w
      else let size2 = qemu_chr_can_read peer w in
        if limited \<and> size2 = 0 then Some ([], bip # bips, fr, w)
        else let sz1 = (if limited then min sz size2 else sz);
                 chunk = take sz1 (cbuffer_read_peek bip)
          in if chunk = [] then None
             else case charpipe_drain limited peer rd (cbuffer_read_step (length chunk) bip # bips) fr
                         (rd chunk w) of
                 None \<Rightarrow> None
               | Some (cs, bips', fr', w') \<Rightarrow> Some (chunk # cs, bips', fr', w'))"
  by pat_completeness auto
termination
proof (relation "measure (\<lambda>(l, peer, rd, bips, fr, w). sum_list (map (\<lambda>b. Suc (cb_count b)) bips))", goal_cases)
  case (3 limited peer rd bip bips fr w sz size2 sz1 chunk)
  then have "0 < cb_count bip" "0 < length chunk" by (auto simp: cbuffer_read_avail_def)
  then show ?case by (simp add: cbuffer_read_step_def cbuffer_advance_def Let_def)
qed simp_all

declare charpipe_drain.simps(2) [simp del]

definition charpipehalf_poll ::
    "'w CharDriverState \<Rightarrow> 'w CharPipeHalf \<Rightarrow> CBuffer list \<Rightarrow> 'w \<Rightarrow>
     (bytes list \<times> 'w CharPipeHalf \<times> CBuffer list \<times> 'w) option" where
  "charpipehalf_poll peer ph fr w =
     (case chr_read peer of
        None \<Rightarrow> Some ([], ph, fr, w)
      | Some rd \<Rightarrow>
          if \<not> ph_peer ph then Some ([], ph, fr, w)
          else case charpipe_drain (chr_can_read (ph_cs ph) \<noteq> None) peer rd (ph_bips ph) fr w of
              None \<Rightarrow> None
            | Some (cs, bips', fr', w') \<Rightarrow> Some (cs, ph\<lparr>ph_bips := bips'\<rparr>, fr', w'))"

definition charpipehalf_init :: "'w CharPipeHalf \<Rightarrow> 'w CharPipeHalf" where
  "charpipehalf_init ph = ph\<lparr>ph_bips := [], ph_peer := True\<rparr>"

record 'w CharPipeState =
  cp_a :: "'w CharPipeHalf"
  cp_b :: "'w CharPipeHalf"

definition MAX_CHAR_PIPES :: nat where
  "MAX_CHAR_PIPES = 8"

text \<open>The first pipe of the table with both halves closed, or \<open>None\<close> when there is none.\<close>

fun qemu_chr_open_charpipe :: "'w CharPipeState list \<Rightarrow> (nat \<times> 'w CharPipeState list) option" where
  "qemu_chr_open_charpipe [] = None"
| "qemu_chr_open_charpipe (cp # cps) =
     (if \<not> ph_peer (cp_a cp) \<and> \<not> ph_peer (cp_b cp)
      then Some (0, cp\<lparr>cp_a := charpipehalf_init (cp_a cp), cp_b := charpipehalf_init (cp_b cp)\<rparr> # cps)
      else case qemu_chr_open_charpipe cps of
          None \<Rightarrow> None
        | Some (i, cps') \<Rightarrow> Some (Suc i, cp # cps'))"

section \<open>Buffers in front of an endpoint\<close>

text \<open>
  The endpoint is another driver: its write handler returns the number of bytes it took, its close
  handler ends it.
\<close>

record 'w endpoint =
  ep_write :: "bytes \<Rightarrow> 'w \<Rightarrow> int \<times> 'w"
  ep_close :: "'w \<Rightarrow> 'w"

record 'w CharBuffer =
  cbuf_bips :: "CBuffer list"
  cbuf_endpoint :: "'w endpoint option"

definition charbuffer_close :: "'w CharBuffer \<Rightarrow> CBuffer list \<Rightarrow> 'w \<Rightarrow> 'w CharBuffer \<times> CBuffer list \<times> 'w" where
  "charbuffer_close cbuf fr w =
     (let fr' = fold bip_buffer_free (cbuf_bips cbuf) fr;
          cbuf1 = cbuf\<lparr>cbuf_bips := [], cbuf_endpoint := None\<rparr>
      in case cbuf_endpoint cbuf1 of
           Some ep \<Rightarrow> (cbuf1\<lparr>cbuf_endpoint := None\<rparr>, fr', ep_close ep w)
         | None \<Rightarrow> (cbuf1, fr', w))"

definition clamp_size :: "int \<Rightarrow> nat \<Rightarrow> nat" where
  "clamp_size sz len = (if sz < 0 then 0 else if int len < sz then len else nat sz)"

text \<open>The result: the return value and the bytes the endpoint took, with the new state.\<close>

definition charbuffer_write ::
    "bytes \<Rightarrow> bytes \<Rightarrow> 'w CharBuffer \<Rightarrow> CBuffer list \<Rightarrow> 'w \<Rightarrow>
     (nat \<times> bytes \<times> 'w CharBuffer \<times> CBuffer list \<times> 'w) option" where
  "charbuffer_write fresh buf cbuf fr w =
     (let (sz, w1) =
        (case cbuf_endpoint cbuf of
           None \<Rightarrow> (0, w)
         | Some ep \<Rightarrow>
             if cbuf_bips cbuf = []
             then (let (r, w') = ep_write ep buf w in (clamp_size r (length buf), w')) else (0, w));
          rest = drop sz buf
      in if rest = [] then Some (length buf, take sz buf, cbuf, fr, w1)
         else case bip_append fresh (cbuf_bips cbuf) fr rest of
             None \<Rightarrow> None
           | Some (bips', fr') \<Rightarrow> Some (length buf, take sz buf, cbuf\<lparr>cbuf_bips := bips'\<rparr>, fr', w1))"

function charbuffer_drain ::
    "'w endpoint \<Rightarrow> CBuffer list \<Rightarrow> CBuffer list \<Rightarrow> 'w \<Rightarrow> bytes \<times> CBuffer list \<times> CBuffer list \<times> 'w" where
  "charbuffer_drain ep [] fr w = ([], [], fr, w)"
| "charbuffer_drain ep (bip # bips) fr w =
     (let base = cbuffer_read_peek bip in
      if base = [] then charbuffer_drain ep bips (bip_buffer_free bip fr) w
      else let (r, w1) = ep_write ep base w;
               sz = clamp_size r (length base);
               bip1 = cbuffer_read_step sz bip
        in if sz < length base then (take sz base, bip1 # bips, fr, w1)
           else let (out, bips', fr', w') = charbuffer_drain ep (bip1 # bips) fr w1
                in (base @ out, bips', fr', w'))"
  by pat_completeness auto
termination
proof (relation "measure (\<lambda>(ep, bips, fr, w). sum_list (map (\<lambda>b. Suc (cb_count b)) bips))", goal_cases)
  case (3 ep bip bips fr w base x r w1 sz bip1)
  have "length base \<le> cb_count bip"
    using 3(1) by (auto simp: cbuffer_read_peek_def Let_def split: if_splits)
  moreover have "0 < length base" "length base \<le> sz" using 3 by auto
  ultimately have "0 < min sz (cb_count bip)" "0 < cb_count bip" by linarith+
  then have "cb_count bip1 < cb_count bip"
    unfolding 3(6) by (simp add: cbuffer_read_step_def cbuffer_advance_def Let_def)
  then show ?case by simp
qed auto

declare charbuffer_drain.simps(2) [simp del]

definition charbuffer_poll ::
    "'w CharBuffer \<Rightarrow> CBuffer list \<Rightarrow> 'w \<Rightarrow> bytes \<times> 'w CharBuffer \<times> CBuffer list \<times> 'w" where
  "charbuffer_poll cbuf fr w =
     (case cbuf_endpoint cbuf of
        None \<Rightarrow> ([], cbuf, fr, w)
      | Some ep \<Rightarrow>
          let (out, bips', fr', w') = charbuffer_drain ep (cbuf_bips cbuf) fr w
          in (out, cbuf\<lparr>cbuf_bips := bips'\<rparr>, fr', w'))"

definition charbuffer_init :: "'w endpoint \<Rightarrow> 'w CharBuffer" where
  "charbuffer_init ep = \<lparr>cbuf_bips = [], cbuf_endpoint = Some ep\<rparr>"

definition MAX_CHAR_BUFFERS :: nat where
  "MAX_CHAR_BUFFERS = 8"

fun qemu_chr_open_buffer :: "'w endpoint option \<Rightarrow> 'w CharBuffer list \<Rightarrow> (nat \<times> 'w CharBuffer list) option" where
  "qemu_chr_open_buffer None cs = None"
| "qemu_chr_open_buffer (Some ep) [] = None"
| "qemu_chr_open_buffer (Some ep) (c # cs) =
     (if cbuf_endpoint c = None then Some (0, charbuffer_init ep # cs)
      else case qemu_chr_open_buffer (Some ep) cs of None \<Rightarrow> None | Some (i, cs') \<Rightarrow> Some (Suc i, c # cs'))"

section \<open>The main loop's poll\<close>

text \<open>The pipes of the table in turn, both halves, then the buffers; what each delivered.\<close>

fun charpipe_poll_pipes ::
    "'w CharPipeState list \<Rightarrow> CBuffer list \<Rightarrow> 'w \<Rightarrow> ((bytes list \<times> bytes list) list \<times> 'w CharPipeState list \<times> CBuffer list \<times> 'w) option" where
  "charpipe_poll_pipes [] fr w = Some ([], [], fr, w)"
| "charpipe_poll_pipes (cp # cps) fr w =
     (case charpipehalf_poll (ph_cs (cp_b cp)) (cp_a cp) fr w of
        None \<Rightarrow> None
      | Some (ca, a, fr1, w1) \<Rightarrow>
          (case charpipehalf_poll (ph_cs a) (cp_b cp) fr1 w1 of
             None \<Rightarrow> None
           | Some (cb, b, fr2, w2) \<Rightarrow>
               (case charpipe_poll_pipes cps fr2 w2 of
                  None \<Rightarrow> None
                | Some (out, cps', fr3, w3) \<Rightarrow>
                    Some ((ca, cb) # out, cp\<lparr>cp_a := a, cp_b := b\<rparr> # cps', fr3, w3))))"

fun charpipe_poll_buffers ::
    "'w CharBuffer list \<Rightarrow> CBuffer list \<Rightarrow> 'w \<Rightarrow> bytes list \<times> 'w CharBuffer list \<times> CBuffer list \<times> 'w" where
  "charpipe_poll_buffers [] fr w = ([], [], fr, w)"
| "charpipe_poll_buffers (c # cs) fr w =
     (let (out1, c', fr1, w1) = charbuffer_poll c fr w;
          (out, cs', fr2, w2) = charpipe_poll_buffers cs fr1 w1
      in (out1 # out, c' # cs', fr2, w2))"

definition charpipe_poll ::
    "'w CharPipeState list \<Rightarrow> 'w CharBuffer list \<Rightarrow> CBuffer list \<Rightarrow> 'w \<Rightarrow>
     ((bytes list \<times> bytes list) list \<times> bytes list \<times> 'w CharPipeState list \<times> 'w CharBuffer list \<times> CBuffer list \<times> 'w) option" where
  "charpipe_poll cps cbs fr w =
     (case charpipe_poll_pipes cps fr w of
        None \<Rightarrow> None
      | Some (out1, cps', fr1, w1) \<Rightarrow>
          (let (out2, cbs', fr2, w2) = charpipe_poll_buffers cbs fr1 w1
           in Some (out1, out2, cps', cbs', fr2, w2)))"

section \<open>Chains keep the bytes in order\<close>

definition bips_inv :: "CBuffer list \<Rightarrow> bool" where
  "bips_inv bips \<longleftrightarrow> (\<forall>b\<in>set bips. cbuffer_inv b \<and> cb_size b = BIP_BUFFER_SIZE)"

definition free_inv :: "CBuffer list \<Rightarrow> bool" where
  "free_inv fr \<longleftrightarrow> (\<forall>b\<in>set fr. length (cb_buff b) = BIP_BUFFER_SIZE)"

definition pending :: "CBuffer list \<Rightarrow> bytes" where
  "pending bips = concat (map cbuffer_contents bips)"

lemma pending_simps [simp]:
  "pending [] = []" "pending (b # bips) = cbuffer_contents b @ pending bips"
  "pending (xs @ ys) = pending xs @ pending ys"
  by (simp_all add: pending_def)

lemma bips_inv_simps [simp]:
  "bips_inv []" "bips_inv (b # bips) \<longleftrightarrow> cbuffer_inv b \<and> cb_size b = BIP_BUFFER_SIZE \<and> bips_inv bips"
  "bips_inv (xs @ ys) \<longleftrightarrow> bips_inv xs \<and> bips_inv ys"
  by (auto simp: bips_inv_def)

lemma bip_buffer_alloc_ok:
  assumes "bip_buffer_alloc fresh fr = (bip, fr')" "free_inv fr" "length fresh = BIP_BUFFER_SIZE"
  shows "cbuffer_inv bip" "cb_size bip = BIP_BUFFER_SIZE" "cbuffer_contents bip = []" "free_inv fr'"
  using assms by (auto simp: bip_buffer_alloc_def free_inv_def BIP_BUFFER_SIZE_def split: list.splits)

lemma bip_buffer_free_ok:
  "free_inv fr \<Longrightarrow> cbuffer_inv b \<Longrightarrow> cb_size b = BIP_BUFFER_SIZE \<Longrightarrow> free_inv (bip_buffer_free b fr)"
  by (simp add: free_inv_def bip_buffer_free_def cbuffer_inv_def)

lemma bip_write_ok:
  assumes "length fresh = BIP_BUFFER_SIZE"
  shows "bips_inv (pre @ [bip]) \<Longrightarrow> free_inv fr \<Longrightarrow>
    \<exists>bips' fr'. bip_write fresh pre bip fr buf = Some (bips', fr') \<and> bips_inv bips' \<and> free_inv fr' \<and>
      bips' \<noteq> [] \<and> pending bips' = pending (pre @ [bip]) @ buf"
  using assms
proof (induction fresh pre bip fr buf rule: bip_write.induct)
  case (1 fresh pre bip fr buf)
  show ?case
  proof (cases "buf = []")
    case True
    then show ?thesis using 1(2,3) by (auto simp: bip_write.simps [of fresh pre bip fr "[]"])
  next
    case False
    define n where "n = min (length buf) (cb_size bip - cb_count bip)"
    from 1(2) cbuffer_write_ok [of bip buf] obtain bip1 where w: "cbuffer_write bip buf = Some (n, bip1)"
      "cbuffer_inv bip1" "cb_size bip1 = BIP_BUFFER_SIZE"
      "cbuffer_contents bip1 = cbuffer_contents bip @ take n buf"
      by (auto simp: n_def min_def split: if_splits)
    show ?thesis
    proof (cases "length buf - n = 0")
      case True
      then have "bip_write fresh pre bip fr buf = Some (pre @ [bip1], fr)"
        using False w(1) by (simp add: bip_write.simps [of fresh pre bip fr buf])
      with True w 1(2,3) show ?thesis by auto
    next
      case more: False
      obtain bip2 fr2 where al: "bip_buffer_alloc fresh fr = (bip2, fr2)" by fastforce
      note al' = bip_buffer_alloc_ok [OF al 1(3,4)]
      have r: "bip_write fresh pre bip fr buf = bip_write fresh (pre @ [bip1]) bip2 fr2 (drop n buf)"
        using False more w(1) al by (simp add: bip_write.simps [of fresh pre bip fr buf])
      from 1(1) [OF False w(1) refl more al [symmetric] refl] 1(2,4) w al'
      obtain bips' fr' where "bip_write fresh (pre @ [bip1]) bip2 fr2 (drop n buf) = Some (bips', fr')"
        "bips_inv bips'" "free_inv fr'" "bips' \<noteq> []"
        "pending bips' = pending ((pre @ [bip1]) @ [bip2]) @ drop n buf"
        by auto
      then show ?thesis unfolding r using w(4) al'(3) by simp
    qed
  qed
qed

lemma bip_append_ok:
  assumes "bips_inv bips" "free_inv fr" "length fresh = BIP_BUFFER_SIZE"
  obtains bips' fr' where "bip_append fresh bips fr buf = Some (bips', fr')" "bips_inv bips'" "free_inv fr'"
    "pending bips' = pending bips @ buf"
proof (cases "bips = []")
  case True
  obtain bip fr1 where al: "bip_buffer_alloc fresh fr = (bip, fr1)" by fastforce
  note al' = bip_buffer_alloc_ok [OF al assms(2,3)]
  have "bips_inv ([] @ [bip])" using al' by simp
  from bip_write_ok [OF assms(3) this al'(4), of buf] True al al'(3) that show thesis
    by (auto simp: bip_append_def)
next
  case False
  then have b: "butlast bips @ [last bips] = bips" by simp
  from bip_write_ok [OF assms(3), of "butlast bips" "last bips" fr buf] False assms(1,2) that
  show thesis unfolding b by (auto simp: bip_append_def)
qed

lemma charpipe_direct_ok:
  "charpipe_direct peer rd buf w = (cs, rest, w') \<Longrightarrow>
   concat cs @ rest = buf \<and> (rest \<noteq> [] \<longrightarrow> qemu_chr_can_read peer w' = 0)"
proof (induction peer rd buf w arbitrary: cs rest w' rule: charpipe_direct.induct)
  case (1 peer rd buf w)
  define sz where "sz = (if chr_can_read peer \<noteq> None then qemu_chr_can_read peer w else length buf)"
  show ?case
  proof (cases "buf = [] \<or> sz = 0")
    case True
    then show ?thesis using 1(2)
      by (auto simp: charpipe_direct.simps [of peer rd buf w] sz_def [symmetric])
        (auto simp: sz_def split: if_splits)
  next
    case False
    obtain cs1 rest1 w1 where d: "charpipe_direct peer rd (drop sz buf) (rd (take sz buf) w) = (cs1, rest1, w1)"
      by (metis prod_cases3)
    have "cs = take sz buf # cs1" "rest = rest1" "w' = w1"
      using 1(2) False d
      unfolding charpipe_direct.simps [of peer rd buf w] sz_def [symmetric] Let_def by simp_all
    with 1(1) [OF _ sz_def _ d] False show ?thesis by simp
  qed
qed

lemma cbuffer_take_step:
  assumes inv: "cbuffer_inv b" and c: "chunk = take n (cbuffer_read_peek b)"
  shows "cbuffer_inv (cbuffer_read_step (length chunk) b)"
    "cb_size (cbuffer_read_step (length chunk) b) = cb_size b"
    "cbuffer_contents b = chunk @ cbuffer_contents (cbuffer_read_step (length chunk) b)"
proof -
  note pre = cbuffer_read_peek_prefix [OF inv]
  have l: "length chunk \<le> cb_count b" using pre(2) c by simp
  then have st: "cbuffer_read_step (length chunk) b = cbuffer_advance (length chunk) b"
    by (simp add: cbuffer_read_step_def)
  have "chunk = take (length chunk) (cbuffer_contents b)"
    unfolding c length_take by (subst pre(1)) (simp add: min.commute)
  then have "cbuffer_contents b = chunk @ drop (length chunk) (cbuffer_contents b)"
    by (metis append_take_drop_id)
  then show "cbuffer_contents b = chunk @ cbuffer_contents (cbuffer_read_step (length chunk) b)"
    unfolding st cbuffer_advance_ok(2) [OF inv l] .
  show "cbuffer_inv (cbuffer_read_step (length chunk) b)"
    "cb_size (cbuffer_read_step (length chunk) b) = cb_size b"
    unfolding st using cbuffer_advance_ok [OF inv l] by simp_all
qed

lemma charpipe_drain_ok:
  "bips_inv bips \<Longrightarrow> free_inv fr \<Longrightarrow>
   \<exists>cs bips' fr' w'. charpipe_drain limited peer rd bips fr w = Some (cs, bips', fr', w') \<and>
     bips_inv bips' \<and> free_inv fr' \<and> concat cs @ pending bips' = pending bips \<and>
     (bips' \<noteq> [] \<longrightarrow> limited \<and> qemu_chr_can_read peer w' = 0)"
proof (induction limited peer rd bips fr w rule: charpipe_drain.induct)
  case (2 limited peer rd bip bips fr w)
  let ?lim = "qemu_chr_can_read peer w"
  have inv: "cbuffer_inv bip" "cb_size bip = BIP_BUFFER_SIZE" "bips_inv bips" using 2(3) by simp_all
  consider "cb_count bip = 0" | "cb_count bip \<noteq> 0" "limited \<and> ?lim = 0"
    | "cb_count bip \<noteq> 0" "\<not> (limited \<and> ?lim = 0)" by blast
  then show ?case
  proof cases
    case 1
    then have "cbuffer_contents bip = []"
      using length_cbuffer_contents [of bip] by (auto simp del: length_cbuffer_contents)
    with 1 2(1) 2(4) inv show ?thesis
      by (subst charpipe_drain.simps(2)) (simp add: cbuffer_read_avail_def bip_buffer_free_ok)
  next
    case 2
    with \<open>bips_inv (bip # bips)\<close> \<open>free_inv fr\<close> show ?thesis
      by (subst charpipe_drain.simps(2)) (simp add: cbuffer_read_avail_def)
  next
    case 3
    define n where "n = (if limited then min (cb_count bip) ?lim else cb_count bip)"
    define chunk where "chunk = take n (cbuffer_read_peek bip)"
    have "n \<noteq> 0" using 3 by (auto simp: n_def)
    with cbuffer_read_peek_prefix(3) [OF inv(1) 3(1)] have ne: "chunk \<noteq> []" by (simp add: chunk_def)
    note st = cbuffer_take_step [OF inv(1) chunk_def]
    have "bips_inv (cbuffer_read_step (length chunk) bip # bips)" using st inv by simp
    have ceq: "chunk = take (if limited then min (cbuffer_read_avail bip) ?lim else cbuffer_read_avail bip)
        (cbuffer_read_peek bip)"
      by (simp add: chunk_def n_def cbuffer_read_avail_def)
    have ne0: "cbuffer_read_avail bip \<noteq> 0" using 3 by (simp add: cbuffer_read_avail_def)
    from "2.IH"(2) [OF refl ne0 refl 3(2) refl ceq ne \<open>bips_inv (cbuffer_read_step (length chunk) bip # bips)\<close> "2.prems"(2)]
    obtain cs bips' fr' w' where ih:
      "charpipe_drain limited peer rd (cbuffer_read_step (length chunk) bip # bips) fr (rd chunk w) = Some (cs, bips', fr', w')"
      "bips_inv bips'" "free_inv fr'" "bips' \<noteq> [] \<longrightarrow> limited \<and> qemu_chr_can_read peer w' = 0"
      "concat cs @ pending bips' = pending (cbuffer_read_step (length chunk) bip # bips)"
      by blast
    have "charpipe_drain limited peer rd (bip # bips) fr w = Some (chunk # cs, bips', fr', w')"
      using 3 ne ih(1)
      by (subst charpipe_drain.simps(2))
        (simp only: Let_def cbuffer_read_avail_def n_def [symmetric] chunk_def [symmetric], simp)
    with ih st(3) show ?thesis by simp
  qed
qed simp

section \<open>Runs of a pipe\<close>

datatype pipe_op = Pipe_write bytes | Pipe_poll

text \<open>
  A sequence of writes to one half of a pipe and polls of this half by the main loop. The result
  is \<open>None\<close> if an operation does not return.
\<close>

fun charpipe_run ::
    "bytes \<Rightarrow> 'w CharDriverState \<Rightarrow> pipe_op list \<Rightarrow> 'w CharPipeHalf \<Rightarrow> CBuffer list \<Rightarrow> 'w \<Rightarrow>
     (bytes list \<times> 'w CharPipeHalf \<times> CBuffer list \<times> 'w) option" where
  "charpipe_run fresh peer [] ph fr w = Some ([], ph, fr, w)"
| "charpipe_run fresh peer (Pipe_write buf # ops) ph fr w =
     (case charpipehalf_write fresh peer buf ph fr w of
        None \<Rightarrow> None
      | Some (n, cs, ph1, fr1, w1) \<Rightarrow>
          (case charpipe_run fresh peer ops ph1 fr1 w1 of
             None \<Rightarrow> None
           | Some (cs', r) \<Rightarrow> Some (cs @ cs', r)))"
| "charpipe_run fresh peer (Pipe_poll # ops) ph fr w =
     (case charpipehalf_poll peer ph fr w of
        None \<Rightarrow> None
      | Some (cs, ph1, fr1, w1) \<Rightarrow>
          (case charpipe_run fresh peer ops ph1 fr1 w1 of
             None \<Rightarrow> None
           | Some (cs', r) \<Rightarrow> Some (cs @ cs', r)))"

fun pipe_written :: "pipe_op list \<Rightarrow> bytes" where
  "pipe_written [] = []"
| "pipe_written (Pipe_write buf # ops) = buf @ pipe_written ops"
| "pipe_written (Pipe_poll # ops) = pipe_written ops"

lemma charpipehalf_write_ok:
  assumes "bips_inv (ph_bips ph)" "free_inv fr" "length fresh = BIP_BUFFER_SIZE"
  obtains cs ph' fr' w' where "charpipehalf_write fresh peer buf ph fr w = Some (length buf, cs, ph', fr', w')"
    "bips_inv (ph_bips ph')" "free_inv fr'" "concat cs @ pending (ph_bips ph') = pending (ph_bips ph) @ buf"
    "ph_peer ph' = ph_peer ph" "ph_cs ph' = ph_cs ph"
proof -
  obtain cs rest w1 where d: "(case chr_read peer of None \<Rightarrow> ([], buf, w)
      | Some rd \<Rightarrow> if ph_bips ph = [] \<and> ph_peer ph then charpipe_direct peer rd buf w else ([], buf, w))
      = (cs, rest, w1)" by (metis prod_cases3)
  have cr: "concat cs @ rest = buf \<and> (cs = [] \<or> ph_bips ph = [])"
    using d charpipe_direct_ok [of peer _ buf w cs rest w1] by (auto split: option.splits if_splits)
  show thesis
  proof (cases "rest = []")
    case True
    with d have "charpipehalf_write fresh peer buf ph fr w = Some (length buf, cs, ph, fr, w1)"
      by (simp add: charpipehalf_write_def)
    with that assms(1,2) cr True show thesis by auto
  next
    case False
    obtain bips' fr' where a: "bip_append fresh (ph_bips ph) fr rest = Some (bips', fr')" "bips_inv bips'"
      "free_inv fr'" "pending bips' = pending (ph_bips ph) @ rest"
      using bip_append_ok [OF assms] .
    have "charpipehalf_write fresh peer buf ph fr w
        = Some (length buf, cs, ph\<lparr>ph_bips := bips'\<rparr>, fr', w1)"
      using d False a(1) by (simp add: charpipehalf_write_def)
    then show thesis by (rule that) (use a cr in auto)
  qed
qed

lemma charpipehalf_poll_ok:
  assumes "bips_inv (ph_bips ph)" "free_inv fr"
  obtains cs ph' fr' w' where "charpipehalf_poll peer ph fr w = Some (cs, ph', fr', w')"
    "bips_inv (ph_bips ph')" "free_inv fr'" "concat cs @ pending (ph_bips ph') = pending (ph_bips ph)"
    "ph_peer ph' = ph_peer ph" "ph_cs ph' = ph_cs ph"
    "ph_peer ph \<Longrightarrow> chr_read peer \<noteq> None \<Longrightarrow> ph_bips ph' \<noteq> [] \<Longrightarrow> qemu_chr_can_read peer w' = 0"
proof (cases "chr_read peer = None \<or> \<not> ph_peer ph")
  case True
  then have "charpipehalf_poll peer ph fr w = Some ([], ph, fr, w)"
    by (auto simp: charpipehalf_poll_def split: option.splits)
  then show thesis by (rule that) (use assms True in auto)
next
  case False
  then obtain rd where rd: "chr_read peer = Some rd" by auto
  obtain cs bips' fr' w' where d:
    "charpipe_drain (chr_can_read (ph_cs ph) \<noteq> None) peer rd (ph_bips ph) fr w = Some (cs, bips', fr', w')"
    "bips_inv bips'" "free_inv fr'" "concat cs @ pending bips' = pending (ph_bips ph)"
    "bips' \<noteq> [] \<longrightarrow> qemu_chr_can_read peer w' = 0"
    using charpipe_drain_ok [OF assms, of "chr_can_read (ph_cs ph) \<noteq> None" peer rd w] by blast
  have "charpipehalf_poll peer ph fr w = Some (cs, ph\<lparr>ph_bips := bips'\<rparr>, fr', w')"
    using False rd d(1) by (simp add: charpipehalf_poll_def)
  then show thesis by (rule that) (use d in auto)
qed

lemma charpipe_run_ok:
  assumes "length fresh = BIP_BUFFER_SIZE"
  shows "bips_inv (ph_bips ph) \<Longrightarrow> free_inv fr \<Longrightarrow>
    \<exists>cs ph' fr' w'. charpipe_run fresh peer ops ph fr w = Some (cs, ph', fr', w') \<and>
      bips_inv (ph_bips ph') \<and> free_inv fr' \<and>
      concat cs @ pending (ph_bips ph') = pending (ph_bips ph) @ pipe_written ops"
proof (induction ops arbitrary: ph fr w)
  case (Cons op ops)
  show ?case
  proof (cases op)
    case (Pipe_write buf)
    obtain cs ph1 fr1 w1 where s: "charpipehalf_write fresh peer buf ph fr w = Some (length buf, cs, ph1, fr1, w1)"
      "bips_inv (ph_bips ph1)" "free_inv fr1" "concat cs @ pending (ph_bips ph1) = pending (ph_bips ph) @ buf"
      using charpipehalf_write_ok [OF Cons.prems assms] by metis
    from Cons.IH [OF s(2,3), of w1] s(1) arg_cong [OF s(4), of "\<lambda>x. x @ pipe_written ops"] show ?thesis
      by (auto simp: Pipe_write)
  next
    case Pipe_poll
    obtain cs ph1 fr1 w1 where s: "charpipehalf_poll peer ph fr w = Some (cs, ph1, fr1, w1)"
      "bips_inv (ph_bips ph1)" "free_inv fr1" "concat cs @ pending (ph_bips ph1) = pending (ph_bips ph)"
      using charpipehalf_poll_ok [OF Cons.prems] by metis
    from Cons.IH [OF s(2,3), of w1] s(1) arg_cong [OF s(4), of "\<lambda>x. x @ pipe_written ops"] show ?thesis
      by (auto simp: Pipe_poll)
  qed
qed simp

section \<open>Character buffers\<close>

lemma clamp_size_le [simp]: "clamp_size sz n \<le> n"
  by (auto simp: clamp_size_def)

lemma charbuffer_drain_ok:
  "bips_inv bips \<Longrightarrow> free_inv fr \<Longrightarrow> charbuffer_drain ep bips fr w = (out, bips', fr', w') \<Longrightarrow>
   bips_inv bips' \<and> free_inv fr' \<and> out @ pending bips' = pending bips"
proof (induction ep bips fr w arbitrary: out rule: charbuffer_drain.induct)
  case (2 ep bip bips fr w)
  have inv: "cbuffer_inv bip" "cb_size bip = BIP_BUFFER_SIZE" "bips_inv bips" using 2(3) by simp_all
  show ?case
  proof (cases "cbuffer_read_peek bip = []")
    case True
    then have "cb_count bip = 0" using cbuffer_read_peek_prefix(3) [OF inv(1)] by blast
    then have "cbuffer_contents bip = []"
      using length_cbuffer_contents [of bip] by (auto simp del: length_cbuffer_contents)
    moreover have "charbuffer_drain ep bips (bip_buffer_free bip fr) w = (out, bips', fr', w')"
      using 2(5) True by (simp add: charbuffer_drain.simps(2))
    ultimately show ?thesis
      using 2(1) [OF refl True inv(3) bip_buffer_free_ok [OF 2(4) inv(1,2)]] by simp
  next
    case False
    define base where "base = cbuffer_read_peek bip"
    obtain r w1 where wr: "ep_write ep base w = (r, w1)" by fastforce
    define sz where "sz = clamp_size r (length base)"
    have sz: "sz \<le> length base" by (simp add: sz_def)
    have chunk: "take sz base = take sz (cbuffer_read_peek bip)" by (simp add: base_def)
    have lc: "length (take sz base) = sz" using sz by simp
    note st = cbuffer_take_step [OF inv(1) chunk, unfolded lc]
    let ?bip1 = "cbuffer_read_step sz bip"
    have i1: "bips_inv (?bip1 # bips)" using st inv by simp
    show ?thesis
    proof (cases "sz < length base")
      case True
      then have "out = take sz base" "bips' = ?bip1 # bips" "fr' = fr"
        using 2(5) False wr by (simp_all add: charbuffer_drain.simps(2) base_def [symmetric] sz_def [symmetric])
      with i1 2(4) st(3) show ?thesis by simp
    next
      case full: False
      obtain out1 bips1 fr1 w2 where d: "charbuffer_drain ep (?bip1 # bips) fr w1 = (out1, bips1, fr1, w2)"
        by (metis prod_cases4)
      have "out = base @ out1" "bips' = bips1" "fr' = fr1" "w' = w2"
        using 2(5) False wr full d
        unfolding charbuffer_drain.simps(2) [of ep bip bips fr w] base_def [symmetric] Let_def
        by (simp_all add: sz_def [symmetric])
      moreover have "take sz base = base" using full by simp
      ultimately show ?thesis
        using 2(2) [OF base_def _ wr [symmetric] refl sz_def refl full i1 2(4)] False d st(3)
        by (simp add: base_def [symmetric])
    qed
  qed
qed simp

text \<open>Closing a buffer forgets the endpoint before it tests it.\<close>

lemma charbuffer_close_keeps_endpoint_open: "snd (snd (charbuffer_close cbuf fr w)) = w"
  by (simp add: charbuffer_close_def)

text \<open>What a poll keeps of a pipe and of a buffer.\<close>

definition pipe_conserves :: "'w CharPipeState \<Rightarrow> (bytes list \<times> bytes list) \<times> 'w CharPipeState \<Rightarrow> bool" where
  "pipe_conserves cp r =
     (case r of ((ca, cb), cp') \<Rightarrow>
        concat ca @ pending (ph_bips (cp_a cp')) = pending (ph_bips (cp_a cp)) \<and>
        concat cb @ pending (ph_bips (cp_b cp')) = pending (ph_bips (cp_b cp)))"

definition buffer_conserves :: "'w CharBuffer \<Rightarrow> bytes \<times> 'w CharBuffer \<Rightarrow> bool" where
  "buffer_conserves c r = (case r of (out, c') \<Rightarrow> out @ pending (cbuf_bips c') = pending (cbuf_bips c))"

lemma charpipe_poll_pipes_ok:
  "\<forall>cp\<in>set cps. bips_inv (ph_bips (cp_a cp)) \<and> bips_inv (ph_bips (cp_b cp)) \<Longrightarrow> free_inv fr \<Longrightarrow>
   \<exists>out cps' fr' w'. charpipe_poll_pipes cps fr w = Some (out, cps', fr', w') \<and> free_inv fr' \<and>
     length out = length cps' \<and> list_all2 pipe_conserves cps (zip out cps')"
proof (induction cps arbitrary: fr w)
  case (Cons cp cps)
  have i: "bips_inv (ph_bips (cp_a cp))" "bips_inv (ph_bips (cp_b cp))" using Cons.prems by simp_all
  obtain ca a fr1 w1 where pa: "charpipehalf_poll (ph_cs (cp_b cp)) (cp_a cp) fr w = Some (ca, a, fr1, w1)"
    "free_inv fr1" "concat ca @ pending (ph_bips a) = pending (ph_bips (cp_a cp))"
    using charpipehalf_poll_ok [OF i(1) Cons.prems(2)] by metis
  obtain cb b fr2 w2 where pb: "charpipehalf_poll (ph_cs a) (cp_b cp) fr1 w1 = Some (cb, b, fr2, w2)"
    "free_inv fr2" "concat cb @ pending (ph_bips b) = pending (ph_bips (cp_b cp))"
    using charpipehalf_poll_ok [OF i(2) pa(2)] by metis
  from Cons.IH [OF _ pb(2), of w2] Cons.prems pa pb show ?case
    by (auto simp: pipe_conserves_def)
qed simp

lemma charbuffer_poll_ok:
  assumes "bips_inv (cbuf_bips c)" "free_inv fr" "charbuffer_poll c fr w = (out, c', fr', w')"
  shows "free_inv fr' \<and> buffer_conserves c (out, c')"
proof (cases "cbuf_endpoint c")
  case None
  with assms show ?thesis by (auto simp: charbuffer_poll_def buffer_conserves_def)
next
  case (Some ep)
  obtain out1 bips1 fr1 w1 where d: "charbuffer_drain ep (cbuf_bips c) fr w = (out1, bips1, fr1, w1)"
    by (metis prod_cases4)
  from charbuffer_drain_ok [OF assms(1,2) d] d Some assms(3) show ?thesis
    by (auto simp: charbuffer_poll_def buffer_conserves_def)
qed

lemma charpipe_poll_buffers_ok:
  "\<forall>c\<in>set cbs. bips_inv (cbuf_bips c) \<Longrightarrow> free_inv fr \<Longrightarrow>
   \<exists>out cbs' fr' w'. charpipe_poll_buffers cbs fr w = (out, cbs', fr', w') \<and>
     length out = length cbs' \<and> list_all2 buffer_conserves cbs (zip out cbs')"
proof (induction cbs arbitrary: fr w)
  case (Cons c cbs)
  obtain o1 c' fr1 w1 where p: "charbuffer_poll c fr w = (o1, c', fr1, w1)" by (metis prod_cases4)
  have i: "bips_inv (cbuf_bips c)" using Cons.prems by simp
  note q = charbuffer_poll_ok [OF i Cons.prems(2) p]
  from Cons.IH [of fr1 w1] Cons.prems q p show ?case by auto
qed simp

section \<open>Properties\<close>

text \<open>
  C10: A character pipe is a lossless ordered byte stream. Any sequence of writes to one half and of
  polls of it returns, whatever the peer accepts at each moment, and the chunks passed to the peer,
  followed by the bytes still buffered, are the bytes buffered at the start followed by all the
  bytes written.
\<close>

theorem charpipe_stream_order:
  assumes "bips_inv (ph_bips ph)" "free_inv fr" "length fresh = BIP_BUFFER_SIZE"
  shows "\<exists>cs ph' fr' w'. charpipe_run fresh peer ops ph fr w = Some (cs, ph', fr', w') \<and>
    concat cs @ pending (ph_bips ph') = pending (ph_bips ph) @ pipe_written ops"
  using charpipe_run_ok [OF assms(3,1,2), of peer ops w] by blast

theorem charpipe_stream_order_witness:
  "\<exists>cs ph' fr' w'. charpipe_run (replicate 512 0) \<lparr>chr_can_read = Some (\<lambda>w. 2 - length w), chr_read = Some (\<lambda>b w. w @ b)\<rparr>
      [Pipe_write [1, 2, 3], Pipe_poll] \<lparr>ph_cs = \<lparr>chr_can_read = None, chr_read = None\<rparr>, ph_bips = [], ph_peer = True\<rparr> [] [] = Some (cs, ph', fr', w') \<and>
    concat cs @ pending (ph_bips ph') = [1, 2, 3]"
  using charpipe_stream_order [of "\<lparr>ph_cs = \<lparr>chr_can_read = None, chr_read = None\<rparr>, ph_bips = [], ph_peer = True\<rparr>" "[]"
      "replicate 512 0" "\<lparr>chr_can_read = Some (\<lambda>w. 2 - length w), chr_read = Some (\<lambda>b w. w @ b)\<rparr>"
      "[Pipe_write [1, 2, 3], Pipe_poll]" "[]"]
  by (simp add: free_inv_def BIP_BUFFER_SIZE_def)

text \<open>
  The main loop's poll always returns, and it loses no byte: for every pipe of the table and
  both directions, and for every buffer, the bytes delivered followed by the bytes still buffered
  are the bytes buffered before.
\<close>

lemma charpipe_poll_conserves:
  assumes "\<forall>cp\<in>set cps. bips_inv (ph_bips (cp_a cp)) \<and> bips_inv (ph_bips (cp_b cp))"
    and "\<forall>c\<in>set cbs. bips_inv (cbuf_bips c)" and "free_inv fr"
  shows "\<exists>out1 out2 cps' cbs' fr' w'. charpipe_poll cps cbs fr w = Some (out1, out2, cps', cbs', fr', w') \<and>
    list_all2 pipe_conserves cps (zip out1 cps') \<and> list_all2 buffer_conserves cbs (zip out2 cbs') \<and>
    length out1 = length cps' \<and> length out2 = length cbs'"
proof -
  obtain out1 cps' fr1 w1 where p: "charpipe_poll_pipes cps fr w = Some (out1, cps', fr1, w1)" "free_inv fr1"
    "length out1 = length cps'" "list_all2 pipe_conserves cps (zip out1 cps')"
    using charpipe_poll_pipes_ok [OF assms(1,3), of w] by blast
  obtain out2 cbs' fr2 w2 where b: "charpipe_poll_buffers cbs fr1 w1 = (out2, cbs', fr2, w2)"
    "length out2 = length cbs'" "list_all2 buffer_conserves cbs (zip out2 cbs')"
    using charpipe_poll_buffers_ok [OF assms(2) p(2), of w1] by blast
  show ?thesis using p b by (simp add: charpipe_poll_def)
qed

text \<open>
  C35: A poll delivers everything it can. With an open peer that has a read handler, the poll of a
  half returns, and afterwards nothing is buffered or the peer accepts no byte.
\<close>

theorem charpipe_poll_delivers:
  assumes "bips_inv (ph_bips ph)" "free_inv fr" "ph_peer ph" "chr_read peer = Some rd"
  shows "\<exists>cs ph' fr' w'. charpipehalf_poll peer ph fr w = Some (cs, ph', fr', w') \<and>
    concat cs @ pending (ph_bips ph') = pending (ph_bips ph) \<and>
    (pending (ph_bips ph') = [] \<or> qemu_chr_can_read peer w' = 0)"
proof -
  obtain cs ph' fr' w' where p: "charpipehalf_poll peer ph fr w = Some (cs, ph', fr', w')"
    "concat cs @ pending (ph_bips ph') = pending (ph_bips ph)"
    "ph_bips ph' \<noteq> [] \<Longrightarrow> qemu_chr_can_read peer w' = 0"
    using charpipehalf_poll_ok [OF assms(1,2)] assms(3,4) by (metis option.distinct(1))
  then show ?thesis by (cases "ph_bips ph' = []") auto
qed

theorem charpipe_poll_delivers_witness:
  "\<exists>cs ph' fr' w'. charpipehalf_poll \<lparr>chr_can_read = None, chr_read = Some (\<lambda>b w. w @ b)\<rparr>
      \<lparr>ph_cs = \<lparr>chr_can_read = None, chr_read = None\<rparr>, ph_bips = [cbuffer_reset (replicate 512 0) 512], ph_peer = True\<rparr> [] []
      = Some (cs, ph', fr', w') \<and> concat cs @ pending (ph_bips ph') = []"
  using charpipe_poll_delivers [of "\<lparr>ph_cs = \<lparr>chr_can_read = None, chr_read = None\<rparr>,
        ph_bips = [cbuffer_reset (replicate 512 0) 512], ph_peer = True\<rparr>" "[]"
      "\<lparr>chr_can_read = None, chr_read = Some (\<lambda>b w. w @ b)\<rparr>" "\<lambda>b w. w @ b" "[]"]
  by (auto simp: free_inv_def BIP_BUFFER_SIZE_def)

text \<open>
  The poll of a half asks for the limit of the peer only if the half's own driver has a
  \<open>can_read\<close> handler. Without one, all buffered bytes are passed to the peer, even when the peer
  accepts none.
\<close>

lemma charpipe_poll_ignores_limit:
  assumes "bips_inv (ph_bips ph)" "free_inv fr" "ph_peer ph" "chr_read peer = Some rd"
    and "chr_can_read (ph_cs ph) = None" "chr_can_read peer = Some (\<lambda>w. 0)"
  shows "\<exists>cs ph' fr' w'. charpipehalf_poll peer ph fr w = Some (cs, ph', fr', w') \<and>
    concat cs = pending (ph_bips ph) \<and> ph_bips ph' = []"
  using charpipe_drain_ok [OF assms(1,2), of False peer rd w] assms(3-5)
  by (fastforce simp: charpipehalf_poll_def)

end
