(* ===== verification/Gsm_Hex.thy ===== *)
theory Gsm_Hex
  imports Prelude
begin

text \<open>
  The byte-level conversions of \<open>telephony/gsm.c\<close>: hexadecimal strings and binary coded decimals.

  Characters are bytes; the results that are \<open>-1\<close> on malformed input are integers as in the source.
  The arrays written by a conversion are its result list; \<open>gsm_hex_to_bytes\<close> gives \<open>None\<close> where the
  source returns \<open>-1\<close>.
\<close>

section \<open>Binary coded decimals\<close>

definition gsm_int_to_bcdi :: "int \<Rightarrow> u8" where
  "gsm_int_to_bcdi value = word_of_int ((value div 10) OR push_bit 4 (value mod 10))"

definition gsm_int_from_bcdi :: "u8 \<Rightarrow> int" where
  "gsm_int_from_bcdi val =
     (let ret = (if val AND 0xf0 \<le> 0x90 then uint (drop_bit 4 val) else 0)
      in if val AND 0x0f \<le> 0x90 then ret OR (uint val mod 0xf) * 10 else ret)"

section \<open>Hexadecimal strings\<close>

definition gsm_hexchar_to_int :: "u8 \<Rightarrow> int" where
  "gsm_hexchar_to_int c =
     (if c - 0x30 < 10 then uint c - 0x30
      else if c - 0x61 < 6 then 10 + (uint c - 0x61)
      else if c - 0x41 < 6 then 10 + (uint c - 0x41)
      else -1)"

definition gsm_hexchar_to_int0 :: "u8 \<Rightarrow> int" where
  "gsm_hexchar_to_int0 c = (let ret = gsm_hexchar_to_int c in if ret < 0 then 0 else ret)"

definition gsm_hex2_to_byte :: "u8 \<Rightarrow> u8 \<Rightarrow> int" where
  "gsm_hex2_to_byte h0 h1 =
     (let hi = gsm_hexchar_to_int h0; lo = gsm_hexchar_to_int h1
      in if hi < 0 \<or> lo < 0 then -1 else push_bit 4 hi OR lo)"

definition gsm_hex4_to_short :: "u8 \<Rightarrow> u8 \<Rightarrow> u8 \<Rightarrow> u8 \<Rightarrow> int" where
  "gsm_hex4_to_short h0 h1 h2 h3 =
     (let hi = gsm_hex2_to_byte h0 h1; lo = gsm_hex2_to_byte h2 h3
      in if hi < 0 \<or> lo < 0 then -1 else push_bit 8 hi OR lo)"

definition gsm_hex2_to_byte0 :: "u8 \<Rightarrow> u8 \<Rightarrow> u8" where
  "gsm_hex2_to_byte0 h0 h1 =
     (let hi = gsm_hexchar_to_int0 h0; lo = gsm_hexchar_to_int0 h1
      in word_of_int (push_bit 4 hi OR lo))"

definition hexdigits :: bytes where
  "hexdigits = [0x30, 0x31, 0x32, 0x33, 0x34, 0x35, 0x36, 0x37, 0x38, 0x39,
     0x61, 0x62, 0x63, 0x64, 0x65, 0x66]"

definition gsm_hex_from_byte :: "int \<Rightarrow> bytes" where
  "gsm_hex_from_byte val = [hexdigits ! nat (drop_bit 4 val AND 15), hexdigits ! nat (val AND 15)]"

definition gsm_hex_from_short :: "int \<Rightarrow> bytes" where
  "gsm_hex_from_short val = gsm_hex_from_byte (drop_bit 8 val) @ gsm_hex_from_byte val"

fun gsm_hex_to_bytes0 :: "bytes \<Rightarrow> bytes" where
  "gsm_hex_to_bytes0 [] = []"
| "gsm_hex_to_bytes0 [h] = [word_of_int (push_bit 4 (gsm_hexchar_to_int0 h))]"
| "gsm_hex_to_bytes0 (h0 # h1 # hex) = gsm_hex2_to_byte0 h0 h1 # gsm_hex_to_bytes0 hex"

text \<open>The loop of \<open>gsm_hex_to_bytes\<close>, after the test that the length is even.\<close>

fun hex_pairs :: "bytes \<Rightarrow> bytes option" where
  "hex_pairs (h0 # h1 # hex) =
     (let c = gsm_hex2_to_byte h0 h1
      in if c < 0 then None
         else case hex_pairs hex of None \<Rightarrow> None | Some bs \<Rightarrow> Some (word_of_int c # bs))"
| "hex_pairs hex = Some []"

definition gsm_hex_to_bytes :: "bytes \<Rightarrow> bytes option" where
  "gsm_hex_to_bytes hex = (if odd (length hex) then None else hex_pairs hex)"

fun gsm_hex_from_bytes :: "bytes \<Rightarrow> bytes" where
  "gsm_hex_from_bytes [] = []"
| "gsm_hex_from_bytes (b # bs) = gsm_hex_from_byte (uint b) @ gsm_hex_from_bytes bs"

section \<open>Digits\<close>

text \<open>The value of a digit, without the detour over \<open>-1\<close>.\<close>

definition is_hex :: "u8 \<Rightarrow> bool" where
  "is_hex c \<longleftrightarrow> 0x30 \<le> c \<and> c \<le> 0x39 \<or> 0x61 \<le> c \<and> c \<le> 0x66 \<or> 0x41 \<le> c \<and> c \<le> 0x46"

lemma u8_range_sub:
  fixes c a :: u8
  assumes "unat a + n \<le> 256" "n < 256"
  shows "c - a < of_nat n \<longleftrightarrow> unat a \<le> unat c \<and> unat c < unat a + n"
proof -
  have n: "unat (of_nat n :: u8) = n" using assms(2) by (simp add: unat_of_nat take_bit_eq_mod)
  show ?thesis
  proof (cases "a \<le> c")
    case True
    then have "unat (c - a) = unat c - unat a" "unat a \<le> unat c"
      by (simp_all add: unat_sub word_le_nat_alt)
    then show ?thesis by (auto simp: word_less_nat_alt n)
  next
    case False
    then have lt: "unat c < unat a" by (simp add: word_le_nat_alt)
    have "unat (c - a) = 256 + unat c - unat a"
      using lt unat_sub_if' [of c a] by simp
    then show ?thesis using lt assms by (auto simp: word_less_nat_alt n)
  qed
qed

lemma uint_u8_less: "uint (b::u8) < 256"
  using unsigned_less [of b] by simp

lemma hexchar_range:
  "gsm_hexchar_to_int c = -1 \<and> \<not> is_hex c \<or> 0 \<le> gsm_hexchar_to_int c \<and> gsm_hexchar_to_int c < 16 \<and> is_hex c"
proof -
  have r: "c - 0x30 < 10 \<longleftrightarrow> 48 \<le> unat c \<and> unat c < 58"
    "c - 0x61 < 6 \<longleftrightarrow> 97 \<le> unat c \<and> unat c < 103"
    "c - 0x41 < 6 \<longleftrightarrow> 65 \<le> unat c \<and> unat c < 71"
    using u8_range_sub [of "0x30" 10 c] u8_range_sub [of "0x61" 6 c] u8_range_sub [of "0x41" 6 c] by simp_all
  obtain k where k: "unat c = k" "uint c = int k" by simp
  show ?thesis
    unfolding gsm_hexchar_to_int_def is_hex_def r k word_le_nat_alt by auto
qed

lemma hexdigits_decode:
  "n < 16 \<Longrightarrow> gsm_hexchar_to_int (hexdigits ! n) = int n"
proof -
  have "list_all (\<lambda>n. gsm_hexchar_to_int (hexdigits ! n) = int n) [0..<16]"
    by (simp add: upt_rec hexdigits_def gsm_hexchar_to_int_def)
  then show "n < 16 \<Longrightarrow> gsm_hexchar_to_int (hexdigits ! n) = int n" by (simp add: list_all_iff)
qed

lemma and_15: "(x::int) AND 15 = x mod 16"
  using take_bit_eq_mask [of 4 x] by (simp add: mask_eq_exp_minus_1 take_bit_eq_mod)

lemma nibbles: "push_bit 4 (x div 16) OR (x mod 16) = (x::int)"
proof -
  have "push_bit 4 (drop_bit 4 x) OR take_bit 4 x = x"
    by (rule bit_eqI) (auto simp: bit_or_iff bit_push_bit_iff bit_drop_bit_eq bit_take_bit_iff)
  then show ?thesis by (simp add: take_bit_eq_mod drop_bit_eq_div)
qed

lemma hex2_from_byte:
  assumes "gsm_hex_from_byte (uint (b::u8)) = [h0, h1]"
  shows "gsm_hex2_to_byte h0 h1 = uint b"
proof -
  have lt: "0 \<le> uint b" "uint b div 16 < 16" using uint_u8_less [of b] by simp_all
  have h: "h0 = hexdigits ! nat (uint b div 16)" "h1 = hexdigits ! nat (uint b mod 16)"
    using assms lt by (simp_all add: gsm_hex_from_byte_def and_15 drop_bit_eq_div)
  have d: "gsm_hexchar_to_int h0 = uint b div 16" "gsm_hexchar_to_int h1 = uint b mod 16"
    using lt unfolding h by (simp_all add: hexdigits_decode nat_less_iff pos_imp_zdiv_nonneg_iff)
  have n: "\<not> (uint b div 16 < 0 \<or> uint b mod 16 < 0)" by (simp add: not_less pos_imp_zdiv_nonneg_iff)
  show ?thesis unfolding gsm_hex2_to_byte_def d Let_def if_not_P [OF n] by (rule nibbles)
qed

lemma hex2_range:
  "gsm_hex2_to_byte h0 h1 < 0 \<longleftrightarrow> \<not> (is_hex h0 \<and> is_hex h1)"
  "gsm_hex2_to_byte h0 h1 < 256"
proof -
  have nn: "0 \<le> push_bit 4 x OR (y::int)" if "0 \<le> x" "0 \<le> y" for x y
    using that by (simp add: push_bit_eq_mult)
  show "gsm_hex2_to_byte h0 h1 < 0 \<longleftrightarrow> \<not> (is_hex h0 \<and> is_hex h1)"
    using hexchar_range [of h0] hexchar_range [of h1] nn [of "gsm_hexchar_to_int h0" "gsm_hexchar_to_int h1"]
    by (auto simp: gsm_hex2_to_byte_def not_less)
  show "gsm_hex2_to_byte h0 h1 < 256"
  proof (cases "gsm_hexchar_to_int h0 < 0 \<or> gsm_hexchar_to_int h1 < 0")
    case False
    then have "push_bit 4 (gsm_hexchar_to_int h0) < 256" "gsm_hexchar_to_int h1 < 256"
      "0 \<le> push_bit 4 (gsm_hexchar_to_int h0)"
      using hexchar_range [of h0] hexchar_range [of h1] by (auto simp: push_bit_eq_mult)
    then have "push_bit 4 (gsm_hexchar_to_int h0) OR gsm_hexchar_to_int h1 < 2 ^ 8"
      using False by (intro OR_upper) auto
    then show ?thesis using False by (simp add: gsm_hex2_to_byte_def)
  qed (auto simp: gsm_hex2_to_byte_def)
qed

lemma gsm_hex_from_byte_pair: "\<exists>h0 h1. gsm_hex_from_byte v = [h0, h1]"
  by (simp add: gsm_hex_from_byte_def)

lemma length_hex_from_bytes [simp]: "length (gsm_hex_from_bytes bs) = 2 * length bs"
  by (induction bs) (simp_all add: gsm_hex_from_byte_def)

lemma hex_pairs_from_bytes: "hex_pairs (gsm_hex_from_bytes bs) = Some bs"
proof (induction bs)
  case (Cons b bs)
  obtain h0 h1 where h: "gsm_hex_from_byte (uint b) = [h0, h1]" using gsm_hex_from_byte_pair by blast
  from hex2_from_byte [OF h] h Cons show ?case by simp
qed simp

lemma hex_pairs_accepts:
  "even (length hex) \<Longrightarrow> (\<exists>bs. hex_pairs hex = Some bs \<and> length hex = 2 * length bs) \<and> list_all is_hex hex \<or>
   hex_pairs hex = None \<and> \<not> list_all is_hex hex"
  by (induction hex rule: hex_pairs.induct) (auto simp: hex2_range Let_def not_less)

text \<open>
  Hexadecimal strings round-trip: the parser gives back every byte string from its printed
  form, and it accepts exactly the strings of even length that consist of hexadecimal digits, of
  either case.
\<close>

lemma gsm_hex_roundtrip:
  "gsm_hex_to_bytes (gsm_hex_from_bytes bs) = Some bs \<and>
   (gsm_hex_to_bytes hex \<noteq> None \<longleftrightarrow> even (length hex) \<and> list_all is_hex hex)"
proof
  show "gsm_hex_to_bytes (gsm_hex_from_bytes bs) = Some bs"
    by (simp add: gsm_hex_to_bytes_def hex_pairs_from_bytes)
  show "gsm_hex_to_bytes hex \<noteq> None \<longleftrightarrow> even (length hex) \<and> list_all is_hex hex"
    using hex_pairs_accepts [of hex] by (auto simp: gsm_hex_to_bytes_def)
qed

end
