(* ===== verification/Gsm_Text.thy ===== *)
theory Gsm_Text
  imports Gsm_Hex
begin

text \<open>
  The character encodings of \<open>telephony/gsm.c\<close>: UTF-8, UCS-2 and the GSM alphabet, packed in
  septets or one character per byte.

  A pointer into a string is the rest of the string. The functions that write to an array return
  the bytes written; with a \<open>NULL\<close> array the source returns their number. Code points are 32 bit
  words; \<open>-1\<close> is the end of the string.
\<close>

section \<open>UTF-8 and UCS-2\<close>

text \<open>The loop over continuation bytes, which shifts without a limit on their number.\<close>

fun utf8_cont :: "u32 \<Rightarrow> bytes \<Rightarrow> u32 \<times> bytes" where
  "utf8_cont c [] = (c, [])"
| "utf8_cont c (b # p) =
     (if b AND 0xc0 = 0x80 then utf8_cont (push_bit 6 c OR ucast (b AND 0x3f)) p else (c, b # p))"

definition utf8_next :: "bytes \<Rightarrow> u32 \<times> bytes" where
  "utf8_next p =
     (case p of
        [] \<Rightarrow> (-1, [])
      | b # p1 \<Rightarrow>
          if b \<ge> 128 then
            utf8_cont (ucast (if b AND 0xe0 = 0xc0 then b AND 0x1f
                              else if b AND 0xf0 = 0xe0 then b AND 0x0f
                              else b AND 0x07)) p1
          else (ucast b, p1))"

definition utf8_write :: "u32 \<Rightarrow> bytes" where
  "utf8_write v =
     (if v < 128 then [ucast v]
      else if v < 0x800 then [ucast (0xc0 OR drop_bit 6 v), ucast (0x80 OR (v AND 0x3f))]
      else if v < 0x10000 then
        [ucast (0xe0 OR drop_bit 12 v), ucast (0x80 OR (drop_bit 6 v AND 0x3f)),
         ucast (0x80 OR (v AND 0x3f))]
      else
        [ucast (0xf0 OR (drop_bit 18 v AND 0x7)), ucast (0x80 OR (drop_bit 12 v AND 0x3f)),
         ucast (0x80 OR (drop_bit 6 v AND 0x3f)), ucast (0x80 OR (v AND 0x3f))])"

definition ucs2_write :: "u32 \<Rightarrow> bytes" where
  "ucs2_write v = [ucast (drop_bit 8 v), ucast v]"

lemma utf8_cont_length: "length (snd (utf8_cont c p)) \<le> length p"
  by (induction c p rule: utf8_cont.induct) auto

lemma utf8_next_length: "p \<noteq> [] \<Longrightarrow> length (snd (utf8_next p)) < length p"
  by (auto simp: utf8_next_def le_imp_less_Suc utf8_cont_length split: list.splits)

text \<open>Skipping \<open>count\<close> characters; a byte above 128 starts a sequence.\<close>

fun utf8_skip :: "bytes \<Rightarrow> nat \<Rightarrow> bytes" where
  "utf8_skip p 0 = p"
| "utf8_skip [] (Suc count) = []"
| "utf8_skip (c # p) (Suc count) =
     (if c > 128 then utf8_skip (dropWhile (\<lambda>b. b AND 0xc0 = 0x80) p) count else utf8_skip p count)"

definition utf8_seq_len :: "u8 \<Rightarrow> nat option" where
  "utf8_seq_len c =
     (if c < 128 then Some 0
      else if c AND 0xe0 = 0xc0 then Some 1
      else if c AND 0xf0 = 0xe0 then Some 2
      else if c AND 0xf8 = 0xf0 then Some 3
      else None)"

function utf8_check :: "bytes \<Rightarrow> bool" where
  "utf8_check [] = True"
| "utf8_check (c # p) =
     (case utf8_seq_len c of
        None \<Rightarrow> False
      | Some len \<Rightarrow>
          if length p < len then False
          else if list_all (\<lambda>b. b AND 0xc0 = 0x80) (take len p) then utf8_check (drop len p)
          else False)"
  by pat_completeness auto
termination
  by (relation "measure length") auto

fun ucs2_to_utf8 :: "bytes \<Rightarrow> nat \<Rightarrow> bytes" where
  "ucs2_to_utf8 (h # l # ucs2) (Suc n) =
     utf8_write (push_bit 8 (ucast h) OR ucast l) @ ucs2_to_utf8 ucs2 n"
| "ucs2_to_utf8 ucs2 n = []"

text \<open>
  The loop that most functions below share: the code points of a string, up to the end or to a
  negative one.
\<close>

function utf8_points :: "bytes \<Rightarrow> u32 list" where
  "utf8_points p =
     (if p = [] then []
      else let (c, p') = utf8_next p in if sint c < 0 then [] else c # utf8_points p')"
  by pat_completeness auto
termination
proof (relation "measure length", goal_cases)
  case (2 p x c p')
  then show ?case using utf8_next_length [of p] by (metis in_measure snd_conv)
qed simp

declare utf8_points.simps [simp del]

definition utf8_to_ucs2 :: "bytes \<Rightarrow> bytes" where
  "utf8_to_ucs2 p = concat (map ucs2_write (utf8_points p))"

section \<open>The GSM alphabet\<close>

definition GSM_7BITS_ESCAPE :: nat where [dev_defs]: "GSM_7BITS_ESCAPE = 0x1b"

definition gsm7bits_to_unicode :: "u32 list" where
  "gsm7bits_to_unicode =
    [0x40, 0xa3, 0x24, 0xa5, 0xe8, 0xe9, 0xf9, 0xec, 0xf2, 0xc7, 0x0a, 0xd8, 0xf8, 0x0d, 0xc5, 0xe5,
     0x394, 0x5f, 0x3a6, 0x393, 0x39b, 0x3a9, 0x3a0, 0x3a8, 0x3a3, 0x398, 0x39e, 0, 0xc6, 0xe6, 0xdf, 0xc9,
     0x20, 0x21, 0x22, 0x23, 0xa4, 0x25, 0x26, 0x27, 0x28, 0x29, 0x2a, 0x2b, 0x2c, 0x2d, 0x2e, 0x2f,
     0x30, 0x31, 0x32, 0x33, 0x34, 0x35, 0x36, 0x37, 0x38, 0x39, 0x3a, 0x3b, 0x3c, 0x3d, 0x3e, 0x3f,
     0xa1, 0x41, 0x42, 0x43, 0x44, 0x45, 0x46, 0x47, 0x48, 0x49, 0x4a, 0x4b, 0x4c, 0x4d, 0x4e, 0x4f,
     0x50, 0x51, 0x52, 0x53, 0x54, 0x55, 0x56, 0x57, 0x58, 0x59, 0x5a, 0xc4, 0xd6, 0x147, 0xdc, 0xa7,
     0xbf, 0x61, 0x62, 0x63, 0x64, 0x65, 0x66, 0x67, 0x68, 0x69, 0x6a, 0x6b, 0x6c, 0x6d, 0x6e, 0x6f,
     0x70, 0x71, 0x72, 0x73, 0x74, 0x75, 0x76, 0x77, 0x78, 0x79, 0x7a, 0xe4, 0xf6, 0xf1, 0xfc, 0xe0]"

definition gsm7bits_extend_to_unicode :: "u32 list" where
  "gsm7bits_extend_to_unicode =
    [0, 0, 0, 0, 0, 0, 0, 0, 0, 0, 0x0c, 0, 0, 0, 0, 0,
     0, 0, 0, 0, 0x5e, 0, 0, 0, 0, 0, 0, 0, 0, 0, 0, 0,
     0, 0, 0, 0, 0, 0, 0, 0, 0x7b, 0x7d, 0, 0, 0, 0, 0, 0x5c,
     0, 0, 0, 0, 0, 0, 0, 0, 0, 0, 0, 0, 0x5b, 0x7e, 0x5d, 0,
     0x7c, 0, 0, 0, 0, 0, 0, 0, 0, 0, 0, 0, 0, 0, 0, 0,
     0, 0, 0, 0, 0, 0, 0, 0, 0, 0, 0, 0, 0, 0, 0, 0,
     0, 0, 0, 0, 0, 0x20ac, 0, 0, 0, 0, 0, 0, 0, 0, 0, 0,
     0, 0, 0, 0, 0, 0, 0, 0, 0, 0, 0, 0, 0, 0, 0, 0]"

text \<open>\<open>None\<close> where the source returns \<open>-1\<close>.\<close>

definition unichar_to_gsm7 :: "u32 \<Rightarrow> nat option" where
  "unichar_to_gsm7 unicode = find (\<lambda>nn. gsm7bits_to_unicode ! nn = unicode) [0..<128]"

definition unichar_to_gsm7_extend :: "u32 \<Rightarrow> nat option" where
  "unichar_to_gsm7_extend unichar = find (\<lambda>nn. gsm7bits_extend_to_unicode ! nn = unichar) [0..<128]"

definition unichar_to_gsm7_count :: "u32 \<Rightarrow> nat" where
  "unichar_to_gsm7_count unicode =
     (if unichar_to_gsm7 unicode \<noteq> None then 1
      else if unichar_to_gsm7_extend unicode \<noteq> None then 2 else 0)"

function utf8_skip_gsm7 :: "bytes \<Rightarrow> nat \<Rightarrow> bytes" where
  "utf8_skip_gsm7 p gsm7len =
     (if gsm7len = 0 then p
      else let (c, q) = utf8_next p in
        if sint c < 0 then p
        else let len = (let n = unichar_to_gsm7_count c in if n = 0 then 1 else n) in
          if gsm7len < len then p else utf8_skip_gsm7 q (gsm7len - len))"
  by pat_completeness auto
termination
  by (relation "measure snd") (auto simp: Let_def)

fun utf8_skip_ucs2 :: "bytes \<Rightarrow> nat \<Rightarrow> bytes" where
  "utf8_skip_ucs2 p (Suc (Suc ucs2len)) =
     (let (c, q) = utf8_next p in if sint c < 0 then p else utf8_skip_ucs2 q ucs2len)"
| "utf8_skip_ucs2 p ucs2len = p"

function utf8_check_gsm7 :: "bytes \<Rightarrow> bool" where
  "utf8_check_gsm7 p =
     (if p = [] then True
      else let (c, p') = utf8_next p in
        if unichar_to_gsm7_count c = 0 then False else utf8_check_gsm7 p')"
  by pat_completeness auto
termination
proof (relation "measure length", goal_cases)
  case (2 p x c p')
  then show ?case using utf8_next_length [of p] by (metis in_measure snd_conv)
qed simp

declare utf8_skip_gsm7.simps [simp del] utf8_check_gsm7.simps [simp del]

section \<open>Decoding\<close>

text \<open>
  The septet at bit position \<open>shift\<close> of the first byte; it needs the second byte when \<open>shift\<close> is
  above 1. Reading past the end of the array is undefined.
\<close>

definition gsm7_septet :: "bytes \<Rightarrow> nat \<Rightarrow> u32 outcome" where
  "gsm7_septet src shift =
     (case src of
        [] \<Rightarrow> Inl Undefined_behaviour
      | b0 # rest \<Rightarrow>
          (let c = drop_bit shift (ucast b0) AND 0x7f in
           if shift > 1 then
             (case rest of
                [] \<Rightarrow> Inl Undefined_behaviour
              | b1 # _ \<Rightarrow> Inr ((push_bit (8 - shift) (ucast b1) OR c) AND 0x7f))
           else Inr c))"

fun gsm7_decode :: "bytes \<Rightarrow> nat \<Rightarrow> bool \<Rightarrow> nat \<Rightarrow> bytes outcome" where
  "gsm7_decode src shift escaped 0 = Inr []"
| "gsm7_decode src shift escaped (Suc septet_count) =
     (case gsm7_septet src shift of
        Inl e \<Rightarrow> Inl e
      | Inr c \<Rightarrow>
          (let (src', shift') = (if shift + 7 \<ge> 8 then (tl src, shift + 7 - 8) else (src, shift + 7)) in
           if escaped then
             (case gsm7_decode src' shift' escaped septet_count of
                Inl e \<Rightarrow> Inl e
              | Inr out \<Rightarrow> Inr (utf8_write (gsm7bits_extend_to_unicode ! unat c) @ out))
           else if unat c = GSM_7BITS_ESCAPE then gsm7_decode src' shift' True septet_count
           else
             (case gsm7_decode src' shift' escaped septet_count of
                Inl e \<Rightarrow> Inl e
              | Inr out \<Rightarrow> Inr (utf8_write (gsm7bits_to_unicode ! unat c) @ out))))"

definition utf8_from_gsm7 :: "bytes \<Rightarrow> nat \<Rightarrow> nat \<Rightarrow> bytes outcome" where
  "utf8_from_gsm7 src septet_offset septet_count =
     gsm7_decode (drop (septet_offset div 8) src) (septet_offset mod 8) False septet_count"

fun gsm8_decode :: "bytes \<Rightarrow> bool \<Rightarrow> bytes" where
  "gsm8_decode [] escaped = []"
| "gsm8_decode (c # src) escaped =
     (if c = 0xff then []
      else if unat c = GSM_7BITS_ESCAPE then
        (if escaped then utf8_write 0x20 @ gsm8_decode src False else gsm8_decode src True)
      else if c \<ge> 0x80 then utf8_write 0x20 @ gsm8_decode src False
      else if escaped then utf8_write (gsm7bits_extend_to_unicode ! unat c) @ gsm8_decode src escaped
      else utf8_write (gsm7bits_to_unicode ! unat c) @ gsm8_decode src escaped)"

definition utf8_from_gsm8 :: "bytes \<Rightarrow> nat \<Rightarrow> bytes" where
  "utf8_from_gsm8 src count = gsm8_decode (take count src) False"

text \<open>The position is never advanced, and the tables are exchanged.\<close>

fun ucs2_gsm7_loop :: "bytes \<Rightarrow> nat \<Rightarrow> bool \<Rightarrow> nat \<Rightarrow> bytes outcome" where
  "ucs2_gsm7_loop p shift escaped 0 = Inr []"
| "ucs2_gsm7_loop p shift escaped (Suc septet_count) =
     (case gsm7_septet p shift of
        Inl e \<Rightarrow> Inl e
      | Inr val \<Rightarrow>
          if escaped then
            (case ucs2_gsm7_loop p shift False septet_count of
               Inl e \<Rightarrow> Inl e
             | Inr out \<Rightarrow> Inr (ucs2_write (gsm7bits_to_unicode ! unat val) @ out))
          else if unat val = GSM_7BITS_ESCAPE then ucs2_gsm7_loop p shift True septet_count
          else
            (case ucs2_gsm7_loop p shift escaped septet_count of
               Inl e \<Rightarrow> Inl e
             | Inr out \<Rightarrow>
                 (let v = gsm7bits_extend_to_unicode ! unat val
                  in Inr (ucs2_write (if v = 0 then 0x20 else v) @ out))))"

definition ucs2_from_gsm7 :: "bytes \<Rightarrow> nat \<Rightarrow> nat \<Rightarrow> bytes outcome" where
  "ucs2_from_gsm7 src septet_offset septet_count =
     ucs2_gsm7_loop (drop (septet_offset div 8) src) (septet_offset mod 8) False septet_count"

section \<open>Encoding\<close>

text \<open>The septets of a code point; an unknown one is a space.\<close>

definition gsm7_septets :: "u32 \<Rightarrow> nat list" where
  "gsm7_septets c =
     (case unichar_to_gsm7 c of
        Some nn \<Rightarrow> [nn]
      | None \<Rightarrow>
          (case unichar_to_gsm7_extend c of
             Some nn \<Rightarrow> [GSM_7BITS_ESCAPE, nn]
           | None \<Rightarrow> [0x20]))"

definition utf8_to_gsm7_count :: "bytes \<Rightarrow> nat" where
  "utf8_to_gsm7_count utf8 =
     sum_list (map (\<lambda>c. let len = unichar_to_gsm7_count c in if len = 0 then 1 else len) (utf8_points utf8))"

text \<open>\<open>bw_dst\<close> holds the bytes written so far, from the one that contains the start position.\<close>

record BWriterRec =
  bw_dst :: bytes
  bw_pad :: u32
  bw_bits :: nat
  bw_offset :: nat

definition bwriter_init :: "bytes \<Rightarrow> nat \<Rightarrow> BWriterRec" where
  "bwriter_init dst start =
     (let shift = start mod 8 in
      \<lparr>bw_dst = [],
       bw_pad = (if shift > 0 then ucast (dst ! (start div 8)) AND NOT (push_bit shift 0xFF) else 0),
       bw_bits = shift, bw_offset = start\<rparr>)"

definition bwriter_add7 :: "nat \<Rightarrow> BWriterRec \<Rightarrow> BWriterRec" where
  "bwriter_add7 value w =
     (let pad = bw_pad w OR push_bit (bw_bits w) (of_nat value); bits = bw_bits w + 7;
          w1 = (if bits \<ge> 8
                then w\<lparr>bw_dst := bw_dst w @ [ucast pad], bw_bits := bits - 8, bw_pad := drop_bit 8 pad\<rparr>
                else w\<lparr>bw_bits := bits, bw_pad := pad\<rparr>)
      in w1\<lparr>bw_offset := bw_offset w + 7\<rparr>)"

definition bwriter_done :: "BWriterRec \<Rightarrow> bytes \<times> nat" where
  "bwriter_done w = (if bw_bits w > 0 then bw_dst w @ [ucast (bw_pad w)] else bw_dst w, bw_offset w)"

text \<open>The bytes written from the start position on, and the value returned.\<close>

definition utf8_to_gsm7 :: "bytes \<Rightarrow> bytes \<Rightarrow> nat \<Rightarrow> bytes \<times> nat" where
  "utf8_to_gsm7 utf8 dst offset =
     bwriter_done (fold bwriter_add7 (concat (map gsm7_septets (utf8_points utf8))) (bwriter_init dst offset))"

definition utf8_to_gsm8 :: "bytes \<Rightarrow> bytes" where
  "utf8_to_gsm8 utf8 = map of_nat (concat (map gsm7_septets (utf8_points utf8)))"

text \<open>The two functions for UCS-2 take one byte at a time, not a pair.\<close>

definition ucs2_to_gsm7 :: "bytes \<Rightarrow> nat \<Rightarrow> bytes \<Rightarrow> nat \<Rightarrow> bytes \<times> nat" where
  "ucs2_to_gsm7 ucs2 ucs2len dst offset =
     bwriter_done (fold bwriter_add7 (concat (map (gsm7_septets \<circ> ucast) (take (2 * ucs2len) ucs2))) (bwriter_init dst offset))"

definition ucs2_to_gsm8 :: "bytes \<Rightarrow> nat \<Rightarrow> bytes" where
  "ucs2_to_gsm8 ucs2 ucs2len = map of_nat (concat (map (gsm7_septets \<circ> ucast) (take (2 * ucs2len) ucs2)))"

section \<open>UTF-8 round trip\<close>

lemma masked_or_and:
  fixes t y :: "'a::len word"
  assumes "y AND m = y"
  shows "(t OR y) AND k = (t AND k) OR (y AND (m AND k))"
  using assms by (metis and.assoc bit.conj_disj_distrib2)

definition utf8_is_cont :: "u8 \<Rightarrow> bool" where
  "utf8_is_cont b \<longleftrightarrow> b AND 0xc0 = 0x80"

lemma cont_byte:
  assumes "z AND 0x3f = (z::u8)"
  shows "(0x80 OR z) AND 0xc0 = 0x80" "(0x80 OR z) AND 0x3f = z"
  using assms by (simp_all add: masked_or_and)

lemma lead_byte2:
  assumes "y AND 0x1f = (y::u8)"
  shows "(0xc0 OR y) AND 0xe0 = 0xc0" "(0xc0 OR y) AND 0x1f = y" "128 \<le> 0xc0 OR y" "(0xc0 OR y) AND 0xc0 = 0xc0"
  using assms order_trans [OF _ le_word_or2, of 128 "0xc0" y] by (simp_all add: masked_or_and)

lemma lead_byte3:
  assumes "y AND 0x0f = (y::u8)"
  shows "(0xe0 OR y) AND 0xe0 = 0xe0" "(0xe0 OR y) AND 0xf0 = 0xe0" "(0xe0 OR y) AND 0x0f = y" "128 \<le> 0xe0 OR y"
    "(0xe0 OR y) AND 0xc0 = 0xc0"
  using assms order_trans [OF _ le_word_or2, of 128 "0xe0" y] by (simp_all add: masked_or_and)

text \<open>The low part of a word, as a byte and back.\<close>

lemma ucast_low:
  fixes x :: u32
  assumes "x AND m = x" "m < 256"
  shows "ucast (ucast x :: u8) = x"
proof -
  have "x \<le> m" using assms(1) by (metis word_and_le1)
  then show ?thesis using assms(2) by (intro ucast_u8_small) (rule le_less_trans)
qed

lemma ucast_or_u8 [simp]: "(ucast (a OR b :: u32) :: u8) = ucast a OR ucast b"
  by (simp add: unsigned_or_eq)

lemma small_masked:
  fixes x :: u32
  shows "x < 32 \<Longrightarrow> x AND 0x1f = x" "x < 16 \<Longrightarrow> x AND 0x0f = x"
proof -
  show "x < 32 \<Longrightarrow> x AND 0x1f = x"
    using less_mask_eq [of x 5] by (simp add: mask_eq_exp_minus_1)
  show "x < 16 \<Longrightarrow> x AND 0x0f = x"
    using less_mask_eq [of x 4] by (simp add: mask_eq_exp_minus_1)
qed

lemma ucast_and_u8: "(ucast (a AND b :: u32) :: u8) = ucast a AND ucast b"
  by (simp add: unsigned_and_eq)

text \<open>A masked part of a word as the payload of a byte.\<close>

lemma payload:
  fixes x :: u32
  assumes "x AND m = x" "m < 256"
  shows "(ucast x :: u8) AND ucast m = ucast x" "ucast (ucast x :: u8) = x"
  using assms ucast_and_u8 [of x m] ucast_low [of x m] by simp_all

lemma mask63: "(0x3f :: 'a::len word) = mask 6"
  by (simp add: mask_eq_exp_minus_1)

lemma drop_small:
  fixes v :: u32
  shows "v < 0x800 \<Longrightarrow> drop_bit 6 v < 32" "v < 0x10000 \<Longrightarrow> drop_bit 12 v < 16"
  by (simp_all add: word_less_nat_alt unat_drop_bit_eq) (simp_all add: drop_bit_eq_div)

lemma utf8_cont_stop:
  assumes "rest = [] \<or> \<not> utf8_is_cont (hd rest)"
  shows "utf8_cont c rest = (c, rest)"
  using assms by (cases rest) (simp_all add: utf8_is_cont_def)

lemma utf8_cont_step:
  assumes "x AND 0x3f = (x :: u32)"
  shows "utf8_cont c ((0x80 OR ucast x) # p) = utf8_cont (push_bit 6 c OR x) p"
  using cont_byte [of "ucast x"] payload [OF assms] by simp

lemma utf8_write_long:
  "128 \<le> v \<Longrightarrow> v < 0x800 \<Longrightarrow> utf8_write v = [0xc0 OR ucast (drop_bit 6 v), 0x80 OR ucast (v AND 0x3f)]"
  "0x800 \<le> v \<Longrightarrow> v < 0x10000 \<Longrightarrow> utf8_write v =
     [0xe0 OR ucast (drop_bit 12 v), 0x80 OR ucast (drop_bit 6 v AND 0x3f), 0x80 OR ucast (v AND 0x3f)]"
  by (simp_all add: utf8_write_def word_less_nat_alt word_le_nat_alt)

lemma utf8_next_write:
  assumes v: "v < 0x10000" and rest: "rest = [] \<or> \<not> utf8_is_cont (hd rest)"
  shows "utf8_next (utf8_write v @ rest) = (v, rest)"
proof -
  let ?z = "v AND 0x3f" and ?y = "drop_bit 6 v AND 0x3f"
  have z: "?z AND 0x3f = ?z" and y: "?y AND 0x3f = ?y" by (simp_all add: and.assoc)
  have last: "push_bit 6 (drop_bit 6 v) OR ?z = v"
    by (rule bit_word_eqI)
      (auto simp: bit_or_iff bit_push_bit_iff bit_drop_bit_eq bit_and_iff mask63 bit_mask_iff)
  consider "v < 128" | "128 \<le> v" "v < 0x800" | "0x800 \<le> v" by fastforce
  then show ?thesis
  proof cases
    case 1
    have e: "ucast (ucast v :: u8) = v" using 1 by (intro ucast_u8_small) (rule less_trans, auto)
    then have "unat (ucast v :: u8) = unat v" by (metis unat_ucast_u8_u32)
    with 1 have "\<not> 128 \<le> (ucast v :: u8)" by (simp add: word_less_nat_alt not_le)
    with 1 e show ?thesis by (simp add: utf8_write_def utf8_next_def)
  next
    case 2
    have x: "drop_bit 6 v < 32" by (rule drop_small(1) [OF 2(2)])
    note x' = small_masked(1) [OF x]
    have w: "utf8_write v = [0xc0 OR ucast (drop_bit 6 v), 0x80 OR ucast ?z]"
      using 2 by (rule utf8_write_long)
    show ?thesis
      using payload [OF x'] lead_byte2 [of "ucast (drop_bit 6 v)"] utf8_cont_step [OF z] utf8_cont_stop [OF rest] last
      by (simp add: w utf8_next_def)
  next
    case 3
    have x: "drop_bit 12 v < 16" by (rule drop_small(2) [OF v])
    note x' = small_masked(2) [OF x]
    have w: "utf8_write v = [0xe0 OR ucast (drop_bit 12 v), 0x80 OR ucast ?y, 0x80 OR ucast ?z]"
      using 3 v by (rule utf8_write_long)
    have mid: "push_bit 6 (drop_bit 12 v) OR ?y = drop_bit 6 v"
      by (rule bit_word_eqI)
        (auto simp: bit_or_iff bit_push_bit_iff bit_drop_bit_eq bit_and_iff mask63 bit_mask_iff)
    show ?thesis
      using payload [OF x'] lead_byte3 [of "ucast (drop_bit 12 v)"]
        utf8_cont_step [OF z] utf8_cont_step [OF y] utf8_cont_stop [OF rest] last mid
      by (simp add: w utf8_next_def)
  qed
qed

lemma utf8_write_start:
  assumes "v < 0x10000"
  shows "utf8_write v \<noteq> [] \<and> \<not> utf8_is_cont (hd (utf8_write v))"
proof -
  consider "v < 128" | "128 \<le> v" "v < 0x800" | "0x800 \<le> v" by fastforce
  then show ?thesis
  proof cases
    case 1
    then have "v AND 0x7f = v" using less_mask_eq [of v 7] by (simp add: mask_eq_exp_minus_1)
    then have "(ucast v :: u8) AND 0x7f = ucast v" using payload [of v "0x7f"] by simp
    then have "(ucast v :: u8) AND 0xc0 = ucast v AND (0x7f AND 0xc0)" by (metis and.assoc)
    then have "(ucast v :: u8) AND 0xc0 = ucast v AND 0x40" by simp
    moreover have "ucast v AND 0x40 \<noteq> (0x80 :: u8)"
      using word_and_le1 [of "ucast v :: u8" "0x40"] by (auto simp: word_le_nat_alt)
    ultimately show ?thesis using 1 by (simp add: utf8_write_def utf8_is_cont_def)
  next
    case 2
    have "drop_bit 6 v < 32" by (rule drop_small(1) [OF 2(2)])
    from payload [OF small_masked(1) [OF this]] lead_byte2(4) [of "ucast (drop_bit 6 v)"] show ?thesis
      by (simp add: utf8_write_long(1) [OF 2] utf8_is_cont_def)
  next
    case 3
    have "drop_bit 12 v < 16" by (rule drop_small(2) [OF assms])
    from payload [OF small_masked(2) [OF this]] lead_byte3(5) [of "ucast (drop_bit 12 v)"] show ?thesis
      by (simp add: utf8_write_long(2) [OF 3 assms] utf8_is_cont_def)
  qed
qed

definition bmp :: "u32 \<Rightarrow> bool" where
  "bmp v \<longleftrightarrow> v < 0x10000"

definition utf8_text :: "u32 list \<Rightarrow> bytes" where
  "utf8_text vs = concat (map utf8_write vs)"

lemma utf8_text_simps [simp]:
  "utf8_text [] = []" "utf8_text (v # vs) = utf8_write v @ utf8_text vs"
  "utf8_text (vs @ ws) = utf8_text vs @ utf8_text ws"
  by (simp_all add: utf8_text_def)

lemma utf8_text_start: "list_all bmp vs \<Longrightarrow> utf8_text vs = [] \<or> \<not> utf8_is_cont (hd (utf8_text vs))"
  by (cases vs) (use utf8_write_start in \<open>auto simp: bmp_def\<close>)

lemma bmp_nonneg: "bmp v \<Longrightarrow> \<not> sint v < 0"
  using sint_small [of v] by (simp add: bmp_def word_less_nat_alt)

text \<open>Decoding a text gives back its code points, whatever character follows.\<close>

lemma utf8_points_text: "list_all bmp vs \<Longrightarrow> utf8_points (utf8_text vs) = vs"
proof (induction vs)
  case Nil
  then show ?case by (simp add: utf8_points.simps)
next
  case (Cons v vs)
  then have v: "bmp v" "list_all bmp vs" by simp_all
  have n: "utf8_next (utf8_write v @ utf8_text vs) = (v, utf8_text vs)"
    using v utf8_text_start [OF v(2)] by (intro utf8_next_write) (simp_all add: bmp_def)
  have "utf8_write v \<noteq> []" using utf8_write_start v(1) by (simp add: bmp_def)
  with n bmp_nonneg [OF v(1)] Cons.IH [OF v(2)] show ?case
    by (subst utf8_points.simps) simp
qed

fun ucs2_points :: "bytes \<Rightarrow> u32 list" where
  "ucs2_points (h # l # u) = (push_bit 8 (ucast h) OR ucast l) # ucs2_points u"
| "ucs2_points u = []"

lemma ucs2_point_bytes:
  fixes h l :: u8
  defines "v \<equiv> push_bit 8 (ucast h) OR ucast l :: u32"
  shows "bmp v" "ucs2_write v = [h, l]"
proof -
  have "v = take_bit 16 v"
    by (rule bit_word_eqI) (auto simp: v_def bit_take_bit_iff bit_or_iff bit_push_bit_iff bit_ucast_iff dest: bit_imp_le_length)
  then have "unat v = take_bit 16 (unat v)" by (metis unsigned_take_bit_eq)
  then show "bmp v" unfolding bmp_def word_less_nat_alt using take_bit_nat_less_exp [of 16 "unat v"] by simp
  have "(ucast (drop_bit 8 v) :: u8) = h" "(ucast v :: u8) = l"
    by (rule bit_word_eqI;
        auto simp: v_def bit_ucast_iff bit_drop_bit_eq bit_or_iff bit_push_bit_iff dest: bit_imp_le_length)+
  then show "ucs2_write v = [h, l]" by (simp add: ucs2_write_def)
qed

lemma ucs2_to_utf8_text: "length u = 2 * n \<Longrightarrow> ucs2_to_utf8 u n = utf8_text (ucs2_points u)"
  by (induction u n rule: ucs2_to_utf8.induct) auto

lemma ucs2_points_bmp: "list_all bmp (ucs2_points u)"
  by (induction u rule: ucs2_points.induct) (simp_all add: ucs2_point_bytes)

lemma ucs2_points_write: "even (length u) \<Longrightarrow> concat (map ucs2_write (ucs2_points u)) = u"
  by (induction u rule: ucs2_points.induct) (simp_all add: ucs2_point_bytes)

text \<open>
  Every string of 16 bit characters survives the conversion to UTF-8 and back.
\<close>

lemma ucs2_utf8_roundtrip:
  assumes "length ucs2 = 2 * n"
  shows "utf8_to_ucs2 (ucs2_to_utf8 ucs2 n) = ucs2"
  using assms
  by (simp add: ucs2_to_utf8_text utf8_to_ucs2_def utf8_points_text [OF ucs2_points_bmp] ucs2_points_write)

end
