(* ===== verification/Gsm_Pack.thy ===== *)
theory Gsm_Pack
  imports Gsm_Text
begin

text \<open>
  The septets of GSM text as a stream of bits, and the round trip between UTF-8 and packed GSM
  text: what the writer of \<open>utf8_to_gsm7\<close> stores is what the reader of \<open>utf8_from_gsm7\<close> finds.
\<close>

section \<open>Bit streams\<close>

definition byte_bits :: "bytes \<Rightarrow> bool list" where
  "byte_bits bs = concat (map (\<lambda>b. map (bit b) [0..<8]) bs)"

definition septet_bits :: "nat \<Rightarrow> bool list" where
  "septet_bits n = map (bit (of_nat n :: u32)) [0..<7]"

lemma byte_bits_simps [simp]:
  "byte_bits [] = []" "byte_bits (b # bs) = map (bit b) [0..<8] @ byte_bits bs"
  "byte_bits (as @ bs) = byte_bits as @ byte_bits bs"
  by (simp_all add: byte_bits_def)

lemma length_byte_bits [simp]: "length (byte_bits bs) = 8 * length bs"
  by (induction bs) simp_all

lemma length_septet_bits [simp]: "length (septet_bits n) = 7"
  by (simp add: septet_bits_def)

text \<open>The bits written so far and their invariant: the pad holds fewer than eight bits.\<close>

definition bw_stream :: "BWriterRec \<Rightarrow> bool list" where
  "bw_stream w = byte_bits (bw_dst w) @ map (bit (bw_pad w)) [0..<bw_bits w]"

definition bw_inv :: "BWriterRec \<Rightarrow> bool" where
  "bw_inv w \<longleftrightarrow> bw_bits w < 8 \<and> (\<forall>i\<ge>bw_bits w. \<not> bit (bw_pad w) i)"

lemma bit_septet_high: 
  assumes "n < 128" "7 \<le> i"
  shows "\<not> bit (of_nat n :: u32) i"
proof -
  have "(2::nat) ^ 7 \<le> 2 ^ i" using assms(2) by (intro power_increasing) auto
  with assms(1) have "n < 2 ^ i" by simp
  then have "\<not> bit n i" by (simp add: bit_iff_odd)
  then show ?thesis by (simp add: bit_of_nat_iff)
qed

lemma map_bit_or_push:
  fixes p v :: u32
  assumes "k + 7 \<le> 32" "\<forall>i\<ge>k. \<not> bit p i"
  shows "map (bit (p OR push_bit k v)) [0..<k + 7] = map (bit p) [0..<k] @ map (bit v) [0..<7]"
  using assms by (intro nth_equalityI) (auto simp: nth_append bit_or_iff bit_push_bit_iff)

lemma bwriter_add7_stream:
  assumes inv: "bw_inv w" and n: "n < 128"
  shows "bw_inv (bwriter_add7 n w)" "bw_stream (bwriter_add7 n w) = bw_stream w @ septet_bits n"
    "bw_offset (bwriter_add7 n w) = bw_offset w + 7"
proof -
  define k where "k = bw_bits w"
  define p where "p = bw_pad w OR push_bit k (of_nat n)"
  have k: "k < 8" and lo: "\<forall>i\<ge>k. \<not> bit (bw_pad w) i" using inv by (simp_all add: bw_inv_def k_def)
  have hi: "\<not> bit p i" if "k + 7 \<le> i" for i
    using that lo bit_septet_high [OF n, of "i - k"] by (auto simp: p_def bit_or_iff bit_push_bit_iff)
  have st: "map (bit p) [0..<k + 7] = map (bit (bw_pad w)) [0..<k] @ septet_bits n"
    using k lo unfolding p_def septet_bits_def by (intro map_bit_or_push) auto
  have a: "bwriter_add7 n w = (if k + 7 \<ge> 8
      then w\<lparr>bw_dst := bw_dst w @ [ucast p], bw_bits := k + 7 - 8, bw_pad := drop_bit 8 p, bw_offset := bw_offset w + 7\<rparr>
      else w\<lparr>bw_bits := k + 7, bw_pad := p, bw_offset := bw_offset w + 7\<rparr>)"
    by (simp add: bwriter_add7_def Let_def p_def k_def)
  show "bw_offset (bwriter_add7 n w) = bw_offset w + 7" by (simp add: a)
  show "bw_inv (bwriter_add7 n w)"
    using k hi by (auto simp: a bw_inv_def bit_drop_bit_eq)
  show "bw_stream (bwriter_add7 n w) = bw_stream w @ septet_bits n"
  proof (cases "k + 7 \<ge> 8")
    case True
    have "map (bit (ucast p :: u8)) [0..<8] @ map (bit (drop_bit 8 p)) [0..<k + 7 - 8] = map (bit p) [0..<k + 7]"
      using True by (intro nth_equalityI) (auto simp: nth_append bit_ucast_iff bit_drop_bit_eq)
    then show ?thesis using True st by (simp add: a bw_stream_def k_def [symmetric])
  next
    case False
    then show ?thesis using st by (simp add: a bw_stream_def k_def [symmetric])
  qed
qed

lemma bwriter_fold_stream:
  "bw_inv w \<Longrightarrow> list_all (\<lambda>n. n < 128) ns \<Longrightarrow>
   bw_inv (fold bwriter_add7 ns w) \<and>
   bw_stream (fold bwriter_add7 ns w) = bw_stream w @ concat (map septet_bits ns) \<and>
   bw_offset (fold bwriter_add7 ns w) = bw_offset w + 7 * length ns"
  by (induction ns arbitrary: w) (simp_all add: bwriter_add7_stream)

lemma bwriter_done_stream:
  assumes "bw_inv w"
  shows "take (length (bw_stream w)) (byte_bits (fst (bwriter_done w))) = bw_stream w"
proof (cases "bw_bits w > 0")
  case True
  have "take (bw_bits w) (map (bit (ucast (bw_pad w) :: u8)) [0..<8]) = map (bit (bw_pad w)) [0..<bw_bits w]"
    using assms by (intro nth_equalityI) (auto simp: bw_inv_def bit_ucast_iff)
  then show ?thesis using True by (simp add: bwriter_done_def bw_stream_def)
qed (simp add: bwriter_done_def bw_stream_def)

section \<open>Reading septets\<close>

lemma gsm7_septet_bits:
  assumes shift: "shift < 8" and enough: "shift + 7 \<le> 8 * length src"
  obtains c where "gsm7_septet src shift = Inr c" "map (bit c) [0..<7] = take 7 (drop shift (byte_bits src))"
    "\<forall>i\<ge>7. \<not> bit c i"
proof -
  obtain b0 rest where src: "src = b0 # rest" using enough by (cases src) auto
  have m: "(0x7f :: u32) = mask 7" by (simp add: mask_eq_exp_minus_1)
  show thesis
  proof (cases "shift > 1")
    case True
    then obtain b1 rest1 where rest: "rest = b1 # rest1" using enough src by (cases rest) auto
    let ?c = "(push_bit (8 - shift) (ucast b1) OR (drop_bit shift (ucast b0) AND 0x7f)) AND (0x7f :: u32)"
    show thesis
    proof (rule that [of ?c])
      show "gsm7_septet src shift = Inr ?c" using True by (simp add: gsm7_septet_def src rest Let_def)
      show "map (bit ?c) [0..<7] = take 7 (drop shift (byte_bits src))"
        using shift True
        by (intro nth_equalityI)
          (auto simp: src rest nth_append m bit_and_iff bit_or_iff bit_push_bit_iff bit_drop_bit_eq
            bit_mask_iff bit_ucast_iff dest: bit_imp_le_length)
      show "\<forall>i\<ge>7. \<not> bit ?c i" by (simp add: m bit_and_iff bit_mask_iff)
    qed
  next
    case False
    let ?c = "drop_bit shift (ucast b0) AND (0x7f :: u32)"
    show thesis
    proof (rule that [of ?c])
      show "gsm7_septet src shift = Inr ?c" using False by (simp add: gsm7_septet_def src Let_def)
      show "map (bit ?c) [0..<7] = take 7 (drop shift (byte_bits src))"
        using False
        by (intro nth_equalityI)
          (auto simp: src nth_append m bit_and_iff bit_drop_bit_eq bit_mask_iff bit_ucast_iff)
      show "\<forall>i\<ge>7. \<not> bit ?c i" by (simp add: m bit_and_iff bit_mask_iff)
    qed
  qed
qed

lemma gsm7_septet_value:
  assumes shift: "shift < 8" and n: "n < 128"
    and bits: "take 7 (drop shift (byte_bits src)) = septet_bits n"
  shows "gsm7_septet src shift = Inr (of_nat n)"
proof -
  have "length (take 7 (drop shift (byte_bits src))) = 7" unfolding bits by simp
  then have "shift + 7 \<le> 8 * length src" by simp
  then obtain c where c: "gsm7_septet src shift = Inr c" "map (bit c) [0..<7] = septet_bits n" "\<forall>i\<ge>7. \<not> bit c i"
    using gsm7_septet_bits [OF shift] bits by metis
  have "c = of_nat n"
  proof (rule bit_word_eqI)
    fix i assume "i < LENGTH(32)"
    show "bit c i \<longleftrightarrow> bit (of_nat n :: u32) i"
    proof (cases "i < 7")
      case True
      then have "map (bit c) [0..<7] ! i = septet_bits n ! i" using c(2) by simp
      with True show ?thesis by (simp add: septet_bits_def)
    next
      case False
      with c(3) bit_septet_high [OF n] show ?thesis by simp
    qed
  qed
  with c(1) show ?thesis by simp
qed

text \<open>The decoder on a list of septets: once escaped, it stays so.\<close>

fun septets_decode :: "bool \<Rightarrow> nat list \<Rightarrow> u32 list" where
  "septets_decode escaped [] = []"
| "septets_decode escaped (n # ns) =
     (if escaped then gsm7bits_extend_to_unicode ! n # septets_decode True ns
      else if n = GSM_7BITS_ESCAPE then septets_decode True ns
      else gsm7bits_to_unicode ! n # septets_decode False ns)"

lemma unat_septet: "n < 128 \<Longrightarrow> unat (of_nat n :: u32) = n"
  by (simp add: unat_of_nat take_bit_eq_mod)

lemma gsm7_decode_stream:
  "shift < 8 \<Longrightarrow> list_all (\<lambda>n. n < 128) ns \<Longrightarrow>
   take (7 * length ns) (drop shift (byte_bits src)) = concat (map septet_bits ns) \<Longrightarrow>
   gsm7_decode src shift escaped (length ns) = Inr (utf8_text (septets_decode escaped ns))"
proof (induction ns arbitrary: src shift escaped)
  case (Cons n ns)
  define src' where "src' = (if shift + 7 \<ge> 8 then tl src else src)"
  define shift' where "shift' = (if shift + 7 \<ge> 8 then shift + 7 - 8 else shift + 7)"
  have n: "n < 128" "list_all (\<lambda>n. n < 128) ns" using Cons.prems(2) by simp_all
  have split: "take 7 (drop shift (byte_bits src)) @ take (7 * length ns) (drop (shift + 7) (byte_bits src))
      = septet_bits n @ concat (map septet_bits ns)"
    using Cons.prems(3) take_add [of 7 "7 * length ns" "drop shift (byte_bits src)"] by (simp add: add.commute)
  have "length (take (7 * length (n # ns)) (drop shift (byte_bits src))) = 7 * length (n # ns)"
    unfolding Cons.prems(3) by (simp add: length_concat comp_def sum_list_triv)
  then have len: "shift + 7 * length (n # ns) \<le> 8 * length src" by simp
  then have "length (take 7 (drop shift (byte_bits src))) = 7" by simp
  with split have 1: "take 7 (drop shift (byte_bits src)) = septet_bits n"
    and 2: "take (7 * length ns) (drop (shift + 7) (byte_bits src)) = concat (map septet_bits ns)"
    using append_eq_append_conv [of "take 7 (drop shift (byte_bits src))" "septet_bits n"] by simp_all
  obtain b0 rest where src: "src = b0 # rest" using len by (cases src) auto
  have "drop shift' (byte_bits src') = drop (shift + 7) (byte_bits src)"
    by (simp add: src'_def shift'_def src)
  with 2 have "take (7 * length ns) (drop shift' (byte_bits src')) = concat (map septet_bits ns)" by simp
  moreover have "shift' < 8" using Cons.prems(1) by (auto simp: shift'_def)
  ultimately have ih: "gsm7_decode src' shift' e (length ns) = Inr (utf8_text (septets_decode e ns))" for e
    using n(2) by (intro Cons.IH)
  have nxt: "(if shift + 7 \<ge> 8 then (tl src, shift + 7 - 8) else (src, shift + 7)) = (src', shift')"
    by (simp add: src'_def shift'_def)
  show ?case
    unfolding length_Cons gsm7_decode.simps nxt gsm7_septet_value [OF Cons.prems(1) n(1) 1]
    by (simp add: ih unat_septet [OF n(1)])
qed simp

section \<open>The alphabet\<close>

definition gsm7_basic :: "u32 \<Rightarrow> bool" where
  "gsm7_basic u \<longleftrightarrow> u \<noteq> 0 \<and> unichar_to_gsm7 u \<noteq> None"

definition gsm7_extended :: "u32 \<Rightarrow> bool" where
  "gsm7_extended u \<longleftrightarrow> unichar_to_gsm7 u = None \<and> unichar_to_gsm7_extend u \<noteq> None"

lemma unichar_to_gsm7_Some:
  "unichar_to_gsm7 u = Some n \<Longrightarrow> n < 128 \<and> gsm7bits_to_unicode ! n = u"
  "unichar_to_gsm7_extend u = Some n \<Longrightarrow> n < 128 \<and> gsm7bits_extend_to_unicode ! n = u"
  by (auto simp: unichar_to_gsm7_def unichar_to_gsm7_extend_def find_Some_iff)

lemma tables_bmp: "list_all bmp gsm7bits_to_unicode" "list_all bmp gsm7bits_extend_to_unicode"
  by (simp_all add: gsm7bits_to_unicode_def gsm7bits_extend_to_unicode_def bmp_def)

lemma tables_nth:
  "length gsm7bits_to_unicode = 128" "length gsm7bits_extend_to_unicode = 128"
  "gsm7bits_to_unicode ! GSM_7BITS_ESCAPE = 0"
  by (simp_all add: gsm7bits_to_unicode_def gsm7bits_extend_to_unicode_def GSM_7BITS_ESCAPE_def)

lemma gsm7_basic_septet:
  assumes "gsm7_basic u"
  obtains n where "gsm7_septets u = [n]" "n < 128" "n \<noteq> GSM_7BITS_ESCAPE" "gsm7bits_to_unicode ! n = u" "bmp u"
    "unichar_to_gsm7_count u = 1"
proof -
  from assms obtain n where n: "unichar_to_gsm7 u = Some n" by (auto simp: gsm7_basic_def)
  from unichar_to_gsm7_Some(1) [OF n] have t: "n < 128" "gsm7bits_to_unicode ! n = u" by simp_all
  moreover have "n \<noteq> GSM_7BITS_ESCAPE" using t(2) tables_nth(3) assms by (auto simp: gsm7_basic_def)
  moreover have "bmp u" using t tables_bmp(1) tables_nth(1) by (auto simp: list_all_length)
  ultimately show thesis using that n by (simp add: gsm7_septets_def unichar_to_gsm7_count_def)
qed

lemma gsm7_extended_septet:
  assumes "gsm7_extended u"
  obtains n where "gsm7_septets u = [GSM_7BITS_ESCAPE, n]" "n < 128" "gsm7bits_extend_to_unicode ! n = u" "bmp u"
    "unichar_to_gsm7_count u = 2"
proof -
  from assms obtain n where n: "unichar_to_gsm7 u = None" "unichar_to_gsm7_extend u = Some n"
    by (auto simp: gsm7_extended_def)
  from unichar_to_gsm7_Some(2) [OF n(2)] have t: "n < 128" "gsm7bits_extend_to_unicode ! n = u" by simp_all
  moreover have "bmp u" using t tables_bmp(2) tables_nth(2) by (auto simp: list_all_length)
  ultimately show thesis using that n by (simp add: gsm7_septets_def unichar_to_gsm7_count_def)
qed

definition gsm7_code :: "u32 \<Rightarrow> nat" where
  "gsm7_code u = (case unichar_to_gsm7 u of None \<Rightarrow> 0 | Some n \<Rightarrow> n)"

lemma gsm7_basic_text:
  "list_all gsm7_basic us \<Longrightarrow>
   concat (map gsm7_septets us) = map gsm7_code us \<and> list_all bmp us \<and> list_all (\<lambda>n. n < 128) (map gsm7_code us) \<and>
   septets_decode False (map gsm7_code us @ ns) = us @ septets_decode False ns \<and>
   septets_decode True (map gsm7_code us) = map (\<lambda>u. gsm7bits_extend_to_unicode ! gsm7_code u) us"
proof (induction us)
  case (Cons u us)
  then have "gsm7_basic u" by simp
  then obtain n where n: "gsm7_septets u = [n]" "n < 128" "n \<noteq> GSM_7BITS_ESCAPE" "gsm7bits_to_unicode ! n = u" "bmp u"
    by (rule gsm7_basic_septet)
  then have "gsm7_code u = n"
    by (auto simp: gsm7_septets_def gsm7_code_def split: option.splits)
      (use \<open>gsm7_basic u\<close> in \<open>auto simp: gsm7_basic_def\<close>)
  with Cons n show ?case by simp
qed simp

lemma gsm7_extended_list:
  assumes "gsm7_extended e"
  shows "list_all bmp [e]" "list_all (\<lambda>n. n < 128) (concat (map gsm7_septets [e]))"
    "septets_decode False (concat (map gsm7_septets [e])) = [e]" "list_all gsm7_extended [e]"
proof -
  obtain n where "gsm7_septets e = [GSM_7BITS_ESCAPE, n]" "n < 128" "gsm7bits_extend_to_unicode ! n = e" "bmp e"
    using assms by (rule gsm7_extended_septet)
  then show "list_all bmp [e]" "list_all (\<lambda>n. n < 128) (concat (map gsm7_septets [e]))"
    "septets_decode False (concat (map gsm7_septets [e])) = [e]" "list_all gsm7_extended [e]"
    using assms by (simp_all add: GSM_7BITS_ESCAPE_def)
qed

section \<open>Round trips\<close>

lemma bw_init_0: "bw_inv (bwriter_init dst 0)" "bw_stream (bwriter_init dst 0) = []" "bw_offset (bwriter_init dst 0) = 0"
  by (simp_all add: bwriter_init_def bw_inv_def bw_stream_def)

text \<open>What is stored for a text, and what reading it back gives.\<close>

lemma gsm7_store_read:
  assumes "list_all bmp us" "list_all (\<lambda>n. n < 128) (concat (map gsm7_septets us))"
  defines "ns \<equiv> concat (map gsm7_septets us)"
  shows "snd (utf8_to_gsm7 (utf8_text us) dst 0) = 7 * length ns"
    "utf8_from_gsm7 (fst (utf8_to_gsm7 (utf8_text us) dst 0)) 0 (length ns) = Inr (utf8_text (septets_decode False ns))"
proof -
  define w where "w = fold bwriter_add7 ns (bwriter_init dst 0)"
  have e: "utf8_to_gsm7 (utf8_text us) dst 0 = bwriter_done w"
    using assms(1) by (simp add: utf8_to_gsm7_def utf8_points_text ns_def w_def)
  have w: "bw_inv w" "bw_stream w = concat (map septet_bits ns)" "bw_offset w = 7 * length ns"
    using bwriter_fold_stream [OF bw_init_0(1), of ns] assms(2) by (simp_all add: w_def bw_init_0 ns_def)
  show "snd (utf8_to_gsm7 (utf8_text us) dst 0) = 7 * length ns"
    by (simp add: e bwriter_done_def w(3))
  have l: "length (bw_stream w) = 7 * length ns"
    by (simp add: w(2) length_concat comp_def sum_list_triv)
  have "take (7 * length ns) (drop 0 (byte_bits (fst (bwriter_done w)))) = concat (map septet_bits ns)"
    using bwriter_done_stream [OF w(1), unfolded l] w(2) by simp
  then show "utf8_from_gsm7 (fst (utf8_to_gsm7 (utf8_text us) dst 0)) 0 (length ns) = Inr (utf8_text (septets_decode False ns))"
    unfolding e utf8_from_gsm7_def using gsm7_decode_stream [of 0 ns] assms(2) by (simp add: ns_def)
qed

lemma utf8_to_gsm7_count_text:
  "list_all bmp us \<Longrightarrow> list_all (\<lambda>u. gsm7_basic u \<or> gsm7_extended u) us \<Longrightarrow>
   utf8_to_gsm7_count (utf8_text us) = length (concat (map gsm7_septets us))"
proof (simp add: utf8_to_gsm7_count_def utf8_points_text, induction us)
  case (Cons u us)
  have "(let len = unichar_to_gsm7_count u in if len = 0 then 1 else len) = length (gsm7_septets u)"
    using Cons.prems gsm7_basic_septet [of u] gsm7_extended_septet [of u]
    by (auto simp: gsm7_septets_def unichar_to_gsm7_count_def gsm7_basic_def gsm7_extended_def Let_def split: option.splits)
  with Cons show ?case by simp
qed simp

text \<open>
  C16: Packed GSM text round-trips if it consists of characters of the basic alphabet, followed by at
  most one extended character: it is read back exactly from the septets that are stored
  for it, and the number of septets announced is the number stored. (The value the encoder returns
  is seven times this number. Characters behind an extended one are not read back, see below.)
\<close>

theorem gsm7_roundtrip:
  assumes "list_all gsm7_basic us" "es = [] \<or> (\<exists>e. es = [e] \<and> gsm7_extended e)"
  defines "t \<equiv> utf8_text (us @ es)"
  shows "utf8_from_gsm7 (fst (utf8_to_gsm7 t dst 0)) 0 (utf8_to_gsm7_count t) = Inr t \<and>
    snd (utf8_to_gsm7 t dst 0) = 7 * utf8_to_gsm7_count t"
proof -
  note b = gsm7_basic_text [OF assms(1)]
  have es: "list_all bmp es \<and> list_all (\<lambda>n. n < 128) (concat (map gsm7_septets es)) \<and>
    septets_decode False (concat (map gsm7_septets es)) = es \<and> list_all gsm7_extended es"
    using assms(2)
  proof
    assume "\<exists>e. es = [e] \<and> gsm7_extended e"
    then obtain e where e: "es = [e]" "gsm7_extended e" by blast
    show ?thesis unfolding e(1) using gsm7_extended_list [OF e(2)] by blast
  qed simp
  have all: "list_all bmp (us @ es)" "list_all (\<lambda>n. n < 128) (concat (map gsm7_septets (us @ es)))"
    using b es by simp_all
  have "list_all (\<lambda>u. gsm7_basic u \<or> gsm7_extended u) (us @ es)"
    using assms(1) es by (auto simp: list_all_iff)
  with all(1) have c: "utf8_to_gsm7_count (utf8_text (us @ es)) = length (concat (map gsm7_septets (us @ es)))"
    by (intro utf8_to_gsm7_count_text)
  have "septets_decode False (concat (map gsm7_septets (us @ es))) = us @ es" using b es by simp
  with gsm7_store_read [OF all, of dst] show ?thesis unfolding t_def c by (simp only: simp_thms)
qed

lemma gsm7_examples:
  "unichar_to_gsm7 0x48 = Some 72" "unichar_to_gsm7 0x69 = Some 105" "unichar_to_gsm7 0x41 = Some 65"
  "unichar_to_gsm7 0x20ac = None" "unichar_to_gsm7_extend 0x20ac = Some 101"
  "unichar_to_gsm7 0x5b = None" "unichar_to_gsm7_extend 0x5b = Some 60"
  by code_simp+

theorem gsm7_roundtrip_witness:
  "utf8_from_gsm7 (fst (utf8_to_gsm7 (utf8_text [0x48, 0x69, 0x20ac]) [] 0)) 0
     (utf8_to_gsm7_count (utf8_text [0x48, 0x69, 0x20ac])) = Inr (utf8_text [0x48, 0x69, 0x20ac])"
  using gsm7_roundtrip [of "[0x48, 0x69]" "[0x20ac]" "[]"]
  by (simp add: gsm7_basic_def gsm7_extended_def gsm7_examples)

text \<open>
  The escape is never reset: after the first extended character of a packed text, every
  further character of the basic alphabet is read in the extension table.
\<close>

lemma gsm7_escape_sticks:
  assumes "list_all gsm7_basic us" "gsm7_extended e" "list_all gsm7_basic vs"
  defines "t \<equiv> utf8_text (us @ [e] @ vs)"
  shows "utf8_from_gsm7 (fst (utf8_to_gsm7 t dst 0)) 0 (utf8_to_gsm7_count t) =
    Inr (utf8_text (us @ [e] @ map (\<lambda>v. gsm7bits_extend_to_unicode ! gsm7_code v) vs))"
proof -
  obtain n where e: "gsm7_septets e = [GSM_7BITS_ESCAPE, n]" "n < 128" "gsm7bits_extend_to_unicode ! n = e" "bmp e"
    using assms(2) by (rule gsm7_extended_septet)
  note b = gsm7_basic_text [OF assms(1)] gsm7_basic_text [OF assms(3)]
  have all: "list_all bmp (us @ [e] @ vs)" "list_all (\<lambda>n. n < 128) (concat (map gsm7_septets (us @ [e] @ vs)))"
    using b e by (simp_all add: GSM_7BITS_ESCAPE_def)
  have "list_all (\<lambda>u. gsm7_basic u \<or> gsm7_extended u) (us @ [e] @ vs)"
    using assms by (auto simp: list_all_iff)
  with all(1) have c: "utf8_to_gsm7_count (utf8_text (us @ [e] @ vs)) = length (concat (map gsm7_septets (us @ [e] @ vs)))"
    by (intro utf8_to_gsm7_count_text)
  have "septets_decode False (concat (map gsm7_septets (us @ [e] @ vs))) =
      us @ [e] @ map (\<lambda>v. gsm7bits_extend_to_unicode ! gsm7_code v) vs"
    using b(1) b(2) e by simp
  from gsm7_store_read(2) [OF all, of dst, unfolded this] show ?thesis unfolding t_def c .
qed

end
