(* ===== verification/Gsm_Septets.thy ===== *)
theory Gsm_Septets
  imports Gsm_Pack
begin

text \<open>
  Packed text as the standard has it (GSM 03.38 and 03.40), as a reference that does not depend on
  the encoder and the decoder of \<open>telephony/gsm.c\<close>: the septet with index \<open>i\<close> of user data consists of the
  bits \<open>7 * i\<close> to \<open>7 * i + 6\<close>, with the lowest bits of every byte first.
\<close>

definition gsm_septet :: "bytes \<Rightarrow> nat \<Rightarrow> nat" where
  "gsm_septet ud i = horner_sum of_bool 2 (take 7 (drop (7 * i) (byte_bits ud)))"

text \<open>The characters of the basic alphabet in the septets from \<open>i\<close> up to, but without, \<open>n\<close>.\<close>

definition gsm_chars :: "bytes \<Rightarrow> nat \<Rightarrow> nat \<Rightarrow> u32 list" where
  "gsm_chars ud i n = map (\<lambda>k. gsm7bits_to_unicode ! gsm_septet ud k) [i..<n]"

lemma septet_bits_value: "n < 128 \<Longrightarrow> horner_sum of_bool 2 (septet_bits n) = n"
proof -
  assume n: "n < 128"
  have "septet_bits n = map (bit n) [0..<7]"
    unfolding septet_bits_def by (rule map_cong) (auto simp: bit_of_nat_iff)
  then have "horner_sum of_bool 2 (septet_bits n) = take_bit 7 n" by (simp only: horner_sum_bit_eq_take_bit)
  with n show ?thesis by (simp add: take_bit_nat_eq_self)
qed

lemma value_septet_bits:
  assumes "length xs = 7"
  shows "septet_bits (horner_sum of_bool 2 xs) = xs"
proof (rule nth_equalityI)
  fix i assume "i < length (septet_bits (horner_sum of_bool 2 xs))"
  then have i: "i < 7" by simp
  with assms show "septet_bits (horner_sum of_bool 2 xs) ! i = xs ! i"
    by (simp add: septet_bits_def bit_of_nat_iff bit_horner_sum_bit_iff)
qed (simp add: assms)

lemma take_septets: "i < length ns \<Longrightarrow> take 7 (drop (7 * i) (concat (map septet_bits ns) @ zs)) = septet_bits (ns ! i)"
proof (induction ns arbitrary: i)
  case (Cons n ns)
  then show ?case by (cases i) simp_all
qed simp

text \<open>Septets that are written one after the other, behind \<open>p\<close> septets of something else.\<close>

lemma gsm_septets_stored:
  assumes "byte_bits ud = pre @ concat (map septet_bits ns) @ post" "length pre = 7 * p" "list_all (\<lambda>n. n < 128) ns"
  shows "map (gsm_septet ud) [p..<p + length ns] = ns"
proof (rule nth_equalityI)
  fix i assume "i < length (map (gsm_septet ud) [p..<p + length ns])"
  then have i: "i < length ns" by simp
  have "drop (7 * (p + i)) (byte_bits ud) = drop (7 * i) (concat (map septet_bits ns) @ post)"
    using assms(1,2) by (simp add: algebra_simps)
  then have "gsm_septet ud (p + i) = horner_sum of_bool 2 (septet_bits (ns ! i))"
    unfolding gsm_septet_def by (simp only: take_septets [OF i])
  also have "\<dots> = ns ! i" using i assms(3) by (intro septet_bits_value) (simp add: list_all_length)
  finally show "map (gsm_septet ud) [p..<p + length ns] ! i = ns ! i" using i by simp
qed simp

lemma septets_of_bits:
  "7 * n \<le> length bits \<Longrightarrow>
   concat (map (\<lambda>i. septet_bits (horner_sum of_bool 2 (take 7 (drop (7 * i) bits)))) [0..<n]) = take (7 * n) bits"
proof (induction n arbitrary: bits)
  case (Suc n)
  have "concat (map (\<lambda>i. septet_bits (horner_sum of_bool 2 (take 7 (drop (7 * i) (drop 7 bits))))) [0..<n]) = take (7 * n) (drop 7 bits)"
    using Suc.prems by (intro Suc.IH) simp
  then have "concat (map (\<lambda>i. septet_bits (horner_sum of_bool 2 (take 7 (drop (7 * Suc i) bits)))) [0..<n]) = take (7 * n) (drop 7 bits)"
    by (simp add: add.commute)
  moreover have "septet_bits (horner_sum of_bool 2 (take 7 bits)) = take 7 bits" using Suc.prems by (intro value_septet_bits) simp
  moreover have "take (7 * Suc n) bits = take 7 bits @ take (7 * n) (drop 7 bits)" using take_add [of 7 "7 * n" bits] by simp
  ultimately show ?case unfolding map_upt_Suc by simp
qed simp

text \<open>The decoder reads user data as the standard does, as long as the escape code does not occur.\<close>

lemma utf8_from_gsm7_septets:
  assumes "map (gsm_septet ud) [0..<length us] = map gsm7_code us" "7 * length us \<le> 8 * length ud" "list_all gsm7_basic us"
  shows "utf8_from_gsm7 ud 0 (length us) = Inr (utf8_text us)"
proof -
  have b: "list_all (\<lambda>n. n < 128) (map gsm7_code us)" "septets_decode False (map gsm7_code us) = us"
    using gsm7_basic_text [OF assms(3), of "[]"] by simp_all
  have "take (7 * length us) (byte_bits ud) = concat (map septet_bits (map (gsm_septet ud) [0..<length us]))"
    using septets_of_bits [of "length us" "byte_bits ud"] assms(2) by (simp add: gsm_septet_def comp_def)
  then have "take (7 * length (map gsm7_code us)) (drop 0 (byte_bits ud)) = concat (map septet_bits (map gsm7_code us))"
    unfolding assms(1) by simp
  from gsm7_decode_stream [OF _ b(1) this, of False] show ?thesis by (simp add: utf8_from_gsm7_def b(2))
qed

text \<open>What the encoder stores, from the first bit or from the second one of a zero byte.\<close>

lemma utf8_to_gsm7_bits:
  assumes "list_all gsm7_basic us" "p < 8"
  obtains post where "byte_bits (fst (utf8_to_gsm7 (utf8_text us) [0] p)) = replicate p False @ concat (map septet_bits (map gsm7_code us)) @ post"
proof -
  let ?ns = "map gsm7_code us" and ?w0 = "bwriter_init [0] p"
  have b: "concat (map gsm7_septets us) = ?ns" "list_all bmp us" "list_all (\<lambda>n. n < 128) ?ns"
    using gsm7_basic_text [OF assms(1), of "[]"] by simp_all
  have w0: "bw_inv ?w0" "bw_stream ?w0 = replicate p False"
    using assms(2) by (auto simp: bwriter_init_def bw_inv_def bw_stream_def map_replicate_const Let_def intro!: nth_equalityI)
  define w where "w = fold bwriter_add7 ?ns ?w0"
  have w: "bw_inv w" "bw_stream w = replicate p False @ concat (map septet_bits ?ns)"
    using bwriter_fold_stream [OF w0(1) b(3)] w0(2) by (simp_all add: w_def)
  have "take (length (bw_stream w)) (byte_bits (fst (bwriter_done w))) = bw_stream w" by (rule bwriter_done_stream [OF w(1)])
  then have "byte_bits (fst (bwriter_done w)) = bw_stream w @ drop (length (bw_stream w)) (byte_bits (fst (bwriter_done w)))"
    by (metis append_take_drop_id)
  moreover have "utf8_to_gsm7 (utf8_text us) [0] p = bwriter_done w"
    using b(1,2) by (simp add: utf8_to_gsm7_def utf8_points_text w_def)
  ultimately show thesis using that w(2) by (metis append_assoc)
qed

lemma gsm7_code_char: "list_all gsm7_basic us \<Longrightarrow> map (\<lambda>n. gsm7bits_to_unicode ! n) (map gsm7_code us) = us"
proof (induction us)
  case (Cons u us)
  then have "gsm7_basic u" by simp
  then obtain n where n: "gsm7_septets u = [n]" "gsm7bits_to_unicode ! n = u" by (rule gsm7_basic_septet)
  moreover have "gsm7_septets u = [gsm7_code u]" using gsm7_basic_text [of "[u]" "[]"] \<open>gsm7_basic u\<close> by simp
  ultimately show ?case using Cons by simp
qed simp

end
