(* ===== verification/Gsm_Rope.thy ===== *)
theory Gsm_Rope
  imports Prelude
begin

text \<open>
  The growing byte buffers of \<open>telephony/gsm.c\<close>. A rope without an array only counts; one with an
  array starts in 16 bytes inside the structure or in an allocated array.

  \<open>junk n\<close> is the contents of \<open>n\<close> bytes of fresh memory; allocation does not fail in the model.
\<close>

datatype rope_mem = Rope_null | Rope_inline bytes | Rope_heap bytes

record GsmRopeRec =
  rope_data :: rope_mem
  rope_pos :: nat
  rope_max :: nat
  rope_error :: bool

definition rope_inline_size :: nat where
  "rope_inline_size = 16"

definition gsm_rope_init :: GsmRopeRec where
  "gsm_rope_init = \<lparr>rope_data = Rope_null, rope_pos = 0, rope_max = 0, rope_error = False\<rparr>"

definition gsm_rope_init_alloc :: "bytes \<Rightarrow> nat \<Rightarrow> GsmRopeRec" where
  "gsm_rope_init_alloc data0 count =
     (if count > 0 then
        \<lparr>rope_data = Rope_heap (replicate count 0), rope_pos = 0, rope_max = count, rope_error = False\<rparr>
      else
        \<lparr>rope_data = Rope_inline data0, rope_pos = 0, rope_max = rope_inline_size, rope_error = False\<rparr>)"

fun rope_bytes :: "rope_mem \<Rightarrow> bytes" where
  "rope_bytes Rope_null = []"
| "rope_bytes (Rope_inline b) = b"
| "rope_bytes (Rope_heap b) = b"

fun rope_store :: "rope_mem \<Rightarrow> nat \<Rightarrow> bytes \<Rightarrow> rope_mem" where
  "rope_store Rope_null pos src = Rope_null"
| "rope_store (Rope_inline b) pos src = Rope_inline (seg_write b pos src)"
| "rope_store (Rope_heap b) pos src = Rope_heap (seg_write b pos src)"

text \<open>The result of \<open>gsm_rope_done\<close> and the reset rope; the array of \<open>gsm_rope_done_acquire\<close>.\<close>

definition gsm_rope_done :: "GsmRopeRec \<Rightarrow> bool \<times> GsmRopeRec" where
  "gsm_rope_done rope = (rope_error rope, gsm_rope_init)"

definition gsm_rope_done_acquire :: "GsmRopeRec \<Rightarrow> bytes option \<times> nat" where
  "gsm_rope_done_acquire rope =
     (case rope_data rope of
        Rope_null \<Rightarrow> (None, rope_pos rope)
      | Rope_inline b \<Rightarrow> (Some (take (rope_pos rope) b), rope_pos rope)
      | Rope_heap b \<Rightarrow> (Some b, rope_pos rope))"

function rope_grow :: "nat \<Rightarrow> nat \<Rightarrow> nat" where
  "rope_grow new_max new_count =
     (if new_max < new_count then rope_grow (new_max + new_max div 2 + 4) new_count else new_max)"
  by pat_completeness auto
termination
  by (relation "measure (\<lambda>(m, c). c - m)") auto

declare rope_grow.simps [simp del]

text \<open>\<open>realloc\<close> keeps the old array only if it was allocated: the bytes inside the structure are lost.\<close>

definition gsm_rope_ensure :: "(nat \<Rightarrow> bytes) \<Rightarrow> nat \<Rightarrow> GsmRopeRec \<Rightarrow> GsmRopeRec" where
  "gsm_rope_ensure junk new_count rope =
     (let new_max = rope_grow (rope_max rope) new_count in
      case rope_data rope of
        Rope_null \<Rightarrow> rope\<lparr>rope_max := new_count\<rparr>
      | Rope_inline b \<Rightarrow> rope\<lparr>rope_data := Rope_heap (junk new_max), rope_max := new_max\<rparr>
      | Rope_heap b \<Rightarrow> rope\<lparr>rope_data := Rope_heap (take new_max (b @ junk (new_max - length b))), rope_max := new_max\<rparr>)"

definition gsm_rope_can_grow :: "(nat \<Rightarrow> bytes) \<Rightarrow> nat \<Rightarrow> GsmRopeRec \<Rightarrow> bool \<times> GsmRopeRec" where
  "gsm_rope_can_grow junk count rope =
     (if rope_data rope = Rope_null \<or> rope_error rope then (False, rope)
      else if rope_pos rope + count > rope_max rope then
        (True, gsm_rope_ensure junk (rope_pos rope + count) rope)
      else (True, rope))"

definition gsm_rope_add :: "(nat \<Rightarrow> bytes) \<Rightarrow> bytes \<Rightarrow> GsmRopeRec \<Rightarrow> GsmRopeRec" where
  "gsm_rope_add junk buf rope =
     (let (ok, r) = gsm_rope_can_grow junk (length buf) rope;
          r1 = (if ok then r\<lparr>rope_data := rope_store (rope_data r) (rope_pos r) buf\<rparr> else r)
      in r1\<lparr>rope_pos := rope_pos r1 + length buf\<rparr>)"

definition gsm_rope_add_c :: "(nat \<Rightarrow> bytes) \<Rightarrow> u8 \<Rightarrow> GsmRopeRec \<Rightarrow> GsmRopeRec" where
  "gsm_rope_add_c junk c rope = gsm_rope_add junk [c] rope"

text \<open>Reserving gives the position of the reserved bytes, if there is an array.\<close>

definition gsm_rope_reserve :: "(nat \<Rightarrow> bytes) \<Rightarrow> nat \<Rightarrow> GsmRopeRec \<Rightarrow> nat option \<times> GsmRopeRec" where
  "gsm_rope_reserve junk count rope =
     (let (ok, r) = gsm_rope_can_grow junk count rope
      in (if ok then Some (rope_pos r) else None, r\<lparr>rope_pos := rope_pos r + count\<rparr>))"

section \<open>Ropes hold what was added\<close>

text \<open>
  \<open>rope_holds rope bs\<close>: the rope has no error, counts the bytes \<open>bs\<close>, and, if it has an array, the
  array starts with them. \<open>rope_room\<close> says that \<open>n\<close> more bytes fit without growing.
\<close>

definition rope_holds :: "GsmRopeRec \<Rightarrow> bytes \<Rightarrow> bool" where
  "rope_holds rope bs \<longleftrightarrow> \<not> rope_error rope \<and> rope_pos rope = length bs \<and>
     (rope_data rope \<noteq> Rope_null \<longrightarrow>
        length (rope_bytes (rope_data rope)) = rope_max rope \<and> length bs \<le> rope_max rope \<and>
        take (length bs) (rope_bytes (rope_data rope)) = bs)"

definition rope_room :: "GsmRopeRec \<Rightarrow> nat \<Rightarrow> bool" where
  "rope_room rope n \<longleftrightarrow> rope_data rope = Rope_null \<or> rope_pos rope + n \<le> rope_max rope"

lemma seg_write_prefix:
  assumes "length pre \<le> length b" "take (length pre) b = pre" "length pre + length src \<le> length b"
  shows "take (length (pre @ src)) (seg_write b (length pre) src) = pre @ src"
  using assms by (simp add: seg_write_def)

lemma rope_store_bytes [simp]:
  "rope_data r \<noteq> Rope_null \<Longrightarrow> rope_bytes (rope_store (rope_data r) pos src) = seg_write (rope_bytes (rope_data r)) pos src"
  "rope_store m pos src = Rope_null \<longleftrightarrow> m = Rope_null"
  by (cases "rope_data r"; simp) (cases m; simp)

lemma rope_add_holds:
  assumes "rope_holds rope bs" "rope_room rope (length src)"
  shows "rope_holds (gsm_rope_add junk src rope) (bs @ src)"
    "rope_room rope (length src + n) \<Longrightarrow> rope_room (gsm_rope_add junk src rope) n"
    "rope_max (gsm_rope_add junk src rope) = rope_max rope"
    "(rope_data (gsm_rope_add junk src rope) = Rope_null) = (rope_data rope = Rope_null)"
proof -
  have a: "gsm_rope_add junk src rope = (if rope_data rope = Rope_null then rope\<lparr>rope_pos := length bs + length src\<rparr>
     else rope\<lparr>rope_data := rope_store (rope_data rope) (length bs) src, rope_pos := length bs + length src\<rparr>)"
    using assms by (auto simp: gsm_rope_add_def gsm_rope_can_grow_def rope_holds_def rope_room_def Let_def)
  show "rope_holds (gsm_rope_add junk src rope) (bs @ src)"
  proof (cases "rope_data rope = Rope_null")
    case True
    then show ?thesis using assms by (simp add: a rope_holds_def)
  next
    case False
    have "length bs + length src \<le> length (rope_bytes (rope_data rope))"
      using assms False by (simp add: rope_holds_def rope_room_def)
    with False assms(1) seg_write_prefix [of bs "rope_bytes (rope_data rope)" src] show ?thesis
      by (simp add: a rope_holds_def)
  qed
  show "rope_room rope (length src + n) \<Longrightarrow> rope_room (gsm_rope_add junk src rope) n"
    using assms(1) by (auto simp: a rope_room_def rope_holds_def)
  show "rope_max (gsm_rope_add junk src rope) = rope_max rope" by (simp add: a)
  show "(rope_data (gsm_rope_add junk src rope) = Rope_null) = (rope_data rope = Rope_null)" by (simp add: a)
qed

lemma rope_init_holds [simp]: "rope_holds gsm_rope_init []" "rope_room gsm_rope_init n"
  by (simp_all add: gsm_rope_init_def rope_holds_def rope_room_def)

lemma rope_alloc_holds:
  "0 < n \<Longrightarrow> rope_holds (gsm_rope_init_alloc inl n) []" "0 < n \<Longrightarrow> rope_room (gsm_rope_init_alloc inl n) n"
  by (simp_all add: gsm_rope_init_alloc_def rope_holds_def rope_room_def)

end
