(* ===== verification/Sms_Address.thy ===== *)
theory Sms_Address
  imports Gsm_Hex
begin

text \<open>
  The addresses (telephone numbers) and time stamps of short messages, \<open>telephony/sms.c\<close>.

  A conversion that returns \<open>-1\<close> gives \<open>None\<close>; an access outside the arrays is undefined. The
  time that a stamp is made from is an argument.
\<close>

section \<open>Addresses\<close>

definition SMS_ADDRESS_MAX_SIZE :: nat where
  "SMS_ADDRESS_MAX_SIZE = 16"

record SmsAddressRec =
  adr_len :: u8
  adr_toa :: u8
  adr_data :: bytes

text \<open>The digits, two to a byte, the first in the low half.\<close>

fun address_digits :: "bytes \<Rightarrow> nat \<Rightarrow> bytes \<Rightarrow> (nat \<times> bytes) option" where
  "address_digits [] len data = Some (len, data)"
| "address_digits (c # src) len data =
     (if \<not> c - 0x30 < 10 \<or> len div 2 \<ge> SMS_ADDRESS_MAX_SIZE then None
      else address_digits src (len + 1)
             (data[len div 2 := data ! (len div 2) OR push_bit (4 * (len mod 2)) (c - 0x30)]))"

definition sms_address_from_str :: "bytes \<Rightarrow> SmsAddressRec option" where
  "sms_address_from_str src =
     (case src of
        [] \<Rightarrow> None
      | c # rest \<Rightarrow>
          (let (toa, src1) = (if c = 0x2b then (0x91, rest) else (0x81, src)) in
           if src1 = [] then None
           else case address_digits src1 0 (replicate SMS_ADDRESS_MAX_SIZE 0) of
               None \<Rightarrow> None
             | Some (len, data) \<Rightarrow>
                 Some \<lparr>adr_len = of_nat len, adr_toa = toa,
                       adr_data = (if odd len then data[len div 2 := data ! (len div 2) OR 0xf0] else data)\<rparr>))"

definition dialdigits :: bytes where
  "dialdigits = [0x30, 0x31, 0x32, 0x33, 0x34, 0x35, 0x36, 0x37, 0x38, 0x39, 0x2a, 0x23, 0x2c, 0x4e, 0x25, 0]"

text \<open>
  The loop over the bytes of an address; \<open>count\<close> is the number of characters so far and \<open>strlen\<close>
  the size of the array. The second character of a byte is stored if there is room and then read
  again, to skip a zero.
\<close>

function address_chars :: "SmsAddressRec \<Rightarrow> nat \<Rightarrow> nat \<Rightarrow> nat \<Rightarrow> bytes outcome" where
  "address_chars adr strlen k count =
     (if unat (adr_len adr) \<le> 2 * k then Inr []
      else if length (adr_data adr) \<le> k then Inl Undefined_behaviour
      else if strlen \<le> count + 1 then Inl Undefined_behaviour
      else
        (let c = adr_data adr ! k;
             c1 = dialdigits ! unat (c AND 0xf);
             c2 = dialdigits ! unat (drop_bit 4 c AND 0xf)
         in case address_chars adr strlen (k + 1) (if c2 \<noteq> 0 then count + 2 else count + 1) of
              Inl e \<Rightarrow> Inl e
            | Inr rest \<Rightarrow> Inr (c1 # (if c2 \<noteq> 0 then c2 # rest else rest))))"
  by pat_completeness auto
termination
  by (relation "measure (\<lambda>(adr, strlen, k, count). unat (adr_len adr) - 2 * k)") (auto simp: Let_def)

declare address_chars.simps [simp del]

definition sms_address_to_str :: "SmsAddressRec \<Rightarrow> nat \<Rightarrow> bytes outcome" where
  "sms_address_to_str adr strlen =
     (if adr_toa adr = 0x91 then
        (case address_chars adr strlen 0 1 of Inl e \<Rightarrow> Inl e | Inr cs \<Rightarrow> Inr (0x2b # cs))
      else address_chars adr strlen 0 0)"

definition sms_address_from_bytes :: "bytes \<Rightarrow> SmsAddressRec \<Rightarrow> SmsAddressRec option outcome" where
  "sms_address_from_bytes buf adr =
     (if length buf < 2 then Inr None
      else
        (let num_digits = buf ! 0; len = (unat num_digits + 1) div 2 in
         if len > SMS_ADDRESS_MAX_SIZE then Inr None
         else if length buf < 2 + len then Inl Undefined_behaviour
         else Inr (Some \<lparr>adr_len = num_digits, adr_toa = buf ! 1,
                         adr_data = seg_write (adr_data adr) 0 (seg_read buf 2 len)\<rparr>)))"

text \<open>The bytes stored, and the value returned.\<close>

definition sms_address_to_bytes :: "SmsAddressRec \<Rightarrow> nat \<Rightarrow> (bytes \<times> nat) outcome" where
  "sms_address_to_bytes adr bufsize =
     (let len = (unat (adr_len adr) + 1) div 2 + 2 in
      if bufsize < 1 then Inr ([], len)
      else if bufsize < 2 then Inr ([adr_len adr], len)
      else
        (let n = min (bufsize - 2) (len - 2) in
         if n > SMS_ADDRESS_MAX_SIZE then Inl Undefined_behaviour
         else Inr ([adr_len adr, adr_toa adr] @ take n (adr_data adr), len)))"

text \<open>The number of bytes is not compared with the size of the array.\<close>

definition sms_address_from_hex :: "bytes \<Rightarrow> SmsAddressRec \<Rightarrow> SmsAddressRec option outcome" where
  "sms_address_from_hex hex adr =
     (if length hex < 4 then Inr None
      else
        (let num_digits = gsm_hex2_to_byte (hex ! 0) (hex ! 1);
             toa = gsm_hex2_to_byte (hex ! 2) (hex ! 3);
             len = nat ((num_digits + 1) div 2)
         in if 4 + 2 * len > length hex then Inr None
            else if len > SMS_ADDRESS_MAX_SIZE then Inl Undefined_behaviour
            else Inr (Some \<lparr>adr_len = word_of_int num_digits, adr_toa = word_of_int toa,
                   adr_data = seg_write (adr_data adr) 0
                     (map (\<lambda>nn. word_of_int (gsm_hex2_to_byte (hex ! (4 + 2 * nn)) (hex ! (5 + 2 * nn)))) [0..<len])\<rparr>)))"

definition sms_address_to_hex :: "SmsAddressRec \<Rightarrow> nat \<Rightarrow> (bytes \<times> nat) outcome" where
  "sms_address_to_hex adr hexlen =
     (let len = (unat (adr_len adr) + 1) div 2 + 2 in
      if hexlen < 2 then Inr ([], 2 * len)
      else if hexlen < 4 then Inr (gsm_hex_from_byte (uint (adr_len adr)), 2 * len)
      else
        (let n = (if hexlen - 4 > 2 * (len - 2) then (len - 2) div 2 else hexlen - 4) in
         if (n + 1) div 2 > SMS_ADDRESS_MAX_SIZE then Inl Undefined_behaviour
         else Inr (gsm_hex_from_byte (uint (adr_len adr)) @ gsm_hex_from_byte (uint (adr_toa adr)) @
                   gsm_hex_from_bytes (take ((n + 1) div 2) (adr_data adr)), 2 * len)))"

text \<open>The comparison takes as many bytes as the number has digits.\<close>

definition sms_address_eq :: "SmsAddressRec \<Rightarrow> SmsAddressRec \<Rightarrow> bool outcome" where
  "sms_address_eq a b =
     (if adr_toa a \<noteq> adr_toa b \<or> adr_len a \<noteq> adr_len b then Inr False
      else if unat (adr_len a) > SMS_ADDRESS_MAX_SIZE then Inl Undefined_behaviour
      else Inr (take (unat (adr_len a)) (adr_data a) = take (unat (adr_len a)) (adr_data b)))"

section \<open>Time stamps\<close>

record tm =
  tm_year :: int
  tm_mon :: int
  tm_mday :: int
  tm_hour :: int
  tm_min :: int
  tm_sec :: int
  tm_yday :: int

definition sms_timestamp_now :: "tm \<Rightarrow> tm \<Rightarrow> bytes" where
  "sms_timestamp_now gm local =
     (let d = (tm_hour local * 4 + tm_min local div 15) - (tm_hour gm * 4 + tm_min gm div 15);
          tzdiff = (if tm_yday local > tm_yday gm then d + 24 * 4
                    else if tm_yday local < tm_yday gm then d - 24 * 4 else d);
          z = gsm_int_to_bcdi (if tzdiff \<ge> 0 then tzdiff else - tzdiff)
      in [gsm_int_to_bcdi (tm_year local mod 100), gsm_int_to_bcdi (tm_mon local + 1),
          gsm_int_to_bcdi (tm_mday local), gsm_int_to_bcdi (tm_hour local),
          gsm_int_to_bcdi (tm_min local), gsm_int_to_bcdi (tm_sec local),
          if tzdiff < 0 then z OR 0x08 else z])"

text \<open>The broken-down time and the returned time zone, in quarters of an hour.\<close>

definition sms_timestamp_to_tm :: "bytes \<Rightarrow> tm \<Rightarrow> tm \<times> int" where
  "sms_timestamp_to_tm stamp t =
     (let y = gsm_int_from_bcdi (stamp ! 0);
          tzdiff = gsm_int_from_bcdi (stamp ! 6 AND 0xf7)
      in (t\<lparr>tm_year := (if y < 50 then y + 100 else y), tm_mon := gsm_int_from_bcdi (stamp ! 1) - 1,
           tm_mday := gsm_int_from_bcdi (stamp ! 2), tm_hour := gsm_int_from_bcdi (stamp ! 3),
           tm_min := gsm_int_from_bcdi (stamp ! 4), tm_sec := gsm_int_from_bcdi (stamp ! 5)\<rparr>,
          if stamp ! 6 AND 8 \<noteq> 0 then - tzdiff else tzdiff))"

section \<open>Nibbles\<close>

definition nib :: "bytes \<Rightarrow> nat \<Rightarrow> u8" where
  "nib data i = drop_bit (4 * (i mod 2)) (data ! (i div 2)) AND 0xf"

lemma mask15: "(0xf :: 'a::len word) = mask 4"
  by (simp add: mask_eq_exp_minus_1)

lemma nib_or:
  fixes b d :: u8
  assumes "d AND 0xf = d"
  shows "(b OR d) AND 0xf = (b AND 0xf) OR d"
    "drop_bit 4 (b OR d) AND 0xf = drop_bit 4 b AND 0xf"
    "(b OR push_bit 4 d) AND 0xf = b AND 0xf"
    "drop_bit 4 (b OR push_bit 4 d) AND 0xf = (drop_bit 4 b AND 0xf) OR d"
proof -
  have d: "\<not> bit d i" if "4 \<le> i" for i
    using assms that unfolding mask15 by (metis bit_and_iff bit_mask_iff not_le)
  show "(b OR d) AND 0xf = (b AND 0xf) OR d"
    using assms by (simp add: bit.conj_disj_distrib2)
  show "drop_bit 4 (b OR d) AND 0xf = drop_bit 4 b AND 0xf"
    by (rule bit_word_eqI) (auto simp: mask15 bit_and_iff bit_or_iff bit_drop_bit_eq bit_mask_iff d)
  show "(b OR push_bit 4 d) AND 0xf = b AND 0xf"
    by (rule bit_word_eqI) (auto simp: mask15 bit_and_iff bit_or_iff bit_push_bit_iff bit_mask_iff)
  show "drop_bit 4 (b OR push_bit 4 d) AND 0xf = (drop_bit 4 b AND 0xf) OR d"
    by (rule bit_word_eqI)
      (auto simp: mask15 bit_and_iff bit_or_iff bit_push_bit_iff bit_drop_bit_eq bit_mask_iff d
        intro: ccontr dest: d)
qed

lemma nib_update:
  assumes "d AND 0xf = (d::u8)" "j div 2 < length data"
  shows "nib (data[j div 2 := data ! (j div 2) OR push_bit (4 * (j mod 2)) d]) i =
    (if i = j then nib data i OR d else nib data i)"
proof (cases "i div 2 = j div 2")
  case True
  have "i = j \<or> i mod 2 \<noteq> j mod 2" using True by (metis div_mult_mod_eq)
  moreover have "i mod 2 = 0 \<or> i mod 2 = 1" "j mod 2 = 0 \<or> j mod 2 = 1" by auto
  ultimately consider "i mod 2 = 0" "j mod 2 = 0" "i = j" | "i mod 2 = 1" "j mod 2 = 0" "i \<noteq> j"
    | "i mod 2 = 1" "j mod 2 = 1" "i = j" | "i mod 2 = 0" "j mod 2 = 1" "i \<noteq> j" by metis
  then show ?thesis
    by cases (use True assms nib_or [OF assms(1)] in \<open>simp_all add: nib_def\<close>)
next
  case False
  then show ?thesis by (auto simp: nib_def)
qed

section \<open>Round trip of addresses\<close>

definition digit_chars :: "nat list \<Rightarrow> bytes" where
  "digit_chars ds = map (\<lambda>d. 0x30 + of_nat d) ds"

lemma digit_nib: "d < 10 \<Longrightarrow> (of_nat d :: u8) AND 0xf = of_nat d"
  using less_mask_eq [of "of_nat d :: u8" 4]
  by (simp add: mask15 word_less_nat_alt unat_of_nat take_bit_eq_mod)

text \<open>The halves of the array after storing digits behind \<open>len\<close> earlier ones.\<close>

lemma address_digits_store:
  "list_all (\<lambda>d. d < 10) ds \<Longrightarrow> len + length ds \<le> 32 \<Longrightarrow> length data = 16 \<Longrightarrow>
   (\<forall>i\<ge>len. i < 32 \<longrightarrow> nib data i = 0) \<Longrightarrow>
   \<exists>data'. address_digits (digit_chars ds) len data = Some (len + length ds, data') \<and> length data' = 16 \<and>
     (\<forall>i<32. nib data' i = (if i < len then nib data i else if i < len + length ds then of_nat (ds ! (i - len)) else 0))"
proof (induction ds arbitrary: len data)
  case Nil
  then show ?case by (auto simp: digit_chars_def)
next
  case (Cons d ds)
  define data1 where "data1 = data[len div 2 := data ! (len div 2) OR push_bit (4 * (len mod 2)) (of_nat d)]"
  have d: "d < 10" "len < 32" using Cons.prems by simp_all
  have k: "len div 2 < length data" using d(2) Cons.prems(3) by auto
  have n1: "nib data1 i = (if i = len then nib data i OR of_nat d else nib data i)" for i
    unfolding data1_def using nib_update [OF digit_nib [OF d(1)] k] .
  have "(of_nat d :: u8) < 10" using d(1) by (simp add: word_less_nat_alt unat_of_nat take_bit_eq_mod)
  then have step: "address_digits (digit_chars (d # ds)) len data = address_digits (digit_chars ds) (len + 1) data1"
    using k Cons.prems(3) by (simp add: digit_chars_def data1_def SMS_ADDRESS_MAX_SIZE_def not_le)
  have "\<forall>i\<ge>len + 1. i < 32 \<longrightarrow> nib data1 i = 0" using Cons.prems(4) n1 by auto
  moreover have "length data1 = 16" using Cons.prems(3) by (simp add: data1_def)
  ultimately obtain data' where r: "address_digits (digit_chars ds) (len + 1) data1 = Some (len + 1 + length ds, data')"
    "length data' = 16"
    "\<forall>i<32. nib data' i = (if i < len + 1 then nib data1 i else if i < len + 1 + length ds then of_nat (ds ! (i - (len + 1))) else 0)"
    using Cons.IH [of "len + 1" data1] Cons.prems by auto
  have "nib data' i = (if i < len then nib data i else if i < len + length (d # ds) then of_nat ((d # ds) ! (i - len)) else 0)"
    if "i < 32" for i
    using r(3) that n1 Cons.prems(4) by (auto simp: nth_Cons')
  with r step show ?case by auto
qed

lemma dialdigits_digit:
  assumes "d < 10"
  shows "dialdigits ! d = 0x30 + of_nat d \<and> dialdigits ! d \<noteq> 0 \<and> dialdigits ! d \<noteq> 0x2b"
proof -
  have "list_all (\<lambda>d. dialdigits ! d = 0x30 + of_nat d \<and> dialdigits ! d \<noteq> 0 \<and> dialdigits ! d \<noteq> 0x2b) [0..<10]"
    by (simp add: upt_rec dialdigits_def)
  moreover have "d \<in> set [0..<10]" using assms by simp
  ultimately show ?thesis unfolding list_all_iff by (rule bspec)
qed

lemma address_chars_digits:
  assumes "length (adr_data adr) = 16" "unat (adr_len adr) = length ds" "length ds \<le> 32" "list_all (\<lambda>d. d < 10) ds"
    and "\<forall>i<length ds. nib (adr_data adr) i = of_nat (ds ! i)" "odd (length ds) \<Longrightarrow> nib (adr_data adr) (length ds) = 15"
  shows "count + (length ds - 2 * k) < strlen \<Longrightarrow>
    address_chars adr strlen k count = Inr (digit_chars (drop (2 * k) ds))"
proof (induction "length ds - 2 * k" arbitrary: k count rule: less_induct)
  case less
  let ?c = "adr_data adr ! k"
  show ?case
  proof (cases "length ds \<le> 2 * k")
    case True
    then show ?thesis using assms(2) by (simp add: address_chars.simps digit_chars_def)
  next
    case False
    have u: "unat (of_nat (ds ! i) :: u8) = ds ! i" "ds ! i < 10" if "i < length ds" for i
      using assms(4) that by (auto simp: list_all_length unat_of_nat take_bit_eq_mod)
    have n0: "nib (adr_data adr) (2 * k) = ?c AND 0xf" by (simp add: nib_def)
    have n1: "nib (adr_data adr) (2 * k + 1) = drop_bit 4 ?c AND 0xf" by (simp add: nib_def)
    have c1: "dialdigits ! unat (?c AND 0xf) = 0x30 + of_nat (ds ! (2 * k))"
      using assms(5) False u [of "2 * k"] dialdigits_digit by (simp add: n0 [symmetric])
    show ?thesis
    proof (cases "2 * k + 1 < length ds")
      case True
      have c2: "dialdigits ! unat (drop_bit 4 ?c AND 0xf) = 0x30 + of_nat (ds ! (2 * k + 1))"
        "dialdigits ! unat (drop_bit 4 ?c AND 0xf) \<noteq> 0"
        using assms(5) True u [of "2 * k + 1"] dialdigits_digit [of "ds ! (2 * k + 1)"]
        by (auto simp: n1 [symmetric])
      have ih: "address_chars adr strlen (k + 1) (count + 2) = Inr (digit_chars (drop (2 * (k + 1)) ds))"
        using less.prems True by (intro less.hyps) auto
      have d: "drop (2 * k) ds = ds ! (2 * k) # ds ! (2 * k + 1) # drop (2 * (k + 1)) ds"
        using True by (simp add: Cons_nth_drop_Suc)
      show ?thesis
        using False True less.prems assms(1,2,3) c1 c2 ih
        by (subst address_chars.simps) (simp add: d digit_chars_def)
    next
      case odd: False
      then have l: "length ds = 2 * k + 1" using False by simp
      then have "drop_bit 4 ?c AND 0xf = 15" using assms(6) n1 by simp
      then have c2: "dialdigits ! unat (drop_bit 4 ?c AND 0xf) = 0" by (simp add: dialdigits_def)
      have ih: "address_chars adr strlen (k + 1) (count + 1) = Inr []"
        using l assms(2) by (simp add: address_chars.simps)
      have d: "drop (2 * k) ds = [ds ! (2 * k)]" using l by (simp add: Cons_nth_drop_Suc [symmetric])
      show ?thesis
        using False less.prems assms(1,2,3) c1 c2 ih l
        by (subst address_chars.simps) (simp add: d digit_chars_def)
    qed
  qed
qed

text \<open>
  Telephone numbers round-trip: a number of 1 to 32 digits, with or without a leading plus, is
  accepted, and printing the address into an array that has room for one character more gives back
  the number.
\<close>

lemma sms_address_roundtrip:
  assumes "list_all (\<lambda>d. d < 10) ds" "1 \<le> length ds" "length ds \<le> 32"
    and "sign = [] \<or> sign = [0x2b]" "length sign + length ds < strlen"
  shows "\<exists>adr. sms_address_from_str (sign @ digit_chars ds) = Some adr \<and>
    sms_address_to_str adr strlen = Inr (sign @ digit_chars ds)"
proof -
  have z: "\<forall>i\<ge>0. i < 32 \<longrightarrow> nib (replicate 16 0) i = 0" by (auto simp: nib_def)
  obtain data where data: "address_digits (digit_chars ds) 0 (replicate 16 0) = Some (length ds, data)" "length data = 16"
    "\<forall>i<32. nib data i = (if i < length ds then of_nat (ds ! i) else 0)"
    using address_digits_store [OF assms(1), of 0 "replicate 16 0"] assms(3) z by auto
  define data' where "data' = (if odd (length ds) then data[length ds div 2 := data ! (length ds div 2) OR 0xf0] else data)"
  have half: "length ds div 2 < 16" if "odd (length ds)"
  proof -
    have "length ds < 32" using assms(3) that by (cases "length ds = 32") auto
    then show ?thesis by auto
  qed
  have nib': "nib data' i = of_nat (ds ! i)" if "i < length ds" for i
    using data assms(3) that nib_update [of 15 "length ds" data i] half
    by (auto simp: data'_def odd_iff_mod_2_eq_one)
  have last': "nib data' (length ds) = 15" if "odd (length ds)"
  proof -
    have "length ds < 32" using assms(3) that by (cases "length ds = 32") auto
    then show ?thesis
      using data that nib_update [of 15 "length ds" data "length ds"]
      by (auto simp: data'_def odd_iff_mod_2_eq_one)
  qed
  have ln: "unat (of_nat (length ds) :: u8) = length ds"
    using assms(3) by (simp add: unat_of_nat take_bit_eq_mod)
  have ne: "digit_chars ds \<noteq> []" using assms(2) by (auto simp: digit_chars_def)
  have np: "hd (digit_chars ds) \<noteq> 0x2b"
    using assms(1,2) dialdigits_digit [of "hd ds"] by (cases ds) (auto simp: digit_chars_def)
  define adr where "adr = \<lparr>adr_len = of_nat (length ds), adr_toa = (if sign = [] then 0x81 else 0x91), adr_data = data'\<rparr>"
  have frm: "sms_address_from_str (sign @ digit_chars ds) = Some adr"
  proof -
    obtain c cs where cc: "digit_chars ds = c # cs" using ne by (cases "digit_chars ds") auto
    have "c \<noteq> 0x2b" using np cc by simp
    with assms(4) data(1) [unfolded cc] show ?thesis
      by (auto simp: cc sms_address_from_str_def adr_def data'_def SMS_ADDRESS_MAX_SIZE_def
          simp del: address_digits.simps)
  qed
  have "address_chars adr strlen 0 (length sign) = Inr (digit_chars ds)"
    using address_chars_digits [of adr ds "length sign" 0 strlen] assms ln nib' last' data(2)
    by (auto simp: adr_def data'_def)
  then have "sms_address_to_str adr strlen = Inr (sign @ digit_chars ds)"
    using assms(4) by (auto simp: sms_address_to_str_def adr_def)
  with frm show ?thesis by blast
qed

text \<open>
  Parsing an address in hexadecimal form writes outside the address when the number has more
  than 32 digits: the number of digits is compared with the length of the string only.
\<close>

lemma sms_address_from_hex_overflow:
  assumes "32 < gsm_hex2_to_byte h0 h1" "4 + 2 * nat ((gsm_hex2_to_byte h0 h1 + 1) div 2) \<le> length (h0 # h1 # hex)"
  shows "sms_address_from_hex (h0 # h1 # hex) adr = Inl Undefined_behaviour"
  using assms by (auto simp: sms_address_from_hex_def SMS_ADDRESS_MAX_SIZE_def Let_def)

end
