(* ===== verification/Sms_Text.thy ===== *)
theory Sms_Text
  imports Gsm_Hex Gsm_Text
begin

text \<open>
  Message strings, \<open>telephony/sms.c\<close>: the form in which a user types a text on the console, with
  escapes for control characters and for characters given by their code.

  An array is a list; its length is the length the source is given with it. The results are the array
  and the number of characters of the whole conversion, \<open>None\<close> for \<open>-1\<close>.
\<close>

section \<open>Storing characters\<close>

definition put :: "bytes \<Rightarrow> nat \<Rightarrow> u8 \<Rightarrow> bytes" where
  "put buf i b = (if i < length buf then buf[i := b] else buf)"

text \<open>The lead byte of three is formed with \<open>0xc0\<close>, not \<open>0xe0\<close>; values are compared as signed.\<close>

definition put_char :: "bytes \<Rightarrow> nat \<Rightarrow> u32 \<Rightarrow> bytes \<times> nat" where
  "put_char buf count c =
     (if sint c < 128 then (put buf count (ucast c), count + 1)
      else if sint c < 0x800 then
        (put (put buf count (ucast (0xc0 OR (drop_bit 6 c AND 0x1f)))) (count + 1) (ucast (0x80 OR (c AND 0x3f))), count + 2)
      else
        (put (put (put buf count (ucast (0xc0 OR (drop_bit 12 c AND 0xf)))) (count + 1)
                (ucast (0x80 OR (drop_bit 6 c AND 0x3f)))) (count + 2) (ucast (0x80 OR (c AND 0x3f))), count + 3))"

section \<open>From a message string\<close>

text \<open>The character an escape stands for, and the rest of the string.\<close>

definition escape_char :: "u32 \<Rightarrow> bytes \<Rightarrow> (u32 \<times> bytes) option" where
  "escape_char c p =
     (if c = 0x5c then Some (c, p)
      else if c = 0x6e then Some (10, p)
      else if c = 0x78 then
        (if length p < 2 then None
         else let v = gsm_hex2_to_byte (p ! 0) (p ! 1) in if v < 0 then None else Some (word_of_int v, drop 2 p))
      else if c = 0x75 then
        (if length p < 4 then None
         else let v = gsm_hex4_to_short (p ! 0) (p ! 1) (p ! 2) (p ! 3) in
           if v < 0 then None else Some (word_of_int v, drop 4 p))
      else None)"

lemma escape_char_length: "escape_char c p = Some (v, p') \<Longrightarrow> length p' \<le> length p"
  by (auto simp: escape_char_def Let_def split: if_splits)

function message_decode :: "bytes \<Rightarrow> bool \<Rightarrow> bytes \<Rightarrow> nat \<Rightarrow> (bytes \<times> nat) option" where
  "message_decode p escaped utf8 count =
     (if p = [] then (if escaped then None else Some (utf8, count))
      else
        let (c, p1) = utf8_next p in
        if escaped then
          (case escape_char c p1 of
             None \<Rightarrow> None
           | Some (v, p2) \<Rightarrow> let (utf8', count') = put_char utf8 count v in message_decode p2 False utf8' count')
        else if c = 0x5c then message_decode p1 True utf8 count
        else let (utf8', count') = put_char utf8 count c in message_decode p1 False utf8' count')"
  by pat_completeness auto
termination
proof (relation "measure (\<lambda>(p, _). length p)", goal_cases)
  case (2 p escaped utf8 count x c p1 z v p2)
  then show ?case using utf8_next_length [of p] escape_char_length [of c p1 v p2] by (auto simp: prod_eq_iff)
next
  case (3 p escaped utf8 count x c p1)
  then show ?case using utf8_next_length [of p] by (auto simp: prod_eq_iff)
next
  case (4 p escaped utf8 count x c p1)
  then show ?case using utf8_next_length [of p] by (auto simp: prod_eq_iff)
qed simp

declare message_decode.simps [simp del]

definition sms_utf8_from_message_str :: "bytes \<Rightarrow> bytes \<Rightarrow> (bytes \<times> nat) option" where
  "sms_utf8_from_message_str str utf8 = message_decode str False utf8 0"

section \<open>To a message string\<close>

text \<open>A character above 127 is read without its second byte.\<close>

definition message_next :: "bytes \<Rightarrow> u32 \<times> bytes" where
  "message_next p =
     (case p of
        [] \<Rightarrow> (0, [])
      | b # p1 \<Rightarrow>
          if b \<ge> 128 then
            utf8_cont (ucast (if b AND 0xe0 = 0xc0 then b AND 0x1f
                              else if b AND 0xf0 = 0xe0 then b AND 0x0f
                              else b AND 0x07)) (drop 1 p1)
          else (ucast b, p1))"

lemma message_next_length: "p \<noteq> [] \<Longrightarrow> length (snd (message_next p)) < length p"
  by (cases p) (auto simp: message_next_def intro!: le_imp_less_Suc order_trans [OF utf8_cont_length])

text \<open>An escape is stored as a whole, or not at all; the short one needs one place more than it has.\<close>

definition put_escaped :: "bytes \<Rightarrow> nat \<Rightarrow> u32 \<Rightarrow> bytes \<times> nat" where
  "put_escaped str count c =
     (if sint c < 0x20 \<and> c \<noteq> 10 then
        (if count + 3 < length str then seg_write str count ([0x5c, 0x78] @ gsm_hex_from_byte (sint c)) else str, count + 4)
      else if c = 10 \<or> c = 0x5c then
        (if count + 2 < length str then seg_write str count [0x5c, if c = 10 then 0x6e else ucast c] else str, count + 2)
      else put_char str count c)"

function message_encode :: "bytes \<Rightarrow> bytes \<Rightarrow> nat \<Rightarrow> bytes \<times> nat" where
  "message_encode p str count =
     (if p = [] then (str, count)
      else
        let (c, p1) = message_next p; (str', count') = put_escaped str count c
        in message_encode p1 str' count')"
  by pat_completeness auto
termination
proof (relation "measure (\<lambda>(p, _). length p)", goal_cases)
  case (2 p str count x c p1 y str' count')
  then show ?case using message_next_length [of p] by (simp add: prod_eq_iff)
qed simp

declare message_encode.simps [simp del]

definition sms_utf8_to_message_str :: "bytes \<Rightarrow> bytes \<Rightarrow> bytes \<times> nat" where
  "sms_utf8_to_message_str utf8 str = message_encode utf8 str 0"

section \<open>Round trip\<close>

definition message_escape :: "u8 \<Rightarrow> bytes" where
  "message_escape b =
     (if b < 0x20 \<and> b \<noteq> 10 then [0x5c, 0x78] @ gsm_hex_from_byte (uint b)
      else if b = 10 then [0x5c, 0x6e] else if b = 0x5c then [0x5c, 0x5c] else [b])"

lemma ascii_cases:
  assumes "list_all (\<lambda>n. P (of_nat n)) [0..<128]" "b < (128 :: u8)"
  shows "P b"
proof -
  have "unat b < 128" using assms(2) by (simp add: word_less_nat_alt)
  then have "P (of_nat (unat b))" using assms(1) by (auto simp only: list_all_iff set_upt atLeastLessThan_iff)
  then show ?thesis by simp
qed

lemma ascii_u32:
  fixes b :: u8
  assumes "b < 128"
  shows "sint (ucast b :: u32) = uint b \<and> uint b < 128 \<and> (uint b < 0x20) = (b < 0x20) \<and>
    ((ucast b :: u32) = 10) = (b = 10) \<and> ((ucast b :: u32) = 0x5c) = (b = 0x5c) \<and> ucast (ucast b :: u32) = b"
  by (rule ascii_cases [OF _ assms]) code_simp

lemma seg_write_app:
  "i + length xs + length ys \<le> length buf \<Longrightarrow> seg_write (seg_write buf i xs) (i + length xs) ys = seg_write buf i (xs @ ys)"
  by (simp add: seg_write_def min_absorb2 ac_simps)

lemma put_seg: "i < length buf \<Longrightarrow> put buf i b = seg_write buf i [b]"
  by (simp add: put_def seg_write_def upd_conv_take_nth_drop)

lemma put_escaped_ascii:
  assumes "b < 128" "count + length (message_escape b) < length str"
  shows "put_escaped str count (ucast b) = (seg_write str count (message_escape b), count + length (message_escape b))"
  using assms ascii_u32 [OF assms(1)]
  by (auto simp: put_escaped_def message_escape_def put_char_def put_seg gsm_hex_from_byte_def)

lemma message_encode_ascii:
  "list_all (\<lambda>b. b < 128) t \<Longrightarrow> count + length (concat (map message_escape t)) < length str \<Longrightarrow>
   message_encode t str count = (seg_write str count (concat (map message_escape t)), count + length (concat (map message_escape t)))"
proof (induction t arbitrary: str count)
  case Nil
  then show ?case by (simp add: message_encode.simps)
next
  case (Cons b t)
  have "\<not> 128 \<le> b" using Cons.prems by (simp only: not_le list.pred_inject)
  then have n: "message_next (b # t) = (ucast b, t)" by (simp add: message_next_def)
  have e: "put_escaped str count (ucast b) = (seg_write str count (message_escape b), count + length (message_escape b))"
    using Cons.prems by (intro put_escaped_ascii) simp_all
  show ?case
    using Cons.prems Cons.IH [of "count + length (message_escape b)" "seg_write str count (message_escape b)"]
    by (subst message_encode.simps) (simp add: n e seg_write_app)
qed

lemma message_decode_escape:
  assumes "b < 128" "count < length utf8"
  shows "message_decode (message_escape b @ p) False utf8 count = message_decode p False (seg_write utf8 count [b]) (count + 1)"
proof -
  have u: "utf8_next (c # q) = (ucast c, q)" if "c < 128" for c q
    using that [unfolded not_le [symmetric]] by (simp add: utf8_next_def)
  have pc: "put_char utf8 count (ucast b) = (seg_write utf8 count [b], count + 1)"
    using assms ascii_u32 [OF assms(1)] by (simp add: put_char_def put_seg)
  have esc: "message_decode (0x5c # q) False utf8 count = message_decode q True utf8 count" for q
    by (subst message_decode.simps) (simp add: u)
  have val: "message_decode (c # q) True utf8 count = message_decode p False (seg_write utf8 count [b]) (count + 1)"
    if "c < 128" "escape_char (ucast c) q = Some (ucast b, p)" for c q
    using that pc by (subst message_decode.simps) (simp add: u)
  consider (hex) "b < 0x20" "b \<noteq> 10" | (lf) "b = 10" | (bs) "b = 0x5c" | (plain) "\<not> b < 0x20" "b \<noteq> 0x5c" "b \<noteq> 10" by fastforce
  then show ?thesis
  proof cases
    case hex
    obtain h0 h1 where h: "gsm_hex_from_byte (uint b) = [h0, h1]" using gsm_hex_from_byte_pair by blast
    have "escape_char (ucast (0x78 :: u8)) (h0 # h1 # p) = Some (ucast b, p)"
      using hex2_from_byte [OF h] by (simp add: escape_char_def Let_def)
    with hex h val [of "0x78" "h0 # h1 # p"] esc show ?thesis by (simp add: message_escape_def)
  next
    case lf
    with val [of "0x6e" p] esc show ?thesis by (simp add: message_escape_def escape_char_def)
  next
    case bs
    with val [of "0x5c" p] esc show ?thesis by (simp add: message_escape_def escape_char_def)
  next
    case plain
    then have "message_escape b = [b]" by (auto simp: message_escape_def)
    with plain assms pc ascii_u32 [OF assms(1)] show ?thesis by (simp, subst message_decode.simps) (simp add: u)
  qed
qed

lemma message_decode_ascii:
  "list_all (\<lambda>b. b < 128) t \<Longrightarrow> count + length t \<le> length utf8 \<Longrightarrow>
   message_decode (concat (map message_escape t)) False utf8 count = Some (seg_write utf8 count t, count + length t)"
proof (induction t arbitrary: utf8 count)
  case Nil
  then show ?case by (simp add: message_decode.simps)
next
  case (Cons b t)
  then show ?case
    using Cons.IH [of "count + 1" "seg_write utf8 count [b]"] seg_write_app [of count "[b]" t utf8]
    by (simp add: message_decode_escape)
qed

text \<open>
  Message strings round-trip for ASCII texts: control characters, line feeds and backslashes
  are escaped when a text is printed, and reading the string gives back the text, whatever it is, if
  the array for the string has one place to spare.
\<close>

lemma sms_message_str_roundtrip:
  assumes "list_all (\<lambda>b. b < 128) t" "4 * length t < length str" "length t \<le> length utf8"
  shows "\<exists>out n utf8'. sms_utf8_to_message_str t str = (out, n) \<and>
    sms_utf8_from_message_str (take n out) utf8 = Some (utf8', length t) \<and> take (length t) utf8' = t"
proof -
  let ?e = "concat (map message_escape t)"
  have "length ?e \<le> 4 * length t" by (induction t) (auto simp: message_escape_def gsm_hex_from_byte_def)
  with assms have "sms_utf8_to_message_str t str = (seg_write str 0 ?e, length ?e)" "take (length ?e) (seg_write str 0 ?e) = ?e"
    by (simp_all add: sms_utf8_to_message_str_def message_encode_ascii seg_write_def)
  moreover have "sms_utf8_from_message_str ?e utf8 = Some (seg_write utf8 0 t, length t)"
    using assms by (simp add: sms_utf8_from_message_str_def message_decode_ascii)
  ultimately show ?thesis by (auto simp: seg_write_def)
qed

end
