(* ===== verification/Sms_Pdu.thy ===== *)
theory Sms_Pdu
  imports Gsm_Pack Gsm_Rope Sms_Address
begin

text \<open>
  The protocol data units of short messages, \<open>telephony/sms.c\<close>: parsing, and the creation of the
  units that deliver a text to the guest.

  A parser works on the bytes from the cursor to the end and returns the rest; \<open>None\<close> is the
  source's \<open>-1\<close>. Bytes past the end are past the end of an allocated array.
\<close>

definition MAX_USER_DATA_BYTES :: nat where [dev_defs]: "MAX_USER_DATA_BYTES = 140"
definition MAX_USER_DATA_SEPTETS :: nat where [dev_defs]: "MAX_USER_DATA_SEPTETS = 160"
definition USER_DATA_HEADER_SIZE :: nat where [dev_defs]: "USER_DATA_HEADER_SIZE = 6"

section \<open>Parsing\<close>

definition sms_get_byte :: "bytes \<Rightarrow> int \<times> bytes" where
  "sms_get_byte cur = (case cur of [] \<Rightarrow> (-1, []) | b # rest \<Rightarrow> (uint b, rest))"

text \<open>
  The loop over the bytes of a service centre address: the number of bytes taken, whether the last
  one counts for one digit, the array, and whether the address was too long.
\<close>

fun sc_digits :: "bytes \<Rightarrow> nat \<Rightarrow> bytes \<Rightarrow> (nat \<times> nat \<times> bytes) option" where
  "sc_digits [] dlen data = Some (dlen, 0, data)"
| "sc_digits (c # cs) dlen data =
     (if dlen \<ge> SMS_ADDRESS_MAX_SIZE then None
      else if c AND 0xf \<ge> 0xe then Some (dlen, 0, data)
      else
        (let data1 = data[dlen := c] in
         if drop_bit 4 c AND 0xf \<ge> 0xe then Some (dlen, 1, data1)
         else case cs of
             [] \<Rightarrow> Some (dlen + 1, 1, data1)
           | _ \<Rightarrow> sc_digits cs (dlen + 1) data1))"

text \<open>The cursor is left behind the type byte, in front of the digits.\<close>

definition sms_get_sc_address :: "bytes \<Rightarrow> SmsAddressRec \<Rightarrow> (SmsAddressRec \<times> bytes) option" where
  "sms_get_sc_address cur adr =
     (case cur of
        [] \<Rightarrow> None
      | l # cur1 \<Rightarrow>
          (let len = unat l in
           if len = 0 then Some (adr\<lparr>adr_len := 0, adr_toa := 0\<rparr>, cur1)
           else if length cur1 < len then None
           else
             (let toa = hd cur1; cur2 = tl cur1 in
              case sc_digits (take (len - 1) cur2) 0 (adr_data adr) of
                None \<Rightarrow> None
              | Some (dlen, adjust, data) \<Rightarrow>
                  Some (\<lparr>adr_len = of_nat (2 * dlen + adjust), adr_toa = toa, adr_data = data\<rparr>, cur2))))"

definition sms_skip_sc_address :: "bytes \<Rightarrow> bytes option" where
  "sms_skip_sc_address cur =
     (case cur of
        [] \<Rightarrow> None
      | l # cur1 \<Rightarrow> if length cur1 < unat l then None else Some (drop (unat l) cur1))"

definition sms_get_address :: "bytes \<Rightarrow> SmsAddressRec \<Rightarrow> (SmsAddressRec \<times> bytes) option" where
  "sms_get_address cur adr =
     (case cur of
        [] \<Rightarrow> None
      | d # cur1 \<Rightarrow>
          (let dlen = unat d; len = (dlen + 1) div 2 in
           if dlen = 0 then Some (adr\<lparr>adr_len := 0, adr_toa := 0\<rparr>, cur1)
           else if length cur1 < 1 + len then None
           else if len > SMS_ADDRESS_MAX_SIZE then None
           else Some (\<lparr>adr_len = d, adr_toa = hd cur1, adr_data = seg_write (adr_data adr) 0 (take len (tl cur1))\<rparr>,
                      drop len (tl cur1))))"

text \<open>The check is made, but the cursor is not moved.\<close>

definition sms_skip_address :: "bytes \<Rightarrow> bytes option" where
  "sms_skip_address cur =
     (if length cur < 2 then None
      else if length cur < 2 + (unat (hd cur) + 1) div 2 then None
      else Some cur)"

definition sms_get_timestamp :: "bytes \<Rightarrow> (bytes \<times> bytes) option" where
  "sms_get_timestamp cur = (if length cur < 7 then None else Some (take 7 cur, drop 7 cur))"

definition sms_skip_timestamp :: "bytes \<Rightarrow> bytes option" where
  "sms_skip_timestamp cur = (if length cur < 7 then None else Some (drop 7 cur))"

definition sms_skip_validity_period :: "bytes \<Rightarrow> int \<Rightarrow> bytes option" where
  "sms_skip_validity_period cur mtiByte =
     (let f = drop_bit 3 mtiByte AND 3;
          n = (if f = 1 then 1 else if f = 2 \<or> f = 3 then 7 else 0)
      in if length cur < n then None else Some (drop n cur))"

section \<open>Units\<close>

text \<open>\<open>pdu_tpdu\<close> is the offset of the transport unit in \<open>pdu_base\<close>.\<close>

record SmsPDURec =
  pdu_base :: bytes
  pdu_tpdu :: nat

definition pdu_data :: "SmsPDURec \<Rightarrow> bytes" where
  "pdu_data pdu = drop (pdu_tpdu pdu) (pdu_base pdu)"

datatype SmsPduType = SMS_PDU_INVALID | SMS_PDU_DELIVER | SMS_PDU_SUBMIT | SMS_PDU_STATUS_REPORT

definition smspdu_get_type :: "SmsPDURec \<Rightarrow> SmsPduType" where
  "smspdu_get_type pdu =
     (let m = fst (sms_get_byte (pdu_data pdu)) AND 3 in
      if m = 0 then SMS_PDU_DELIVER else if m = 1 then SMS_PDU_SUBMIT
      else if m = 2 then SMS_PDU_STATUS_REPORT else SMS_PDU_INVALID)"

definition smspdu_get_sender_address :: "SmsPDURec \<Rightarrow> SmsAddressRec \<Rightarrow> SmsAddressRec option" where
  "smspdu_get_sender_address pdu adr =
     (let (mtiByte, data) = sms_get_byte (pdu_data pdu) in
      if mtiByte AND 3 = 0 then map_option fst (sms_get_sc_address data adr) else None)"

definition smspdu_get_sc_timestamp :: "SmsPDURec \<Rightarrow> SmsAddressRec \<Rightarrow> bytes option" where
  "smspdu_get_sc_timestamp pdu adr =
     (let (mtiByte, data) = sms_get_byte (pdu_data pdu) in
      if mtiByte AND 3 = 0 then
        (case sms_get_sc_address data adr of
           None \<Rightarrow> None
         | Some (_, data1) \<Rightarrow> map_option fst (sms_get_timestamp (drop 2 data1)))
      else None)"

definition smspdu_get_receiver_address :: "SmsPDURec \<Rightarrow> SmsAddressRec \<Rightarrow> SmsAddressRec option" where
  "smspdu_get_receiver_address pdu adr =
     (let (mtiByte, data) = sms_get_byte (pdu_data pdu) in
      if mtiByte AND 3 = 1 then map_option fst (sms_get_address (drop 1 data) adr) else None)"

datatype SmsCodingScheme = SMS_CODING_SCHEME_UNKNOWN | SMS_CODING_SCHEME_GSM7 | SMS_CODING_SCHEME_UCS2

definition data_coding :: "u8 \<Rightarrow> SmsCodingScheme" where
  "data_coding dataCoding =
     (let g = drop_bit 4 dataCoding in
      if g = 0 \<or> g = 2 \<or> g = 3 then SMS_CODING_SCHEME_GSM7
      else if g = 1 then
        (if dataCoding = 0x10 then SMS_CODING_SCHEME_GSM7
         else if dataCoding = 0x11 then SMS_CODING_SCHEME_UCS2 else SMS_CODING_SCHEME_UNKNOWN)
      else if 4 \<le> g \<and> g \<le> 7 then
        (if dataCoding AND 0x20 \<noteq> 0 then SMS_CODING_SCHEME_UNKNOWN
         else if drop_bit 2 dataCoding AND 3 = 0 then SMS_CODING_SCHEME_GSM7
         else if drop_bit 2 dataCoding AND 3 = 2 then SMS_CODING_SCHEME_UCS2 else SMS_CODING_SCHEME_UNKNOWN)
      else if g = 0xf then
        (if dataCoding AND 4 = 0 then SMS_CODING_SCHEME_GSM7 else SMS_CODING_SCHEME_UNKNOWN)
      else SMS_CODING_SCHEME_UNKNOWN)"

definition sms_get_coding_scheme :: "bytes \<Rightarrow> SmsCodingScheme \<times> bytes" where
  "sms_get_coding_scheme cur =
     (case cur of [] \<Rightarrow> (SMS_CODING_SCHEME_UNKNOWN, []) | d # rest \<Rightarrow> (data_coding d, rest))"

text \<open>The text behind an optional header: its length in units, and the rest.\<close>

definition sms_text_header :: "bytes \<Rightarrow> bool \<Rightarrow> SmsCodingScheme \<Rightarrow> (nat \<times> bytes) option" where
  "sms_text_header cur hasUDH coding =
     (case cur of
        [] \<Rightarrow> None
      | l # cur1 \<Rightarrow>
          if \<not> hasUDH then Some (unat l, cur1)
          else case cur1 of
              [] \<Rightarrow> None
            | h # cur2 \<Rightarrow>
                (let hlen = unat h;
                     n = (if coding = SMS_CODING_SCHEME_GSM7 then 2 * (hlen + 1) else hlen + 1)
                 in if length cur2 < hlen then None
                    else if unat l < n then None
                    else Some (unat l - n, drop hlen cur2)))"

text \<open>The length of the text is not compared with the end of the unit.\<close>

definition sms_get_text_utf8 ::
    "(nat \<Rightarrow> bytes) \<Rightarrow> bytes \<Rightarrow> bool \<Rightarrow> SmsCodingScheme \<Rightarrow> GsmRopeRec \<Rightarrow> GsmRopeRec option outcome" where
  "sms_get_text_utf8 junk cur hasUDH coding rope =
     (case sms_text_header cur hasUDH coding of
        None \<Rightarrow> Inr None
      | Some (len, cur1) \<Rightarrow>
          (case coding of
             SMS_CODING_SCHEME_GSM7 \<Rightarrow>
               (case utf8_from_gsm7 cur1 0 len of
                  Inl e \<Rightarrow> Inl e
                | Inr text \<Rightarrow> Inr (Some (gsm_rope_add junk text rope)))
           | SMS_CODING_SCHEME_UCS2 \<Rightarrow>
               if length cur1 < 2 * (len div 2) then Inl Undefined_behaviour
               else Inr (Some (gsm_rope_add junk (ucs2_to_utf8 cur1 (len div 2)) rope))
           | SMS_CODING_SCHEME_UNKNOWN \<Rightarrow> Inr (Some rope)))"

text \<open>
  The text of a unit: the bytes stored in an array of \<open>utf8len\<close> bytes and the length returned. For a
  unit to be delivered the rope has not been initialised when the text is added to it.
\<close>

definition smspdu_get_text_message ::
    "(nat \<Rightarrow> bytes) \<Rightarrow> bytes \<Rightarrow> SmsPDURec \<Rightarrow> SmsAddressRec \<Rightarrow> nat \<Rightarrow> (bytes \<times> nat) option outcome" where
  "smspdu_get_text_message junk data0 pdu adr utf8len =
     (let (mtiByte, data) = sms_get_byte (pdu_data pdu); hasUDH = (mtiByte AND 0x40 \<noteq> 0) in
      if mtiByte AND 3 = 0 then
        (case sms_get_sc_address data adr of
           None \<Rightarrow> Inr None
         | Some (_, data1) \<Rightarrow>
             (let (coding, data2) = sms_get_coding_scheme (drop 1 data1) in
              if coding = SMS_CODING_SCHEME_UNKNOWN then Inr None
              else case sms_get_timestamp data2 of
                  None \<Rightarrow> Inr None
                | Some (_, data3) \<Rightarrow>
                    if sms_text_header data3 hasUDH coding = None then Inr None else Inl Undefined_behaviour))
      else if mtiByte AND 3 = 1 then
        (case sms_get_address (drop 1 data) adr of
           None \<Rightarrow> Inr None
         | Some (_, data1) \<Rightarrow>
             (let (coding, data2) = sms_get_coding_scheme (drop 1 data1) in
              if coding = SMS_CODING_SCHEME_UNKNOWN then Inr None
              else case sms_get_text_utf8 junk data2 hasUDH coding (gsm_rope_init_alloc data0 0) of
                  Inl e \<Rightarrow> Inl e
                | Inr None \<Rightarrow> Inr None
                | Inr (Some rope) \<Rightarrow>
                    Inr (Some (take (min utf8len (rope_pos rope)) (rope_bytes (rope_data rope)), rope_pos rope))))
      else Inr None)"

section \<open>References of concatenated messages\<close>

text \<open>
  The loop over the elements of the user data header. An element of length 0 does not move the
  cursor and lets \<open>len\<close> grow until it overflows.
\<close>

function udh_scan :: "int \<Rightarrow> bytes \<Rightarrow> bytes option outcome" where
  "udh_scan len data =
     (if len \<ge> 2 \<and> length data \<ge> 2 then
        (let htype = data ! 0; hlen = unat (data ! 1) in
         if htype = 0 \<and> hlen = 3 \<and> length data \<ge> 5 then Inr (Some (drop 2 data))
         else if hlen = 0 then Inl Undefined_behaviour
         else udh_scan (len - (int hlen - 2)) (drop hlen data))
      else Inr None)"
  by pat_completeness auto
termination
  by (relation "measure (\<lambda>(len, data). length data)") auto

declare udh_scan.simps [simp del]

definition smspdu_get_user_data_ref :: "SmsPDURec \<Rightarrow> bytes option outcome" where
  "smspdu_get_user_data_ref pdu =
     (let (mtiByte, data) = sms_get_byte (pdu_data pdu) in
      if mtiByte AND 0x40 = 0 then Inr None
      else
        (let data1 =
           (if mtiByte AND 3 = 0 then
              (case sms_skip_address data of
                 None \<Rightarrow> None
               | Some d \<Rightarrow> sms_skip_timestamp (drop 2 d))
            else if mtiByte AND 3 = 1 then
              (case sms_skip_address (drop 1 data) of
                 None \<Rightarrow> None
               | Some d \<Rightarrow> sms_skip_validity_period (drop 2 d) mtiByte)
            else None)
         in case data1 of
              None \<Rightarrow> Inr None
            | Some d \<Rightarrow> if length d < 2 then Inr None else udh_scan (uint (d ! 1)) (drop 2 d)))"

definition smspdu_get_ref :: "SmsPDURec \<Rightarrow> int outcome" where
  "smspdu_get_ref pdu =
     (case smspdu_get_user_data_ref pdu of
        Inl e \<Rightarrow> Inl e
      | Inr (Some r) \<Rightarrow> Inr (uint (r ! 0))
      | Inr None \<Rightarrow>
          (let (mtiByte, data) = sms_get_byte (pdu_data pdu)
           in if mtiByte AND 3 = 1 \<and> data \<noteq> [] then Inr (uint (hd data)) else Inr (-1)))"

definition smspdu_get_max_index :: "SmsPDURec \<Rightarrow> int outcome" where
  "smspdu_get_max_index pdu =
     (case smspdu_get_user_data_ref pdu of
        Inl e \<Rightarrow> Inl e | Inr (Some r) \<Rightarrow> Inr (uint (r ! 1)) | Inr None \<Rightarrow> Inr 1)"

definition smspdu_get_cur_index :: "SmsPDURec \<Rightarrow> int outcome" where
  "smspdu_get_cur_index pdu =
     (case smspdu_get_user_data_ref pdu of
        Inl e \<Rightarrow> Inl e | Inr (Some r) \<Rightarrow> Inr (uint (r ! 2) - 1) | Inr None \<Rightarrow> Inr 0)"

section \<open>Creating units\<close>

definition gsm_rope_add_timestamp :: "(nat \<Rightarrow> bytes) \<Rightarrow> bytes \<Rightarrow> GsmRopeRec \<Rightarrow> GsmRopeRec" where
  "gsm_rope_add_timestamp junk ts rope = gsm_rope_add junk (take 7 ts) rope"

text \<open>The bytes of an address; the last half of an odd number is filled after the bytes are added.\<close>

definition gsm_rope_add_address :: "(nat \<Rightarrow> bytes) \<Rightarrow> SmsAddressRec \<Rightarrow> GsmRopeRec \<Rightarrow> GsmRopeRec" where
  "gsm_rope_add_address junk adr rope =
     (let n = unat (adr_len adr);
          r = gsm_rope_add junk (take ((n + 1) div 2) (adr_data adr))
                (gsm_rope_add_c junk (adr_toa adr) (gsm_rope_add_c junk (adr_len adr) rope))
      in if odd n \<and> \<not> rope_error r \<and> rope_data r \<noteq> Rope_null then
           r\<lparr>rope_data := rope_store (rope_data r) (rope_pos r - 1)
               [rope_bytes (rope_data r) ! (rope_pos r - 1) OR 0xf0]\<rparr>
         else r)"

definition gsm_rope_add_sms_user_header :: "(nat \<Rightarrow> bytes) \<Rightarrow> nat \<Rightarrow> nat \<Rightarrow> nat \<Rightarrow> GsmRopeRec \<Rightarrow> GsmRopeRec" where
  "gsm_rope_add_sms_user_header junk ref_number pdu_count pdu_index rope =
     gsm_rope_add_c junk (of_nat pdu_index + 1) (gsm_rope_add_c junk (of_nat pdu_count)
       (gsm_rope_add_c junk (of_nat ref_number) (gsm_rope_add_c junk 3
         (gsm_rope_add_c junk 0 (gsm_rope_add_c junk 5 rope)))))"

text \<open>Reserving \<open>count\<close> bytes and letting \<open>write\<close> fill them, given what is there.\<close>

definition rope_reserve_write ::
    "(nat \<Rightarrow> bytes) \<Rightarrow> nat \<Rightarrow> (bytes \<Rightarrow> bytes) \<Rightarrow> GsmRopeRec \<Rightarrow> GsmRopeRec" where
  "rope_reserve_write junk count write rope =
     (let (dst, r) = gsm_rope_reserve junk count rope in
      case dst of
        None \<Rightarrow> r
      | Some off \<Rightarrow> r\<lparr>rope_data := rope_store (rope_data r) off (write (drop off (rope_bytes (rope_data r))))\<rparr>)"

definition gsm_rope_add_sms_deliver_pdu ::
    "(nat \<Rightarrow> bytes) \<Rightarrow> bytes \<Rightarrow> bool \<Rightarrow> SmsAddressRec \<Rightarrow> bytes \<Rightarrow> nat \<Rightarrow> nat \<Rightarrow> nat \<Rightarrow> GsmRopeRec \<Rightarrow> GsmRopeRec outcome" where
  "gsm_rope_add_sms_deliver_pdu junk utf8 use_gsm7 sender_address timestamp ref_num pdu_count pdu_index rope =
     (let mtiByte = (if pdu_count > 1 then 0x60 else 0x20);
          coding = (if use_gsm7 then 0 else 9);
          r = gsm_rope_add_timestamp junk timestamp (gsm_rope_add_c junk coding (gsm_rope_add_c junk 0
                (gsm_rope_add_address junk sender_address
                  (gsm_rope_add_c junk mtiByte (gsm_rope_add_c junk 0 rope)))))
      in if use_gsm7 then
           (let count = utf8_to_gsm7_count utf8;
                headerBits = 6 * 8;
                headerSeptets = headerBits div 7 + (if headerBits mod 7 > 0 then 1 else 0);
                pad = (if pdu_count > 1 then headerSeptets * 7 - headerBits else 0);
                r1 = (if pdu_count > 1
                      then gsm_rope_add_sms_user_header junk ref_num pdu_count pdu_index
                             (gsm_rope_add_c junk (of_nat (count + headerSeptets)) r)
                      else gsm_rope_add_c junk (of_nat count) r)
            in if count > MAX_USER_DATA_SEPTETS - USER_DATA_HEADER_SIZE then Inl Process_exit
               else Inr (rope_reserve_write junk ((count * 7 + pad + 7) div 8)
                      (\<lambda>dst. fst (utf8_to_gsm7 utf8 dst pad)) r1))
         else
           (let count = length (utf8_to_ucs2 utf8) div 2;
                r1 = (if pdu_count > 1
                      then gsm_rope_add_sms_user_header junk ref_num pdu_count pdu_index
                             (gsm_rope_add_c junk (of_nat (count * 2 + 6)) r)
                      else gsm_rope_add_c junk (of_nat (count * 2)) r)
            in if count * 2 > MAX_USER_DATA_BYTES - USER_DATA_HEADER_SIZE then Inl Process_exit
               else Inr (rope_reserve_write junk (count * 2) (\<lambda>dst. utf8_to_ucs2 utf8) r1)))"

text \<open>The two passes: the first rope has no array and gives the size of the second.\<close>

definition smspdu_create_deliver ::
    "(nat \<Rightarrow> bytes) \<Rightarrow> bytes \<Rightarrow> bytes \<Rightarrow> bool \<Rightarrow> SmsAddressRec \<Rightarrow> bytes \<Rightarrow> nat \<Rightarrow> nat \<Rightarrow> nat \<Rightarrow> SmsPDURec option outcome" where
  "smspdu_create_deliver junk data0 utf8 use_gsm7 sender_address timestamp ref_num pdu_count pdu_index =
     (case gsm_rope_add_sms_deliver_pdu junk utf8 use_gsm7 sender_address timestamp ref_num pdu_count pdu_index gsm_rope_init of
        Inl e \<Rightarrow> Inl e
      | Inr r1 \<Rightarrow>
          if rope_error r1 then Inr None
          else case gsm_rope_add_sms_deliver_pdu junk utf8 use_gsm7 sender_address timestamp ref_num pdu_count pdu_index
                      (gsm_rope_init_alloc data0 (rope_pos r1)) of
              Inl e \<Rightarrow> Inl e
            | Inr r2 \<Rightarrow>
                (case gsm_rope_done_acquire r2 of
                   (None, _) \<Rightarrow> Inr None
                 | (Some base, sz) \<Rightarrow> Inr (Some \<lparr>pdu_base = take sz base, pdu_tpdu = 1\<rparr>)))"

text \<open>The pieces of the text: the rest of the string, the number of units left to make, the index.\<close>

fun deliver_units ::
    "(bytes \<Rightarrow> nat \<Rightarrow> bytes) \<Rightarrow> (bytes \<Rightarrow> nat \<Rightarrow> SmsPDURec option outcome) \<Rightarrow> nat \<Rightarrow> nat \<Rightarrow> nat \<Rightarrow> bytes \<Rightarrow> nat \<Rightarrow>
     SmsPDURec list option outcome" where
  "deliver_units skip_to create block leftover 0 src nn = Inr (Some [])"
| "deliver_units skip_to create block leftover (Suc k) src nn =
     (let skip = (if leftover > 0 \<and> k = 0 then leftover else block);
          src_next = skip_to src skip
      in case create (take (length src - length src_next) src) nn of
           Inl e \<Rightarrow> Inl e
         | Inr None \<Rightarrow> Inr None
         | Inr (Some pdu) \<Rightarrow>
             (case deliver_units skip_to create block leftover k src_next (nn + 1) of
                Inl e \<Rightarrow> Inl e
              | Inr None \<Rightarrow> Inr None
              | Inr (Some pdus) \<Rightarrow> Inr (Some (pdu # pdus))))"

text \<open>\<open>ref_num\<close> is the static counter; the new counter is the second result.\<close>

definition smspdu_create_deliver_utf8 ::
    "(nat \<Rightarrow> bytes) \<Rightarrow> bytes \<Rightarrow> bytes \<Rightarrow> SmsAddressRec \<Rightarrow> bytes \<Rightarrow> u8 \<Rightarrow> (SmsPDURec list option \<times> u8) outcome" where
  "smspdu_create_deliver_utf8 junk data0 utf8 sender_address timestamp ref_num =
     (let use_gsm7 = utf8_check_gsm7 utf8;
          count = (if use_gsm7 then utf8_to_gsm7_count utf8 else length (utf8_to_ucs2 utf8));
          block = (if use_gsm7 then MAX_USER_DATA_SEPTETS - USER_DATA_HEADER_SIZE
                   else MAX_USER_DATA_BYTES - USER_DATA_HEADER_SIZE);
          leftover = count mod block;
          num_pdus = count div block + (if leftover > 0 then 1 else 0)
      in case deliver_units (if use_gsm7 then utf8_skip_gsm7 else utf8_skip_ucs2)
             (\<lambda>piece nn. smspdu_create_deliver junk data0 piece use_gsm7 sender_address timestamp (unat ref_num) num_pdus nn)
             block leftover num_pdus utf8 0 of
           Inl e \<Rightarrow> Inl e
         | Inr None \<Rightarrow> Inr (None, ref_num)
         | Inr (Some pdus) \<Rightarrow> Inr (Some pdus, ref_num + 1))"

section \<open>Hexadecimal form\<close>

definition smspdu_create_from_hex :: "bytes \<Rightarrow> SmsPDURec option" where
  "smspdu_create_from_hex hex =
     (case gsm_hex_to_bytes hex of
        None \<Rightarrow> None
      | Some base \<Rightarrow>
          (case sms_skip_sc_address base of
             None \<Rightarrow> None
           | Some rest \<Rightarrow> Some \<lparr>pdu_base = base, pdu_tpdu = length base - length rest\<rparr>))"

text \<open>The characters stored in an array of \<open>hexlen\<close> characters, and the value returned.\<close>

definition smspdu_to_hex :: "SmsPDURec \<Rightarrow> nat \<Rightarrow> bytes \<times> nat" where
  "smspdu_to_hex pdu hexlen =
     (let result = length (pdu_base pdu) * 2; n = min hexlen result
      in (gsm_hex_from_bytes (take ((n + 1) div 2) (pdu_base pdu)), result))"

end
