(* ===== verification/Sms_Deliver.thy ===== *)
theory Sms_Deliver
  imports Sms_Pdu Gsm_Septets
begin

text \<open>
  What \<open>smspdu_create_deliver_utf8\<close> makes of a text: the layout of a unit, the round trip through
  its hexadecimal form, and how a long text is cut into units.
\<close>

section \<open>Builders\<close>

text \<open>
  A builder appends given bytes to a rope that only counts, and to a rope with enough zeroed room.
\<close>

definition rope_clean :: "GsmRopeRec \<Rightarrow> bytes \<Rightarrow> bool" where
  "rope_clean rope bs \<longleftrightarrow> rope_holds rope bs \<and>
     (rope_data rope \<noteq> Rope_null \<longrightarrow> rope_bytes (rope_data rope) = bs @ replicate (rope_max rope - length bs) 0)"

definition rope_appends :: "(GsmRopeRec \<Rightarrow> GsmRopeRec) \<Rightarrow> bytes \<Rightarrow> bool" where
  "rope_appends f bs \<longleftrightarrow> (\<forall>rope b0. rope_clean rope b0 \<longrightarrow> rope_room rope (length bs) \<longrightarrow>
     rope_clean (f rope) (b0 @ bs) \<and> rope_max (f rope) = rope_max rope \<and>
     (rope_data (f rope) = Rope_null) = (rope_data rope = Rope_null))"

lemma rope_appendsD:
  assumes "rope_appends f bs" "rope_clean rope b0" "rope_room rope (length bs)"
  shows "rope_clean (f rope) (b0 @ bs)" "rope_max (f rope) = rope_max rope"
    "(rope_data (f rope) = Rope_null) = (rope_data rope = Rope_null)"
  using assms by (auto simp: rope_appends_def)

lemma rope_clean_room: "rope_clean rope b \<Longrightarrow> rope_room rope n \<longleftrightarrow> rope_data rope = Rope_null \<or> length b + n \<le> rope_max rope"
  by (simp add: rope_clean_def rope_holds_def rope_room_def)

lemma rope_appends_comp:
  assumes f: "rope_appends f bs" and g: "rope_appends g cs"
  shows "rope_appends (\<lambda>r. g (f r)) (bs @ cs)"
  unfolding rope_appends_def
proof (intro allI impI)
  fix rope b0
  assume c: "rope_clean rope b0" and r: "rope_room rope (length (bs @ cs))"
  have r1: "rope_room rope (length bs)" using r by (auto simp: rope_room_def)
  note f1 = rope_appendsD [OF f c r1]
  have "rope_room (f rope) (length cs)"
    using r rope_clean_room [OF c] rope_clean_room [OF f1(1)] f1(2,3) by auto
  from rope_appendsD [OF g f1(1) this] f1(2,3)
  show "rope_clean (g (f rope)) (b0 @ bs @ cs) \<and> rope_max (g (f rope)) = rope_max rope \<and>
    (rope_data (g (f rope)) = Rope_null) = (rope_data rope = Rope_null)" by simp
qed

lemma rope_clean_add:
  assumes "rope_clean rope b0" "rope_room rope (length src)"
  shows "rope_clean (gsm_rope_add junk src rope) (b0 @ src)"
proof -
  have h: "rope_holds rope b0" using assms(1) by (simp add: rope_clean_def)
  note a = rope_add_holds [OF h assms(2), where junk = junk]
  show ?thesis
  proof (cases "rope_data rope = Rope_null")
    case True
    with a show ?thesis by (simp add: rope_clean_def)
  next
    case False
    then have e: "rope_data (gsm_rope_add junk src rope) = rope_store (rope_data rope) (length b0) src"
      using h assms(2) by (auto simp: gsm_rope_add_def gsm_rope_can_grow_def rope_holds_def rope_room_def Let_def)
    have "rope_bytes (rope_data rope) = b0 @ replicate (rope_max rope - length b0) 0"
      using assms(1) False by (simp add: rope_clean_def)
    then have "rope_bytes (rope_data (gsm_rope_add junk src rope)) = (b0 @ src) @ replicate (rope_max rope - length (b0 @ src)) 0"
      using False by (simp add: e seg_write_def)
    with a show ?thesis by (simp add: rope_clean_def)
  qed
qed

lemma rope_appends_add: "rope_appends (gsm_rope_add junk src) src"
  using rope_clean_add rope_add_holds by (auto simp: rope_appends_def rope_clean_def)

lemma rope_appends_add_c: "rope_appends (gsm_rope_add_c junk c) [c]"
  unfolding gsm_rope_add_c_def by (rule rope_appends_add)

text \<open>A reserved part that is filled with a given number of bytes, from zeroes.\<close>

lemma rope_appends_reserve:
  assumes "\<And>n. count \<le> n \<Longrightarrow> write (replicate n 0) = src" "length src = count"
  shows "rope_appends (rope_reserve_write junk count write) src"
  unfolding rope_appends_def
proof (intro allI impI)
  fix rope b0
  assume c: "rope_clean rope b0" and r: "rope_room rope (length src)"
  have h: "rope_holds rope b0" using c by (simp add: rope_clean_def)
  have "rope_reserve_write junk count write rope = gsm_rope_add junk src rope"
  proof (cases "rope_data rope = Rope_null")
    case True
    then show ?thesis
      using assms(2) by (simp add: rope_reserve_write_def gsm_rope_reserve_def gsm_rope_add_def gsm_rope_can_grow_def)
  next
    case False
    then have "rope_bytes (rope_data rope) = b0 @ replicate (rope_max rope - length b0) 0" "rope_pos rope = length b0"
      using c by (simp_all add: rope_clean_def rope_holds_def)
    with False r h assms show ?thesis
      by (simp add: rope_reserve_write_def gsm_rope_reserve_def gsm_rope_add_def gsm_rope_can_grow_def
          rope_room_def rope_holds_def Let_def)
  qed
  with rope_appendsD [OF rope_appends_add c r] show "rope_clean (rope_reserve_write junk count write rope) (b0 @ src) \<and>
    rope_max (rope_reserve_write junk count write rope) = rope_max rope \<and>
    (rope_data (rope_reserve_write junk count write rope) = Rope_null) = (rope_data rope = Rope_null)" by simp
qed

text \<open>Two passes of a builder give its bytes.\<close>

lemma rope_build:
  assumes "rope_appends f bs" "bs \<noteq> []"
  shows "\<not> rope_error (f gsm_rope_init)" "rope_pos (f gsm_rope_init) = length bs"
    "gsm_rope_done_acquire (f (gsm_rope_init_alloc inl (length bs))) = (Some bs, length bs)"
proof -
  have "rope_clean gsm_rope_init []" by (simp add: rope_clean_def) (simp add: gsm_rope_init_def)
  from rope_appendsD(1) [OF assms(1) this] show "\<not> rope_error (f gsm_rope_init)" "rope_pos (f gsm_rope_init) = length bs"
    by (simp_all add: rope_clean_def rope_holds_def)
  let ?r = "gsm_rope_init_alloc inl (length bs)"
  have c: "rope_clean ?r []" "rope_room ?r (length bs)"
    using rope_alloc_holds [of "length bs" inl] assms(2)
    by (simp_all add: rope_clean_def gsm_rope_init_alloc_def)
  note d = rope_appendsD [OF assms(1) c]
  have "rope_max ?r = length bs" "rope_data ?r \<noteq> Rope_null" using assms(2) by (simp_all add: gsm_rope_init_alloc_def)
  with d have "rope_bytes (rope_data (f ?r)) = bs" "rope_pos (f ?r) = length bs" "rope_data (f ?r) \<noteq> Rope_null"
    by (simp_all add: rope_clean_def rope_holds_def)
  then show "gsm_rope_done_acquire (f ?r) = (Some bs, length bs)"
    by (cases "rope_data (f ?r)") (simp_all add: gsm_rope_done_acquire_def)
qed

section \<open>The layout of a unit\<close>

definition address_ok :: "SmsAddressRec \<Rightarrow> bool" where
  "address_ok adr \<longleftrightarrow> length (adr_data adr) = SMS_ADDRESS_MAX_SIZE \<and> 1 \<le> unat (adr_len adr) \<and> unat (adr_len adr) \<le> 32"

definition address_bytes :: "SmsAddressRec \<Rightarrow> bytes" where
  "address_bytes adr =
     (let n = unat (adr_len adr); d = take ((n + 1) div 2) (adr_data adr)
      in [adr_len adr, adr_toa adr] @ (if odd n then butlast d @ [last d OR 0xf0] else d))"

lemma rope_clean_patch:
  assumes c: "rope_clean r (bs @ [x])"
  shows "rope_clean (r\<lparr>rope_data := rope_store (rope_data r) (rope_pos r - 1) [y]\<rparr>) (bs @ [y])"
proof -
  have p: "rope_pos r - 1 = length bs" using c by (simp add: rope_clean_def rope_holds_def)
  show ?thesis
    using c by (cases "rope_data r = Rope_null") (auto simp: rope_clean_def rope_holds_def p seg_write_def)
qed

lemma rope_appends_address:
  assumes "address_ok adr"
  shows "rope_appends (gsm_rope_add_address junk adr) (address_bytes adr)"
  unfolding rope_appends_def
proof (intro allI impI)
  fix rope b0
  assume c: "rope_clean rope b0" and room: "rope_room rope (length (address_bytes adr))"
  define n where "n = unat (adr_len adr)"
  define d where "d = take ((n + 1) div 2) (adr_data adr)"
  have n: "1 \<le> n" "n \<le> 32" "length (adr_data adr) = 16"
    using assms by (simp_all add: address_ok_def n_def SMS_ADDRESS_MAX_SIZE_def)
  then have d: "d \<noteq> []" by (auto simp: d_def)
  have app: "rope_appends (\<lambda>r. gsm_rope_add junk d (gsm_rope_add_c junk (adr_toa adr) (gsm_rope_add_c junk (adr_len adr) r)))
      ([adr_len adr] @ [adr_toa adr] @ d)"
    using rope_appends_comp [OF rope_appends_comp [OF rope_appends_add_c rope_appends_add_c] rope_appends_add] by simp
  have ab: "address_bytes adr = [adr_len adr, adr_toa adr] @ (if odd n then butlast d @ [last d OR 0xf0] else d)"
    by (simp only: address_bytes_def Let_def n_def d_def)
  have l: "length ([adr_len adr] @ [adr_toa adr] @ d) = length (address_bytes adr)"
    using d by (simp add: ab)
  define r where "r = gsm_rope_add junk d (gsm_rope_add_c junk (adr_toa adr) (gsm_rope_add_c junk (adr_len adr) rope))"
  have r: "rope_clean r (b0 @ [adr_len adr, adr_toa adr] @ d)" "rope_max r = rope_max rope"
    "(rope_data r = Rope_null) = (rope_data rope = Rope_null)"
    using rope_appendsD [OF app c room [folded l]] by (simp_all add: r_def)
  have err: "\<not> rope_error r" using r(1) by (simp add: rope_clean_def rope_holds_def)
  show "rope_clean (gsm_rope_add_address junk adr rope) (b0 @ address_bytes adr) \<and>
    rope_max (gsm_rope_add_address junk adr rope) = rope_max rope \<and>
    (rope_data (gsm_rope_add_address junk adr rope) = Rope_null) = (rope_data rope = Rope_null)"
  proof (cases "odd n \<and> rope_data r \<noteq> Rope_null")
    case True
    have split: "b0 @ [adr_len adr, adr_toa adr] @ d = (b0 @ [adr_len adr, adr_toa adr] @ butlast d) @ [last d]" using d by simp
    have "rope_bytes (rope_data r) ! (rope_pos r - 1) = last d"
      using r(1) True d by (auto simp: rope_clean_def rope_holds_def split nth_append last_conv_nth)
    then have "gsm_rope_add_address junk adr rope = r\<lparr>rope_data := rope_store (rope_data r) (rope_pos r - 1) [last d OR 0xf0]\<rparr>"
      using True err unfolding gsm_rope_add_address_def Let_def n_def [symmetric] d_def [symmetric] r_def [symmetric] by simp
    with rope_clean_patch [OF r(1) [unfolded split], of "last d OR 0xf0"] True r(2,3) show ?thesis
      by (simp add: ab)
  next
    case False
    then have e: "gsm_rope_add_address junk adr rope = r"
      unfolding gsm_rope_add_address_def Let_def n_def [symmetric] d_def [symmetric] r_def [symmetric] by auto
    have "rope_clean r (b0 @ address_bytes adr)"
      using False r(1) d by (auto simp: ab rope_clean_def rope_holds_def)
    with r e show ?thesis by simp
  qed
qed

definition user_header :: "nat \<Rightarrow> nat \<Rightarrow> nat \<Rightarrow> bytes" where
  "user_header ref_num pdu_count pdu_index = [5, 0, 3, of_nat ref_num, of_nat pdu_count, of_nat pdu_index + 1]"

lemma rope_appends_then_c:
  assumes "rope_appends f bs"
  shows "rope_appends (\<lambda>r. gsm_rope_add_c junk c (f r)) (bs @ [c])"
  using assms rope_appends_add_c by (rule rope_appends_comp)

lemma rope_appends_header:
  "rope_appends (gsm_rope_add_sms_user_header junk ref_num pdu_count pdu_index) (user_header ref_num pdu_count pdu_index)"
proof -
  have "user_header ref_num pdu_count pdu_index =
      ((((([5] @ [0]) @ [3]) @ [of_nat ref_num]) @ [of_nat pdu_count]) @ [of_nat pdu_index + 1])"
    by (simp add: user_header_def)
  then show ?thesis
    unfolding gsm_rope_add_sms_user_header_def [abs_def]
    by (simp only:) (intro rope_appends_then_c rope_appends_add_c)
qed

text \<open>The user data: its length in septets or bytes, the header of a concatenated message, the text.\<close>

definition gsm7_user_data :: "bytes \<Rightarrow> nat \<Rightarrow> nat \<Rightarrow> nat \<Rightarrow> bytes" where
  "gsm7_user_data utf8 ref_num pdu_count pdu_index =
     (if pdu_count > 1
      then of_nat (utf8_to_gsm7_count utf8 + 7) # user_header ref_num pdu_count pdu_index @ fst (utf8_to_gsm7 utf8 [0] 1)
      else of_nat (utf8_to_gsm7_count utf8) # fst (utf8_to_gsm7 utf8 [0] 0))"

definition ucs2_user_data :: "bytes \<Rightarrow> nat \<Rightarrow> nat \<Rightarrow> nat \<Rightarrow> bytes" where
  "ucs2_user_data utf8 ref_num pdu_count pdu_index =
     (if pdu_count > 1
      then of_nat (length (utf8_to_ucs2 utf8) + 6) # user_header ref_num pdu_count pdu_index @ utf8_to_ucs2 utf8
      else of_nat (length (utf8_to_ucs2 utf8)) # utf8_to_ucs2 utf8)"

definition deliver_bytes :: "bytes \<Rightarrow> bool \<Rightarrow> SmsAddressRec \<Rightarrow> bytes \<Rightarrow> nat \<Rightarrow> nat \<Rightarrow> nat \<Rightarrow> bytes" where
  "deliver_bytes utf8 use_gsm7 adr ts ref_num pdu_count pdu_index =
     [0, if pdu_count > 1 then 0x60 else 0x20] @ address_bytes adr @ [0, if use_gsm7 then 0 else 9] @ take 7 ts @
     (if use_gsm7 then gsm7_user_data utf8 ref_num pdu_count pdu_index
      else ucs2_user_data utf8 ref_num pdu_count pdu_index)"

lemma gsm7_septets_count: "length (gsm7_septets c) = (let len = unichar_to_gsm7_count c in if len = 0 then 1 else len)"
  by (auto simp: gsm7_septets_def unichar_to_gsm7_count_def split: option.splits)

lemma utf8_to_gsm7_count_septets:
  "utf8_to_gsm7_count utf8 = length (concat (map gsm7_septets (utf8_points utf8)))"
  unfolding utf8_to_gsm7_count_def by (simp add: gsm7_septets_count length_concat comp_def)

lemma bwriter_length:
  "bw_bits w < 8 \<Longrightarrow> bw_bits (fold bwriter_add7 ns w) < 8 \<and>
   8 * length (bw_dst (fold bwriter_add7 ns w)) + bw_bits (fold bwriter_add7 ns w) =
     8 * length (bw_dst w) + bw_bits w + 7 * length ns"
proof (induction ns arbitrary: w)
  case (Cons n ns)
  have "bw_bits (bwriter_add7 n w) < 8 \<and> 8 * length (bw_dst (bwriter_add7 n w)) + bw_bits (bwriter_add7 n w) =
      8 * length (bw_dst w) + bw_bits w + 7"
    using Cons.prems by (auto simp: bwriter_add7_def Let_def)
  with Cons.IH [of "bwriter_add7 n w"] show ?case by simp
qed simp

lemma length_utf8_to_gsm7:
  assumes "pad < 8"
  shows "length (fst (utf8_to_gsm7 utf8 dst pad)) = (utf8_to_gsm7_count utf8 * 7 + pad + 7) div 8"
proof -
  define ns where "ns = concat (map gsm7_septets (utf8_points utf8))"
  define w where "w = fold bwriter_add7 ns (bwriter_init dst pad)"
  have w: "bw_bits w < 8" "8 * length (bw_dst w) + bw_bits w = pad + 7 * length ns"
    using bwriter_length [of "bwriter_init dst pad" ns] assms by (simp_all add: w_def bwriter_init_def)
  have "length (fst (bwriter_done w)) = (8 * length (bw_dst w) + bw_bits w + 7) div 8"
    using w(1) by (auto simp: bwriter_done_def)
  then show ?thesis
    unfolding w(2) by (simp add: utf8_to_gsm7_def utf8_to_gsm7_count_septets w_def ns_def ac_simps)
qed

lemma utf8_to_gsm7_zero: "0 < n \<Longrightarrow> pad < 8 \<Longrightarrow> utf8_to_gsm7 utf8 (replicate n 0) pad = utf8_to_gsm7 utf8 [0] pad"
  by (simp add: utf8_to_gsm7_def bwriter_init_def)

lemma length_utf8_to_ucs2: "length (utf8_to_ucs2 utf8) = 2 * (length (utf8_to_ucs2 utf8) div 2)"
proof -
  have "even (length (utf8_to_ucs2 utf8))"
    by (simp add: utf8_to_ucs2_def length_concat comp_def ucs2_write_def sum_list_triv)
  then show ?thesis by simp
qed

text \<open>The builders of the user data.\<close>

definition gsm7_builder :: "(nat \<Rightarrow> bytes) \<Rightarrow> bytes \<Rightarrow> nat \<Rightarrow> nat \<Rightarrow> nat \<Rightarrow> GsmRopeRec \<Rightarrow> GsmRopeRec" where
  "gsm7_builder junk utf8 ref_num pdu_count pdu_index r =
     (let n = utf8_to_gsm7_count utf8; pad = (if pdu_count > 1 then 1 else 0) in
      rope_reserve_write junk ((n * 7 + pad + 7) div 8) (\<lambda>dst. fst (utf8_to_gsm7 utf8 dst pad))
        (if pdu_count > 1 then gsm_rope_add_sms_user_header junk ref_num pdu_count pdu_index (gsm_rope_add_c junk (of_nat (n + 7)) r)
         else gsm_rope_add_c junk (of_nat n) r))"

definition ucs2_builder :: "(nat \<Rightarrow> bytes) \<Rightarrow> bytes \<Rightarrow> nat \<Rightarrow> nat \<Rightarrow> nat \<Rightarrow> GsmRopeRec \<Rightarrow> GsmRopeRec" where
  "ucs2_builder junk utf8 ref_num pdu_count pdu_index r =
     (let n = length (utf8_to_ucs2 utf8) in
      rope_reserve_write junk n (\<lambda>dst. utf8_to_ucs2 utf8)
        (if pdu_count > 1 then gsm_rope_add_sms_user_header junk ref_num pdu_count pdu_index (gsm_rope_add_c junk (of_nat (n + 6)) r)
         else gsm_rope_add_c junk (of_nat n) r))"

lemma rope_appends_length_header:
  "rope_appends (\<lambda>r. gsm_rope_add_sms_user_header junk ref_num pdu_count pdu_index (gsm_rope_add_c junk c r))
     ([c] @ user_header ref_num pdu_count pdu_index)"
  by (rule rope_appends_comp [OF rope_appends_add_c rope_appends_header])

lemma rope_appends_packed:
  assumes "pad = 0 \<or> pad = 1"
  shows "rope_appends (rope_reserve_write junk ((utf8_to_gsm7_count utf8 * 7 + pad + 7) div 8)
      (\<lambda>dst. fst (utf8_to_gsm7 utf8 dst pad))) (fst (utf8_to_gsm7 utf8 [0] pad))"
proof (rule rope_appends_reserve)
  show "length (fst (utf8_to_gsm7 utf8 [0] pad)) = (utf8_to_gsm7_count utf8 * 7 + pad + 7) div 8"
    using assms by (intro length_utf8_to_gsm7) auto
  fix k assume "(utf8_to_gsm7_count utf8 * 7 + pad + 7) div 8 \<le> k"
  then show "fst (utf8_to_gsm7 utf8 (replicate k 0) pad) = fst (utf8_to_gsm7 utf8 [0] pad)"
    using assms by (cases "k = 0") (auto simp: utf8_to_gsm7_zero utf8_to_gsm7_def bwriter_init_def)
qed

lemma rope_appends_gsm7:
  "rope_appends (gsm7_builder junk utf8 ref_num pdu_count pdu_index) (gsm7_user_data utf8 ref_num pdu_count pdu_index)"
proof (cases "pdu_count > 1")
  case True
  with rope_appends_comp [OF rope_appends_length_header rope_appends_packed [of 1]] show ?thesis
    by (simp add: gsm7_builder_def [abs_def] gsm7_user_data_def Let_def)
next
  case False
  with rope_appends_comp [OF rope_appends_add_c rope_appends_packed [of 0]] show ?thesis
    by (simp add: gsm7_builder_def [abs_def] gsm7_user_data_def Let_def)
qed

lemma rope_appends_ucs2:
  "rope_appends (ucs2_builder junk utf8 ref_num pdu_count pdu_index) (ucs2_user_data utf8 ref_num pdu_count pdu_index)"
proof -
  have res: "rope_appends (rope_reserve_write junk (length (utf8_to_ucs2 utf8)) (\<lambda>dst. utf8_to_ucs2 utf8)) (utf8_to_ucs2 utf8)"
    by (rule rope_appends_reserve) simp_all
  show ?thesis
  proof (cases "pdu_count > 1")
    case True
    with rope_appends_comp [OF rope_appends_length_header res] show ?thesis
      by (simp add: ucs2_builder_def [abs_def] ucs2_user_data_def Let_def)
  next
    case False
    with rope_appends_comp [OF rope_appends_add_c res] show ?thesis
      by (simp add: ucs2_builder_def [abs_def] ucs2_user_data_def Let_def)
  qed
qed

text \<open>The builder of a unit appends its layout.\<close>

lemma rope_appends_deliver:
  assumes adr: "address_ok adr"
    and fits: "if use_gsm7 then utf8_to_gsm7_count utf8 \<le> 154 else length (utf8_to_ucs2 utf8) \<le> 134"
  obtains f where "\<And>rope. gsm_rope_add_sms_deliver_pdu junk utf8 use_gsm7 adr ts ref_num pdu_count pdu_index rope = Inr (f rope)"
    "rope_appends f (deliver_bytes utf8 use_gsm7 adr ts ref_num pdu_count pdu_index)"
proof -
  let ?c = "if pdu_count > 1 then 0x60 else 0x20 :: u8" and ?d = "if use_gsm7 then 0 else 9 :: u8"
  define h where "h = (\<lambda>rope. gsm_rope_add_timestamp junk ts (gsm_rope_add_c junk ?d (gsm_rope_add_c junk 0
      (gsm_rope_add_address junk adr (gsm_rope_add_c junk ?c (gsm_rope_add_c junk 0 rope))))))"
  have h: "rope_appends h ((((([0] @ [?c]) @ address_bytes adr) @ [0]) @ [?d]) @ take 7 ts)"
    unfolding h_def gsm_rope_add_timestamp_def
    by (intro rope_appends_comp [OF _ rope_appends_add] rope_appends_then_c
        rope_appends_comp [OF _ rope_appends_address [OF adr]] rope_appends_add_c)
  define g where "g = (if use_gsm7 then gsm7_builder junk utf8 ref_num pdu_count pdu_index
      else ucs2_builder junk utf8 ref_num pdu_count pdu_index)"
  have g: "rope_appends g (if use_gsm7 then gsm7_user_data utf8 ref_num pdu_count pdu_index
      else ucs2_user_data utf8 ref_num pdu_count pdu_index)"
    using rope_appends_gsm7 rope_appends_ucs2 by (simp add: g_def)
  have n2: "length (utf8_to_ucs2 utf8) div 2 * 2 = length (utf8_to_ucs2 utf8)"
    using length_utf8_to_ucs2 [of utf8] by simp
  show thesis
  proof (rule that [of "\<lambda>rope. g (h rope)"])
    show "gsm_rope_add_sms_deliver_pdu junk utf8 use_gsm7 adr ts ref_num pdu_count pdu_index rope = Inr (g (h rope))" for rope
      unfolding gsm_rope_add_sms_deliver_pdu_def Let_def n2
      using fits by (cases use_gsm7) (simp_all add: h_def g_def gsm7_builder_def ucs2_builder_def dev_defs Let_def)
    show "rope_appends (\<lambda>rope. g (h rope)) (deliver_bytes utf8 use_gsm7 adr ts ref_num pdu_count pdu_index)"
      using rope_appends_comp [OF h g] by (simp add: deliver_bytes_def)
  qed
qed

lemma smspdu_create_deliver_layout:
  assumes "address_ok adr"
    and "if use_gsm7 then utf8_to_gsm7_count utf8 \<le> 154 else length (utf8_to_ucs2 utf8) \<le> 134"
  shows "smspdu_create_deliver junk data0 utf8 use_gsm7 adr ts ref_num pdu_count pdu_index =
    Inr (Some \<lparr>pdu_base = deliver_bytes utf8 use_gsm7 adr ts ref_num pdu_count pdu_index, pdu_tpdu = 1\<rparr>)"
proof -
  obtain f where f: "\<And>rope. gsm_rope_add_sms_deliver_pdu junk utf8 use_gsm7 adr ts ref_num pdu_count pdu_index rope = Inr (f rope)"
    "rope_appends f (deliver_bytes utf8 use_gsm7 adr ts ref_num pdu_count pdu_index)"
    using rope_appends_deliver [OF assms, of junk ts ref_num pdu_count pdu_index] by blast
  have "deliver_bytes utf8 use_gsm7 adr ts ref_num pdu_count pdu_index \<noteq> []" by (simp add: deliver_bytes_def)
  from rope_build [OF f(2) this] show ?thesis
    by (simp add: smspdu_create_deliver_def f(1))
qed

lemma deliver_bytes_hd: "\<exists>rest. deliver_bytes utf8 use_gsm7 adr ts ref_num pdu_count pdu_index = 0 # rest"
  by (simp add: deliver_bytes_def)

section \<open>Cutting a text\<close>

lemma utf8_next_text:
  assumes "bmp u" "list_all bmp us"
  shows "utf8_next (utf8_write u @ utf8_text us) = (u, utf8_text us)"
  using assms utf8_text_start [OF assms(2)] by (intro utf8_next_write) (simp_all add: bmp_def)

lemma utf8_check_gsm7_text:
  "list_all bmp us \<Longrightarrow> list_all (\<lambda>u. unichar_to_gsm7_count u \<noteq> 0) us \<Longrightarrow> utf8_check_gsm7 (utf8_text us)"
proof (induction us)
  case (Cons u us)
  then have "utf8_next (utf8_write u @ utf8_text us) = (u, utf8_text us)" by (intro utf8_next_text) simp_all
  with Cons show ?case by (subst utf8_check_gsm7.simps) auto
qed (simp add: utf8_check_gsm7.simps)

lemma utf8_skip_gsm7_char:
  assumes "bmp u" "list_all bmp us" "unichar_to_gsm7_count u = Suc k"
  shows "utf8_skip_gsm7 (utf8_text (u # us)) n =
    (if n < Suc k then utf8_text (u # us) else utf8_skip_gsm7 (utf8_text us) (n - Suc k))"
proof -
  have "utf8_next (utf8_text (u # us)) = (u, utf8_text us)" using utf8_next_text [OF assms(1,2)] by simp
  with bmp_nonneg [OF assms(1)] assms(3) show ?thesis by (subst utf8_skip_gsm7.simps) (simp add: utf8_skip_gsm7.simps)
qed

lemma utf8_skip_gsm7_append:
  "list_all gsm7_basic us \<Longrightarrow> list_all bmp vs \<Longrightarrow>
   utf8_skip_gsm7 (utf8_text (us @ vs)) (length us + n) = utf8_skip_gsm7 (utf8_text vs) n"
proof (induction us)
  case (Cons u us)
  have b: "gsm7_basic u" "list_all bmp (us @ vs)" using Cons.prems gsm7_basic_text [of us] by auto
  obtain c where "bmp u" "unichar_to_gsm7_count u = 1" using gsm7_basic_septet [OF b(1)] by metis
  with utf8_skip_gsm7_char [OF _ b(2), of u 0] Cons show ?case by simp
qed simp

lemma utf8_skip_gsm7_basic:
  assumes "list_all gsm7_basic us" "n \<le> length us"
  shows "utf8_skip_gsm7 (utf8_text us) n = utf8_text (drop n us)"
proof -
  have "list_all gsm7_basic (take n us)" "list_all bmp (drop n us)"
    using assms(1) gsm7_basic_text [OF assms(1)] by (auto simp: list_all_iff dest: in_set_takeD in_set_dropD)
  from utf8_skip_gsm7_append [OF this, of 0] assms(2) show ?thesis
    by (simp only: append_take_drop_id length_take min_absorb2 add_0_right) (simp add: utf8_skip_gsm7.simps)
qed

lemma utf8_skip_ucs2_text:
  "list_all bmp us \<Longrightarrow> n \<le> length us \<Longrightarrow> utf8_skip_ucs2 (utf8_text us) (2 * n) = utf8_text (drop n us)"
proof (induction us arbitrary: n)
  case Nil
  then show ?case by (simp add: utf8_skip_ucs2.simps)
next
  case (Cons u us)
  show ?case
  proof (cases n)
    case 0
    then show ?thesis by (simp add: utf8_skip_ucs2.simps)
  next
    case (Suc k)
    have "utf8_next (utf8_text (u # us)) = (u, utf8_text us)" using utf8_next_text [of u us] Cons.prems by simp
    with Suc bmp_nonneg [of u] Cons show ?thesis by simp
  qed
qed

text \<open>The loop over the units cuts the characters into blocks; the last one may be shorter.\<close>

definition blocks :: "nat \<Rightarrow> nat \<Rightarrow> nat" where
  "blocks b n = n div b + (if n mod b > 0 then 1 else 0)"

lemma blocks_le: "0 < n \<Longrightarrow> n \<le> b \<Longrightarrow> blocks b n = 1"
  by (cases "n = b") (simp_all add: blocks_def)

lemma blocks_gt: "0 < b \<Longrightarrow> b < n \<Longrightarrow> blocks b n = Suc (blocks b (n - b)) \<and> blocks b (n - b) > 0 \<and> (n - b) mod b = n mod b"
  using div_greater_zero_iff [of "n - b" b] dvd_imp_le [of b "n - b"] by (auto simp: blocks_def le_div_geq le_mod_geq)

lemma concat_blocks: "0 < b \<Longrightarrow> concat (map (\<lambda>i. take b (drop (b * i) us)) [0..<blocks b (length us)]) = us"
proof (induction "length us" arbitrary: us rule: less_induct)
  case less
  consider "us = []" | "0 < length us" "length us \<le> b" | (more) "b < length us" by fastforce
  then show ?case
  proof cases
    case more
    then have "concat (map (\<lambda>i. take b (drop (b * i) (drop b us))) [0..<blocks b (length us - b)]) = drop b us"
      using less.hyps [of "drop b us"] less.prems by simp
    with blocks_gt [OF less.prems more] show ?thesis
      by (simp add: map_upt_Suc add.commute del: upt_Suc)
  qed (simp_all add: blocks_def blocks_le [unfolded blocks_def])
qed

lemma deliver_units_cut:
  assumes b: "0 < b" and w: "0 < w"
    and skip: "\<And>us n. list_all P us \<Longrightarrow> n \<le> length us \<Longrightarrow> skip_to (utf8_text us) (w * n) = utf8_text (drop n us)"
    and create: "\<And>us nn. list_all P us \<Longrightarrow> length us \<le> b \<Longrightarrow> create (utf8_text us) nn = Inr (Some (unit nn us))"
  shows "list_all P us \<Longrightarrow>
    deliver_units skip_to create (w * b) (w * (length us mod b)) (blocks b (length us)) (utf8_text us) nn =
    Inr (Some (map (\<lambda>i. unit (nn + i) (take b (drop (b * i) us))) [0..<blocks b (length us)]))"
proof (induction "length us" arbitrary: us nn rule: less_induct)
  case less
  have piece: "take (length (utf8_text us) - length (utf8_text (drop n us))) (utf8_text us) = utf8_text (take n us)" for n
    by (metis append_take_drop_id utf8_text_simps(3) length_append add_diff_cancel_right' append_eq_conv_conj)
  have P: "list_all P (take n us)" "list_all P (drop n us)" for n
    using less.prems by (auto simp: list_all_iff dest: in_set_takeD in_set_dropD)
  consider (nil) "us = []" | (last) "0 < length us" "length us \<le> b" | (more) "b < length us" by fastforce
  then show ?case
  proof cases
    case nil
    then show ?thesis by (simp add: blocks_def)
  next
    case last
    then have "length us mod b = length us \<or> length us = b \<and> length us mod b = 0" by (cases "length us = b") auto
    with last w show ?thesis
      using skip [OF less.prems, of "length us"] create [OF less.prems last(2)]
      by (auto simp: blocks_le Let_def)
  next
    case more
    note k = blocks_gt [OF b more]
    have "deliver_units skip_to create (w * b) (w * (length us mod b)) (blocks b (length us - b)) (utf8_text (drop b us)) (nn + 1) =
      Inr (Some (map (\<lambda>i. unit (nn + 1 + i) (take b (drop (b * i) (drop b us)))) [0..<blocks b (length us - b)]))"
      using less.hyps [of "drop b us" "nn + 1"] more b k P(2) by simp
    with k more show ?thesis
      using skip [OF less.prems, of b] create [OF P(1) [of b]] piece [of b]
      by (simp add: map_upt_Suc Let_def del: upt_Suc) (simp add: algebra_simps)
  qed
qed

section \<open>Texts as sequences of units\<close>

definition deliver_unit :: "bool \<Rightarrow> SmsAddressRec \<Rightarrow> bytes \<Rightarrow> u8 \<Rightarrow> nat \<Rightarrow> nat \<Rightarrow> u32 list \<Rightarrow> SmsPDURec" where
  "deliver_unit use_gsm7 adr ts ref_num pdu_count pdu_index us =
     \<lparr>pdu_base = deliver_bytes (utf8_text us) use_gsm7 adr ts (unat ref_num) pdu_count pdu_index, pdu_tpdu = 1\<rparr>"

lemma gsm7_basic_count:
  assumes "list_all gsm7_basic us"
  shows "utf8_to_gsm7_count (utf8_text us) = length us" "list_all bmp us" "utf8_check_gsm7 (utf8_text us)"
proof -
  show b: "list_all bmp us" using gsm7_basic_text [OF assms] by simp
  have "list_all (\<lambda>u. gsm7_basic u \<or> gsm7_extended u) us" using assms by (auto simp: list_all_iff)
  from utf8_to_gsm7_count_text [OF b this] show "utf8_to_gsm7_count (utf8_text us) = length us"
    using gsm7_basic_text [OF assms] by simp
  have "list_all (\<lambda>u. unichar_to_gsm7_count u \<noteq> 0) us"
    using assms by (auto simp: list_all_iff gsm7_basic_def unichar_to_gsm7_count_def)
  with b show "utf8_check_gsm7 (utf8_text us)" by (rule utf8_check_gsm7_text)
qed

lemma ucs2_length:
  "list_all bmp us \<Longrightarrow> length (utf8_to_ucs2 (utf8_text us)) = 2 * length us"
  by (simp add: utf8_to_ucs2_def utf8_points_text length_concat comp_def ucs2_write_def sum_list_triv)

lemma utf8_check_gsm7_not:
  "list_all bmp us \<Longrightarrow> u \<in> set us \<Longrightarrow> unichar_to_gsm7_count u = 0 \<Longrightarrow> \<not> utf8_check_gsm7 (utf8_text us)"
proof (induction us)
  case (Cons v us)
  then have n: "utf8_next (utf8_write v @ utf8_text us) = (v, utf8_text us)" by (intro utf8_next_text) simp_all
  have "utf8_write v \<noteq> []" by (simp add: utf8_write_def)
  with Cons n show ?case by (subst utf8_check_gsm7.simps) auto
qed simp

lemma create_deliver_utf8_basic:
  assumes "address_ok adr" "list_all gsm7_basic us"
  shows "smspdu_create_deliver_utf8 junk data0 (utf8_text us) adr ts ref_num =
      Inr (Some (map (\<lambda>i. deliver_unit True adr ts ref_num (blocks 154 (length us)) i (take 154 (drop (154 * i) us)))
        [0..<blocks 154 (length us)]), ref_num + 1)"
proof -
  have "deliver_units utf8_skip_gsm7
      (\<lambda>piece nn. smspdu_create_deliver junk data0 piece True adr ts (unat ref_num) (blocks 154 (length us)) nn)
      (1 * 154) (1 * (length us mod 154)) (blocks 154 (length us)) (utf8_text us) 0 =
    Inr (Some (map (\<lambda>i. deliver_unit True adr ts ref_num (blocks 154 (length us)) (0 + i) (take 154 (drop (154 * i) us)))
        [0..<blocks 154 (length us)]))"
    using assms(1) utf8_skip_gsm7_basic gsm7_basic_count(1)
    by (intro deliver_units_cut [where P = gsm7_basic])
      (simp_all add: assms(2) smspdu_create_deliver_layout deliver_unit_def)
  then show ?thesis
    by (simp add: smspdu_create_deliver_utf8_def gsm7_basic_count [OF assms(2)] dev_defs blocks_def Let_def del: One_nat_def)
qed

section \<open>What a phone reads\<close>

text \<open>
  A unit to be delivered as the standard has it (GSM 03.40, 9.2.2.1), independently of the functions
  that make it: the first octet, the number of digits and the type of the sender's address and its
  digits, two octets for the protocol and the coding, seven for the time, the number of septets, and the
  septets; a header, if bit 6 of the first octet is set, takes up the septets it touches.
\<close>

definition phone_user_data :: "SmsPDURec \<Rightarrow> bytes" where
  "phone_user_data pdu = (let tp = pdu_data pdu in drop (3 + (unat (tp ! 1) + 1) div 2 + 9) tp)"

definition phone_text :: "SmsPDURec \<Rightarrow> u32 list" where
  "phone_text pdu =
     (let ud = phone_user_data pdu;
          header = (if bit (pdu_data pdu ! 0) 6 then (8 * (unat (ud ! 1) + 1) + 6) div 7 else 0)
      in gsm_chars (tl ud) header (unat (hd ud)))"

text \<open>The reference, the number of units and the number of this unit in the header of a concatenated message.\<close>

definition phone_part :: "SmsPDURec \<Rightarrow> (u8 \<times> u8 \<times> u8) option" where
  "phone_part pdu =
     (let ud = phone_user_data pdu in if bit (pdu_data pdu ! 0) 6 then Some (ud ! 4, ud ! 5, ud ! 6) else None)"

lemma length_address_bytes:
  assumes "address_ok adr"
  shows "length (address_bytes adr) = 2 + (unat (adr_len adr) + 1) div 2" "address_bytes adr ! 0 = adr_len adr"
proof -
  define n where "n = unat (adr_len adr)"
  have n: "1 \<le> n" "n \<le> 32" "length (adr_data adr) = 16" using assms by (simp_all add: address_ok_def n_def SMS_ADDRESS_MAX_SIZE_def)
  have "n div 2 \<le> 15" if "odd n" using n(2) that by presburger
  with n show "length (address_bytes adr) = 2 + (unat (adr_len adr) + 1) div 2" "address_bytes adr ! 0 = adr_len adr"
    unfolding n_def [symmetric] by (auto simp: address_bytes_def Let_def n_def [symmetric])
qed

lemma deliver_unit_user_data:
  assumes "address_ok adr" "7 \<le> length ts"
  shows "phone_user_data (deliver_unit True adr ts ref_num pdu_count pdu_index us) =
      gsm7_user_data (utf8_text us) (unat ref_num) pdu_count pdu_index"
    "pdu_data (deliver_unit True adr ts ref_num pdu_count pdu_index us) ! 0 = (if pdu_count > 1 then 0x60 else 0x20)"
proof -
  let ?u = "deliver_unit True adr ts ref_num pdu_count pdu_index us" and ?f = "if pdu_count > 1 then 0x60 else 0x20 :: u8"
  let ?ud = "gsm7_user_data (utf8_text us) (unat ref_num) pdu_count pdu_index"
  have d: "pdu_data ?u = (?f # address_bytes adr @ [0, 0] @ take 7 ts) @ ?ud"
    by (simp add: pdu_data_def deliver_unit_def deliver_bytes_def)
  then show "pdu_data ?u ! 0 = ?f" by simp
  have "address_bytes adr \<noteq> []" using length_address_bytes(1) [OF assms(1)] by auto
  then have "pdu_data ?u ! 1 = adr_len adr"
    using length_address_bytes(2) [OF assms(1)] unfolding d by (simp add: nth_append)
  then have "3 + (unat (pdu_data ?u ! 1) + 1) div 2 + 9 = length (?f # address_bytes adr @ [0, 0] @ take 7 ts)"
    using length_address_bytes(1) [OF assms(1)] assms(2) by simp
  then have "phone_user_data ?u = drop (length (?f # address_bytes adr @ [0, 0] @ take 7 ts)) (pdu_data ?u)"
    unfolding phone_user_data_def Let_def by (rule arg_cong)
  also have "\<dots> = ?ud" unfolding d by (rule append_eq_conv_conj [THEN iffD1, OF refl, THEN conjunct2, symmetric])
  finally show "phone_user_data ?u = ?ud" .
qed

lemma deliver_unit_read:
  assumes "address_ok adr" "7 \<le> length ts" "list_all gsm7_basic us" "length us \<le> 154"
  shows "phone_text (deliver_unit True adr ts ref_num pdu_count pdu_index us) = us"
    "phone_part (deliver_unit True adr ts ref_num pdu_count pdu_index us) =
      (if pdu_count > 1 then Some (ref_num, of_nat pdu_count, of_nat pdu_index + 1) else None)"
proof -
  let ?u = "deliver_unit True adr ts ref_num pdu_count pdu_index us"
  note ud = deliver_unit_user_data [OF assms(1,2), of ref_num pdu_count pdu_index us]
  note c = gsm7_basic_count(1) [OF assms(3)]
  have codes: "list_all (\<lambda>n. n < 128) (map gsm7_code us)" using gsm7_basic_text [OF assms(3)] by simp
  have bits6: "bit (0x60 :: u8) 6" "\<not> bit (0x20 :: u8) 6" by (simp_all add: bit_numeral_word_iff)
  have chars: "gsm_chars d p (p + length us) = us" if "map (gsm_septet d) [p..<p + length us] = map gsm7_code us" for d p
    using arg_cong [OF that, of "map (\<lambda>n. gsm7bits_to_unicode ! n)"] gsm7_code_char [OF assms(3)] by (simp add: gsm_chars_def comp_def)
  show "phone_part ?u = (if pdu_count > 1 then Some (ref_num, of_nat pdu_count, of_nat pdu_index + 1) else None)"
    unfolding phone_part_def ud Let_def using bits6 by (simp add: gsm7_user_data_def user_header_def)
  show "phone_text ?u = us"
  proof (cases "pdu_count > 1")
    case False
    obtain post where "byte_bits (fst (utf8_to_gsm7 (utf8_text us) [0] 0)) = replicate 0 False @ concat (map septet_bits (map gsm7_code us)) @ post"
      by (rule utf8_to_gsm7_bits [OF assms(3), of 0]) simp
    from gsm_septets_stored [OF this _ codes, of 0] have "gsm_chars (fst (utf8_to_gsm7 (utf8_text us) [0] 0)) 0 (length us) = us"
      using chars [where p = 0] by simp
    moreover have "unat (of_nat (length us) :: u8) = length us" using assms(4) by (simp add: unat_of_nat)
    ultimately show ?thesis
      using False bits6 by (simp add: phone_text_def ud gsm7_user_data_def c)
  next
    case True
    let ?h = "user_header (unat ref_num) pdu_count pdu_index" and ?p = "fst (utf8_to_gsm7 (utf8_text us) [0] 1)"
    obtain post where "byte_bits ?p = replicate 1 False @ concat (map septet_bits (map gsm7_code us)) @ post"
      by (rule utf8_to_gsm7_bits [OF assms(3), of 1]) simp
    then have "byte_bits (?h @ ?p) = (byte_bits ?h @ replicate 1 False) @ concat (map septet_bits (map gsm7_code us)) @ post" by simp
    from gsm_septets_stored [OF this _ codes, of 7] have "gsm_chars (?h @ ?p) 7 (7 + length us) = us"
      using chars [where p = 7] by (simp add: user_header_def)
    moreover have "unat (of_nat (length us + 7) :: u8) = length us + 7" using assms(4) by (simp add: unat_of_nat take_bit_nat_eq_self del: of_nat_add)
    moreover have "phone_text ?u = gsm_chars (?h @ ?p) ((8 * (unat (?h ! 0) + 1) + 6) div 7) (unat (of_nat (length us + 7) :: u8))"
      using True bits6 unfolding phone_text_def ud gsm7_user_data_def c Let_def by (simp add: nth_append user_header_def del: of_nat_add)
    moreover have "(8 * (unat (?h ! 0) + 1) + 6) div 7 = 7" by (simp add: user_header_def)
    ultimately show ?thesis by (simp only: add.commute)
  qed
qed

lemma deliver_units_read:
  assumes "address_ok adr" "7 \<le> length ts" "list_all gsm7_basic us"
  shows "concat (map phone_text (map (\<lambda>i. deliver_unit True adr ts ref_num m i (take 154 (drop (154 * i) us)))
      [0..<blocks 154 (length us)])) = us"
proof -
  have "phone_text (deliver_unit True adr ts ref_num m i (take 154 (drop (154 * i) us))) = take 154 (drop (154 * i) us)" for i
  proof -
    have "set (take 154 (drop (154 * i) us)) \<subseteq> set us" by (meson in_set_dropD in_set_takeD subsetI)
    with assms(3) show ?thesis by (intro deliver_unit_read(1) assms(1,2)) (auto simp: list_all_iff)
  qed
  then show ?thesis by (simp add: comp_def concat_blocks)
qed


definition example_address :: SmsAddressRec where
  "example_address = \<lparr>adr_len = 3, adr_toa = 0x81, adr_data = [0x21, 0xf3] @ replicate 14 0\<rparr>"

lemma example_address_ok: "address_ok example_address"
  by (simp add: address_ok_def example_address_def SMS_ADDRESS_MAX_SIZE_def)


text \<open>
  A text with a character outside the GSM alphabet is sent in UCS-2, in units of 67 characters
  (134 bytes behind the header), again without losing or repeating a character.
\<close>

lemma sms_deliver_split_ucs2:
  assumes "address_ok adr" "list_all bmp us" "u \<in> set us" "unichar_to_gsm7_count u = 0"
  shows "smspdu_create_deliver_utf8 junk data0 (utf8_text us) adr ts ref_num =
      Inr (Some (map (\<lambda>i. deliver_unit False adr ts ref_num (blocks 67 (length us)) i (take 67 (drop (67 * i) us)))
        [0..<blocks 67 (length us)]), ref_num + 1) \<and>
    concat (map (\<lambda>i. take 67 (drop (67 * i) us)) [0..<blocks 67 (length us)]) = us"
proof
  have "deliver_units utf8_skip_ucs2
      (\<lambda>piece nn. smspdu_create_deliver junk data0 piece False adr ts (unat ref_num) (blocks 67 (length us)) nn)
      (2 * 67) (2 * (length us mod 67)) (blocks 67 (length us)) (utf8_text us) 0 =
    Inr (Some (map (\<lambda>i. deliver_unit False adr ts ref_num (blocks 67 (length us)) (0 + i) (take 67 (drop (67 * i) us)))
        [0..<blocks 67 (length us)]))"
    using assms(1) utf8_skip_ucs2_text
    by (intro deliver_units_cut [where P = bmp])
      (simp_all add: assms(2) smspdu_create_deliver_layout deliver_unit_def ucs2_length)
  moreover have "2 * length us mod 134 = 2 * (length us mod 67)" "2 * length us div 134 = length us div 67"
    using mult_mod_right [of 2 "length us" 67] div_mult2_eq [of "2 * length us" 2 67] by simp_all
  ultimately show "smspdu_create_deliver_utf8 junk data0 (utf8_text us) adr ts ref_num =
      Inr (Some (map (\<lambda>i. deliver_unit False adr ts ref_num (blocks 67 (length us)) i (take 67 (drop (67 * i) us)))
        [0..<blocks 67 (length us)]), ref_num + 1)"
    using utf8_check_gsm7_not [OF assms(2-4)]
    by (simp add: smspdu_create_deliver_utf8_def ucs2_length [OF assms(2)] dev_defs blocks_def Let_def)
  show "concat (map (\<lambda>i. take 67 (drop (67 * i) us)) [0..<blocks 67 (length us)]) = us"
    by (rule concat_blocks) simp
qed

text \<open>
  A unit created for a text that fits survives its hexadecimal form: the string printed for
  it is parsed into the same unit, with the same transport part, and it is a unit to be delivered.
\<close>

lemma sms_deliver_hex_roundtrip:
  assumes "address_ok adr" "if use_gsm7 then utf8_to_gsm7_count utf8 \<le> 154 else length (utf8_to_ucs2 utf8) \<le> 134"
  shows "\<exists>pdu. smspdu_create_deliver junk data0 utf8 use_gsm7 adr ts ref_num pdu_count pdu_index = Inr (Some pdu) \<and>
    smspdu_create_from_hex (fst (smspdu_to_hex pdu (snd (smspdu_to_hex pdu 0)))) = Some pdu \<and>
    smspdu_get_type pdu = SMS_PDU_DELIVER"
proof -
  let ?b = "deliver_bytes utf8 use_gsm7 adr ts ref_num pdu_count pdu_index"
  have t: "(2 * length ?b + 1) div 2 = length ?b" by simp
  obtain c rest where r: "?b = 0 # c # rest" "c = 0x20 \<or> c = 0x60"
    unfolding deliver_bytes_def by (cases "pdu_count > 1") auto
  then have "smspdu_get_type \<lparr>pdu_base = ?b, pdu_tpdu = 1\<rparr> = SMS_PDU_DELIVER"
    by (auto simp: smspdu_get_type_def pdu_data_def sms_get_byte_def)
  moreover have "gsm_hex_to_bytes (gsm_hex_from_bytes ?b) = Some ?b"
    by (simp add: gsm_hex_to_bytes_def hex_pairs_from_bytes)
  then have "smspdu_create_from_hex (gsm_hex_from_bytes ?b) = Some \<lparr>pdu_base = ?b, pdu_tpdu = 1\<rparr>"
    unfolding smspdu_create_from_hex_def by (simp only: option.case) (simp add: sms_skip_sc_address_def r(1))
  ultimately show ?thesis
    by (simp add: smspdu_create_deliver_layout [OF assms] smspdu_to_hex_def t mult.commute Let_def)
qed

text \<open>
  A character of two septets that does not fit at the end of a unit is moved to the next one,
  but the number of units is computed as if the septets were cut anywhere: of a text of 153 basic
  characters, an extended one and 153 basic ones, two units are made and the last character is
  lost, without an error.
\<close>

lemma sms_deliver_loses_tail:
  assumes "address_ok adr" "list_all gsm7_basic us" "length us = 153" "gsm7_extended e"
    "list_all gsm7_basic vs" "length vs = 152" "gsm7_basic v"
  shows "smspdu_create_deliver_utf8 junk data0 (utf8_text (us @ [e] @ vs @ [v])) adr ts ref_num =
    Inr (Some [deliver_unit True adr ts ref_num 2 0 us, deliver_unit True adr ts ref_num 2 1 (e # vs)], ref_num + 1)"
proof -
  let ?t = "us @ [e] @ vs @ [v]"
  obtain n where e: "gsm7_septets e = [GSM_7BITS_ESCAPE, n]" "bmp e" "unichar_to_gsm7_count e = 2"
    using gsm7_extended_septet [OF assms(4)] by metis
  have vv: "list_all gsm7_basic (vs @ [v])" using assms(5,7) by simp
  note cu = gsm7_basic_count [OF assms(2)] and cv = gsm7_basic_count [OF vv] and cw = gsm7_basic_count [OF assms(5)]
  have bmp: "list_all bmp ?t" "list_all bmp (e # vs @ [v])" "list_all bmp (e # vs)" using cu cv cw e by simp_all
  have cnt: "list_all (\<lambda>u. unichar_to_gsm7_count u \<noteq> 0) ?t" "list_all (\<lambda>u. gsm7_basic u \<or> gsm7_extended u) ?t"
    "list_all (\<lambda>u. gsm7_basic u \<or> gsm7_extended u) (e # vs)"
    using assms by (auto simp: list_all_iff gsm7_basic_def gsm7_extended_def unichar_to_gsm7_count_def)
  have c: "utf8_to_gsm7_count (utf8_text ?t) = 308" "utf8_to_gsm7_count (utf8_text (e # vs)) = 154"
    using utf8_to_gsm7_count_text [OF bmp(1) cnt(2)] utf8_to_gsm7_count_text [OF bmp(3) cnt(3)] assms(3,6) e(1)
      gsm7_basic_text [OF assms(2)] gsm7_basic_text [OF vv] gsm7_basic_text [OF assms(5)] by simp_all
  have skip1: "utf8_skip_gsm7 (utf8_text ?t) 154 = utf8_text (e # vs @ [v])"
    using utf8_skip_gsm7_append [OF assms(2) bmp(2), of 1] utf8_skip_gsm7_char [OF e(2) cv(2), of 1 1] assms(3) e(3) by simp
  have skip2: "utf8_skip_gsm7 (utf8_text (e # vs @ [v])) 154 = utf8_text [v]"
    using utf8_skip_gsm7_char [OF e(2) cv(2), of 1 154] utf8_skip_gsm7_basic [OF vv, of 152] assms(6) e(3) by simp
  have p: "take (length (utf8_text ?t) - length (utf8_text (e # vs @ [v]))) (utf8_text ?t) = utf8_text us"
    "take (length (utf8_text (e # vs @ [v])) - length (utf8_text [v])) (utf8_text (e # vs @ [v])) = utf8_text (e # vs)"
    by simp_all
  have mk: "smspdu_create_deliver junk data0 (utf8_text us) True adr ts (unat ref_num) 2 0 =
      Inr (Some (deliver_unit True adr ts ref_num 2 0 us))"
    "smspdu_create_deliver junk data0 (utf8_text (e # vs)) True adr ts (unat ref_num) 2 1 =
      Inr (Some (deliver_unit True adr ts ref_num 2 1 (e # vs)))"
    using assms(1,3) c(2) cu(1) by (simp_all add: smspdu_create_deliver_layout deliver_unit_def)
  define t t1 t2 where "t = utf8_text ?t" and "t1 = utf8_text (e # vs @ [v])" and "t2 = utf8_text [v]"
  note facts = utf8_check_gsm7_text [OF bmp(1) cnt(1), folded t_def] c(1) [folded t_def] skip1 [folded t_def t1_def]
    skip2 [folded t1_def t2_def] p [folded t_def t1_def t2_def] mk
  from facts show ?thesis
    unfolding t_def [symmetric] smspdu_create_deliver_utf8_def by (simp add: dev_defs Let_def numeral_2_eq_2)
qed

end
