(* ===== verification/Sms_Receiver.thy ===== *)
theory Sms_Receiver
  imports Sms_Deliver
begin

text \<open>
  The receiver of submitted messages, \<open>telephony/sms.c\<close>: it collects the units of a message until
  all have arrived, and turns them into units to be delivered.

  An address variable on the stack is a parameter (\<open>adr0\<close>), as are the bytes of fresh memory. The
  array of units of a fragment has as many elements as were announced by the first unit.
\<close>

record SmsFragmentRec =
  frag_from :: SmsAddressRec
  frag_ref :: u8
  frag_max :: u8
  frag_count :: u8
  frag_index :: int
  frag_pdus :: "SmsPDURec option list"

record SmsReceiverRec =
  rec_last :: int
  rec_fragments :: "SmsFragmentRec list"

definition sms_fragment_alloc :: "SmsReceiverRec \<Rightarrow> SmsAddressRec \<Rightarrow> int \<Rightarrow> int \<Rightarrow> (SmsFragmentRec \<times> SmsReceiverRec) outcome" where
  "sms_fragment_alloc rec from_adr ref mx =
     (if rec_last rec \<ge> 2 ^ 31 - 1 then Inl Undefined_behaviour
      else Inr (\<lparr>frag_from = from_adr, frag_ref = of_int ref, frag_max = of_int mx, frag_count = 0,
                 frag_index = rec_last rec + 1, frag_pdus = replicate (nat mx) None\<rparr>,
                rec\<lparr>rec_last := rec_last rec + 1\<rparr>))"

definition sms_receiver_create :: SmsReceiverRec where
  "sms_receiver_create = \<lparr>rec_last = 0, rec_fragments = []\<rparr>"

definition sms_receiver_destroy :: "SmsReceiverRec \<Rightarrow> SmsReceiverRec" where
  "sms_receiver_destroy rec = rec\<lparr>rec_fragments := []\<rparr>"

text \<open>The position of the fragment, or the length of the list if there is none.\<close>

fun sms_receiver_find_p :: "SmsFragmentRec list \<Rightarrow> SmsAddressRec \<Rightarrow> int \<Rightarrow> nat outcome" where
  "sms_receiver_find_p [] from_adr ref = Inr 0"
| "sms_receiver_find_p (node # rest) from_adr ref =
     (if uint (frag_ref node) = ref then
        obind (sms_address_eq (frag_from node) from_adr)
          (\<lambda>eq. if eq then Inr 0 else obind (sms_receiver_find_p rest from_adr ref) (\<lambda>n. Inr (Suc n)))
      else obind (sms_receiver_find_p rest from_adr ref) (\<lambda>n. Inr (Suc n)))"

fun sms_receiver_find_index_p :: "SmsFragmentRec list \<Rightarrow> int \<Rightarrow> nat" where
  "sms_receiver_find_index_p [] index = 0"
| "sms_receiver_find_index_p (node # rest) index =
     (if frag_index node = index then 0 else Suc (sms_receiver_find_index_p rest index))"

text \<open>The element of the array, and the count, after a unit has been stored.\<close>

definition fragment_store :: "nat \<Rightarrow> SmsPDURec \<Rightarrow> SmsFragmentRec \<Rightarrow> SmsFragmentRec outcome" where
  "fragment_store cur pdu frag =
     (if length (frag_pdus frag) \<le> cur then Inl Undefined_behaviour
      else
        (let count = (if frag_pdus frag ! cur \<noteq> None then frag_count frag - 1 else frag_count frag)
         in Inr (frag\<lparr>frag_pdus := (frag_pdus frag)[cur := Some pdu], frag_count := count + 1\<rparr>)))"

text \<open>The receiver with the fragment at position \<open>i\<close>, which is appended if it is new.\<close>

definition receiver_fragment :: "SmsReceiverRec \<Rightarrow> SmsAddressRec \<Rightarrow> int \<Rightarrow> int \<Rightarrow> nat \<Rightarrow> SmsReceiverRec outcome" where
  "receiver_fragment rec from_adr ref mx i =
     (if i < length (rec_fragments rec) then Inr rec
      else obind (sms_fragment_alloc rec from_adr ref mx)
             (\<lambda>(frag, rec1). Inr (rec1\<lparr>rec_fragments := rec_fragments rec1 @ [frag]\<rparr>)))"

text \<open>Storing a unit in it, and the value returned.\<close>

definition receiver_put :: "SmsReceiverRec \<Rightarrow> nat \<Rightarrow> int \<Rightarrow> int \<Rightarrow> SmsPDURec \<Rightarrow> (int \<times> SmsReceiverRec) outcome" where
  "receiver_put rec i mx cur pdu =
     (if cur < 0 \<or> cur \<ge> mx then Inr (-1, rec)
      else
        obind (fragment_store (nat cur) pdu (rec_fragments rec ! i)) (\<lambda>frag.
        Inr (if frag_count frag \<ge> frag_max frag then frag_index frag else 0,
             rec\<lparr>rec_fragments := (rec_fragments rec)[i := frag]\<rparr>)))"

definition sms_receiver_add_submit_pdu ::
    "SmsReceiverRec \<Rightarrow> SmsAddressRec \<Rightarrow> SmsPDURec \<Rightarrow> (int \<times> SmsReceiverRec) outcome" where
  "sms_receiver_add_submit_pdu rec adr0 submit_pdu =
     (case smspdu_get_receiver_address submit_pdu adr0 of
        None \<Rightarrow> Inr (-1, rec)
      | Some from_adr \<Rightarrow>
          obind (smspdu_get_ref submit_pdu) (\<lambda>ref.
          if ref < 0 then Inr (-1, rec) else
          obind (smspdu_get_max_index submit_pdu) (\<lambda>mx.
          if mx < 0 then Inr (-1, rec) else
          obind (sms_receiver_find_p (rec_fragments rec) from_adr ref) (\<lambda>i.
          obind (receiver_fragment rec from_adr ref mx i) (\<lambda>rec1.
          obind (smspdu_get_cur_index submit_pdu) (\<lambda>cur.
          receiver_put rec1 i mx cur submit_pdu))))))"

section \<open>Reading a message\<close>

text \<open>A value of \<open>-1\<close> is added to the total like every other.\<close>

definition text_result :: "(bytes \<times> nat) option \<Rightarrow> bytes \<times> int" where
  "text_result r = (case r of None \<Rightarrow> ([], -1) | Some (text, n) \<Rightarrow> (text, int n))"

text \<open>Storing a text at a position of the array; positions outside are undefined.\<close>

definition text_store :: "bytes \<Rightarrow> int \<Rightarrow> bytes \<Rightarrow> bytes outcome" where
  "text_store buf pos text =
     (if text = [] then Inr buf
      else if pos < 0 \<or> pos + int (length text) > int (length buf) then Inl Undefined_behaviour
      else Inr (seg_write buf (nat pos) text))"

text \<open>The loop of \<open>sms_receiver_create_deliver\<close>; an element of the array that is \<open>NULL\<close> is dereferenced.\<close>

fun texts_copy ::
    "(SmsPDURec \<Rightarrow> nat \<Rightarrow> (bytes \<times> nat) option outcome) \<Rightarrow> SmsPDURec option list \<Rightarrow> bytes \<Rightarrow> int \<Rightarrow> int \<Rightarrow> (bytes \<times> int) outcome" where
  "texts_copy get [] buf pos utf8len = Inr (buf, 0)"
| "texts_copy get (None # pdus) buf pos utf8len = Inl Undefined_behaviour"
| "texts_copy get (Some pdu # pdus) buf pos utf8len =
     obind (get pdu (nat utf8len)) (\<lambda>r.
     obind (text_store buf pos (fst (text_result r))) (\<lambda>buf1.
     obind (texts_copy get pdus buf1 (pos + snd (text_result r)) (utf8len - snd (text_result r))) (\<lambda>(buf2, total).
     Inr (buf2, snd (text_result r) + total))))"

text \<open>
  The loop of \<open>sms_receiver_get_text_message\<close>, with the array (\<open>None\<close> for \<open>NULL\<close>), the position in
  it and the room that is left; it only counts when there is no room.
\<close>

fun texts_read ::
    "(SmsPDURec \<Rightarrow> nat \<Rightarrow> (bytes \<times> nat) option outcome) \<Rightarrow> SmsPDURec option list \<Rightarrow> bytes option \<Rightarrow> int \<Rightarrow> int \<Rightarrow>
     (bytes option \<times> int) outcome" where
  "texts_read get [] buf pos utf8len = Inr (buf, 0)"
| "texts_read get (None # pdus) buf pos utf8len = Inl Undefined_behaviour"
| "texts_read get (Some pdu # pdus) buf pos utf8len =
     (case buf of
        Some b \<Rightarrow>
          if utf8len > 0 then
            obind (get pdu (nat utf8len)) (\<lambda>r.
            obind (text_store b pos (fst (text_result r))) (\<lambda>b1.
            obind (texts_read get pdus (Some b1) (pos + snd (text_result r)) (utf8len - snd (text_result r))) (\<lambda>(b2, total).
            Inr (b2, snd (text_result r) + total))))
          else
            obind (get pdu 0) (\<lambda>r. obind (texts_read get pdus buf pos utf8len) (\<lambda>(b2, total).
            Inr (b2, snd (text_result r) + total)))
      | None \<Rightarrow>
          obind (get pdu 0) (\<lambda>r. obind (texts_read get pdus buf pos utf8len) (\<lambda>(b2, total).
          Inr (b2, snd (text_result r) + total))))"

definition sms_receiver_get_text_message ::
    "(SmsPDURec \<Rightarrow> nat \<Rightarrow> (bytes \<times> nat) option outcome) \<Rightarrow> SmsReceiverRec \<Rightarrow> int \<Rightarrow> bytes option \<Rightarrow> (bytes option \<times> int) outcome" where
  "sms_receiver_get_text_message get rec index buf =
     (let i = sms_receiver_find_index_p (rec_fragments rec) index in
      if i \<ge> length (rec_fragments rec) then Inr (buf, -1)
      else
        (let frag = rec_fragments rec ! i in
         if frag_count frag \<noteq> frag_max frag then Inr (buf, -1)
         else texts_read get (take (unat (frag_count frag)) (frag_pdus frag)) buf 0
                (case buf of None \<Rightarrow> 0 | Some b \<Rightarrow> int (length b))))"

definition sms_receiver_remove :: "SmsReceiverRec \<Rightarrow> int \<Rightarrow> SmsReceiverRec" where
  "sms_receiver_remove rec index =
     (let i = sms_receiver_find_index_p (rec_fragments rec) index
      in rec\<lparr>rec_fragments := take i (rec_fragments rec) @ drop (Suc i) (rec_fragments rec)\<rparr>)"

text \<open>The units to be delivered, the receiver, and the counter of references; \<open>now\<close> is the time stamp.\<close>

definition sms_receiver_create_deliver ::
    "(nat \<Rightarrow> bytes) \<Rightarrow> bytes \<Rightarrow> SmsAddressRec \<Rightarrow> bytes \<Rightarrow> SmsReceiverRec \<Rightarrow> int \<Rightarrow> SmsAddressRec \<Rightarrow> u8 \<Rightarrow>
     (SmsPDURec list option \<times> SmsReceiverRec \<times> u8) outcome" where
  "sms_receiver_create_deliver junk data0 adr0 now rec index from_adr ref_num =
     (let get = (\<lambda>pdu. smspdu_get_text_message junk data0 pdu adr0);
          i = sms_receiver_find_index_p (rec_fragments rec) index
      in if i \<ge> length (rec_fragments rec) then Inr (None, rec, ref_num)
         else if frag_count (rec_fragments rec ! i) \<noteq> frag_max (rec_fragments rec ! i) then Inr (None, rec, ref_num)
         else
           obind (sms_receiver_get_text_message get rec index None) (\<lambda>(_, utf8len).
           if utf8len < 0 then Inr (None, sms_receiver_remove rec index, ref_num)
           else
             obind (texts_copy get (take (unat (frag_count (rec_fragments rec ! i))) (frag_pdus (rec_fragments rec ! i)))
                      (junk (nat utf8len + 1)) 0 utf8len) (\<lambda>(utf8, _).
             obind (smspdu_create_deliver_utf8 junk data0 (take (nat utf8len) utf8) from_adr now ref_num) (\<lambda>(result, ref1).
             Inr (result, sms_receiver_remove rec index, ref1)))))"

section \<open>The fragments of reachable receivers\<close>

definition fragment_ok :: "SmsFragmentRec \<Rightarrow> bool" where
  "fragment_ok frag \<longleftrightarrow> length (frag_pdus frag) = unat (frag_max frag) \<and>
     unat (frag_count frag) = length (filter (\<lambda>p. p \<noteq> None) (frag_pdus frag))"

definition receiver_ok :: "SmsReceiverRec \<Rightarrow> bool" where
  "receiver_ok rec \<longleftrightarrow> 0 \<le> rec_last rec \<and> list_all fragment_ok (rec_fragments rec) \<and>
     distinct (map frag_index (rec_fragments rec)) \<and>
     list_all (\<lambda>f. 1 \<le> frag_index f \<and> frag_index f \<le> rec_last rec) (rec_fragments rec)"

text \<open>The receivers that the modem can come to, from the created one.\<close>

inductive receiver_reachable :: "SmsReceiverRec \<Rightarrow> bool" where
  created: "receiver_reachable sms_receiver_create"
| submitted: "receiver_reachable rec \<Longrightarrow> sms_receiver_add_submit_pdu rec adr0 pdu = Inr (r, rec') \<Longrightarrow> receiver_reachable rec'"
| delivered: "receiver_reachable rec \<Longrightarrow>
    sms_receiver_create_deliver junk data0 adr0 now rec index from_adr ref_num = Inr (pdus, rec', ref') \<Longrightarrow> receiver_reachable rec'"
| destroyed: "receiver_reachable rec \<Longrightarrow> receiver_reachable (sms_receiver_destroy rec)"

lemma filter_update:
  "i < length xs \<Longrightarrow> P y \<Longrightarrow>
   length (filter P (xs[i := y])) = (if P (xs ! i) then length (filter P xs) else Suc (length (filter P xs)))"
  by (induction xs arbitrary: i) (auto split: nat.splits)

lemma filter_full: "length (filter P xs) = length xs \<Longrightarrow> x \<in> set xs \<Longrightarrow> P x"
  by (metis filter_id_conv length_filter_less less_irrefl)

lemma fragment_store_ok:
  assumes "fragment_ok frag" "fragment_store cur pdu frag = Inr frag'"
  shows "fragment_ok frag'" "Some pdu \<in> set (frag_pdus frag')" "frag_index frag' = frag_index frag"
    "frag_max frag' = frag_max frag"
proof -
  let ?n = "length (filter (\<lambda>p. p \<noteq> None) (frag_pdus frag))"
  have cur: "cur < length (frag_pdus frag)" using assms(2) by (auto simp: fragment_store_def split: if_splits)
  have f: "frag' = frag\<lparr>frag_pdus := (frag_pdus frag)[cur := Some pdu],
      frag_count := (if frag_pdus frag ! cur \<noteq> None then frag_count frag else frag_count frag + 1)\<rparr>"
    using assms(2) cur by (auto simp: fragment_store_def Let_def split: if_splits)
  have u: "length (filter (\<lambda>p. p \<noteq> None) ((frag_pdus frag)[cur := Some pdu])) = (if frag_pdus frag ! cur \<noteq> None then ?n else Suc ?n)"
    using filter_update [OF cur, of "\<lambda>p. p \<noteq> None" "Some pdu"] by simp
  have "Suc ?n \<le> length (frag_pdus frag)" if "frag_pdus frag ! cur = None"
    using u that length_filter_le [of "\<lambda>p. p \<noteq> None" "(frag_pdus frag)[cur := Some pdu]"] by simp
  moreover have "length (frag_pdus frag) < 256"
    using assms(1) order_less_le_trans [OF unsigned_less [of "frag_max frag"], of 256] by (simp add: fragment_ok_def)
  ultimately have "Suc ?n < 256" if "frag_pdus frag ! cur = None"
    using that order_le_less_trans by blast
  then have "unat (frag_count frag + 1) = Suc ?n" if "frag_pdus frag ! cur = None"
    using that assms(1) by (simp add: fragment_ok_def unat_word_ariths)
  with assms(1) u show "fragment_ok frag'" by (auto simp: f fragment_ok_def)
  show "Some pdu \<in> set (frag_pdus frag')" "frag_index frag' = frag_index frag" "frag_max frag' = frag_max frag"
    using cur by (auto simp: f set_update_memI)
qed

lemma smspdu_get_max_range: "smspdu_get_max_index pdu = Inr m \<Longrightarrow> 0 \<le> m \<and> m < 256"
  using uint_lt2p [of "x :: u8" for x]
  by (auto simp: smspdu_get_max_index_def split: sum.splits option.splits)

lemma fragment_alloc_ok:
  assumes "receiver_ok rec" "sms_fragment_alloc rec from_adr ref mx = Inr (frag, rec1)" "0 \<le> mx" "mx < 256"
  shows "receiver_ok (rec1\<lparr>rec_fragments := rec_fragments rec1 @ [frag]\<rparr>)" "rec_fragments rec1 = rec_fragments rec"
proof -
  have a: "frag = \<lparr>frag_from = from_adr, frag_ref = of_int ref, frag_max = of_int mx, frag_count = 0,
      frag_index = rec_last rec + 1, frag_pdus = replicate (nat mx) None\<rparr>" "rec1 = rec\<lparr>rec_last := rec_last rec + 1\<rparr>"
    using assms(2) by (auto simp: sms_fragment_alloc_def split: if_splits)
  have "unat (of_int mx :: u8) = nat mx" using assms(3,4) by (simp add: unat_eq_nat_uint uint_word_of_int)
  then have "fragment_ok frag" by (simp add: a fragment_ok_def)
  with assms(1) show "receiver_ok (rec1\<lparr>rec_fragments := rec_fragments rec1 @ [frag]\<rparr>)"
    by (auto simp: receiver_ok_def a list_all_iff)
  show "rec_fragments rec1 = rec_fragments rec" by (simp add: a)
qed

lemma find_p_bound: "sms_receiver_find_p frs from_adr ref = Inr i \<Longrightarrow> i \<le> length frs"
  by (induction frs arbitrary: i) (auto split: if_splits)

lemma receiver_update_ok:
  assumes "receiver_ok rec" "i < length (rec_fragments rec)" "fragment_ok frag" "frag_index frag = frag_index (rec_fragments rec ! i)"
  shows "receiver_ok (rec\<lparr>rec_fragments := (rec_fragments rec)[i := frag]\<rparr>)"
proof -
  have "map frag_index ((rec_fragments rec)[i := frag]) = map frag_index (rec_fragments rec)"
    using assms(4) by (simp add: map_update list_update_same_conv assms(2))
  then show ?thesis
    using assms unfolding receiver_ok_def
    by (auto simp: list_all_iff dest!: set_update_subset_insert [THEN subsetD])
qed

definition holds_message :: "SmsReceiverRec \<Rightarrow> int \<Rightarrow> SmsPDURec \<Rightarrow> bool" where
  "holds_message rec index pdu \<longleftrightarrow> list_ex (\<lambda>frag. frag_index frag = index \<and> frag_count frag = frag_max frag \<and>
     None \<notin> set (frag_pdus frag) \<and> Some pdu \<in> set (frag_pdus frag)) (rec_fragments rec)"

lemma receiver_fragment_ok:
  assumes "receiver_ok rec" "receiver_fragment rec from_adr ref mx i = Inr rec1" "0 \<le> mx" "mx < 256" "i \<le> length (rec_fragments rec)"
  shows "receiver_ok rec1" "i < length (rec_fragments rec1)"
  using assms fragment_alloc_ok [OF assms(1)] by (auto simp: receiver_fragment_def split: if_splits)

lemma receiver_put_ok:
  assumes ok: "receiver_ok rec" "i < length (rec_fragments rec)" and res: "receiver_put rec i mx cur pdu = Inr (r, rec')"
  shows "receiver_ok rec'" "0 < r \<Longrightarrow> holds_message rec' r pdu"
proof -
  have "receiver_ok rec' \<and> (0 < r \<longrightarrow> holds_message rec' r pdu)"
  proof (cases "cur < 0 \<or> cur \<ge> mx")
    case True
    with ok res show ?thesis by (simp add: receiver_put_def)
  next
    case False
    with res obtain frag where f: "fragment_store (nat cur) pdu (rec_fragments rec ! i) = Inr frag"
      "r = (if frag_count frag \<ge> frag_max frag then frag_index frag else 0)"
      "rec' = rec\<lparr>rec_fragments := (rec_fragments rec)[i := frag]\<rparr>" by (auto simp: receiver_put_def)
    have "fragment_ok (rec_fragments rec ! i)" using ok by (auto simp: receiver_ok_def list_all_length)
    note s = fragment_store_ok [OF this f(1)]
    have full: "frag_count frag = frag_max frag \<and> None \<notin> set (frag_pdus frag)" if "frag_count frag \<ge> frag_max frag"
      using s(1) that length_filter_le [of "\<lambda>p. p \<noteq> None" "frag_pdus frag"] filter_full [of "\<lambda>p. p \<noteq> None" "frag_pdus frag" None]
      by (auto simp: fragment_ok_def word_le_nat_alt word_unat_eq_iff)
    have "frag \<in> set (rec_fragments rec')" using ok by (simp add: f(3) set_update_memI)
    with full s(2) f(2) have "0 < r \<longrightarrow> holds_message rec' r pdu" by (auto simp: holds_message_def list_ex_iff)
    with receiver_update_ok [OF ok s(1,3)] f(3) show ?thesis by simp
  qed
  then show "receiver_ok rec'" "0 < r \<Longrightarrow> holds_message rec' r pdu" by simp_all
qed

lemma add_submit_ok:
  assumes ok: "receiver_ok rec" and add: "sms_receiver_add_submit_pdu rec adr0 pdu = Inr (r, rec')"
  shows "receiver_ok rec'" "0 < r \<Longrightarrow> holds_message rec' r pdu"
proof -
  have "receiver_ok rec' \<and> (0 < r \<longrightarrow> holds_message rec' r pdu)"
  proof (cases "r = -1 \<and> rec' = rec")
    case True
    then show ?thesis using ok by simp
  next
    case False
    then obtain from_adr ref mx i rec1 cur where
      mx: "smspdu_get_max_index pdu = Inr mx" and
      i: "sms_receiver_find_p (rec_fragments rec) from_adr ref = Inr i" and
      rec1: "receiver_fragment rec from_adr ref mx i = Inr rec1" and res: "receiver_put rec1 i mx cur pdu = Inr (r, rec')"
      using add unfolding sms_receiver_add_submit_pdu_def by (auto split: option.splits if_splits)
    have m: "0 \<le> mx" "mx < 256" using smspdu_get_max_range [OF mx] by simp_all
    note rec1_ok = receiver_fragment_ok [OF ok rec1 m find_p_bound [OF i]]
    show ?thesis using receiver_put_ok [OF rec1_ok res] by simp
  qed
  then show "receiver_ok rec'" "0 < r \<Longrightarrow> holds_message rec' r pdu" by simp_all
qed

lemma remove_ok: "receiver_ok rec \<Longrightarrow> receiver_ok (sms_receiver_remove rec index)"
proof -
  assume ok: "receiver_ok rec"
  let ?i = "sms_receiver_find_index_p (rec_fragments rec) index" and ?fs = "rec_fragments rec"
  have "set (take ?i ?fs @ drop (Suc ?i) ?fs) \<subseteq> set ?fs" by (auto dest: in_set_takeD in_set_dropD)
  moreover have "distinct (map frag_index (take ?i ?fs @ drop (Suc ?i) ?fs))"
    using ok set_take_disj_set_drop_if_distinct [of "map frag_index ?fs" ?i "Suc ?i"]
    by (simp add: receiver_ok_def take_map [symmetric] drop_map [symmetric])
  ultimately show ?thesis
    using ok by (auto simp: receiver_ok_def sms_receiver_remove_def Let_def list_all_iff)
qed

lemma create_deliver_ok:
  assumes "receiver_ok rec" "sms_receiver_create_deliver junk data0 adr0 now rec index from_adr ref_num = Inr (pdus, rec', ref')"
  shows "receiver_ok rec'"
  using assms remove_ok [OF assms(1)]
  by (auto simp: sms_receiver_create_deliver_def Let_def split: if_splits prod.splits)

lemma reachable_ok: "receiver_reachable rec \<Longrightarrow> receiver_ok rec"
proof (induction rule: receiver_reachable.induct)
  case created
  then show ?case by (simp add: receiver_ok_def sms_receiver_create_def)
next
  case submitted
  then show ?case using add_submit_ok by blast
next
  case delivered
  then show ?case using create_deliver_ok by blast
next
  case destroyed
  then show ?case by (simp add: receiver_ok_def sms_receiver_destroy_def)
qed

text \<open>
  C28: In every receiver the modem can come to, the array of each fragment has the announced number
  of elements, its count is the number of units that have arrived, and the indices are positive and
  different. So a message is reported, by its index, only when every one of its units is there, the
  one just added among them.
\<close>

theorem sms_receiver_complete:
  assumes "receiver_reachable rec" "sms_receiver_add_submit_pdu rec adr0 pdu = Inr (r, rec')"
  shows "receiver_ok rec' \<and> (r \<le> 0 \<or> holds_message rec' r pdu)"
  using add_submit_ok [OF reachable_ok [OF assms(1)] assms(2)] by (cases "0 < r") auto

section \<open>From a submitted message to the units delivered\<close>

text \<open>
  A submitted unit of the standard (GSM 03.40, 9.2.2.2) without a validity period and without a header, with
  \<open>n\<close> septets packed in \<open>ud\<close>; and one whose septets are packed by \<open>utf8_to_gsm7\<close>.
\<close>

definition submit_tpdu :: "u8 \<Rightarrow> SmsAddressRec \<Rightarrow> nat \<Rightarrow> bytes \<Rightarrow> SmsPDURec" where
  "submit_tpdu ref to n ud = \<lparr>pdu_base = [0, 1, ref] @ address_bytes to @ [0, 0, of_nat n] @ ud, pdu_tpdu = 1\<rparr>"

definition submit_unit :: "u8 \<Rightarrow> SmsAddressRec \<Rightarrow> u32 list \<Rightarrow> SmsPDURec" where
  "submit_unit ref to us = submit_tpdu ref to (length us) (fst (utf8_to_gsm7 (utf8_text us) [0] 0))"

lemma rope_grow_ge: "new_count \<le> rope_grow new_max new_count"
  by (induction new_max new_count rule: rope_grow.induct) (subst rope_grow.simps, simp)

lemma rope_first_add:
  fixes src :: bytes
  assumes "\<And>n. length (junk n) = n" "length data0 = rope_inline_size"
  defines "r \<equiv> gsm_rope_add junk src (gsm_rope_init_alloc data0 0)"
  shows "rope_pos r = length src" "take (length src) (rope_bytes (rope_data r)) = src"
proof -
  show "rope_pos r = length src"
    by (simp add: r_def gsm_rope_add_def gsm_rope_can_grow_def gsm_rope_init_alloc_def gsm_rope_ensure_def Let_def)
  have "rope_data r = (if rope_inline_size < length src
      then Rope_heap (seg_write (junk (rope_grow rope_inline_size (length src))) 0 src) else Rope_inline (seg_write data0 0 src))"
    by (simp add: r_def gsm_rope_add_def gsm_rope_can_grow_def gsm_rope_init_alloc_def gsm_rope_ensure_def Let_def)
  then show "take (length src) (rope_bytes (rope_data r)) = src" by (simp add: seg_write_def)
qed

lemma get_address_bytes:
  assumes "address_ok to"
  obtains a where "sms_get_address (address_bytes to @ rest) adr0 = Some (a, rest)"
proof -
  define n where "n = unat (adr_len to)"
  have n: "1 \<le> n" "n \<le> 32" "length (adr_data to) = 16" using assms by (simp_all add: address_ok_def n_def SMS_ADDRESS_MAX_SIZE_def)
  define d where "d = (if odd n then butlast (take ((n + 1) div 2) (adr_data to)) @ [last (take ((n + 1) div 2) (adr_data to)) OR 0xf0]
      else take ((n + 1) div 2) (adr_data to))"
  have b: "address_bytes to = adr_len to # adr_toa to # d" by (simp add: address_bytes_def Let_def d_def n_def)
  have "n div 2 \<le> 15" if "odd n" using n(2) that by presburger
  with n have "length d = (n + 1) div 2" by (auto simp: d_def)
  moreover have "(n + 1) div 2 \<le> 16" using n(2) by simp
  ultimately have "\<exists>a. sms_get_address (address_bytes to @ rest) adr0 = Some (a, rest)"
    using n unfolding b sms_get_address_def by (simp add: Let_def n_def [symmetric] SMS_ADDRESS_MAX_SIZE_def)
  with that show thesis by blast
qed

lemma submit_tpdu_data: "pdu_data (submit_tpdu ref to n ud) = 1 # ref # address_bytes to @ [0, 0, of_nat n] @ ud"
  by (simp add: pdu_data_def submit_tpdu_def)

lemma submit_tpdu_fields:
  "smspdu_get_ref (submit_tpdu ref to n ud) = Inr (uint ref)" "smspdu_get_max_index (submit_tpdu ref to n ud) = Inr 1"
  "smspdu_get_cur_index (submit_tpdu ref to n ud) = Inr 0"
proof -
  have "smspdu_get_user_data_ref (submit_tpdu ref to n ud) = Inr None"
    by (simp add: smspdu_get_user_data_ref_def submit_tpdu_data sms_get_byte_def)
  then show "smspdu_get_ref (submit_tpdu ref to n ud) = Inr (uint ref)" "smspdu_get_max_index (submit_tpdu ref to n ud) = Inr 1"
    "smspdu_get_cur_index (submit_tpdu ref to n ud) = Inr 0"
    by (simp_all add: smspdu_get_ref_def smspdu_get_max_index_def smspdu_get_cur_index_def submit_tpdu_data sms_get_byte_def)
qed

lemma submit_tpdu_text:
  assumes "\<And>n. length (junk n) = n" "length data0 = rope_inline_size"
    and to: "address_ok to" and us: "list_all gsm7_basic us" "length us < 256"
    and ud: "map (gsm_septet ud) [0..<length us] = map gsm7_code us" "7 * length us \<le> 8 * length ud"
  defines "t \<equiv> utf8_text us"
  shows "smspdu_get_text_message junk data0 (submit_tpdu ref to (length us) ud) adr0 n = Inr (Some (take (min n (length t)) t, length t))"
proof -
  let ?r = "gsm_rope_add junk t (gsm_rope_init_alloc data0 0)"
  obtain a where a: "sms_get_address (address_bytes to @ [0, 0, of_nat (length us)] @ ud) adr0 = Some (a, [0, 0, of_nat (length us)] @ ud)"
    using get_address_bytes [OF to] by blast
  have p: "utf8_from_gsm7 ud 0 (length us) = Inr t"
    using utf8_from_gsm7_septets [OF ud us(1)] by (simp add: t_def)
  have "data_coding 0 = SMS_CODING_SCHEME_GSM7" by (simp add: data_coding_def)
  moreover have "unat (of_nat (length us) :: u8) = length us" using us(2) by (simp add: unat_of_nat)
  ultimately have g: "smspdu_get_text_message junk data0 (submit_tpdu ref to (length us) ud) adr0 n =
      Inr (Some (take (min n (rope_pos ?r)) (rope_bytes (rope_data ?r)), rope_pos ?r))"
    using a p by (simp add: smspdu_get_text_message_def submit_tpdu_data t_def [symmetric] sms_get_byte_def
        sms_get_coding_scheme_def sms_get_text_utf8_def sms_text_header_def)
  have cut: "take (min n (length t)) xs = take (min n (length t)) t" if "take (length t) xs = t" for xs
    using arg_cong [OF that, of "take n"] by (simp add: min_def)
  note r = rope_first_add [OF assms(1,2), of t]
  show ?thesis by (simp only: g r(1) cut [OF r(2)])
qed

lemma find_p_new:
  "list_all (\<lambda>f. frag_ref f \<noteq> ref) frs \<Longrightarrow> sms_receiver_find_p frs a (uint ref) = Inr (length frs)"
  by (induction frs) (auto simp: word_uint_eq_iff)

lemma find_index_new:
  "list_all (\<lambda>f. frag_index f \<noteq> index) frs \<Longrightarrow> frag_index frag = index \<Longrightarrow> sms_receiver_find_index_p (frs @ [frag]) index = length frs"
  by (induction frs) auto

lemma add_submit_tpdu:
  assumes "address_ok to" "list_all (\<lambda>f. frag_ref f \<noteq> ref) (rec_fragments rec)" "rec_last rec < 2 ^ 31 - 1"
  obtains frag where
    "sms_receiver_add_submit_pdu rec adr0 (submit_tpdu ref to n ud) =
       Inr (rec_last rec + 1, rec\<lparr>rec_last := rec_last rec + 1, rec_fragments := rec_fragments rec @ [frag]\<rparr>)"
    "frag_index frag = rec_last rec + 1" "frag_count frag = 1" "frag_max frag = 1" "frag_pdus frag = [Some (submit_tpdu ref to n ud)]"
proof -
  let ?pdu = "submit_tpdu ref to n ud"
  obtain a where "sms_get_address (address_bytes to @ [0, 0, of_nat n] @ ud) adr0 = Some (a, [0, 0, of_nat n] @ ud)"
    using get_address_bytes [OF assms(1)] by blast
  then have "smspdu_get_receiver_address ?pdu adr0 = Some a"
    by (simp add: smspdu_get_receiver_address_def submit_tpdu_data sms_get_byte_def)
  then show thesis
    using assms that
    by (simp add: sms_receiver_add_submit_pdu_def submit_tpdu_fields find_p_new receiver_fragment_def sms_fragment_alloc_def receiver_put_def
        fragment_store_def)
qed

lemma submit_unit_septets:
  assumes "list_all gsm7_basic us"
  defines "ud \<equiv> fst (utf8_to_gsm7 (utf8_text us) [0] 0)"
  shows "map (gsm_septet ud) [0..<length us] = map gsm7_code us" "7 * length us \<le> 8 * length ud"
proof -
  have codes: "list_all (\<lambda>n. n < 128) (map gsm7_code us)" using gsm7_basic_text [OF assms(1)] by simp
  obtain post where post: "byte_bits ud = replicate 0 False @ concat (map septet_bits (map gsm7_code us)) @ post"
    unfolding ud_def by (rule utf8_to_gsm7_bits [OF assms(1), of 0]) simp
  from gsm_septets_stored [OF post _ codes, of 0] show "map (gsm_septet ud) [0..<length us] = map gsm7_code us" by simp
  from arg_cong [OF post, of length] show "7 * length us \<le> 8 * length ud" by (simp add: length_concat comp_def sum_list_triv)
qed


theorem sms_receiver_complete_witness:
  "\<exists>rec'. sms_receiver_add_submit_pdu sms_receiver_create example_address (submit_unit 7 example_address [0x48, 0x69]) = Inr (1, rec') \<and>
    receiver_ok rec' \<and> holds_message rec' 1 (submit_unit 7 example_address [0x48, 0x69])"
proof -
  obtain frag where "sms_receiver_add_submit_pdu sms_receiver_create example_address (submit_unit 7 example_address [0x48, 0x69]) =
      Inr (1, sms_receiver_create\<lparr>rec_last := 1, rec_fragments := [frag]\<rparr>)"
    unfolding submit_unit_def
    by (rule add_submit_tpdu [OF example_address_ok, where rec = sms_receiver_create and ref = 7]) (simp_all add: sms_receiver_create_def)
  with sms_receiver_complete [OF created this] show ?thesis by auto
qed


end
