(* ===== verification/Spec2Isabelle.thy ===== *)
theory Spec2Isabelle
  imports Prelude Qemu_File Guest_Memory Guest_Store Irq Fifo Goldfish_Int Goldfish_Bus Goldfish_Timer
    Gem_Tracker Goldfish_Tty Goldfish_Battery Goldfish_Events Goldfish_Nand Nand_Config Goldfish_Mmc Audio_Voice Audio_Record
    Fb_Update
    Goldfish_Pipe Pipe_Wake Pipe_Services Pipe_Echo Pipe_Connect Pipe_Snapshot
    Multitouch CBuffer CharPipe
    Gsm_Hex Gsm_Text Gsm_Pack Gsm_Septets Gsm_Rope Sms_Address Sms_Text Sms_Pdu Sms_Deliver Sms_Receiver
begin

text \<open>
  Verification of the virtual hardware of the Android emulator (GemDroid QEMU, ARM configuration).

  \<^bold>\<open>The program.\<close> The emulator runs an Android guest on a virtual board, the goldfish board. The
  guest's kernel drives the board's devices through memory-mapped registers; a device signals the
  CPU through an input line of the interrupt controller, reads and writes guest memory at guest
  virtual addresses, and saves its state to a byte stream when the machine is snapshotted. On the
  host side devices talk to character drivers, to the touch screen and to the emulator console.
  The telephony code is the network's side of the emulated modem: it decodes the short messages
  the guest submits and encodes those it receives. GemDroid adds a tracker: it reads the guest's process listing on the serial console to find the
  threads of the benchmark, and asks on every traced instruction whether the running thread is one
  of them.

  \<^bold>\<open>The theories\<close> (source files are relative to the repository):

  \<^item> \<open>Prelude\<close>: machine types, outcomes (\<open>fault + 'a\<close>: a CPU abort, a process exit, undefined
    behaviour), driven lines, segments of buffers, ring buffers, words.
  \<^item> \<open>Qemu_File\<close>: the snapshot stream of savevm.c and the field tables; locales \<open>stream_codec\<close> and
    \<open>snapshot_device\<close>.
  \<^item> \<open>Guest_Memory\<close>, \<open>Guest_Store\<close>: \<open>cpu_memory_rw_debug\<close> (exec.c) and vmem.c, against a byte-by-byte
    reference, for reading and for writing.
  \<^item> \<open>Irq\<close>: hw/core/irq.c; locales \<open>level_irq_device\<close> for devices with a level-triggered line and
    \<open>pending_irq_device\<close> for devices that raise the line at least as long as something is pending.
  \<^item> \<open>Fifo\<close>: locale \<open>bounded_fifo\<close>, the contract of the byte queues of character pipes and guest pipes.
  \<^item> \<open>Goldfish_Int\<close>, \<open>Goldfish_Bus\<close>, \<open>Goldfish_Timer\<close>, \<open>Goldfish_Tty\<close>, \<open>Goldfish_Battery\<close>,
    \<open>Goldfish_Events\<close>: the devices of hw/android/goldfish/ with the same names (device.c is the
    bus, events_device.c the input device).
  \<^item> \<open>Goldfish_Nand\<close>, \<open>Nand_Config\<close>: the flash memory controller nand.c, and its argument string.
  \<^item> \<open>Goldfish_Mmc\<close>: the memory card mmc.c.
  \<^item> \<open>Goldfish_Audio\<close>: the sound device audio.c; \<open>Audio_Stream\<close>: playing; \<open>Audio_Voice\<close>: the output voice of
    audio/audio.c, and playing on it; \<open>Audio_Record\<close>: recording and snapshots.
  \<^item> \<open>Goldfish_Fb\<close>: the frame buffer fb.c, with duff.h and the dirty bits of ram_addr.h; \<open>Fb_Update\<close>: what it shows.
  \<^item> \<open>Goldfish_Pipe\<close>: guest pipes, pipe.c (services, connector, device, snapshots); \<open>Pipe_Wake\<close> has the
    lists and the interrupt line, \<open>Pipe_Services\<close> the services of pipe.c, \<open>Pipe_Echo\<close>, \<open>Pipe_Connect\<close> and
    \<open>Pipe_Snapshot\<close> what they do together.
  \<^item> \<open>Gem_Tracker\<close>: the thread tables of gemdroid-tracer.c and of the serial port.
  \<^item> \<open>Multitouch\<close>: android/multitouch-screen.c.
  \<^item> \<open>CBuffer\<close>, \<open>CharPipe\<close>: android/cbuffer.c and android/charpipe.c.
  \<^item> \<open>Gsm_Hex\<close>, \<open>Gsm_Text\<close>, \<open>Gsm_Pack\<close>, \<open>Gsm_Rope\<close>: telephony/gsm.c, that is hexadecimal strings,
    character sets, the packing of septets (with the bit streams the proofs use) and the growing
    buffers called ropes; \<open>Gsm_Septets\<close> has packed text as the standard defines it, as a reference.
  \<^item> \<open>Sms_Address\<close>, \<open>Sms_Text\<close>, \<open>Sms_Pdu\<close>, \<open>Sms_Deliver\<close>, \<open>Sms_Receiver\<close>: telephony/sms.c, that is
    addresses and time stamps, console strings, protocol data units, what the units created for a
    text contain, and the receiver that turns submitted messages into delivered ones.

  \<^bold>\<open>Correspondence.\<close> A C struct is a record, with the names of its members (prefixed where two
  structs share one); a register handler is a function from the state, the offset and the value to
  the new state and the list of levels given to the device's line, in order. A call of
  \<open>cpu_abort\<close> or \<open>exit\<close>, an access outside an array and an undefined shift are the left values of
  the outcome. Machine integers keep their width where they wrap. Loops are recursive functions
  with a termination proof; where a loop can spin in a state that is not well-formed, the value is
  \<open>None\<close>, and the lemmas show that a well-formed state gives a result. No fuel is used. Pages are 1 KB
  long, as the ARM system emulator has them.

  \<^bold>\<open>What is shown.\<close> Each device keeps its invariant; the interrupt controller refines a
  specification by sets of lines; the lines of the serial port, the battery and the input device
  follow their queues (the input device loses its queue when an event fills the ring); byte queues neither lose nor
  reorder bytes; the bus reports every device once
  and gives devices disjoint resources; alarms fire; snapshots restore what they saved (not into read-only flash devices); the touch
  screen's events give the guest the exact contacts; the flash memory gives back what was written,
  keeps read-only images and its capacity; so does the memory card, which tells its capacity; a flash device
  is the one its options ask for; the sound
  device plays whole frames and records bytes once and in order; a full refresh of the frame buffer shows what the
  guest has drawn; pipes find their service, echo what they are sent and lose no wake-up; short messages in the basic alphabet keep their text on the way
  from the unit submitted to the units delivered; the tracker knows exactly the threads it was
  told of and the needed process. Some theorems state where the code does less than it means to; the manifest lists
  these as findings.

  \<^bold>\<open>Parameters.\<close> The page table walk (\<open>vtop\<close>), the clock, the handlers registered with character
  drivers, the files of the host and \<open>strtoull\<close>, the block layer,
  the input voice of the host's sound system (\<open>AUD_read\<close>), and the bytes of freshly allocated memory.

  \<^bold>\<open>Not modelled.\<close> Instruction translation and execution (target-*, tcg), the block layer, the
  network stacks, the user interface, the host's audio drivers, rate conversion and mixing, generated QAPI code and bundled libraries:
  instruction semantics, host I/O, generated or third-party code. Of the emulator's own code, the qemud
  multiplexer with its services (hw-qemud.c, hw-sensors.c, hw-control.c, hw-fingerprint.c), the AT command
  interpreter and the SIM card (android_modem.c, sim_card.c), the trace and profile devices and the
  host utilities of android/utils are not modelled; the devices, pipes and messages they work on are.
\<close>

end
